(* ===== verification/Evo_Prelude.thy ===== *)
theory Evo_Prelude
  imports Main "HOL-Library.AList" "HOL-Library.Word" "HOL-Library.Char_ord"
    "HOL-Library.List_Lexorder"
begin

text \<open>
  Shared vocabulary of the development: the Rust standard-library containers and
  integers the steward uses (\<open>HashMap\<close>, \<open>HashSet\<close>, \<open>Vec\<close>, \<open>SystemTime\<close>, saturating
  counters), the result type of fallible operations, and two interfaces stated as
  locales: the law of a hash map (interpreted on association lists) and the reachability
  rules for transition systems (interpreted by every component).

  A \<open>HashMap\<close> is an association list with distinct keys. The iteration order of the Rust
  type is unspecified; the model iterates in representation order, and the theorems of
  the component theories speak of lookups, key sets and lengths, never of that order.
  A \<open>HashSet\<close> is likewise a list without duplicates.
\<close>

named_theorems evo_defs \<open>operations of the model, unfolded in component proofs\<close>

section \<open>Machine integers and time\<close>

type_synonym u32 = "32 word"
type_synonym u64 = "64 word"

text \<open>\<open>SystemTime\<close> in nanoseconds relative to the UNIX epoch (negative before it).\<close>

type_synonym systime = int

text \<open>\<open>duration_since(UNIX_EPOCH).as_millis() as u64\<close>, 0 for a clock set before the epoch;
  the cast to \<open>u64\<close> truncates.\<close>

definition system_time_to_ms :: "systime \<Rightarrow> u64" where
  "system_time_to_ms t = (if t < 0 then 0 else word_of_int (t div 1000000))"

definition ms_to_system_time :: "u64 \<Rightarrow> systime" where
  "ms_to_system_time ms = uint ms * 1000000"

text \<open>\<open>saturating_add(1)\<close> and \<open>saturating_sub(1)\<close> on \<open>u32\<close>.\<close>

definition sat_inc :: "u32 \<Rightarrow> u32" where
  "sat_inc x = (if x = - 1 then x else x + 1)"

definition sat_dec :: "u32 \<Rightarrow> u32" where
  "sat_dec x = (if x = 0 then 0 else x - 1)"

lemma ms_roundtrip [simp]: "system_time_to_ms (ms_to_system_time ms) = ms"
  by (simp add: system_time_to_ms_def ms_to_system_time_def)

lemma unat_max_u32: "unat (- 1 :: u32) = 2 ^ 32 - 1"
  by (simp add: unsigned_minus_1_eq_mask mask_eq_exp_minus_1)

lemma unat_sat_inc: "unat (sat_inc x) = min (unat x + 1) (2 ^ 32 - 1)"
proof (cases "x = - 1")
  case True
  then show ?thesis by (simp add: sat_inc_def unat_max_u32)
next
  case False
  then have "unat x \<noteq> unat (- 1 :: u32)" by (simp add: word_unat_eq_iff)
  moreover have "unat x < 2 ^ 32" using unsigned_less [of x] by simp
  ultimately have "unat x + 1 < 2 ^ 32" by (simp add: unat_max_u32)
  with False show ?thesis
    by (simp add: sat_inc_def unat_word_ariths)
qed

lemma unat_sat_dec: "unat (sat_dec x) = unat x - 1"
  by (cases "x = 0") (simp_all add: sat_dec_def unat_minus_one)

lemma sat_dec_inc: "x \<noteq> - 1 \<Longrightarrow> sat_dec (sat_inc x) = x"
  using max_word_wrap [of x] by (auto simp: sat_dec_def sat_inc_def)

section \<open>Fallible operations\<close>

text \<open>
  The variants of \<open>StewardError\<close> that the modelled code constructs, with the message
  text the code builds. \<open>Panic\<close> is the \<open>panic!\<close>/\<open>expect\<close> path of the source, kept apart
  from an error so that its absence is a theorem.
\<close>

datatype steward_error =
    Catalogue string | Dispatch string | Io string string | Toml string string

datatype 'a outcome = Ok 'a | Err steward_error | Panic string

fun is_ok :: "'a outcome \<Rightarrow> bool" where
  "is_ok (Ok _) = True"
| "is_ok _ = False"

text \<open>\<open>a?; b\<close>: the second check runs when the first passed. \<open>for_each\<close> is the loop that returns at
  the first error.\<close>

fun then_check :: "unit outcome \<Rightarrow> unit outcome \<Rightarrow> unit outcome" where
  "then_check (Ok _) b = b"
| "then_check e b = e"

fun for_each :: "('a \<Rightarrow> unit outcome) \<Rightarrow> 'a list \<Rightarrow> unit outcome" where
  "for_each f [] = Ok ()"
| "for_each f (x # xs) = then_check (f x) (for_each f xs)"

lemma then_check_Ok [simp]: "then_check a b = Ok () \<longleftrightarrow> a = Ok () \<and> b = Ok ()"
  by (cases a) auto

lemma for_each_Ok [simp]: "for_each f xs = Ok () \<longleftrightarrow> (\<forall>x \<in> set xs. f x = Ok ())"
  by (induction xs) auto

section \<open>Vectors\<close>

text \<open>\<open>Iterator::position\<close> and \<open>Vec::remove\<close>.\<close>

fun position :: "('a \<Rightarrow> bool) \<Rightarrow> 'a list \<Rightarrow> nat option" where
  "position P [] = None"
| "position P (x # xs) = (if P x then Some 0 else map_option Suc (position P xs))"

definition vec_remove :: "nat \<Rightarrow> 'a list \<Rightarrow> 'a list" where
  "vec_remove i xs = take i xs @ drop (Suc i) xs"

lemma position_None: "position P xs = None \<longleftrightarrow> (\<forall>x \<in> set xs. \<not> P x)"
  by (induction xs) auto

lemma position_SomeD: "position P xs = Some i \<Longrightarrow> i < length xs \<and> P (xs ! i)"
  by (induction xs arbitrary: i) (auto split: if_splits)

lemma vec_remove_split:
  assumes "i < length xs"
  obtains ys zs where "xs = ys @ xs ! i # zs" "vec_remove i xs = ys @ zs"
  using assms id_take_nth_drop [of i xs] unfolding vec_remove_def by blast

lemma position_split:
  assumes "position P xs = Some i"
  obtains ys x zs where "xs = ys @ x # zs" "vec_remove i xs = ys @ zs" "P x"
  using position_SomeD [OF assms] vec_remove_split by metis

lemma position_SomeI: "x \<in> set xs \<Longrightarrow> P x \<Longrightarrow> \<exists>i. position P xs = Some i"
  by (metis not_None_eq position_None)

section \<open>Decimal printing of counters\<close>

fun show_nat :: "nat \<Rightarrow> string" where
  "show_nat n = (if n < 10 then [char_of (48 + n)]
                 else show_nat (n div 10) @ [char_of (48 + n mod 10)])"

declare show_nat.simps [simp del]

section \<open>Hash sets\<close>

type_synonym 'a hset = "'a list"

definition hs_insert :: "'a \<Rightarrow> 'a hset \<Rightarrow> 'a hset" where
  "hs_insert x s = (if x \<in> set s then s else s @ [x])"

definition hs_remove :: "'a \<Rightarrow> 'a hset \<Rightarrow> 'a hset" where
  "hs_remove x s = removeAll x s"

lemma set_hs_insert [simp]: "set (hs_insert x s) = insert x (set s)"
  by (auto simp: hs_insert_def)

lemma distinct_hs_insert [simp]: "distinct s \<Longrightarrow> distinct (hs_insert x s)"
  by (simp add: hs_insert_def)

lemma set_hs_remove [simp]: "set (hs_remove x s) = set s - {x}"
  by (simp add: hs_remove_def)

lemma distinct_hs_remove [simp]: "distinct s \<Longrightarrow> distinct (hs_remove x s)"
  by (simp add: hs_remove_def distinct_removeAll)

lemma hs_insert_neq_Nil [simp]: "hs_insert x s \<noteq> []"
  by (simp add: hs_insert_def) (metis empty_iff empty_set)

section \<open>Hash maps\<close>

type_synonym ('k, 'v) hmap = "('k \<times> 'v) list"

definition hm_get :: "('k, 'v) hmap \<Rightarrow> 'k \<Rightarrow> 'v option" where
  "hm_get m = map_of m"

definition hm_insert :: "'k \<Rightarrow> 'v \<Rightarrow> ('k, 'v) hmap \<Rightarrow> ('k, 'v) hmap" where
  "hm_insert k v m = AList.update k v m"

definition hm_remove :: "'k \<Rightarrow> ('k, 'v) hmap \<Rightarrow> ('k, 'v) hmap" where
  "hm_remove k m = AList.delete k m"

definition hm_wf :: "('k, 'v) hmap \<Rightarrow> bool" where
  "hm_wf m \<longleftrightarrow> distinct (map fst m)"

text \<open>\<open>map.keys()\<close> in representation order.\<close>

definition hm_keys :: "('k, 'v) hmap \<Rightarrow> 'k list" where
  "hm_keys m = map fst m"

definition hm_contains :: "('k, 'v) hmap \<Rightarrow> 'k \<Rightarrow> bool" where
  "hm_contains m k = (hm_get m k \<noteq> None)"

lemma hm_contains_iff [simp]: "hm_contains m k \<longleftrightarrow> hm_get m k \<noteq> None"
  by (simp add: hm_contains_def)

lemma hm_get_empty [simp]: "hm_get [] = Map.empty"
  by (simp add: hm_get_def)

lemma hm_get_insert [simp]: "hm_get (hm_insert k v m) = (hm_get m)(k \<mapsto> v)"
  by (simp add: hm_get_def hm_insert_def update_conv')

lemma hm_get_remove [simp]: "hm_get (hm_remove k m) = (hm_get m)(k := None)"
  by (simp add: hm_get_def hm_remove_def delete_conv')

lemma hm_wf_empty [simp]: "hm_wf []"
  by (simp add: hm_wf_def)

lemma hm_wf_insert [simp]: "hm_wf m \<Longrightarrow> hm_wf (hm_insert k v m)"
  by (simp add: hm_wf_def hm_insert_def distinct_update)

lemma hm_wf_remove [simp]: "hm_wf m \<Longrightarrow> hm_wf (hm_remove k m)"
  by (simp add: hm_wf_def hm_remove_def distinct_delete)

lemma set_hm_keys [simp]: "set (hm_keys m) = dom (hm_get m)"
  by (simp add: hm_keys_def hm_get_def dom_map_of_conv_image_fst)

lemma distinct_hm_keys [simp]: "hm_wf m \<Longrightarrow> distinct (hm_keys m)"
  by (simp add: hm_wf_def hm_keys_def)

lemma hm_mem_iff: "hm_wf m \<Longrightarrow> (k, v) \<in> set m \<longleftrightarrow> hm_get m k = Some v"
  by (simp add: hm_wf_def hm_get_def)

lemma hm_len: "hm_wf m \<Longrightarrow> length m = card (dom (hm_get m))"
  by (metis distinct_card distinct_hm_keys hm_keys_def length_map set_hm_keys)

lemma finite_dom_hm_get [simp]: "finite (dom (hm_get m))"
  by (simp add: hm_get_def finite_dom_map_of)

lemma map_of_rev_distinct: "distinct (map fst xs) \<Longrightarrow> map_of (rev xs) = map_of xs"
  by (simp add: map_of_inject_set flip: rev_map)

text \<open>
  The interface the components rely on: a finite map whose lookup follows every insert
  and removal, whose length counts its keys. Interpreted on the association lists above.
\<close>

locale hash_map =
  fixes get :: "'m \<Rightarrow> 'k \<Rightarrow> 'v option"
    and ins :: "'k \<Rightarrow> 'v \<Rightarrow> 'm \<Rightarrow> 'm"
    and del :: "'k \<Rightarrow> 'm \<Rightarrow> 'm"
    and len :: "'m \<Rightarrow> nat"
    and wf :: "'m \<Rightarrow> bool"
  assumes get_ins: "get (ins k v m) = (get m)(k \<mapsto> v)"
    and get_del: "get (del k m) = (get m)(k := None)"
    and wf_ins: "wf m \<Longrightarrow> wf (ins k v m)"
    and wf_del: "wf m \<Longrightarrow> wf (del k m)"
    and len_card: "wf m \<Longrightarrow> len m = card (dom (get m))"
    and dom_finite: "finite (dom (get m))"
begin

lemma get_after_ins: "get (ins k v m) k' = (if k' = k then Some v else get m k')"
  by (simp add: get_ins)

lemma len_ins: "wf m \<Longrightarrow> len (ins k v m) = (if k \<in> dom (get m) then len m else Suc (len m))"
  by (simp add: len_card wf_ins get_ins card_insert_if dom_finite)

lemma len_del: "wf m \<Longrightarrow> len (del k m) = (if k \<in> dom (get m) then len m - 1 else len m)"
  by (simp add: len_card wf_del get_del card_Diff_singleton_if dom_finite)

lemma fold_ins_get:
  "get (fold (\<lambda>k. ins k v) ks m) = (\<lambda>k. if k \<in> set ks then Some v else get m k)"
  by (induction ks arbitrary: m) (auto simp: get_ins fun_eq_iff)

lemma fold_ins_wf: "wf m \<Longrightarrow> wf (fold (\<lambda>k. ins k v) ks m)"
  by (induction ks arbitrary: m) (auto simp: wf_ins)

end

interpretation hm: hash_map hm_get hm_insert hm_remove length hm_wf
  by unfold_locales (auto simp: hm_len)

section \<open>Transition systems\<close>

text \<open>
  Every stateful component gives a step relation; what its steps keep, its reachable
  states have.
\<close>

locale invariant_system =
  fixes init :: "'s \<Rightarrow> bool"
    and step :: "'s \<Rightarrow> 's \<Rightarrow> bool"
    and inv :: "'s \<Rightarrow> bool"
  assumes init_inv: "init s \<Longrightarrow> inv s"
    and step_inv: "step s t \<Longrightarrow> inv s \<Longrightarrow> inv t"
begin

lemma run_inv: "step\<^sup>*\<^sup>* s t \<Longrightarrow> inv s \<Longrightarrow> inv t"
  by (induction rule: rtranclp_induct) (auto intro: step_inv)

lemma reachable_inv: "init s \<Longrightarrow> step\<^sup>*\<^sup>* s t \<Longrightarrow> inv t"
  by (blast intro: run_inv init_inv)

end

locale monotone_system = invariant_system +
  fixes le :: "'s \<Rightarrow> 's \<Rightarrow> bool"
  assumes le_refl: "le s s"
    and le_trans: "le r s \<Longrightarrow> le s t \<Longrightarrow> le r t"
    and step_le: "step s t \<Longrightarrow> inv s \<Longrightarrow> le s t"
begin

lemma run_le: "step\<^sup>*\<^sup>* s t \<Longrightarrow> inv s \<Longrightarrow> le s t"
proof (induction rule: rtranclp_induct)
  case base
  show ?case by (rule le_refl)
next
  case (step t u)
  from step.hyps(1) step.prems have "inv t" by (rule run_inv)
  with step show ?case by (blast intro: le_trans step_le)
qed

end

end
