(* ===== verification/Subjects.thy ===== *)
theory Subjects
  imports Evo_Prelude
begin

text \<open>
  The subject registry (\<open>crates/evo/src/subjects.rs\<close>) with the SDK's identity types
  (\<open>crates/evo-plugin-sdk/src/contract/subjects.rs\<close>).

  State: \<open>registry_inner\<close> is the record under the registry's mutex; \<open>subject_registry\<close>
  adds the per-type interest counters. Each method is one definition on that record. What
  a method reads from outside is an argument: the clock (\<open>clk i\<close> is the \<open>i\<close>-th
  \<open>SystemTime::now()\<close> of the call), the UUID generator (\<open>uid i\<close> is the \<open>i\<close>-th
  \<open>Uuid::new_v4()\<close>), the rows of the durable store. A \<open>serde_json::Value\<close> is \<open>None\<close> for
  \<open>Value::Null\<close> and \<open>Some v\<close> otherwise; the registry never looks inside it. Broadcast
  updates are returned beside the new state; the \<open>tracing\<close> records are not modelled.
\<close>

section \<open>Identity types\<close>

record external_addressing =
  ea_scheme :: string
  ea_value :: string

definition addressing_display :: "external_addressing \<Rightarrow> string" where
  "addressing_display a = ea_scheme a @ '':'' @ ea_value a"

datatype claim_confidence = Asserted | Inferred | Tentative

datatype subject_claim =
    SC_Equivalent external_addressing external_addressing claim_confidence "string option"
  | SC_Distinct external_addressing external_addressing "string option"

record 'v subject_announcement =
  an_subject_type :: string
  an_addressings :: "external_addressing list"
  an_claims :: "subject_claim list"
  an_state :: "'v option"
  an_announced_at :: systime

datatype alias_kind = AliasMerged | AliasSplit | AliasTombstone | AliasTypeMigrated

record alias_record =
  al_old_id :: string
  al_new_ids :: "string list"
  al_kind :: alias_kind
  al_recorded_at_ms :: u64
  al_admin_plugin :: string
  al_reason :: "string option"

section \<open>Registry state\<close>

record addressing_record =
  ar_addressing :: external_addressing
  ar_claimant :: string
  ar_added_at :: systime

record subject_record =
  sr_id :: string
  sr_subject_type :: string
  sr_addressings :: "addressing_record list"
  sr_created_at :: systime
  sr_modified_at :: systime

datatype claim_kind =
    CK_Equivalent external_addressing external_addressing claim_confidence
  | CK_Distinct external_addressing external_addressing
  | CK_MultiSubjectConflict "external_addressing list" "string list"
  | CK_Merged "string list" string
  | CK_Split string "string list"

record claim_record =
  cr_kind :: claim_kind
  cr_claimant :: string
  cr_asserted_at :: systime
  cr_reason :: "string option"

record 'v registry_inner =
  ri_subjects :: "(string, subject_record) hmap"
  ri_addressings :: "(external_addressing, string) hmap"
  ri_claims :: "claim_record list"
  ri_aliases :: "(string, alias_record) hmap"
  ri_states :: "(string, 'v option) hmap"

record 'v subject_registry =
  sg_inner :: "'v registry_inner"
  sg_interest_slots :: "(string, u32) hmap"

record 'v subject_state_update =
  su_canonical_id :: string
  su_subject_type :: string
  su_state :: "'v option"
  su_modified_at_ms :: u64

datatype announce_outcome =
    Created string | Updated string | NoChange string | Conflict "string list"

datatype subject_retract_outcome = AddressingRemoved | SubjectForgotten string string

datatype forced_retract_addressing_outcome =
    ForcedAddressingRemoved string | ForcedSubjectForgotten string string | ForcedNotFound

record addressing_transfer =
  at_claimant :: string
  at_addressing :: external_addressing
  at_old_subject_id :: string
  at_new_subject_id :: string

record merge_aliases_outcome =
  mo_new_id :: string
  mo_addressing_transfers :: "addressing_transfer list"

record split_subject_outcome =
  so_new_ids :: "string list"
  so_addressing_transfers :: "addressing_transfer list"

type_synonym clock = "nat \<Rightarrow> systime"
type_synonym uuids = "nat \<Rightarrow> string"

definition empty_registry_inner :: "'v registry_inner" where
  "empty_registry_inner = \<lparr>ri_subjects = [], ri_addressings = [], ri_claims = [],
     ri_aliases = [], ri_states = []\<rparr>"

definition new_subject_registry :: "'v subject_registry" where
  "new_subject_registry = \<lparr>sg_inner = empty_registry_inner, sg_interest_slots = []\<rparr>"

section \<open>Reads\<close>

definition subject_count :: "'v registry_inner \<Rightarrow> nat" where
  "subject_count r = length (ri_subjects r)"

definition addressing_count :: "'v registry_inner \<Rightarrow> nat" where
  "addressing_count r = length (ri_addressings r)"

definition claim_count :: "'v registry_inner \<Rightarrow> nat" where
  "claim_count r = length (ri_claims r)"

definition claims_snapshot :: "'v registry_inner \<Rightarrow> claim_record list" where
  "claims_snapshot r = ri_claims r"

definition snapshot_subjects :: "'v registry_inner \<Rightarrow> subject_record list" where
  "snapshot_subjects r = map snd (ri_subjects r)"

definition snapshot_addressings :: "'v registry_inner \<Rightarrow> (external_addressing \<times> string) list" where
  "snapshot_addressings r = ri_addressings r"

definition addressings_claimed_by ::
    "'v registry_inner \<Rightarrow> string \<Rightarrow> (external_addressing \<times> string) list" where
  "addressings_claimed_by r plugin =
     concat (map (\<lambda>(canonical_id, record).
       map (\<lambda>addr. (ar_addressing addr, canonical_id))
         (filter (\<lambda>addr. ar_claimant addr = plugin) (sr_addressings record))) (ri_subjects r))"

definition resolve :: "'v registry_inner \<Rightarrow> external_addressing \<Rightarrow> string option" where
  "resolve r a = hm_get (ri_addressings r) a"

definition describe :: "'v registry_inner \<Rightarrow> string \<Rightarrow> subject_record option" where
  "describe r canonical_id = hm_get (ri_subjects r) canonical_id"

definition describe_alias :: "'v registry_inner \<Rightarrow> string \<Rightarrow> alias_record option" where
  "describe_alias r old_id = hm_get (ri_aliases r) old_id"

definition state_of :: "'v registry_inner \<Rightarrow> string \<Rightarrow> 'v option option" where
  "state_of r canonical_id = hm_get (ri_states r) canonical_id"

section \<open>Announce\<close>

fun claim_to_kind_and_reason :: "subject_claim \<Rightarrow> claim_kind \<times> string option" where
  "claim_to_kind_and_reason (SC_Equivalent a b confidence reason) =
     (CK_Equivalent a b confidence, reason)"
| "claim_to_kind_and_reason (SC_Distinct a b reason) = (CK_Distinct a b, reason)"

definition announce_resolved ::
    "'v registry_inner \<Rightarrow> external_addressing list \<Rightarrow> (external_addressing \<times> string) list" where
  "announce_resolved r as =
     List.map_filter (\<lambda>a. map_option (Pair a) (hm_get (ri_addressings r) a)) as"

definition announce_unresolved ::
    "'v registry_inner \<Rightarrow> external_addressing list \<Rightarrow> external_addressing list" where
  "announce_unresolved r as = filter (\<lambda>a. hm_get (ri_addressings r) a = None) as"

definition record_announced_claims ::
    "'v registry_inner \<Rightarrow> subject_claim list \<Rightarrow> string \<Rightarrow> systime \<Rightarrow> 'v registry_inner" where
  "record_announced_claims r claims claimant now =
     r\<lparr>ri_claims := ri_claims r @ map (\<lambda>claim.
         let (kind, reason) = claim_to_kind_and_reason claim
         in \<lparr>cr_kind = kind, cr_claimant = claimant, cr_asserted_at = now, cr_reason = reason\<rparr>)
       claims\<rparr>"

definition new_addressing_record ::
    "string \<Rightarrow> systime \<Rightarrow> external_addressing \<Rightarrow> addressing_record" where
  "new_addressing_record claimant now a =
     \<lparr>ar_addressing = a, ar_claimant = claimant, ar_added_at = now\<rparr>"

definition announce_create ::
    "'v registry_inner \<Rightarrow> 'v subject_announcement \<Rightarrow> string \<Rightarrow> string \<Rightarrow> systime
       \<Rightarrow> 'v registry_inner" where
  "announce_create r ann claimant cid now =
     (let record = \<lparr>sr_id = cid, sr_subject_type = an_subject_type ann,
                    sr_addressings = map (new_addressing_record claimant now) (an_addressings ann),
                    sr_created_at = now, sr_modified_at = now\<rparr>
      in r\<lparr>ri_addressings := fold (\<lambda>a. hm_insert a cid) (an_addressings ann) (ri_addressings r),
           ri_subjects := hm_insert cid record (ri_subjects r)\<rparr>)"

definition announce_join ::
    "'v registry_inner \<Rightarrow> string \<Rightarrow> external_addressing list \<Rightarrow> string \<Rightarrow> systime
       \<Rightarrow> 'v registry_inner" where
  "announce_join r target_id unresolved claimant now =
     (let records = map (new_addressing_record claimant now) unresolved
      in r\<lparr>ri_addressings := fold (\<lambda>a. hm_insert a target_id) unresolved (ri_addressings r),
           ri_subjects := (case hm_get (ri_subjects r) target_id of
               None \<Rightarrow> ri_subjects r
             | Some record \<Rightarrow> hm_insert target_id
                 (record\<lparr>sr_addressings := sr_addressings record @ records,
                         sr_modified_at := now\<rparr>) (ri_subjects r))\<rparr>)"

definition announce_conflict ::
    "'v registry_inner \<Rightarrow> external_addressing list \<Rightarrow> string list \<Rightarrow> string \<Rightarrow> systime
       \<Rightarrow> 'v registry_inner" where
  "announce_conflict r addressings ids claimant now =
     r\<lparr>ri_claims := ri_claims r @
        [\<lparr>cr_kind = CK_MultiSubjectConflict addressings ids, cr_claimant = claimant,
          cr_asserted_at = now,
          cr_reason = Some ''announcement spanned multiple existing subjects''\<rparr>]\<rparr>"

fun state_target :: "announce_outcome \<Rightarrow> string option" where
  "state_target (Created cid) = Some cid"
| "state_target (Updated cid) = Some cid"
| "state_target (NoChange cid) = None"
| "state_target (Conflict ids) = None"

definition announce_state ::
    "'v registry_inner \<Rightarrow> 'v option \<Rightarrow> announce_outcome \<Rightarrow> systime
       \<Rightarrow> 'v registry_inner \<times> 'v subject_state_update option" where
  "announce_state r state outc now =
     (if state = None then (r, None)
      else case state_target outc of
        None \<Rightarrow> (r, None)
      | Some cid \<Rightarrow>
          (r\<lparr>ri_states := hm_insert cid state (ri_states r)\<rparr>,
           map_option (\<lambda>rec. \<lparr>su_canonical_id = cid, su_subject_type = sr_subject_type rec,
               su_state = state, su_modified_at_ms = system_time_to_ms now\<rparr>)
             (hm_get (ri_subjects r) cid)))"

definition announce_classify ::
    "'v registry_inner \<Rightarrow> 'v registry_inner \<Rightarrow> 'v subject_announcement \<Rightarrow> string \<Rightarrow> string
       \<Rightarrow> systime \<Rightarrow> 'v registry_inner \<times> announce_outcome" where
  "announce_classify r0 r ann claimant cid now =
     (let distinct_ids = remdups (map snd (announce_resolved r0 (an_addressings ann)));
          unresolved = announce_unresolved r0 (an_addressings ann)
      in case distinct_ids of
           [] \<Rightarrow> (announce_create r ann claimant cid now, Created cid)
         | [target_id] \<Rightarrow>
             if unresolved \<noteq> [] then
               (announce_join r target_id unresolved claimant now, Updated target_id)
             else (r, NoChange target_id)
         | ids \<Rightarrow> (announce_conflict r (an_addressings ann) ids claimant now, Conflict ids))"

definition announce ::
    "'v registry_inner \<Rightarrow> 'v subject_announcement \<Rightarrow> string \<Rightarrow> uuids \<Rightarrow> clock
       \<Rightarrow> ('v registry_inner \<times> 'v subject_state_update option \<times> announce_outcome) outcome" where
  "announce r ann claimant uid clk =
     (if an_subject_type ann = [] then
        Err (Catalogue ''subject announcement has empty subject_type'')
      else if an_addressings ann = [] then
        Err (Catalogue ''subject announcement has no addressings'')
      else
        let r1 = record_announced_claims r (an_claims ann) claimant (clk 0);
            (r2, outc) = announce_classify r r1 ann claimant (uid 0) (clk 0);
            (r3, upd) = announce_state r2 (an_state ann) outc (clk 1)
        in Ok (r3, upd, outc))"

section \<open>Runtime state\<close>

definition update_state ::
    "'v registry_inner \<Rightarrow> string \<Rightarrow> 'v option \<Rightarrow> clock
       \<Rightarrow> ('v registry_inner \<times> 'v subject_state_update) outcome" where
  "update_state r canonical_id state clk =
     (case hm_get (ri_subjects r) canonical_id of
        None \<Rightarrow> Err (Dispatch (''update_state: unknown canonical id '' @ canonical_id))
      | Some record \<Rightarrow>
          Ok (r\<lparr>ri_states := (if state = None then hm_remove canonical_id (ri_states r)
                             else hm_insert canonical_id state (ri_states r))\<rparr>,
              \<lparr>su_canonical_id = canonical_id, su_subject_type = sr_subject_type record,
               su_state = state, su_modified_at_ms = system_time_to_ms (clk 0)\<rparr>))"

section \<open>Aliases\<close>

definition aliases_try_insert ::
    "'v registry_inner \<Rightarrow> string \<Rightarrow> alias_record \<Rightarrow> string + 'v registry_inner" where
  "aliases_try_insert r key record =
     (if hm_contains (ri_aliases r) key then Inl key
      else Inr (r\<lparr>ri_aliases := hm_insert key record (ri_aliases r)\<rparr>))"

section \<open>Retract\<close>

text \<open>The claim at \<open>idx\<close> leaves the record and the addressing leaves the index.\<close>

definition drop_claim ::
    "'v registry_inner \<Rightarrow> string \<Rightarrow> subject_record \<Rightarrow> nat \<Rightarrow> external_addressing \<Rightarrow> systime
       \<Rightarrow> 'v registry_inner" where
  "drop_claim r cid record idx a now =
     r\<lparr>ri_subjects := hm_insert cid
          (record\<lparr>sr_addressings := vec_remove idx (sr_addressings record), sr_modified_at := now\<rparr>)
          (ri_subjects r),
       ri_addressings := hm_remove a (ri_addressings r)\<rparr>"

definition should_forget :: "'v registry_inner \<Rightarrow> string \<Rightarrow> bool" where
  "should_forget r cid = (case hm_get (ri_subjects r) cid of
      None \<Rightarrow> False | Some record \<Rightarrow> sr_addressings record = [])"

text \<open>The garbage collection of an addressing-less subject: record and state go, a
  tombstone stays (a failed tombstone insert is ignored, \<open>let _ = \<dots>\<close>).\<close>

definition forget_subject ::
    "'v registry_inner \<Rightarrow> string \<Rightarrow> string \<Rightarrow> string option \<Rightarrow> systime \<Rightarrow> 'v registry_inner" where
  "forget_subject r cid plugin reason now =
     (let r1 = r\<lparr>ri_subjects := hm_remove cid (ri_subjects r),
                 ri_states := hm_remove cid (ri_states r)\<rparr>;
          tomb = \<lparr>al_old_id = cid, al_new_ids = [], al_kind = AliasTombstone,
                  al_recorded_at_ms = system_time_to_ms now, al_admin_plugin = plugin,
                  al_reason = reason\<rparr>
      in case aliases_try_insert r1 cid tomb of Inl _ \<Rightarrow> r1 | Inr r2 \<Rightarrow> r2)"

definition retract ::
    "'v registry_inner \<Rightarrow> external_addressing \<Rightarrow> string \<Rightarrow> string option \<Rightarrow> clock
       \<Rightarrow> ('v registry_inner \<times> subject_retract_outcome) outcome" where
  "retract r a claimant reason clk =
     (case hm_get (ri_addressings r) a of
        None \<Rightarrow> Err (Dispatch (''retract: addressing '' @ addressing_display a @
                              '' is not registered''))
      | Some cid \<Rightarrow>
     (case hm_get (ri_subjects r) cid of
        None \<Rightarrow> Err (Dispatch (''retract: addressing '' @ addressing_display a @
                              '' maps to missing subject '' @ cid))
      | Some record \<Rightarrow>
     (case position (\<lambda>x. ar_addressing x = a \<and> ar_claimant x = claimant)
             (sr_addressings record) of
        None \<Rightarrow> Err (Dispatch (''retract: plugin '' @ claimant @
                              '' did not claim addressing '' @ addressing_display a))
      | Some idx \<Rightarrow>
          let r1 = drop_claim r cid record idx a (clk 0)
          in if should_forget r1 cid then
               Ok (forget_subject r1 cid claimant reason (clk 1),
                   SubjectForgotten cid (sr_subject_type record))
             else Ok (r1, AddressingRemoved))))"

definition forced_retract_addressing ::
    "'v registry_inner \<Rightarrow> external_addressing \<Rightarrow> string \<Rightarrow> string \<Rightarrow> string option \<Rightarrow> clock
       \<Rightarrow> ('v registry_inner \<times> forced_retract_addressing_outcome) outcome" where
  "forced_retract_addressing r a target_plugin admin_plugin reason clk =
     (case hm_get (ri_addressings r) a of
        None \<Rightarrow> Ok (r, ForcedNotFound)
      | Some cid \<Rightarrow>
     (case hm_get (ri_subjects r) cid of
        None \<Rightarrow> Ok (r, ForcedNotFound)
      | Some record \<Rightarrow>
     (case position (\<lambda>x. ar_addressing x = a \<and> ar_claimant x = target_plugin)
             (sr_addressings record) of
        None \<Rightarrow> Ok (r, ForcedNotFound)
      | Some idx \<Rightarrow>
          let r1 = drop_claim r cid record idx a (clk 0)
          in if should_forget r1 cid then
               Ok (forget_subject r1 cid admin_plugin reason (clk 1),
                   ForcedSubjectForgotten cid (sr_subject_type record))
             else Ok (r1, ForcedAddressingRemoved cid))))"

section \<open>Merge\<close>

text \<open>Moving a list of addressing records under another canonical id.\<close>

definition transfers_of ::
    "string \<Rightarrow> string \<Rightarrow> addressing_record list \<Rightarrow> addressing_transfer list" where
  "transfers_of old_id new_id ars =
     map (\<lambda>x. \<lparr>at_claimant = ar_claimant x, at_addressing = ar_addressing x,
                at_old_subject_id = old_id, at_new_subject_id = new_id\<rparr>) ars"

definition reindex ::
    "addressing_record list \<Rightarrow> string \<Rightarrow> (external_addressing, string) hmap
       \<Rightarrow> (external_addressing, string) hmap" where
  "reindex ars new_id m = fold (\<lambda>x. hm_insert (ar_addressing x) new_id) ars m"

definition merge_rewire ::
    "'v registry_inner \<Rightarrow> string \<Rightarrow> string \<Rightarrow> subject_record \<Rightarrow> subject_record \<Rightarrow> string
       \<Rightarrow> systime \<Rightarrow> 'v registry_inner" where
  "merge_rewire r a_id b_id record_a record_b new_id now =
     (let merged = sr_addressings record_a @ sr_addressings record_b;
          new_record = \<lparr>sr_id = new_id, sr_subject_type = sr_subject_type record_a,
                        sr_addressings = merged, sr_created_at = now, sr_modified_at = now\<rparr>
      in r\<lparr>ri_subjects := hm_insert new_id new_record
                            (hm_remove b_id (hm_remove a_id (ri_subjects r))),
           ri_states := hm_remove b_id (hm_remove a_id (ri_states r)),
           ri_addressings := reindex merged new_id (ri_addressings r)\<rparr>)"

definition retired_alias ::
    "string \<Rightarrow> string list \<Rightarrow> alias_kind \<Rightarrow> systime \<Rightarrow> string \<Rightarrow> string option
       \<Rightarrow> alias_record" where
  "retired_alias old_id new_ids kind now admin reason =
     \<lparr>al_old_id = old_id, al_new_ids = new_ids, al_kind = kind,
      al_recorded_at_ms = system_time_to_ms now, al_admin_plugin = admin, al_reason = reason\<rparr>"

definition alias_panic :: "string \<Rightarrow> string \<Rightarrow> string" where
  "alias_panic key what = ''alias index append-only invariant violated: key '' @ key @
     '' already had an AliasRecord ('' @ what @ '')''"

definition push_claim ::
    "'v registry_inner \<Rightarrow> claim_kind \<Rightarrow> string \<Rightarrow> systime \<Rightarrow> string option
       \<Rightarrow> 'v registry_inner" where
  "push_claim r kind claimant now reason =
     r\<lparr>ri_claims := ri_claims r @
        [\<lparr>cr_kind = kind, cr_claimant = claimant, cr_asserted_at = now, cr_reason = reason\<rparr>]\<rparr>"

definition merge_aliases ::
    "'v registry_inner \<Rightarrow> string \<Rightarrow> string \<Rightarrow> string \<Rightarrow> string option \<Rightarrow> uuids \<Rightarrow> clock
       \<Rightarrow> ('v registry_inner \<times> merge_aliases_outcome) outcome" where
  "merge_aliases r source_a_id source_b_id admin_plugin reason uid clk =
     (if source_a_id = source_b_id then
        Err (Dispatch (''merge_aliases: cannot merge subject '' @ source_a_id @ '' with itself''))
      else case hm_get (ri_subjects r) source_a_id of
        None \<Rightarrow> Err (Dispatch (''merge_aliases: source subject '' @ source_a_id @
                              '' does not exist''))
      | Some record_a \<Rightarrow>
     (case hm_get (ri_subjects r) source_b_id of
        None \<Rightarrow> Err (Dispatch (''merge_aliases: source subject '' @ source_b_id @
                              '' does not exist''))
      | Some record_b \<Rightarrow>
          if sr_subject_type record_a \<noteq> sr_subject_type record_b then
            Err (Dispatch (''merge_aliases: cannot merge across subject types ('' @
                   sr_subject_type record_a @ '' != '' @ sr_subject_type record_b @ '')''))
          else
            let new_id = uid 0; now = clk 0;
                transfers = transfers_of source_a_id new_id (sr_addressings record_a) @
                            transfers_of source_b_id new_id (sr_addressings record_b);
                r1 = merge_rewire r source_a_id source_b_id record_a record_b new_id now
            in case aliases_try_insert r1 source_a_id
                      (retired_alias source_a_id [new_id] AliasMerged now admin_plugin reason) of
                 Inl key \<Rightarrow> Panic (alias_panic key ''merge source_a'')
               | Inr r2 \<Rightarrow>
              (case aliases_try_insert r2 source_b_id
                      (retired_alias source_b_id [new_id] AliasMerged now admin_plugin reason) of
                 Inl key \<Rightarrow> Panic (alias_panic key ''merge source_b'')
               | Inr r3 \<Rightarrow>
                   Ok (push_claim r3 (CK_Merged [source_a_id, source_b_id] new_id)
                         admin_plugin now reason,
                       \<lparr>mo_new_id = new_id, mo_addressing_transfers = transfers\<rparr>))))"

section \<open>Split\<close>

text \<open>The partition check: at least two groups, none empty, no addressing twice, and
  together exactly the source's addressings.\<close>

definition split_check ::
    "subject_record \<Rightarrow> external_addressing list list \<Rightarrow> steward_error option" where
  "split_check source_record groups =
     (if length groups < 2 then
        Some (Dispatch (''split_subject: partition must have at least 2 groups, got '' @
                        show_nat (length groups)))
      else case position (\<lambda>g. g = []) groups of
        Some i \<Rightarrow> Some (Dispatch (''split_subject: partition group '' @ show_nat i @ '' is empty''))
      | None \<Rightarrow>
          if length (concat groups) \<noteq> length (remdups (concat groups)) then
            Some (Dispatch (''split_subject: an addressing appears in more than '' @
                            ''one partition group''))
          else if set (concat groups) \<noteq> ar_addressing ` set (sr_addressings source_record) then
            Some (Dispatch (''split_subject: partition does not exactly cover '' @
                            ''the source's addressings (missing or extra)''))
          else None)"

definition original_records ::
    "subject_record \<Rightarrow> (external_addressing, addressing_record) hmap" where
  "original_records source_record =
     fold (\<lambda>x. hm_insert (ar_addressing x) x) (sr_addressings source_record) []"

text \<open>The loop over the partition groups, each with its new id; a group addressing that is
  not on the source is the \<open>expect\<close> of the source.\<close>

fun split_groups ::
    "string \<Rightarrow> string \<Rightarrow> (external_addressing, addressing_record) hmap \<Rightarrow> systime
       \<Rightarrow> (string \<times> external_addressing list) list \<Rightarrow> 'v registry_inner
       \<Rightarrow> addressing_transfer list \<Rightarrow> ('v registry_inner \<times> addressing_transfer list) outcome" where
  "split_groups source_id ty orig now [] r ts = Ok (r, ts)"
| "split_groups source_id ty orig now ((new_id, grp) # rest) r ts =
     (case those (map (hm_get orig) grp) of
        None \<Rightarrow> Panic ''validated above: every group addressing is on source''
      | Some group_records \<Rightarrow>
          split_groups source_id ty orig now rest
            (r\<lparr>ri_subjects := hm_insert new_id
                 \<lparr>sr_id = new_id, sr_subject_type = ty, sr_addressings = group_records,
                  sr_created_at = now, sr_modified_at = now\<rparr> (ri_subjects r),
               ri_addressings := reindex group_records new_id (ri_addressings r)\<rparr>)
            (ts @ transfers_of source_id new_id group_records))"

definition split_subject ::
    "'v registry_inner \<Rightarrow> string \<Rightarrow> external_addressing list list \<Rightarrow> string \<Rightarrow> string option
       \<Rightarrow> uuids \<Rightarrow> clock \<Rightarrow> ('v registry_inner \<times> split_subject_outcome) outcome" where
  "split_subject r source_id groups admin_plugin reason uid clk =
     (case hm_get (ri_subjects r) source_id of
        None \<Rightarrow> Err (Dispatch (''split_subject: source subject '' @ source_id @
                              '' does not exist''))
      | Some source_record \<Rightarrow>
     (case split_check source_record groups of
        Some e \<Rightarrow> Err e
      | None \<Rightarrow>
          let new_ids = map uid [0..<length groups]; now = clk 0
          in case split_groups source_id (sr_subject_type source_record)
                    (original_records source_record) now (zip new_ids groups) r [] of
               Err e \<Rightarrow> Err e
             | Panic m \<Rightarrow> Panic m
             | Ok (r1, transfers) \<Rightarrow>
                 let r2 = r1\<lparr>ri_subjects := hm_remove source_id (ri_subjects r1),
                             ri_states := hm_remove source_id (ri_states r1)\<rparr>
                 in case aliases_try_insert r2 source_id
                           (retired_alias source_id new_ids AliasSplit now admin_plugin reason) of
                      Inl key \<Rightarrow> Panic (alias_panic key ''split source'')
                    | Inr r3 \<Rightarrow>
                        Ok (push_claim r3 (CK_Split source_id new_ids) admin_plugin now reason,
                            \<lparr>so_new_ids = new_ids, so_addressing_transfers = transfers\<rparr>)))"

section \<open>Subscription interest\<close>

definition interest_count :: "'v subject_registry \<Rightarrow> string \<Rightarrow> u32" where
  "interest_count g ty = (case hm_get (sg_interest_slots g) ty of None \<Rightarrow> 0 | Some n \<Rightarrow> n)"

definition interest_addressing :: "string \<Rightarrow> external_addressing" where
  "interest_addressing ty =
     \<lparr>ea_scheme = ''evo.system'', ea_value = ''subscription_interest.'' @ ty\<rparr>"

text \<open>The lazily announced per-type interest subject. \<open>mk\<close> builds the JSON object; the clock
  is read twice by the announce, once for \<open>at_ms\<close>, once by the state update.\<close>

definition publish_interest_state ::
    "(string \<Rightarrow> u32 \<Rightarrow> u64 \<Rightarrow> 'v) \<Rightarrow> 'v registry_inner \<Rightarrow> string \<Rightarrow> u32 \<Rightarrow> uuids \<Rightarrow> clock
       \<Rightarrow> 'v registry_inner \<times> 'v subject_state_update option" where
  "publish_interest_state mk r ty count uid clk =
     (let a = interest_addressing ty;
          announced =
            (if resolve r a = None then
               (case announce r \<lparr>an_subject_type = ''system_subscription_interest'',
                   an_addressings = [a], an_claims = [], an_state = None,
                   an_announced_at = clk 0\<rparr> ''framework.system'' uid (\<lambda>i. clk (Suc i)) of
                  Ok (r1, _, _) \<Rightarrow> Some r1
                | _ \<Rightarrow> None)
             else Some r)
      in case announced of
           None \<Rightarrow> (r, None)
         | Some r1 \<Rightarrow>
        (case resolve r1 a of
           None \<Rightarrow> (r1, None)
         | Some canonical_id \<Rightarrow>
             (case update_state r1 canonical_id
                     (Some (mk ty count (system_time_to_ms (clk 3)))) (\<lambda>i. clk (4 + i)) of
                Ok (r2, upd) \<Rightarrow> (r2, Some upd)
              | _ \<Rightarrow> (r1, None))))"

definition increment_interest ::
    "(string \<Rightarrow> u32 \<Rightarrow> u64 \<Rightarrow> 'v) \<Rightarrow> 'v subject_registry \<Rightarrow> string \<Rightarrow> uuids \<Rightarrow> clock
       \<Rightarrow> 'v subject_registry \<times> 'v subject_state_update option \<times> u32" where
  "increment_interest mk g ty uid clk =
     (let new_count = sat_inc (interest_count g ty);
          (r, upd) = publish_interest_state mk (sg_inner g) ty new_count uid clk
      in (g\<lparr>sg_interest_slots := hm_insert ty new_count (sg_interest_slots g), sg_inner := r\<rparr>,
          upd, new_count))"

definition decrement_interest ::
    "(string \<Rightarrow> u32 \<Rightarrow> u64 \<Rightarrow> 'v) \<Rightarrow> 'v subject_registry \<Rightarrow> string \<Rightarrow> uuids \<Rightarrow> clock
       \<Rightarrow> 'v subject_registry \<times> 'v subject_state_update option \<times> u32" where
  "decrement_interest mk g ty uid clk =
     (case hm_get (sg_interest_slots g) ty of
        None \<Rightarrow> (g, None, 0)
      | Some prev \<Rightarrow>
          let new_count = sat_dec prev;
              (r, upd) = publish_interest_state mk (sg_inner g) ty new_count uid clk
          in (g\<lparr>sg_interest_slots := hm_insert ty new_count (sg_interest_slots g), sg_inner := r\<rparr>,
              upd, new_count))"

definition seed_interest_zero ::
    "(string \<Rightarrow> u32 \<Rightarrow> u64 \<Rightarrow> 'v) \<Rightarrow> 'v subject_registry \<Rightarrow> string \<Rightarrow> uuids \<Rightarrow> clock
       \<Rightarrow> 'v subject_registry \<times> 'v subject_state_update option" where
  "seed_interest_zero mk g ty uid clk =
     (let slots = (if hm_contains (sg_interest_slots g) ty then sg_interest_slots g
                   else hm_insert ty 0 (sg_interest_slots g))
      in if resolve (sg_inner g) (interest_addressing ty) = None then
           let (r, upd) = publish_interest_state mk (sg_inner g) ty 0 uid clk
           in (g\<lparr>sg_interest_slots := slots, sg_inner := r\<rparr>, upd)
         else (g\<lparr>sg_interest_slots := slots\<rparr>, None))"

end
