(* ===== verification/Subject_Laws.thy ===== *)
theory Subject_Laws
  imports Subjects
begin

text \<open>
  What the subject registry guarantees: the invariant tying the subject table, the
  addressing index, the alias index and the state table together; that every operation
  keeps it; the behaviour of each operation on each branch; and that the alias index only
  grows, over any history of operations.
\<close>

section \<open>The invariant\<close>

abbreviation addrs_of :: "subject_record \<Rightarrow> external_addressing set" where
  "addrs_of rec \<equiv> ar_addressing ` set (sr_addressings rec)"

text \<open>Every subject knows its id, has at least one addressing and none twice.\<close>

definition wf_record :: "string \<Rightarrow> subject_record \<Rightarrow> bool" where
  "wf_record i rec \<longleftrightarrow> sr_id rec = i \<and> sr_addressings rec \<noteq> [] \<and>
     distinct (map ar_addressing (sr_addressings rec))"

text \<open>The addressing index is exactly the ownership relation of the subject table.\<close>

definition coherent ::
    "(string \<rightharpoonup> subject_record) \<Rightarrow> (external_addressing \<rightharpoonup> string) \<Rightarrow> bool" where
  "coherent S A \<longleftrightarrow> (\<forall>i rec. S i = Some rec \<longrightarrow> wf_record i rec) \<and>
     (\<forall>a i. A a = Some i \<longleftrightarrow> (\<exists>rec. S i = Some rec \<and> a \<in> addrs_of rec))"

fun alias_shape :: "alias_kind \<Rightarrow> string list \<Rightarrow> bool" where
  "alias_shape AliasMerged ids = (length ids = 1)"
| "alias_shape AliasSplit ids = (2 \<le> length ids)"
| "alias_shape AliasTombstone ids = (ids = [])"
| "alias_shape AliasTypeMigrated ids = (length ids = 1)"

definition wf_alias :: "string \<Rightarrow> alias_record \<Rightarrow> bool" where
  "wf_alias i al \<longleftrightarrow> al_old_id al = i \<and> alias_shape (al_kind al) (al_new_ids al)"

definition reg_inv :: "'v registry_inner \<Rightarrow> bool" where
  "reg_inv r \<longleftrightarrow>
     hm_wf (ri_subjects r) \<and> hm_wf (ri_addressings r) \<and> hm_wf (ri_aliases r) \<and>
     hm_wf (ri_states r) \<and>
     coherent (hm_get (ri_subjects r)) (hm_get (ri_addressings r)) \<and>
     (\<forall>i. hm_get (ri_aliases r) i \<noteq> None \<longrightarrow> hm_get (ri_subjects r) i = None) \<and>
     (\<forall>i. hm_get (ri_states r) i \<noteq> None \<longrightarrow> hm_get (ri_subjects r) i \<noteq> None) \<and>
     (\<forall>i al. hm_get (ri_aliases r) i = Some al \<longrightarrow> wf_alias i al)"

definition known_ids :: "'v registry_inner \<Rightarrow> string set" where
  "known_ids r = dom (hm_get (ri_subjects r)) \<union> dom (hm_get (ri_aliases r))"

text \<open>What \<open>Uuid::new_v4\<close> is relied on for: \<open>n\<close> pairwise different ids never seen before.\<close>

definition fresh_ids :: "'v registry_inner \<Rightarrow> uuids \<Rightarrow> nat \<Rightarrow> bool" where
  "fresh_ids r uid n \<longleftrightarrow>
     distinct (map uid [0..<n]) \<and> set (map uid [0..<n]) \<inter> known_ids r = {}"

lemma reg_inv_empty [simp]: "reg_inv empty_registry_inner"
  by (simp add: reg_inv_def empty_registry_inner_def coherent_def)

subsection \<open>Index coherence\<close>

lemma coherentD:
  assumes "coherent S A"
  shows coherent_wf: "S i = Some rec \<Longrightarrow> wf_record i rec"
    and coherent_iff: "A a = Some i \<longleftrightarrow> (\<exists>rec. S i = Some rec \<and> a \<in> addrs_of rec)"
  using assms unfolding coherent_def by blast+

text \<open>
  One lemma carries every mutation: the records at \<open>R\<close> are retired, the records of \<open>N\<close>
  are put in place; the index entries of \<open>N\<close>'s addressings are rewritten and those of the
  retired records dropped.
\<close>

lemma coherent_replace:
  assumes co: "coherent S A"
    and wfN: "\<And>j rec. N j = Some rec \<Longrightarrow> wf_record j rec"
    and own: "\<And>a j. B a = Some j \<longleftrightarrow> (\<exists>rec. N j = Some rec \<and> a \<in> addrs_of rec)"
    and new: "\<And>j. N j \<noteq> None \<Longrightarrow> S j \<noteq> None \<Longrightarrow> j \<in> R"
    and clash: "\<And>a i. B a \<noteq> None \<Longrightarrow> A a = Some i \<Longrightarrow> i \<in> R"
    and S': "\<And>j. S' j = (case N j of None \<Rightarrow> if j \<in> R then None else S j | Some rec \<Rightarrow> Some rec)"
    and A': "\<And>a. A' a = (case B a of
              None \<Rightarrow> (case A a of None \<Rightarrow> None | Some i \<Rightarrow> if i \<in> R then None else Some i)
            | Some j \<Rightarrow> Some j)"
  shows "coherent S' A'"
  unfolding coherent_def
proof (intro conjI allI impI)
  fix i rec assume "S' i = Some rec"
  then show "wf_record i rec"
    using wfN coherent_wf [OF co] S' by (auto split: option.splits if_splits)
next
  fix a i
  show "A' a = Some i \<longleftrightarrow> (\<exists>rec. S' i = Some rec \<and> a \<in> addrs_of rec)"
  proof (cases "B a")
    case (Some j)
    have "A' a = Some i \<longleftrightarrow> B a = Some i" using Some A' by simp
    moreover have "(\<exists>rec. S' i = Some rec \<and> a \<in> addrs_of rec) \<longleftrightarrow> B a = Some i"
    proof
      assume "\<exists>rec. S' i = Some rec \<and> a \<in> addrs_of rec"
      then obtain rec where rec: "S' i = Some rec" "a \<in> addrs_of rec" by blast
      show "B a = Some i"
      proof (cases "N i")
        case None
        with rec(1) S' have "S i = Some rec" "i \<notin> R" by (auto split: if_splits)
        with rec(2) coherent_iff [OF co] have "A a = Some i" by blast
        with clash Some \<open>i \<notin> R\<close> show ?thesis by blast
      next
        case (Some rec')
        with rec S' own show ?thesis by auto
      qed
    next
      assume "B a = Some i"
      then show "\<exists>rec. S' i = Some rec \<and> a \<in> addrs_of rec" using own S' by (metis option.simps(5))
    qed
    ultimately show ?thesis by blast
  next
    case None
    have "A' a = Some i \<longleftrightarrow> A a = Some i \<and> i \<notin> R"
      using None A' by (auto split: option.splits if_splits)
    also have "\<dots> \<longleftrightarrow> (\<exists>rec. S i = Some rec \<and> a \<in> addrs_of rec) \<and> i \<notin> R"
      using coherent_iff [OF co] by blast
    also have "\<dots> \<longleftrightarrow> (\<exists>rec. S' i = Some rec \<and> a \<in> addrs_of rec)"
    proof (cases "N i")
      case None
      then show ?thesis using S' by auto
    next
      case (Some rec)
      with own None have "a \<notin> addrs_of rec" by (metis option.distinct(1))
      moreover from Some S' have "S' i = Some rec" by simp
      ultimately show ?thesis using new Some by auto
    qed
    finally show ?thesis .
  qed
qed

text \<open>The instance for one record, new or replaced.\<close>

lemma coherent_put:
  assumes co: "coherent S A" and wf: "wf_record i rec"
    and old: "\<And>a. a \<in> addrs_of rec \<Longrightarrow> A a = None \<or> A a = Some i"
    and A': "\<And>a. A' a = (if a \<in> addrs_of rec then Some i else if A a = Some i then None else A a)"
  shows "coherent (S(i \<mapsto> rec)) A'"
proof (rule coherent_replace [where R = "{i}" and N = "[i \<mapsto> rec]"
      and B = "\<lambda>a. if a \<in> addrs_of rec then Some i else None", OF co])
  fix a
  show "A' a = (case if a \<in> addrs_of rec then Some i else None of
        None \<Rightarrow> (case A a of None \<Rightarrow> None | Some j \<Rightarrow> if j \<in> {i} then None else Some j)
      | Some j \<Rightarrow> Some j)"
    using A' by (auto split: option.splits)
qed (use wf old in \<open>fastforce split: if_splits\<close>)+

lemma coherent_retire:
  assumes co: "coherent S A"
    and A': "\<And>a. A' a = (if A a = Some i then None else A a)"
  shows "coherent (S(i := None)) A'"
  by (rule coherent_replace [where R = "{i}" and N = Map.empty and B = Map.empty, OF co])
     (auto simp: A' split: option.splits)

section \<open>Announce\<close>

lemma hm_get_fold_insert [simp]:
  "hm_get (fold (\<lambda>a. hm_insert a i) as m) = (\<lambda>a. if a \<in> set as then Some i else hm_get m a)"
  by (rule hm.fold_ins_get)

lemma hm_wf_fold_insert [simp]: "hm_wf m \<Longrightarrow> hm_wf (fold (\<lambda>a. hm_insert a i) as m)"
  by (rule hm.fold_ins_wf)

lemma set_resolved_ids:
  "set (map snd (announce_resolved r as)) = {i. \<exists>a \<in> set as. hm_get (ri_addressings r) a = Some i}"
  by (induction as) (auto simp: announce_resolved_def List.map_filter_simps split: option.splits)

lemma set_unresolved [simp]:
  "set (announce_unresolved r as) = {a \<in> set as. hm_get (ri_addressings r) a = None}"
  by (auto simp: announce_unresolved_def)

lemma distinct_unresolved [simp]: "distinct as \<Longrightarrow> distinct (announce_unresolved r as)"
  by (simp add: announce_unresolved_def)

lemma ar_addressing_new [simp]:
  "map ar_addressing (map (new_addressing_record c t) as) = as"
  "ar_addressing ` set (map (new_addressing_record c t) as) = set as"
  by (induction as) (auto simp: new_addressing_record_def)

lemma ar_addressing_new_record [simp]: "ar_addressing (new_addressing_record c t a) = a"
  by (simp add: new_addressing_record_def)

lemma image_ar_addressing_new [simp]:
  "ar_addressing ` new_addressing_record c t ` X = X"
  "ar_addressing \<circ> new_addressing_record c t = id"
  by (force simp: new_addressing_record_def fun_eq_iff)+

lemma record_announced_claims_frame [simp]:
  "ri_subjects (record_announced_claims r cs c t) = ri_subjects r"
  "ri_addressings (record_announced_claims r cs c t) = ri_addressings r"
  "ri_aliases (record_announced_claims r cs c t) = ri_aliases r"
  "ri_states (record_announced_claims r cs c t) = ri_states r"
  by (simp_all add: record_announced_claims_def)

lemma record_announced_claims_inv: "reg_inv r \<Longrightarrow> reg_inv (record_announced_claims r cs c t)"
  by (simp add: reg_inv_def)

lemma announce_create_inv:
  assumes inv: "reg_inv r" and new: "i \<notin> known_ids r"
    and as: "an_addressings ann \<noteq> []" "distinct (an_addressings ann)"
    and unres: "\<forall>a \<in> set (an_addressings ann). hm_get (ri_addressings r) a = None"
  shows "reg_inv (announce_create r ann c i t)"
proof -
  let ?rec = "\<lparr>sr_id = i, sr_subject_type = an_subject_type ann,
     sr_addressings = map (new_addressing_record c t) (an_addressings ann),
     sr_created_at = t, sr_modified_at = t\<rparr>"
  have co: "coherent (hm_get (ri_subjects r)) (hm_get (ri_addressings r))"
    using inv by (simp add: reg_inv_def)
  have noown: "hm_get (ri_addressings r) a \<noteq> Some i" for a
    using coherent_iff [OF co] new by (auto simp: known_ids_def)
  have "coherent ((hm_get (ri_subjects r))(i \<mapsto> ?rec))
     (\<lambda>a. if a \<in> set (an_addressings ann) then Some i else hm_get (ri_addressings r) a)"
    by (rule coherent_put [OF co]) (use as unres noown in \<open>auto simp: wf_record_def\<close>)
  with inv new show ?thesis
    by (auto simp: reg_inv_def announce_create_def Let_def known_ids_def)
qed

lemma announce_join_inv:
  assumes inv: "reg_inv r" and tgt: "hm_get (ri_subjects r) i = Some rec"
    and us: "distinct us" "\<forall>a \<in> set us. hm_get (ri_addressings r) a = None"
  shows "reg_inv (announce_join r i us c t)"
proof -
  let ?rec = "rec\<lparr>sr_addressings := sr_addressings rec @ map (new_addressing_record c t) us,
     sr_modified_at := t\<rparr>"
  have co: "coherent (hm_get (ri_subjects r)) (hm_get (ri_addressings r))"
    using inv by (simp add: reg_inv_def)
  note wf = coherent_wf [OF co tgt]
  have own: "hm_get (ri_addressings r) a = Some i \<longleftrightarrow> a \<in> addrs_of rec" for a
    using coherent_iff [OF co] tgt by simp
  have "coherent ((hm_get (ri_subjects r))(i \<mapsto> ?rec))
     (\<lambda>a. if a \<in> set us then Some i else hm_get (ri_addressings r) a)"
  proof (rule coherent_put [OF co])
    have "addrs_of rec \<inter> set us = {}" using own us(2) by force
    with wf us(1) show "wf_record i ?rec" by (auto simp: wf_record_def)
  qed (use own us in \<open>auto simp: image_Un\<close>)
  with inv tgt show ?thesis
    by (auto simp: reg_inv_def announce_join_def Let_def)
qed

lemma announce_conflict_inv: "reg_inv r \<Longrightarrow> reg_inv (announce_conflict r as ids c t)"
  by (simp add: reg_inv_def announce_conflict_def)

text \<open>The three-way classification by the number of subjects the announcement touches.\<close>

lemma classify_cases:
  obtains (create) "announce_classify r0 r ann c i t = (announce_create r ann c i t, Created i)"
      "\<forall>a \<in> set (an_addressings ann). hm_get (ri_addressings r0) a = None"
  | (join) j where "announce_classify r0 r ann c i t =
        (announce_join r j (announce_unresolved r0 (an_addressings ann)) c t, Updated j)"
      "\<exists>a \<in> set (an_addressings ann). hm_get (ri_addressings r0) a = Some j"
      "\<forall>a \<in> set (an_addressings ann). hm_get (ri_addressings r0) a \<in> {None, Some j}"
      "announce_unresolved r0 (an_addressings ann) \<noteq> []"
  | (same) j where "announce_classify r0 r ann c i t = (r, NoChange j)"
      "\<exists>a \<in> set (an_addressings ann). hm_get (ri_addressings r0) a = Some j"
      "\<forall>a \<in> set (an_addressings ann). hm_get (ri_addressings r0) a = Some j"
  | (conflict) ids where "announce_classify r0 r ann c i t =
        (announce_conflict r (an_addressings ann) ids c t, Conflict ids)"
      "distinct ids" "2 \<le> length ids"
      "set ids = {i. \<exists>a \<in> set (an_addressings ann). hm_get (ri_addressings r0) a = Some i}"
proof -
  define ids where "ids = remdups (map snd (announce_resolved r0 (an_addressings ann)))"
  have ids: "set ids = {i. \<exists>a \<in> set (an_addressings ann). hm_get (ri_addressings r0) a = Some i}"
    "distinct ids"
    by (simp_all only: ids_def set_remdups set_resolved_ids distinct_remdups)
  consider (nil) "ids = []" | (one) j where "ids = [j]" | (more) j k ks where "ids = j # k # ks"
    by (metis list.exhaust)
  then show ?thesis
  proof cases
    case nil
    have "hm_get (ri_addressings r0) a = None" if "a \<in> set (an_addressings ann)" for a
      using that ids(1) nil by (cases "hm_get (ri_addressings r0) a") auto
    with nil show ?thesis
      by (intro create) (simp_all add: announce_classify_def Let_def flip: ids_def)
  next
    case (one j)
    have tgt: "\<exists>a \<in> set (an_addressings ann). hm_get (ri_addressings r0) a = Some j"
      using ids(1) one by auto
    have "k = j" if "a \<in> set (an_addressings ann)" "hm_get (ri_addressings r0) a = Some k" for a k
      using that ids(1) one by auto
    then have rest: "\<forall>a \<in> set (an_addressings ann). hm_get (ri_addressings r0) a \<in> {None, Some j}"
      by fastforce
    show ?thesis
    proof (cases "announce_unresolved r0 (an_addressings ann) = []")
      case True
      then have "\<forall>a \<in> set (an_addressings ann). hm_get (ri_addressings r0) a \<noteq> None"
        by (simp add: announce_unresolved_def filter_empty_conv)
      with True tgt rest one show ?thesis
        by (intro same [of j]) (auto simp: announce_classify_def Let_def simp flip: ids_def)
    next
      case False
      with tgt rest one show ?thesis
        by (intro join [of j]) (auto simp: announce_classify_def Let_def simp flip: ids_def)
    qed
  next
    case (more j k ks)
    with ids show ?thesis
      by (intro conflict [of ids]) (auto simp: announce_classify_def Let_def simp flip: ids_def)
  qed
qed

lemma announce_state_inv:
  assumes "reg_inv r" "\<And>i. state_target out = Some i \<Longrightarrow> i \<in> dom (hm_get (ri_subjects r))"
  shows "reg_inv (fst (announce_state r st out t))"
  using assms by (auto simp: reg_inv_def announce_state_def split: option.splits)

lemma announce_state_frame [simp]:
  "ri_subjects (fst (announce_state r st out t)) = ri_subjects r"
  "ri_addressings (fst (announce_state r st out t)) = ri_addressings r"
  "ri_aliases (fst (announce_state r st out t)) = ri_aliases r"
  "ri_claims (fst (announce_state r st out t)) = ri_claims r"
  by (simp_all add: announce_state_def split: option.splits)

lemma announce_OkE:
  assumes "announce r ann c uid clk = Ok (r', upd, out)"
  obtains r2 where "an_subject_type ann \<noteq> []" "an_addressings ann \<noteq> []"
    "announce_classify r (record_announced_claims r (an_claims ann) c (clk 0)) ann c (uid 0) (clk 0)
       = (r2, out)"
    "r' = fst (announce_state r2 (an_state ann) out (clk 1))"
    "upd = snd (announce_state r2 (an_state ann) out (clk 1))"
proof -
  obtain r2 out2 where cl:
    "announce_classify r (record_announced_claims r (an_claims ann) c (clk 0)) ann c (uid 0) (clk 0)
       = (r2, out2)" by fastforce
  obtain r3 u3 where st: "announce_state r2 (an_state ann) out2 (clk 1) = (r3, u3)" by fastforce
  from assms cl st show ?thesis
    by (intro that [of r2]) (simp_all add: announce_def split: if_splits)
qed

lemma announce_inv:
  assumes inv: "reg_inv r" and dist: "distinct (an_addressings ann)" and fresh: "fresh_ids r uid 1"
    and ok: "announce r ann c uid clk = Ok (r', upd, out)"
  shows "reg_inv r'"
proof -
  let ?r1 = "record_announced_claims r (an_claims ann) c (clk 0)"
  obtain r2 where ne: "an_addressings ann \<noteq> []"
    and cl: "announce_classify r ?r1 ann c (uid 0) (clk 0) = (r2, out)"
    and r': "r' = fst (announce_state r2 (an_state ann) out (clk 1))"
    using announce_OkE [OF ok] by metis
  have inv1: "reg_inv ?r1" by (rule record_announced_claims_inv [OF inv])
  have new: "uid 0 \<notin> known_ids ?r1" using fresh by (simp add: fresh_ids_def known_ids_def)
  have "reg_inv r2 \<and> (\<forall>i. state_target out = Some i \<longrightarrow> i \<in> dom (hm_get (ri_subjects r2)))"
  proof (rule classify_cases [of r ?r1 ann c "uid 0" "clk 0"])
    assume a: "announce_classify r ?r1 ann c (uid 0) (clk 0) =
        (announce_create ?r1 ann c (uid 0) (clk 0), Created (uid 0))"
      and b: "\<forall>a \<in> set (an_addressings ann). hm_get (ri_addressings r) a = None"
    have "reg_inv (announce_create ?r1 ann c (uid 0) (clk 0))"
      by (rule announce_create_inv [OF inv1 new ne dist]) (use b in simp)
    with a cl show ?thesis by (auto simp: announce_create_def Let_def)
  next
    fix j
    assume a: "announce_classify r ?r1 ann c (uid 0) (clk 0) =
        (announce_join ?r1 j (announce_unresolved r (an_addressings ann)) c (clk 0), Updated j)"
      and b: "\<exists>a \<in> set (an_addressings ann). hm_get (ri_addressings r) a = Some j"
    obtain rec where rec: "hm_get (ri_subjects r) j = Some rec"
      using b inv by (auto simp: reg_inv_def coherent_def)
    have "reg_inv (announce_join ?r1 j (announce_unresolved r (an_addressings ann)) c (clk 0))"
      by (rule announce_join_inv [OF inv1]) (use rec dist in auto)
    with a cl rec show ?thesis by (auto simp: announce_join_def Let_def)
  next
    fix j assume "announce_classify r ?r1 ann c (uid 0) (clk 0) = (?r1, NoChange j)"
    with cl inv1 show ?thesis by auto
  next
    fix ids
    assume "announce_classify r ?r1 ann c (uid 0) (clk 0) =
        (announce_conflict ?r1 (an_addressings ann) ids c (clk 0), Conflict ids)"
    with cl announce_conflict_inv [OF inv1] show ?thesis by auto
  qed
  with r' show ?thesis by (auto intro: announce_state_inv)
qed

section \<open>State updates and retraction\<close>

lemma update_state_inv:
  assumes "reg_inv r" "update_state r i st clk = Ok (r', upd)"
  shows "reg_inv r'"
  using assms by (auto simp: reg_inv_def update_state_def split: option.splits if_splits)

text \<open>The record that is left when one claim is dropped.\<close>

definition without_claim :: "subject_record \<Rightarrow> nat \<Rightarrow> systime \<Rightarrow> subject_record" where
  "without_claim rec idx t =
     rec\<lparr>sr_addressings := vec_remove idx (sr_addressings rec), sr_modified_at := t\<rparr>"

lemma without_claim:
  assumes wf: "wf_record i rec"
    and pos: "position (\<lambda>x. ar_addressing x = a \<and> ar_claimant x = c) (sr_addressings rec) = Some idx"
  shows addrs_of_without: "addrs_of (without_claim rec idx t) = addrs_of rec - {a}"
    and claimed_addr: "a \<in> addrs_of rec"
    and wf_without: "sr_addressings (without_claim rec idx t) \<noteq> [] \<Longrightarrow>
                     wf_record i (without_claim rec idx t)"
    and addressings_without: "sr_addressings (without_claim rec idx t) =
                     filter (\<lambda>x. ar_addressing x \<noteq> a) (sr_addressings rec)"
proof -
  obtain ys x zs where split: "sr_addressings rec = ys @ x # zs"
    "vec_remove idx (sr_addressings rec) = ys @ zs" "ar_addressing x = a \<and> ar_claimant x = c"
    using position_split [OF pos] by metis
  have d: "distinct (map ar_addressing (ys @ x # zs))" using wf split(1) by (simp add: wf_record_def)
  show "addrs_of (without_claim rec idx t) = addrs_of rec - {a}" "a \<in> addrs_of rec"
    using split d by (auto simp: without_claim_def image_iff)
  show "wf_record i (without_claim rec idx t)" if "sr_addressings (without_claim rec idx t) \<noteq> []"
    using that split wf d by (auto simp: without_claim_def wf_record_def)
  have "filter (\<lambda>x. ar_addressing x \<noteq> a) ys = ys" "filter (\<lambda>x. ar_addressing x \<noteq> a) zs = zs"
    using d split(3) by (auto simp: filter_id_conv image_iff)
  with split show "sr_addressings (without_claim rec idx t) =
      filter (\<lambda>x. ar_addressing x \<noteq> a) (sr_addressings rec)"
    by (simp add: without_claim_def)
qed

text \<open>
  The shared core of \<open>retract\<close> and \<open>forced_retract_addressing\<close>: plugin \<open>c\<close> owns the claim
  on \<open>a\<close>, at place \<open>idx\<close> of the record of subject \<open>i\<close>.
\<close>

definition owned_claim ::
    "'v registry_inner \<Rightarrow> external_addressing \<Rightarrow> string \<Rightarrow> string \<Rightarrow> subject_record \<Rightarrow> nat \<Rightarrow> bool" where
  "owned_claim r a c i rec idx \<longleftrightarrow> hm_get (ri_addressings r) a = Some i \<and>
     hm_get (ri_subjects r) i = Some rec \<and>
     position (\<lambda>x. ar_addressing x = a \<and> ar_claimant x = c) (sr_addressings rec) = Some idx"

definition retracted ::
    "'v registry_inner \<Rightarrow> external_addressing \<Rightarrow> string \<Rightarrow> string option \<Rightarrow> clock
       \<Rightarrow> string \<Rightarrow> subject_record \<Rightarrow> nat \<Rightarrow> 'v registry_inner" where
  "retracted r a plugin reason clk i rec idx =
     (let r1 = drop_claim r i rec idx a (clk 0)
      in if should_forget r1 i then forget_subject r1 i plugin reason (clk 1) else r1)"

lemma should_forget_drop:
  "should_forget (drop_claim r i rec idx a t) i \<longleftrightarrow> sr_addressings (without_claim rec idx t) = []"
  by (simp add: should_forget_def drop_claim_def without_claim_def)

lemma drop_claim_alt:
  "drop_claim r i rec idx a t = r\<lparr>ri_subjects := hm_insert i (without_claim rec idx t) (ri_subjects r),
     ri_addressings := hm_remove a (ri_addressings r)\<rparr>"
  by (simp add: drop_claim_def without_claim_def)

lemma retract_cases:
  obtains (owned) i rec idx where "owned_claim r a c i rec idx"
      "retract r a c reason clk = Ok (retracted r a c reason clk i rec idx,
         if sr_addressings (without_claim rec idx (clk 0)) = []
         then SubjectForgotten i (sr_subject_type rec) else AddressingRemoved)"
  | (refused) e where "retract r a c reason clk = Err (Dispatch e)"
      "\<nexists>i rec idx. owned_claim r a c i rec idx"
  by (cases "hm_get (ri_addressings r) a";
      cases "hm_get (ri_subjects r) (the (hm_get (ri_addressings r) a))";
      cases "position (\<lambda>x. ar_addressing x = a \<and> ar_claimant x = c)
        (sr_addressings (the (hm_get (ri_subjects r) (the (hm_get (ri_addressings r) a)))))")
     (auto simp: retract_def owned_claim_def retracted_def Let_def should_forget_drop)

lemma forced_retract_cases:
  obtains (owned) i rec idx where "owned_claim r a tp i rec idx"
      "forced_retract_addressing r a tp ap reason clk = Ok (retracted r a ap reason clk i rec idx,
         if sr_addressings (without_claim rec idx (clk 0)) = []
         then ForcedSubjectForgotten i (sr_subject_type rec) else ForcedAddressingRemoved i)"
  | (absent) "forced_retract_addressing r a tp ap reason clk = Ok (r, ForcedNotFound)"
      "\<nexists>i rec idx. owned_claim r a tp i rec idx"
  by (cases "hm_get (ri_addressings r) a";
      cases "hm_get (ri_subjects r) (the (hm_get (ri_addressings r) a))";
      cases "position (\<lambda>x. ar_addressing x = a \<and> ar_claimant x = tp)
        (sr_addressings (the (hm_get (ri_subjects r) (the (hm_get (ri_addressings r) a)))))")
     (auto simp: forced_retract_addressing_def owned_claim_def retracted_def Let_def
        should_forget_drop)

text \<open>What is left of the four maps.\<close>

lemma retracted_maps:
  fixes r :: "'v registry_inner" and clk :: clock and plugin :: string and reason :: "string option"
  assumes inv: "reg_inv r" and own: "owned_claim r a c i rec idx"
  defines "rec' \<equiv> without_claim rec idx (clk 0)"
  defines "r' \<equiv> retracted r a plugin reason clk i rec idx"
  shows "hm_get (ri_addressings r') = (hm_get (ri_addressings r))(a := None)"
    and "hm_get (ri_subjects r') = (hm_get (ri_subjects r))
           (i := if sr_addressings rec' = [] then None else Some rec')"
    and "hm_get (ri_states r') = (if sr_addressings rec' = []
           then (hm_get (ri_states r))(i := None) else hm_get (ri_states r))"
    and "hm_get (ri_aliases r') = (if sr_addressings rec' = []
           then (hm_get (ri_aliases r))(i \<mapsto> retired_alias i [] AliasTombstone (clk 1) plugin reason)
           else hm_get (ri_aliases r))"
    and "ri_claims r' = ri_claims r"
proof -
  have "hm_get (ri_aliases r) i = None" using inv own by (auto simp: reg_inv_def owned_claim_def)
  then show "hm_get (ri_addressings r') = (hm_get (ri_addressings r))(a := None)"
    "hm_get (ri_subjects r') = (hm_get (ri_subjects r))
           (i := if sr_addressings rec' = [] then None else Some rec')"
    "hm_get (ri_states r') = (if sr_addressings rec' = []
           then (hm_get (ri_states r))(i := None) else hm_get (ri_states r))"
    "hm_get (ri_aliases r') = (if sr_addressings rec' = []
           then (hm_get (ri_aliases r))(i \<mapsto> retired_alias i [] AliasTombstone (clk 1) plugin reason)
           else hm_get (ri_aliases r))"
    "ri_claims r' = ri_claims r"
    unfolding r'_def rec'_def
    by (simp_all only: retracted_def Let_def should_forget_drop)
       (auto simp: forget_subject_def Let_def aliases_try_insert_def drop_claim_alt
          retired_alias_def)
qed

lemma retracted_wf:
  fixes r :: "'v registry_inner" and clk :: clock and plugin i :: string
    and reason :: "string option" and a :: external_addressing and rec :: subject_record and idx :: nat
  assumes "reg_inv r"
  defines "r' \<equiv> retracted r a plugin reason clk i rec idx"
  shows "hm_wf (ri_subjects r') \<and> hm_wf (ri_addressings r') \<and> hm_wf (ri_aliases r') \<and>
     hm_wf (ri_states r')"
  using assms by (simp add: reg_inv_def retracted_def Let_def drop_claim_def forget_subject_def
      aliases_try_insert_def)

lemma retracted_inv:
  assumes inv: "reg_inv r" and own: "owned_claim r a c i rec idx"
  shows "reg_inv (retracted r a plugin reason clk i rec idx)"
proof -
  let ?rec' = "without_claim rec idx (clk 0)"
  have co: "coherent (hm_get (ri_subjects r)) (hm_get (ri_addressings r))"
    using inv by (simp add: reg_inv_def)
  have S: "hm_get (ri_subjects r) i = Some rec"
    and pos: "position (\<lambda>x. ar_addressing x = a \<and> ar_claimant x = c) (sr_addressings rec) = Some idx"
    using own by (simp_all add: owned_claim_def)
  note wc = without_claim [OF coherent_wf [OF co S] pos]
  have mine: "hm_get (ri_addressings r) b = Some i \<longleftrightarrow> b \<in> addrs_of rec" for b
    using coherent_iff [OF co] S by simp
  have "coherent ((hm_get (ri_subjects r))(i := if sr_addressings ?rec' = [] then None else Some ?rec'))
     ((hm_get (ri_addressings r))(a := None))"
  proof (cases "sr_addressings ?rec' = []")
    case True
    then have "addrs_of rec = {a}" using wc(1) [where t = "clk 0"] wc(2) by auto
    with True show ?thesis
      by (simp, intro coherent_retire [OF co]) (use mine in auto)
  next
    case False
    then show ?thesis
      by (simp, intro coherent_put [OF co wc(3)]) (use wc(1,2) mine in auto)
  qed
  with retracted_maps [OF inv own] retracted_wf [OF inv] inv S show ?thesis
    by (auto simp: reg_inv_def wf_alias_def retired_alias_def split: if_splits)
qed

lemma retract_inv:
  assumes "reg_inv r" "retract r a c reason clk = Ok (r', out)"
  shows "reg_inv r'"
  by (rule retract_cases [of r a c reason clk])
     (use assms in \<open>auto intro: retracted_inv\<close>)

lemma forced_retract_inv:
  assumes "reg_inv r" "forced_retract_addressing r a tp ap reason clk = Ok (r', out)"
  shows "reg_inv r'"
  by (rule forced_retract_cases [of r a tp ap reason clk])
     (use assms in \<open>auto intro: retracted_inv\<close>)

section \<open>Merge\<close>

lemma hm_get_reindex [simp]:
  "hm_get (reindex ars n m) = (\<lambda>a. if a \<in> ar_addressing ` set ars then Some n else hm_get m a)"
  unfolding reindex_def by (induction ars arbitrary: m) (auto simp: fun_eq_iff)

lemma hm_wf_reindex [simp]: "hm_wf m \<Longrightarrow> hm_wf (reindex ars n m)"
  unfolding reindex_def by (induction ars arbitrary: m) auto

definition merged_record :: "subject_record \<Rightarrow> subject_record \<Rightarrow> string \<Rightarrow> systime \<Rightarrow> subject_record" where
  "merged_record ra rb n t = \<lparr>sr_id = n, sr_subject_type = sr_subject_type ra,
     sr_addressings = sr_addressings ra @ sr_addressings rb, sr_created_at = t, sr_modified_at = t\<rparr>"

lemma wf_alias_retired [simp]:
  "wf_alias i (retired_alias j ids k t p rs) \<longleftrightarrow> i = j \<and> alias_shape k ids"
  by (auto simp: wf_alias_def retired_alias_def)

definition merged_registry ::
    "'v registry_inner \<Rightarrow> string \<Rightarrow> string \<Rightarrow> subject_record \<Rightarrow> subject_record \<Rightarrow> string
       \<Rightarrow> string option \<Rightarrow> string \<Rightarrow> systime \<Rightarrow> 'v registry_inner" where
  "merged_registry r a b ra rb ap reason n t =
     r\<lparr>ri_subjects := hm_insert n (merged_record ra rb n t)
                        (hm_remove b (hm_remove a (ri_subjects r))),
       ri_addressings := reindex (sr_addressings ra @ sr_addressings rb) n (ri_addressings r),
       ri_claims := ri_claims r @ [\<lparr>cr_kind = CK_Merged [a, b] n, cr_claimant = ap,
                        cr_asserted_at = t, cr_reason = reason\<rparr>],
       ri_aliases := hm_insert b (retired_alias b [n] AliasMerged t ap reason)
                       (hm_insert a (retired_alias a [n] AliasMerged t ap reason) (ri_aliases r)),
       ri_states := hm_remove b (hm_remove a (ri_states r))\<rparr>"

text \<open>With live sources and the invariant the alias inserts cannot fail, so merge never
  panics: it succeeds, or refuses with an error that leaves the registry alone.\<close>

lemma merge_cases:
  assumes inv: "reg_inv r"
  obtains (merged) ra rb where "a \<noteq> b" "hm_get (ri_subjects r) a = Some ra"
      "hm_get (ri_subjects r) b = Some rb" "sr_subject_type ra = sr_subject_type rb"
      "merge_aliases r a b ap reason uid clk = Ok
        (merged_registry r a b ra rb ap reason (uid 0) (clk 0),
         \<lparr>mo_new_id = uid 0,
          mo_addressing_transfers = transfers_of a (uid 0) (sr_addressings ra) @
                                    transfers_of b (uid 0) (sr_addressings rb)\<rparr>)"
  | (refused) e where "merge_aliases r a b ap reason uid clk = Err (Dispatch e)"
      "a = b \<or> a \<notin> dom (hm_get (ri_subjects r)) \<or> b \<notin> dom (hm_get (ri_subjects r)) \<or>
       sr_subject_type (the (hm_get (ri_subjects r) a)) \<noteq>
       sr_subject_type (the (hm_get (ri_subjects r) b))"
proof (cases "a = b \<or> hm_get (ri_subjects r) a = None \<or> hm_get (ri_subjects r) b = None")
  case True
  then consider "a = b" | "a \<noteq> b" "hm_get (ri_subjects r) a = None"
    | ra where "a \<noteq> b" "hm_get (ri_subjects r) a = Some ra" "hm_get (ri_subjects r) b = None"
    by fastforce
  then show ?thesis
    by cases (rule refused, simp add: merge_aliases_def, force)+
next
  case False
  then obtain ra rb where S: "a \<noteq> b" "hm_get (ri_subjects r) a = Some ra"
    "hm_get (ri_subjects r) b = Some rb" by auto
  with inv have A: "hm_get (ri_aliases r) a = None" "hm_get (ri_aliases r) b = None"
    by (auto simp: reg_inv_def)
  show ?thesis
  proof (cases "sr_subject_type ra = sr_subject_type rb")
    case True
    with S A show ?thesis
      by (intro merged [of ra rb])
         (simp_all add: merge_aliases_def Let_def aliases_try_insert_def merge_rewire_def
            push_claim_def merged_record_def merged_registry_def)
  next
    case False
    with S show ?thesis by (intro refused) (auto simp: merge_aliases_def)
  qed
qed

lemma merge_coherent:
  assumes co: "coherent S A" and new: "S n = None"
    and S: "a \<noteq> b" "S a = Some ra" "S b = Some rb"
  shows "coherent (S(a := None, b := None, n \<mapsto> merged_record ra rb n t))
     (\<lambda>x. if x \<in> addrs_of ra \<union> addrs_of rb then Some n else A x)"
proof (rule coherent_replace [where R = "{a, b}" and N = "[n \<mapsto> merged_record ra rb n t]"
      and B = "\<lambda>x. if x \<in> addrs_of ra \<union> addrs_of rb then Some n else None", OF co])
  have A: "A x = Some a \<longleftrightarrow> x \<in> addrs_of ra" "A x = Some b \<longleftrightarrow> x \<in> addrs_of rb" for x
    using coherent_iff [OF co] S by simp_all
  have "addrs_of ra \<inter> addrs_of rb = {}"
    using A S(1) by (metis disjoint_iff option.inject)
  then show "wf_record j rec" if "[n \<mapsto> merged_record ra rb n t] j = Some rec" for j rec
    using that coherent_wf [OF co S(2)] coherent_wf [OF co S(3)]
    by (auto simp: wf_record_def merged_record_def split: if_splits)
  show "i \<in> {a, b}" if "(if x \<in> addrs_of ra \<union> addrs_of rb then Some n else None) \<noteq> None"
    "A x = Some i" for x i
    using that A by (metis UnE insertCI option.inject)
  show "(if x \<in> addrs_of ra \<union> addrs_of rb then Some n else A x) =
      (case if x \<in> addrs_of ra \<union> addrs_of rb then Some n else None of
         None \<Rightarrow> case A x of None \<Rightarrow> None | Some i \<Rightarrow> if i \<in> {a, b} then None else Some i
       | Some j \<Rightarrow> Some j)" for x
    using A [of x] by (auto split: option.splits)
qed (use new in \<open>auto simp: merged_record_def image_Un split: if_splits\<close>)

lemma merge_inv:
  assumes inv: "reg_inv r" and fresh: "fresh_ids r uid 1"
    and ok: "merge_aliases r a b ap reason uid clk = Ok (r', out)"
  shows "reg_inv r'"
proof (rule merge_cases [OF inv, of a b ap reason uid clk])
  fix ra rb
  assume S: "a \<noteq> b" "hm_get (ri_subjects r) a = Some ra" "hm_get (ri_subjects r) b = Some rb"
    and eq: "merge_aliases r a b ap reason uid clk = Ok
        (merged_registry r a b ra rb ap reason (uid 0) (clk 0),
         \<lparr>mo_new_id = uid 0,
          mo_addressing_transfers = transfers_of a (uid 0) (sr_addressings ra) @
                                    transfers_of b (uid 0) (sr_addressings rb)\<rparr>)"
  have new: "hm_get (ri_subjects r) (uid 0) = None" "hm_get (ri_aliases r) (uid 0) = None"
    using fresh by (auto simp: fresh_ids_def known_ids_def)
  have "coherent ((hm_get (ri_subjects r))(a := None, b := None,
        uid 0 \<mapsto> merged_record ra rb (uid 0) (clk 0)))
     (\<lambda>x. if x \<in> addrs_of ra \<union> addrs_of rb then Some (uid 0) else hm_get (ri_addressings r) x)"
    by (rule merge_coherent [OF _ new(1) S]) (use inv in \<open>simp add: reg_inv_def\<close>)
  with inv new S show ?thesis
    using ok unfolding eq
    by (auto simp: merged_registry_def reg_inv_def image_Un split: if_splits)
qed (use ok in auto)

section \<open>Split\<close>

lemma original_records_aux:
  "hm_get (fold (\<lambda>x. hm_insert (ar_addressing x) x) xs m) a = Some y \<Longrightarrow>
     (y \<in> set xs \<and> ar_addressing y = a) \<or> hm_get m a = Some y"
  "dom (hm_get (fold (\<lambda>x. hm_insert (ar_addressing x) x) xs m)) =
     ar_addressing ` set xs \<union> dom (hm_get m)"
  by (induction xs rule: rev_induct) (auto split: if_splits)

lemma original_records_get:
  assumes "hm_get (original_records rec) a = Some y"
  shows "y \<in> set (sr_addressings rec)" "ar_addressing y = a"
  using original_records_aux(1) [of "sr_addressings rec" "[]" a y] assms
  by (simp_all add: original_records_def)

lemma dom_original_records: "dom (hm_get (original_records rec)) = addrs_of rec"
  using original_records_aux(2) [of "sr_addressings rec" "[]"] by (simp add: original_records_def)

text \<open>The records one partition group carries over, and the record it becomes.\<close>

definition group_records :: "subject_record \<Rightarrow> external_addressing list \<Rightarrow> addressing_record list" where
  "group_records rec g = map (\<lambda>a. the (hm_get (original_records rec) a)) g"

definition group_record ::
    "subject_record \<Rightarrow> systime \<Rightarrow> string \<Rightarrow> external_addressing list \<Rightarrow> subject_record" where
  "group_record rec t n g = \<lparr>sr_id = n, sr_subject_type = sr_subject_type rec,
     sr_addressings = group_records rec g, sr_created_at = t, sr_modified_at = t\<rparr>"

lemma those_map_Some: "(\<forall>x \<in> set xs. f x \<noteq> None) \<Longrightarrow> those (map f xs) = Some (map (\<lambda>x. the (f x)) xs)"
  by (induction xs) auto

lemma group_records_addr:
  assumes "set g \<subseteq> addrs_of rec"
  shows "map ar_addressing (group_records rec g) = g"
  using assms
proof (induction g)
  case (Cons a g)
  then obtain y where "hm_get (original_records rec) a = Some y"
    using dom_original_records by fastforce
  with Cons original_records_get show ?case by (simp add: group_records_def)
qed (simp add: group_records_def)

lemma group_records_mem:
  assumes "set g \<subseteq> addrs_of rec"
  shows "set (group_records rec g) \<subseteq> set (sr_addressings rec)"
proof
  fix y assume "y \<in> set (group_records rec g)"
  then obtain a where "a \<in> set g" "y = the (hm_get (original_records rec) a)"
    by (auto simp: group_records_def)
  moreover from this assms have "a \<in> dom (hm_get (original_records rec))"
    using dom_original_records by blast
  ultimately show "y \<in> set (sr_addressings rec)" using original_records_get(1) by auto
qed

text \<open>The group loop in closed form; it cannot reach its \<open>expect\<close> when the groups are
  covered by the source.\<close>

definition owner :: "(string \<times> external_addressing list) list \<Rightarrow> external_addressing \<rightharpoonup> string" where
  "owner zs a = map_option fst (List.find (\<lambda>z. a \<in> set (snd z)) (rev zs))"

lemma owner_Nil [simp]: "owner [] a = None"
  by (simp add: owner_def)

lemma owner_snoc [simp]:
  "owner (zs @ [z]) a = (if a \<in> set (snd z) then Some (fst z) else owner zs a)"
  by (simp add: owner_def)

lemma split_groups_Ok:
  assumes "\<forall>z \<in> set zs. set (snd z) \<subseteq> addrs_of rec"
  shows "split_groups src (sr_subject_type rec) (original_records rec) t zs r ts =
     Ok (r\<lparr>ri_subjects := fold (\<lambda>z. hm_insert (fst z) (group_record rec t (fst z) (snd z))) zs
             (ri_subjects r),
           ri_addressings := fold (\<lambda>z. reindex (group_records rec (snd z)) (fst z)) zs
             (ri_addressings r)\<rparr>,
         ts @ concat (map (\<lambda>z. transfers_of src (fst z) (group_records rec (snd z))) zs))"
  using assms
proof (induction zs arbitrary: r ts)
  case (Cons z zs)
  obtain n g where z: "z = (n, g)" by fastforce
  have "\<forall>a \<in> set g. hm_get (original_records rec) a \<noteq> None"
    using Cons.prems z dom_original_records by (fastforce simp: domIff [symmetric])
  then have "those (map (hm_get (original_records rec)) g) = Some (group_records rec g)"
    by (simp add: those_map_Some group_records_def)
  with Cons z show ?case by (simp add: group_record_def)
qed simp

lemma fold_insert_records:
  assumes "distinct (map fst zs)"
  shows "hm_get (fold (\<lambda>z. hm_insert (fst z) (f (fst z) (snd z))) zs m) j =
     (case map_of zs j of None \<Rightarrow> hm_get m j | Some g \<Rightarrow> Some (f j g))"
  using assms
proof (induction zs arbitrary: m)
  case (Cons z zs)
  show ?case
  proof (cases "j = fst z")
    case True
    with Cons.prems have "map_of zs j = None" by (simp add: map_of_eq_None_iff)
    with True Cons show ?thesis by simp
  next
    case False
    with Cons show ?thesis by (cases z) (simp split: option.splits)
  qed
qed simp

lemma hm_wf_fold_records [simp]:
  "hm_wf m \<Longrightarrow> hm_wf (fold (\<lambda>z. hm_insert (fst z) (f (fst z) (snd z))) zs m)"
  by (induction zs arbitrary: m) auto

lemma hm_wf_fold_reindex [simp]:
  "hm_wf m \<Longrightarrow> hm_wf (fold (\<lambda>z. reindex (f (snd z)) (fst z)) zs m)"
  by (induction zs arbitrary: m) auto

lemma fold_reindex_get:
  assumes "\<forall>z \<in> set zs. set (snd z) \<subseteq> addrs_of rec"
  shows "hm_get (fold (\<lambda>z. reindex (group_records rec (snd z)) (fst z)) zs m) a =
     (case owner zs a of None \<Rightarrow> hm_get m a | Some j \<Rightarrow> Some j)"
  using assms
proof (induction zs rule: rev_induct)
  case (snoc z zs)
  let ?ix = "\<lambda>zs. fold (\<lambda>z. reindex (group_records rec (snd z)) (fst z)) zs m"
  have IH: "hm_get (?ix zs) a = (case owner zs a of None \<Rightarrow> hm_get m a | Some j \<Rightarrow> Some j)"
    by (rule snoc.IH) (use snoc.prems in simp)
  have "set (map ar_addressing (group_records rec (snd z))) = set (snd z)"
    by (subst group_records_addr) (use snoc.prems in simp_all)
  then have "hm_get (?ix (zs @ [z])) a =
      (if a \<in> set (snd z) then Some (fst z) else hm_get (?ix zs) a)"
    by (simp only: fold_append fold_Cons fold_Nil comp_apply id_apply hm_get_reindex list.set_map)
  with IH show ?case
    by (cases "a \<in> set (snd z)") (simp_all only: owner_snoc option.case if_True if_False)
qed simp

lemma owner_iff:
  assumes "distinct (concat (map snd zs))"
  shows "owner zs a = Some j \<longleftrightarrow> (\<exists>g. (j, g) \<in> set zs \<and> a \<in> set g)"
  using assms
proof (induction zs rule: rev_induct)
  case (snoc z zs)
  then have IH: "owner zs a = Some j \<longleftrightarrow> (\<exists>g. (j, g) \<in> set zs \<and> a \<in> set g)" by simp
  have dis: "a \<notin> set g" if "a \<in> set (snd z)" "(k, g) \<in> set zs" for k g
    using snoc.prems that by force
  show ?case
  proof (cases "a \<in> set (snd z)")
    case True
    then show ?thesis using dis by (cases z) auto
  next
    case False
    with IH show ?thesis by auto
  qed
qed simp

lemma split_check_None:
  "split_check rec groups = None \<longleftrightarrow> 2 \<le> length groups \<and> [] \<notin> set groups \<and>
     distinct (concat groups) \<and> set (concat groups) = addrs_of rec"
proof (cases "position (\<lambda>g. g = []) groups")
  case None
  then have "[] \<notin> set groups" by (auto simp: position_None)
  moreover have "length (concat groups) = length (remdups (concat groups)) \<longleftrightarrow> distinct (concat groups)"
    by (metis length_remdups_eq remdups_id_iff_distinct)
  moreover have "split_check rec groups = None \<longleftrightarrow> \<not> length groups < 2 \<and>
      length (concat groups) = length (remdups (concat groups)) \<and> set (concat groups) = addrs_of rec"
    by (auto simp only: split_check_def None option.case option.distinct split: if_splits)
  ultimately show ?thesis by (metis not_less)
next
  case (Some i)
  then have "[] \<in> set groups" using position_SomeD [OF Some] by (metis nth_mem)
  moreover have "split_check rec groups \<noteq> None"
    by (auto simp only: split_check_def Some option.case split: if_splits)
  ultimately show ?thesis by blast
qed

definition split_registry ::
    "'v registry_inner \<Rightarrow> string \<Rightarrow> subject_record \<Rightarrow> (string \<times> external_addressing list) list
       \<Rightarrow> string \<Rightarrow> string option \<Rightarrow> systime \<Rightarrow> 'v registry_inner" where
  "split_registry r src rec zs ap reason t =
     r\<lparr>ri_subjects := hm_remove src
          (fold (\<lambda>z. hm_insert (fst z) (group_record rec t (fst z) (snd z))) zs (ri_subjects r)),
       ri_addressings := fold (\<lambda>z. reindex (group_records rec (snd z)) (fst z)) zs
          (ri_addressings r),
       ri_claims := ri_claims r @ [\<lparr>cr_kind = CK_Split src (map fst zs), cr_claimant = ap,
          cr_asserted_at = t, cr_reason = reason\<rparr>],
       ri_aliases := hm_insert src (retired_alias src (map fst zs) AliasSplit t ap reason)
          (ri_aliases r),
       ri_states := hm_remove src (ri_states r)\<rparr>"

lemma split_cases:
  fixes uid :: uuids and groups :: "external_addressing list list"
  defines "zs \<equiv> zip (map uid [0..<length groups]) groups"
  assumes inv: "reg_inv r"
  obtains (split) rec where "hm_get (ri_subjects r) src = Some rec" "split_check rec groups = None"
      "split_subject r src groups ap reason uid clk = Ok
         (split_registry r src rec zs ap reason (clk 0),
          \<lparr>so_new_ids = map fst zs, so_addressing_transfers =
             concat (map (\<lambda>z. transfers_of src (fst z) (group_records rec (snd z))) zs)\<rparr>)"
  | (refused) e where "split_subject r src groups ap reason uid clk = Err e"
      "src \<notin> dom (hm_get (ri_subjects r)) \<or>
       split_check (the (hm_get (ri_subjects r) src)) groups = Some e"
proof (cases "hm_get (ri_subjects r) src")
  case None
  then show ?thesis by (intro refused) (simp_all add: split_subject_def domIff)
next
  case S: (Some rec)
  then have al: "hm_get (ri_aliases r) src = None" using inv by (auto simp: reg_inv_def)
  show ?thesis
  proof (cases "split_check rec groups")
    case None
    then have cover: "\<forall>z \<in> set zs. set (snd z) \<subseteq> addrs_of rec"
      by (auto simp: zs_def split_check_None dest!: set_zip_rightD)
    have ids: "map uid [0..<length groups] = map fst zs" by (simp add: zs_def)
    note loop = split_groups_Ok [OF cover, of src "clk 0" r "[]"]
    from S None al show ?thesis
      by (intro split [of rec])
         (simp_all add: split_subject_def Let_def flip: zs_def, simp_all add: loop ids
           aliases_try_insert_def push_claim_def split_registry_def)
  next
    case (Some e)
    with S show ?thesis by (intro refused [of e]) (simp_all add: split_subject_def)
  qed
qed

lemma split_coherent:
  assumes co: "coherent S A" and S: "S src = Some rec"
    and zs: "distinct (map fst zs)" "\<forall>z \<in> set zs. S (fst z) = None"
    and g: "[] \<notin> snd ` set zs" "distinct (concat (map snd zs))"
      "set (concat (map snd zs)) = addrs_of rec"
  shows "coherent (\<lambda>j. if j = src then None else case map_of zs j of
            None \<Rightarrow> S j | Some g \<Rightarrow> Some (group_record rec t j g))
     (\<lambda>a. case owner zs a of None \<Rightarrow> A a | Some j \<Rightarrow> Some j)"
proof (rule coherent_replace [where R = "{src}" and B = "owner zs"
      and N = "\<lambda>j. map_option (group_record rec t j) (map_of zs j)", OF co])
  have mine: "A a = Some src \<longleftrightarrow> a \<in> addrs_of rec" for a
    using coherent_iff [OF co] S by simp
  have sub: "set h \<subseteq> addrs_of rec" if "(j, h) \<in> set zs" for j h
    using g(3) that by (metis UN_upper image_eqI list.set_map set_concat snd_conv)
  have addrs: "addrs_of (group_record rec t j h) = set h" if "(j, h) \<in> set zs" for j h
    using group_records_addr [OF sub [OF that]]
    by (simp add: group_record_def) (metis list.set_map)
  have mo: "map_of zs j = Some h \<longleftrightarrow> (j, h) \<in> set zs" for j h
    using zs(1) by simp
  have nosrc: "map_of zs src = None"
    using zs(2) S mo by (metis fst_conv not_None_eq)
  show "wf_record j x" if "map_option (group_record rec t j) (map_of zs j) = Some x" for j x
  proof -
    from that obtain h where h: "(j, h) \<in> set zs" "x = group_record rec t j h" using mo by auto
    have "h \<noteq> []" using g(1) h(1) by (metis image_eqI snd_conv)
    moreover have "distinct h" using g(2) h(1) by (auto simp: distinct_concat_iff image_iff)
    ultimately show ?thesis
      using group_records_addr [OF sub [OF h(1)]] h(2)
      by (auto simp: wf_record_def group_record_def group_records_def)
  qed
  show "owner zs a = Some j \<longleftrightarrow>
      (\<exists>x. map_option (group_record rec t j) (map_of zs j) = Some x \<and> a \<in> addrs_of x)" for a j
    by (simp only: owner_iff [OF g(2)] map_option_eq_Some mo) (metis addrs)
  show "j \<in> {src}" if "map_option (group_record rec t j) (map_of zs j) \<noteq> None" "S j \<noteq> None" for j
    using that zs(2) mo by force
  show "i \<in> {src}" if "owner zs a \<noteq> None" "A a = Some i" for a i
  proof -
    have "a \<in> addrs_of rec" using that(1) owner_iff [OF g(2)] sub by fastforce
    with mine [of a] that(2) show ?thesis by simp
  qed
  show "(if j = src then None else case map_of zs j of
            None \<Rightarrow> S j | Some g \<Rightarrow> Some (group_record rec t j g)) =
      (case map_option (group_record rec t j) (map_of zs j) of
         None \<Rightarrow> if j \<in> {src} then None else S j | Some rec \<Rightarrow> Some rec)" for j
    using nosrc by (auto split: option.splits)
  show "(case owner zs a of None \<Rightarrow> A a | Some j \<Rightarrow> Some j) =
      (case owner zs a of
         None \<Rightarrow> (case A a of None \<Rightarrow> None | Some i \<Rightarrow> if i \<in> {src} then None else Some i)
       | Some j \<Rightarrow> Some j)" for a
  proof -
    have "owner zs a \<noteq> None" if "A a = Some src"
    proof -
      from that mine g(3) have "a \<in> set (concat (map snd zs))" by simp
      then obtain j h where "(j, h) \<in> set zs" "a \<in> set h" by auto
      then have "owner zs a = Some j" using owner_iff [OF g(2)] by blast
      then show ?thesis by simp
    qed
    then show ?thesis by (auto split: option.splits)
  qed
qed

lemma split_zip_facts:
  assumes "split_check rec groups = None" "fresh_ids r uid (length groups)"
  defines "zs \<equiv> zip (map uid [0..<length groups]) groups"
  shows "distinct (map fst zs)" "\<forall>z \<in> set zs. fst z \<notin> known_ids r" "[] \<notin> snd ` set zs"
    "distinct (concat (map snd zs))" "set (concat (map snd zs)) = addrs_of rec" "2 \<le> length zs"
proof -
  have m: "map fst zs = map uid [0..<length groups]" "map snd zs = groups"
    by (simp_all add: zs_def)
  have chk: "2 \<le> length groups" "[] \<notin> set groups" "distinct (concat groups)"
    "set (concat groups) = addrs_of rec"
    using assms(1) unfolding split_check_None by blast+
  have f: "distinct (map uid [0..<length groups])"
    "set (map uid [0..<length groups]) \<inter> known_ids r = {}"
    using assms(2) by (simp_all only: fresh_ids_def)
  show "distinct (map fst zs)" unfolding m by (rule f)
  show "distinct (concat (map snd zs))" unfolding m by (rule chk)
  show "set (concat (map snd zs)) = addrs_of rec" unfolding m by (rule chk)
  show "2 \<le> length zs" using chk(1) by (simp add: zs_def)
  show "[] \<notin> snd ` set zs" using chk(2) m(2) by (metis list.set_map)
  show "\<forall>z \<in> set zs. fst z \<notin> known_ids r"
    using f(2) m(1) by (metis disjoint_iff image_eqI list.set_map)
qed

lemma split_registry_maps:
  fixes uid :: uuids and src ap :: string and reason :: "string option" and t :: systime
  assumes fresh: "fresh_ids r uid (length groups)" and chk: "split_check rec groups = None"
  defines "zs \<equiv> zip (map uid [0..<length groups]) groups"
  defines "r' \<equiv> split_registry r src rec zs ap reason t"
  shows "hm_get (ri_subjects r') = (\<lambda>j. if j = src then None else case map_of zs j of
            None \<Rightarrow> hm_get (ri_subjects r) j | Some g \<Rightarrow> Some (group_record rec t j g))"
    and "hm_get (ri_addressings r') =
       (\<lambda>a. case owner zs a of None \<Rightarrow> hm_get (ri_addressings r) a | Some j \<Rightarrow> Some j)"
proof -
  note z = split_zip_facts [OF chk fresh, folded zs_def]
  have cover: "\<forall>z \<in> set zs. set (snd z) \<subseteq> addrs_of rec"
    unfolding z(5) [symmetric] by (simp only: set_concat set_map) blast
  show "hm_get (ri_subjects r') = (\<lambda>j. if j = src then None else case map_of zs j of
            None \<Rightarrow> hm_get (ri_subjects r) j | Some g \<Rightarrow> Some (group_record rec t j g))"
    and "hm_get (ri_addressings r') =
       (\<lambda>a. case owner zs a of None \<Rightarrow> hm_get (ri_addressings r) a | Some j \<Rightarrow> Some j)"
    by (simp_all add: r'_def split_registry_def fun_eq_iff fold_insert_records [OF z(1)]
        fold_reindex_get [OF cover])
qed

lemma split_inv:
  assumes inv: "reg_inv r" and fresh: "fresh_ids r uid (length groups)"
    and ok: "split_subject r src groups ap reason uid clk = Ok (r', out)"
  shows "reg_inv r'"
proof (rule split_cases [OF inv, of src groups ap reason uid clk])
  let ?zs = "zip (map uid [0..<length groups]) groups"
  fix rec
  assume S: "hm_get (ri_subjects r) src = Some rec" and chk: "split_check rec groups = None"
    and eq: "split_subject r src groups ap reason uid clk = Ok
         (split_registry r src rec ?zs ap reason (clk 0),
          \<lparr>so_new_ids = map fst ?zs, so_addressing_transfers =
             concat (map (\<lambda>z. transfers_of src (fst z) (group_records rec (snd z))) ?zs)\<rparr>)"
  note z = split_zip_facts [OF chk fresh]
  have new: "\<forall>z \<in> set ?zs. hm_get (ri_subjects r) (fst z) = None"
    "\<forall>z \<in> set ?zs. hm_get (ri_aliases r) (fst z) = None"
    using z(2) by (auto simp: known_ids_def)
  let ?r' = "split_registry r src rec ?zs ap reason (clk 0)"
  note maps = split_registry_maps [OF fresh chk, where src = src and ap = ap and reason = reason
      and t = "clk 0"]
  have "coherent (hm_get (ri_subjects ?r')) (hm_get (ri_addressings ?r'))"
    unfolding maps by (rule split_coherent [OF _ S z(1) new(1) z(3,4,5)])
      (use inv in \<open>simp add: reg_inv_def\<close>)
  moreover have "hm_wf (ri_subjects ?r') \<and> hm_wf (ri_addressings ?r') \<and> hm_wf (ri_aliases ?r') \<and>
      hm_wf (ri_states ?r')"
    using inv by (simp add: reg_inv_def split_registry_def)
  moreover have "hm_get (ri_aliases r) j = None" if "map_of ?zs j = Some g" for j g
    using new(2) that by (metis fst_conv map_of_SomeD)
  moreover have "ri_aliases ?r' = hm_insert src
      (retired_alias src (map fst ?zs) AliasSplit (clk 0) ap reason) (ri_aliases r)"
    "ri_states ?r' = hm_remove src (ri_states r)"
    by (simp_all add: split_registry_def)
  moreover have "2 \<le> length (map fst ?zs)" using z(6) by simp
  ultimately have "reg_inv ?r'"
    using inv unfolding reg_inv_def maps(1)
    by (simp del: length_map length_zip split: option.splits)
  with ok eq show ?thesis by simp
qed (use ok in auto)

section \<open>Histories\<close>

text \<open>
  One step is one successful call. The hypotheses are the UUID law and, for an announce,
  that no addressing is listed twice (\<open>Subject_Spec\<close> shows what happens
  otherwise). Refused calls leave the registry as it is.
\<close>

inductive registry_step :: "'v registry_inner \<Rightarrow> 'v registry_inner \<Rightarrow> bool" where
  step_announce: "distinct (an_addressings ann) \<Longrightarrow> fresh_ids r uid 1 \<Longrightarrow>
     announce r ann c uid clk = Ok (r', upd, out) \<Longrightarrow> registry_step r r'"
| step_update_state: "update_state r i st clk = Ok (r', upd) \<Longrightarrow> registry_step r r'"
| step_retract: "retract r a c reason clk = Ok (r', rout) \<Longrightarrow> registry_step r r'"
| step_forced: "forced_retract_addressing r a tp ap reason clk = Ok (r', fout) \<Longrightarrow>
     registry_step r r'"
| step_merge: "fresh_ids r uid 1 \<Longrightarrow> merge_aliases r a' b' ap reason uid clk = Ok (r', mout) \<Longrightarrow>
     registry_step r r'"
| step_split: "fresh_ids r uid (length groups) \<Longrightarrow>
     split_subject r src groups ap reason uid clk = Ok (r', sout) \<Longrightarrow> registry_step r r'"

lemmas registry_op_inv = announce_inv update_state_inv retract_inv forced_retract_inv
  merge_inv split_inv

lemma registry_step_inv: "registry_step r r' \<Longrightarrow> reg_inv r \<Longrightarrow> reg_inv r'"
  by (induction rule: registry_step.induct) (blast intro: registry_op_inv)+

text \<open>Aliases are append-only: what is recorded stays recorded, unchanged.\<close>

definition alias_le :: "'v registry_inner \<Rightarrow> 'v registry_inner \<Rightarrow> bool" where
  "alias_le r s \<longleftrightarrow> hm_get (ri_aliases r) \<subseteq>\<^sub>m hm_get (ri_aliases s)"

lemma alias_le_refl [simp]: "alias_le r r"
  by (simp add: alias_le_def)

lemma announce_aliases:
  assumes "announce r ann c uid clk = Ok (r', upd, out)"
  shows "ri_aliases r' = ri_aliases r"
proof -
  obtain r2 where cl: "announce_classify r
      (record_announced_claims r (an_claims ann) c (clk 0)) ann c (uid 0) (clk 0) = (r2, out)"
    and r': "r' = fst (announce_state r2 (an_state ann) out (clk 1))"
    using announce_OkE [OF assms] by metis
  have "ri_aliases r2 = ri_aliases r"
    using cl by (auto simp: announce_classify_def announce_create_def announce_join_def
        announce_conflict_def Let_def split: list.splits if_splits)
  with r' show ?thesis by simp
qed

lemma retracted_alias_le:
  assumes "reg_inv r" "owned_claim r a c i rec idx"
  shows "alias_le r (retracted r a plugin reason clk i rec idx)"
proof -
  have "hm_get (ri_aliases r) i = None" using assms by (auto simp: reg_inv_def owned_claim_def)
  then show ?thesis using retracted_maps(4) [OF assms]
    by (auto simp: alias_le_def map_le_def)
qed

lemma retract_alias_le:
  assumes "reg_inv r" "retract r a c reason clk = Ok (r', out)"
  shows "alias_le r r'"
  by (rule retract_cases [of r a c reason clk])
     (use assms in \<open>auto intro: retracted_alias_le\<close>)

lemma forced_retract_alias_le:
  assumes "reg_inv r" "forced_retract_addressing r a tp ap reason clk = Ok (r', out)"
  shows "alias_le r r'"
  by (rule forced_retract_cases [of r a tp ap reason clk])
     (use assms in \<open>auto intro: retracted_alias_le\<close>)

lemma merge_alias_le:
  assumes "reg_inv r" "merge_aliases r a b ap reason uid clk = Ok (r', out)"
  shows "alias_le r r'"
proof (rule merge_cases [OF assms(1), of a b ap reason uid clk])
  fix ra rb
  assume "hm_get (ri_subjects r) a = Some ra" "hm_get (ri_subjects r) b = Some rb"
    and eq: "merge_aliases r a b ap reason uid clk = Ok
        (merged_registry r a b ra rb ap reason (uid 0) (clk 0),
         \<lparr>mo_new_id = uid 0,
          mo_addressing_transfers = transfers_of a (uid 0) (sr_addressings ra) @
                                    transfers_of b (uid 0) (sr_addressings rb)\<rparr>)"
  then have "hm_get (ri_aliases r) a = None" "hm_get (ri_aliases r) b = None"
    using assms(1) by (auto simp: reg_inv_def)
  with eq assms(2) show ?thesis
    by (auto simp: alias_le_def map_le_def merged_registry_def)
qed (use assms(2) in auto)

lemma split_alias_le:
  assumes "reg_inv r" "split_subject r src groups ap reason uid clk = Ok (r', out)"
  shows "alias_le r r'"
proof (rule split_cases [OF assms(1), of src groups ap reason uid clk])
  let ?zs = "zip (map uid [0..<length groups]) groups"
  fix rec
  assume "hm_get (ri_subjects r) src = Some rec"
    and eq: "split_subject r src groups ap reason uid clk = Ok
         (split_registry r src rec ?zs ap reason (clk 0),
          \<lparr>so_new_ids = map fst ?zs, so_addressing_transfers =
             concat (map (\<lambda>z. transfers_of src (fst z) (group_records rec (snd z))) ?zs)\<rparr>)"
  then have "hm_get (ri_aliases r) src = None" using assms(1) by (auto simp: reg_inv_def)
  with eq assms(2) show ?thesis by (auto simp: alias_le_def map_le_def split_registry_def)
qed (use assms(2) in auto)

lemma alias_le_trans: "alias_le r s \<Longrightarrow> alias_le s t \<Longrightarrow> alias_le r t"
  unfolding alias_le_def by (rule map_le_trans)

lemma registry_step_alias_le: "registry_step r r' \<Longrightarrow> reg_inv r \<Longrightarrow> alias_le r r'"
proof (induction rule: registry_step.induct)
  case (step_announce ann r uid c clk r' upd out)
  then show ?case using announce_aliases by (fastforce simp: alias_le_def)
next
  case (step_update_state r i st clk r' upd)
  then show ?case by (auto simp: update_state_def alias_le_def split: option.splits)
qed (blast intro: retract_alias_le forced_retract_alias_le merge_alias_le split_alias_le)+

interpretation reg: monotone_system "\<lambda>r. r = empty_registry_inner" registry_step reg_inv alias_le
  by unfold_locales
     (auto intro: registry_step_inv registry_step_alias_le alias_le_trans)

end
