(* ===== verification/Subject_Spec.thy ===== *)
theory Subject_Spec
  imports Subject_Laws
begin

text \<open>
  What the subject registry promises its callers, stated on the operations and reads of
  \<open>Subjects\<close>: the reachable-state invariant, the effect of every operation on every
  branch, the permanence of retired ids, ownership of claims, and one input on which the
  registry loses track of an addressing.
\<close>

section \<open>A concrete registry\<close>

text \<open>Two plugins announce one track each; used by the witnesses below.\<close>

definition path_a :: external_addressing where
  "path_a = \<lparr>ea_scheme = ''path'', ea_value = ''a''\<rparr>"

definition path_b :: external_addressing where
  "path_b = \<lparr>ea_scheme = ''path'', ea_value = ''b''\<rparr>"

definition mbid_c :: external_addressing where
  "mbid_c = \<lparr>ea_scheme = ''mbid'', ea_value = ''c''\<rparr>"

definition track_ann :: "external_addressing list \<Rightarrow> nat option \<Rightarrow> nat subject_announcement" where
  "track_ann as st = \<lparr>an_subject_type = ''track'', an_addressings = as, an_claims = [],
     an_state = st, an_announced_at = 0\<rparr>"

definition uid_from :: "char \<Rightarrow> uuids" where
  "uid_from c n = c # show_nat n"

definition tick :: clock where
  "tick n = int n * 1000000"

fun ok_state :: "('s \<times> 'o) outcome \<Rightarrow> 's" where
  "ok_state (Ok (s, _)) = s"

definition registry_one :: "nat registry_inner" where
  "registry_one = ok_state (announce empty_registry_inner (track_ann [path_a, mbid_c] (Some 7))
     ''plug.one'' (uid_from CHR ''x'') tick)"

definition registry_two :: "nat registry_inner" where
  "registry_two = ok_state (announce registry_one (track_ann [path_b] None)
     ''plug.two'' (uid_from CHR ''y'') tick)"

lemmas demo_defs = path_a_def path_b_def mbid_c_def track_ann_def uid_from_def tick_def

lemma show_digit [simp]: "n < 10 \<Longrightarrow> show_nat n = [char_of (48 + n)]"
  by (simp add: show_nat.simps)

lemma registry_one_eval:
  "announce empty_registry_inner (track_ann [path_a, mbid_c] (Some 7))
     ''plug.one'' (uid_from CHR ''x'') tick =
   Ok (registry_one,
       Some \<lparr>su_canonical_id = ''x0'', su_subject_type = ''track'', su_state = Some 7,
             su_modified_at_ms = 1\<rparr>, Created ''x0'')"
  by code_simp

lemma registry_two_eval:
  "announce registry_one (track_ann [path_b] None) ''plug.two'' (uid_from CHR ''y'') tick =
   Ok (registry_two, None, Created ''y0'')"
  by code_simp

lemma registry_one_step: "registry_step empty_registry_inner registry_one"
  by (rule step_announce [OF _ _ registry_one_eval])
     (code_simp, simp add: fresh_ids_def known_ids_def empty_registry_inner_def)

lemma registry_one_reads:
  "describe registry_one ''x0'' = Some \<lparr>sr_id = ''x0'', sr_subject_type = ''track'',
     sr_addressings = [new_addressing_record ''plug.one'' 0 path_a,
                       new_addressing_record ''plug.one'' 0 mbid_c],
     sr_created_at = 0, sr_modified_at = 0\<rparr>"
  "hm_keys (ri_subjects registry_one) = [''x0'']" "ri_aliases registry_one = []"
  by code_simp+

lemma registry_two_step: "registry_step registry_one registry_two"
proof (rule step_announce [OF _ _ registry_two_eval])
  have "known_ids registry_one = {''x0''}"
    using registry_one_reads(2,3) unfolding known_ids_def by (simp flip: set_hm_keys)
  then show "fresh_ids registry_one (uid_from CHR ''y'') 1"
    by (simp add: fresh_ids_def uid_from_def)
qed code_simp

lemma registry_two_reachable: "registry_step\<^sup>*\<^sup>* empty_registry_inner registry_two"
  using registry_one_step registry_two_step by (meson rtranclp.simps)

lemma registry_two_inv: "reg_inv registry_two"
  by (rule reg.reachable_inv [OF refl registry_two_reachable])

lemma registry_two_ids: "known_ids registry_two = {''x0'', ''y0''}"
proof -
  have "hm_keys (ri_subjects registry_two) = [''x0'', ''y0'']" "ri_aliases registry_two = []"
    by code_simp+
  then show ?thesis unfolding known_ids_def by (simp flip: set_hm_keys)
qed

section \<open>Reachable registries\<close>

text \<open>(C1) As long as no announcement lists an addressing twice (a requirement the code does not
  check; the section on repeated addressings shows what happens without it), then whatever
  sequence of announces, state updates, retractions, forced retractions, merges and splits a
  steward has served since it started empty, the registry is coherent: every live subject stores
  its own id and a nonempty duplicate-free list of addressings, the addressing index maps an
  addressing to a subject exactly when that subject lists it, no live subject has an alias
  record, only live subjects have a state, and every alias record has the shape of its kind.\<close>

theorem registry_reachable_inv:
  assumes "registry_step\<^sup>*\<^sup>* empty_registry_inner r"
  shows "reg_inv r"
  by (rule reg.reachable_inv [OF refl assms])

theorem registry_reachable_inv_witness:
  "registry_step\<^sup>*\<^sup>* empty_registry_inner registry_two \<and> reg_inv registry_two"
  using registry_reachable_inv [OF registry_two_reachable] registry_two_reachable by blast

text \<open>(C2) A retired canonical id is retired for good: over any sequence of operations its
  alias record stays in place unchanged (append-only index) and the id never names a live
  subject again.\<close>

theorem retired_id_permanent:
  assumes "reg_inv r" "registry_step\<^sup>*\<^sup>* r s" "describe_alias r i = Some al"
  shows "describe_alias s i = Some al \<and> describe s i = None"
proof -
  have "alias_le r s" by (rule reg.run_le [OF assms(2,1)])
  then have "describe_alias s i = Some al"
    using assms(3) by (auto simp: alias_le_def describe_alias_def map_le_def dom_def)
  moreover have "reg_inv s" by (rule reg.run_inv [OF assms(2,1)])
  ultimately show ?thesis by (auto simp: reg_inv_def describe_def describe_alias_def)
qed

definition registry_gone :: "nat registry_inner" where
  "registry_gone = ok_state (retract registry_two path_b ''plug.two'' None tick)"

lemma registry_gone_step: "registry_step registry_two registry_gone"
proof -
  have "retract registry_two path_b ''plug.two'' None tick =
      Ok (registry_gone, SubjectForgotten ''y0'' ''track'')" by code_simp
  then show ?thesis by (rule step_retract)
qed

theorem retired_id_permanent_witness:
  "describe_alias registry_gone ''y0'' \<noteq> None \<and> describe registry_gone ''y0'' = None"
proof -
  have inv: "reg_inv registry_gone"
    using registry_step_inv [OF registry_gone_step registry_two_inv] .
  obtain al where al: "describe_alias registry_gone ''y0'' = Some al"
    by (cases "describe_alias registry_gone ''y0''") (simp, code_simp)
  from retired_id_permanent [OF inv rtranclp.rtrancl_refl al] al show ?thesis by simp
qed

section \<open>Announce\<close>

text \<open>The subjects an announcement already touches.\<close>

definition touched :: "'v registry_inner \<Rightarrow> external_addressing list \<Rightarrow> string set" where
  "touched r as = {i. \<exists>a \<in> set as. resolve r a = Some i}"

text \<open>The contract of an accepted announce, by outcome.\<close>

fun announce_contract ::
    "'v registry_inner \<Rightarrow> 'v subject_announcement \<Rightarrow> string \<Rightarrow> systime \<Rightarrow> 'v registry_inner
       \<Rightarrow> announce_outcome \<Rightarrow> bool" where
  "announce_contract r ann c t r' (Created i) =
     (touched r (an_addressings ann) = {} \<and>
      resolve r' = (\<lambda>a. if a \<in> set (an_addressings ann) then Some i else resolve r a) \<and>
      describe r' = (describe r)(i \<mapsto> \<lparr>sr_id = i, sr_subject_type = an_subject_type ann,
        sr_addressings = map (new_addressing_record c t) (an_addressings ann),
        sr_created_at = t, sr_modified_at = t\<rparr>) \<and>
      state_of r' = (if an_state ann = None then state_of r
                     else (state_of r)(i \<mapsto> an_state ann)))"
| "announce_contract r ann c t r' (Updated i) =
     (touched r (an_addressings ann) = {i} \<and>
      (\<exists>a \<in> set (an_addressings ann). resolve r a = None) \<and>
      resolve r' = (\<lambda>a. if a \<in> set (an_addressings ann) then Some i else resolve r a) \<and>
      (\<exists>rec. describe r i = Some rec \<and>
         describe r' = (describe r)(i \<mapsto> rec\<lparr>sr_addressings := sr_addressings rec @
           map (new_addressing_record c t)
             (filter (\<lambda>a. resolve r a = None) (an_addressings ann)), sr_modified_at := t\<rparr>)) \<and>
      state_of r' = (if an_state ann = None then state_of r
                     else (state_of r)(i \<mapsto> an_state ann)))"
| "announce_contract r ann c t r' (NoChange i) =
     (touched r (an_addressings ann) = {i} \<and>
      (\<forall>a \<in> set (an_addressings ann). resolve r a = Some i) \<and>
      resolve r' = resolve r \<and> describe r' = describe r \<and> state_of r' = state_of r)"
| "announce_contract r ann c t r' (Conflict ids) =
     (distinct ids \<and> 2 \<le> length ids \<and> set ids = touched r (an_addressings ann) \<and>
      resolve r' = resolve r \<and> describe r' = describe r \<and> state_of r' = state_of r \<and>
      (\<exists>rec. last (claims_snapshot r') = rec \<and>
         cr_kind rec = CK_MultiSubjectConflict (an_addressings ann) ids \<and> cr_claimant rec = c))"

lemma announce_contract_ok:
  assumes inv: "reg_inv r"
    and ok: "announce r ann c uid clk = Ok (r', upd, out)"
  shows "announce_contract r ann c (clk 0) r' out"
proof -
  let ?r1 = "record_announced_claims r (an_claims ann) c (clk 0)"
  obtain r2 where ne: "an_addressings ann \<noteq> []"
    and cl: "announce_classify r ?r1 ann c (uid 0) (clk 0) = (r2, out)"
    and r': "r' = fst (announce_state r2 (an_state ann) out (clk 1))"
    using announce_OkE [OF ok] by metis
  note reads = resolve_def describe_def state_of_def touched_def claims_snapshot_def
  show ?thesis
  proof (rule classify_cases [of r ?r1 ann c "uid 0" "clk 0"])
    assume "announce_classify r ?r1 ann c (uid 0) (clk 0) =
        (announce_create ?r1 ann c (uid 0) (clk 0), Created (uid 0))"
      "\<forall>a \<in> set (an_addressings ann). hm_get (ri_addressings r) a = None"
    with cl show ?thesis unfolding r'
      by (auto simp: reads announce_create_def announce_state_def Let_def fun_eq_iff)
  next
    fix j
    assume *: "announce_classify r ?r1 ann c (uid 0) (clk 0) =
        (announce_join ?r1 j (announce_unresolved r (an_addressings ann)) c (clk 0), Updated j)"
      "\<exists>a \<in> set (an_addressings ann). hm_get (ri_addressings r) a = Some j"
      "\<forall>a \<in> set (an_addressings ann). hm_get (ri_addressings r) a \<in> {None, Some j}"
      "announce_unresolved r (an_addressings ann) \<noteq> []"
    obtain rec where rec: "hm_get (ri_subjects r) j = Some rec"
      using *(2) inv by (auto simp: reg_inv_def coherent_def)
    have t: "touched r (an_addressings ann) = {j}" using *(2,3) by (auto simp: reads)
    have u: "\<exists>a \<in> set (an_addressings ann). resolve r a = None"
      using *(4) by (auto simp: announce_unresolved_def filter_empty_conv resolve_def)
    have v: "(if a \<in> set (announce_unresolved r (an_addressings ann)) then Some j
         else hm_get (ri_addressings r) a) =
        (if a \<in> set (an_addressings ann) then Some j else hm_get (ri_addressings r) a)" for a
      using *(3) by auto
    from *(1) cl rec t u v show ?thesis unfolding r'
      by (auto simp: announce_join_def announce_state_def Let_def resolve_def describe_def
          state_of_def announce_unresolved_def)
  next
    fix j
    assume "announce_classify r ?r1 ann c (uid 0) (clk 0) = (?r1, NoChange j)"
      "\<forall>a \<in> set (an_addressings ann). hm_get (ri_addressings r) a = Some j"
    with cl ne show ?thesis unfolding r'
      by (cases "an_addressings ann") (auto simp: reads announce_state_def fun_eq_iff)
  next
    fix ids
    assume "announce_classify r ?r1 ann c (uid 0) (clk 0) =
        (announce_conflict ?r1 (an_addressings ann) ids c (clk 0), Conflict ids)"
      "distinct ids" "2 \<le> length ids"
      "set ids = {i. \<exists>a \<in> set (an_addressings ann). hm_get (ri_addressings r) a = Some i}"
    with cl show ?thesis unfolding r'
      by (auto simp: reads announce_conflict_def announce_state_def fun_eq_iff)
  qed
qed

text \<open>(C3) An announce is refused exactly for an empty subject type or an empty addressing
  list, it never panics, and otherwise it acts by the number of live subjects its addressings
  touch: none creates a subject under the new id with all addressings and the state, one adds
  the missing addressings to that subject (or changes nothing when none is missing), more than
  one records the conflict and leaves subjects, index and states as they were.\<close>

theorem announce_effect:
  assumes "reg_inv r"
  shows "case announce r ann c uid clk of
           Err e \<Rightarrow> an_subject_type ann = [] \<or> an_addressings ann = []
         | Panic m \<Rightarrow> False
         | Ok (r', upd, out) \<Rightarrow> an_subject_type ann \<noteq> [] \<and> an_addressings ann \<noteq> [] \<and>
             announce_contract r ann c (clk 0) r' out"
proof (cases "announce r ann c uid clk")
  case (Ok x)
  obtain r' upd out where "x = (r', upd, out)" by (metis surj_pair)
  with Ok announce_contract_ok [OF assms, of ann c uid clk r' upd out]
    announce_OkE [of r ann c uid clk r' upd out] show ?thesis by (auto simp del: announce_contract.simps)
next
  case (Err e)
  then show ?thesis by (auto simp: announce_def Let_def split: if_splits prod.splits)
next
  case (Panic m)
  then show ?thesis by (auto simp: announce_def Let_def split: if_splits prod.splits)
qed

theorem announce_effect_witness:
  "case announce registry_two (track_ann [path_a, path_b] None) ''plug.three''
      (uid_from CHR ''z'') tick of
     Ok (r', _, out) \<Rightarrow> out = Conflict [''x0'', ''y0''] \<and> describe r' = describe registry_two
   | _ \<Rightarrow> False"
proof -
  have out: "(case announce registry_two (track_ann [path_a, path_b] None) ''plug.three''
      (uid_from CHR ''z'') tick of Ok (r', _, out) \<Rightarrow> out = Conflict [''x0'', ''y0''] | _ \<Rightarrow> False)"
    by code_simp
  with announce_effect [OF registry_two_inv, where ann = "track_ann [path_a, path_b] None"
      and c = "''plug.three''" and uid = "uid_from CHR ''z''" and clk = tick]
  show ?thesis by (auto split: outcome.splits)
qed

section \<open>Retraction\<close>

text \<open>\<open>c\<close> holds the claim on \<open>a\<close>, an addressing of the live subject \<open>i\<close>.\<close>

definition claims_addressing ::
    "'v registry_inner \<Rightarrow> string \<Rightarrow> external_addressing \<Rightarrow> string \<Rightarrow> subject_record \<Rightarrow> bool" where
  "claims_addressing r c a i rec \<longleftrightarrow> describe r i = Some rec \<and>
     (\<exists>x \<in> set (sr_addressings rec). ar_addressing x = a \<and> ar_claimant x = c)"

lemma claims_addressing_owned:
  assumes inv: "reg_inv r"
  shows "claims_addressing r c a i rec \<longleftrightarrow> (\<exists>idx. owned_claim r a c i rec idx)"
proof
  assume cl: "claims_addressing r c a i rec"
  then obtain x where x: "x \<in> set (sr_addressings rec)" "ar_addressing x = a" "ar_claimant x = c"
    and S: "hm_get (ri_subjects r) i = Some rec"
    by (auto simp: claims_addressing_def describe_def)
  have co: "coherent (hm_get (ri_subjects r)) (hm_get (ri_addressings r))"
    using inv by (simp add: reg_inv_def)
  have "hm_get (ri_addressings r) a = Some i" using coherent_iff [OF co] S x by auto
  moreover obtain idx where
    "position (\<lambda>x. ar_addressing x = a \<and> ar_claimant x = c) (sr_addressings rec) = Some idx"
    using position_SomeI [OF x(1), of "\<lambda>x. ar_addressing x = a \<and> ar_claimant x = c"] x by auto
  ultimately show "\<exists>idx. owned_claim r a c i rec idx" using S by (auto simp: owned_claim_def)
next
  assume "\<exists>idx. owned_claim r a c i rec idx"
  then show "claims_addressing r c a i rec"
    by (auto simp: owned_claim_def claims_addressing_def describe_def dest!: position_SomeD)
qed

text \<open>What is left after the claim on \<open>a\<close> is gone.\<close>

definition left_without :: "subject_record \<Rightarrow> external_addressing \<Rightarrow> addressing_record list" where
  "left_without rec a = filter (\<lambda>x. ar_addressing x \<noteq> a) (sr_addressings rec)"

definition retraction_contract ::
    "'v registry_inner \<Rightarrow> external_addressing \<Rightarrow> string \<Rightarrow> string option \<Rightarrow> clock \<Rightarrow> string
       \<Rightarrow> subject_record \<Rightarrow> 'v registry_inner \<Rightarrow> bool" where
  "retraction_contract r a plugin reason clk i rec r' \<longleftrightarrow>
     resolve r' = (resolve r)(a := None) \<and> claims_snapshot r' = claims_snapshot r \<and>
     (if left_without rec a = [] then
        describe r' = (describe r)(i := None) \<and> state_of r' = (state_of r)(i := None) \<and>
        describe_alias r' = (describe_alias r)
          (i \<mapsto> retired_alias i [] AliasTombstone (clk 1) plugin reason)
      else
        describe r' = (describe r)(i \<mapsto> rec\<lparr>sr_addressings := left_without rec a,
                                            sr_modified_at := clk 0\<rparr>) \<and>
        state_of r' = state_of r \<and> describe_alias r' = describe_alias r)"

lemma retracted_contract:
  assumes inv: "reg_inv r" and own: "owned_claim r a c i rec idx"
  shows "retraction_contract r a p reason clk i rec (retracted r a p reason clk i rec idx)"
    and "sr_addressings (without_claim rec idx t) = left_without rec a"
proof -
  have S: "hm_get (ri_subjects r) i = Some rec"
    and pos: "position (\<lambda>x. ar_addressing x = a \<and> ar_claimant x = c) (sr_addressings rec) = Some idx"
    using own by (auto simp: owned_claim_def)
  have "wf_record i rec" using inv S by (auto simp: reg_inv_def dest: coherent_wf)
  note left = addressings_without [OF this pos, folded left_without_def]
  show "sr_addressings (without_claim rec idx t) = left_without rec a" by (rule left)
  have rec': "without_claim rec idx t = rec\<lparr>sr_addressings := left_without rec a,
      sr_modified_at := t\<rparr>" for t
    using left [of t] by (simp add: without_claim_def)
  note reads = describe_def resolve_def state_of_def describe_alias_def claims_snapshot_def
  have r: "resolve x = hm_get (ri_addressings x)" "describe x = hm_get (ri_subjects x)"
    "state_of x = hm_get (ri_states x)" "describe_alias x = hm_get (ri_aliases x)"
    for x :: "'a registry_inner" by (auto simp: reads fun_eq_iff)
  show "retraction_contract r a p reason clk i rec (retracted r a p reason clk i rec idx)"
    using retracted_maps [OF inv own, where clk = clk and plugin = p and reason = reason]
    by (simp add: retraction_contract_def r claims_snapshot_def left rec')
qed

lemma retract_contract_ok:
  assumes inv: "reg_inv r" and ok: "retract r a c reason clk = Ok (r', out)"
  shows "\<exists>i rec. claims_addressing r c a i rec \<and>
     retraction_contract r a c reason clk i rec r' \<and>
     out = (if left_without rec a = [] then SubjectForgotten i (sr_subject_type rec)
            else AddressingRemoved)"
proof (rule retract_cases [of r a c reason clk])
  fix i rec idx
  assume own: "owned_claim r a c i rec idx"
    and eq: "retract r a c reason clk = Ok (retracted r a c reason clk i rec idx,
       if sr_addressings (without_claim rec idx (clk 0)) = []
       then SubjectForgotten i (sr_subject_type rec) else AddressingRemoved)"
  have "claims_addressing r c a i rec" using claims_addressing_owned [OF inv] own by blast
  with eq ok retracted_contract [OF inv own] show ?thesis
    by (simp only: outcome.inject prod.inject) blast
qed (use ok in auto)

lemma forced_contract_ok:
  assumes inv: "reg_inv r" and ok: "forced_retract_addressing r a tp ap reason clk = Ok (r', out)"
  shows "r' = r \<or> (\<exists>i rec. claims_addressing r tp a i rec \<and>
     retraction_contract r a ap reason clk i rec r')"
proof (rule forced_retract_cases [of r a tp ap reason clk])
  fix i rec idx
  assume own: "owned_claim r a tp i rec idx"
    and eq: "forced_retract_addressing r a tp ap reason clk =
       Ok (retracted r a ap reason clk i rec idx,
         if sr_addressings (without_claim rec idx (clk 0)) = []
         then ForcedSubjectForgotten i (sr_subject_type rec) else ForcedAddressingRemoved i)"
  have "claims_addressing r tp a i rec" using claims_addressing_owned [OF inv] own by blast
  with eq ok retracted_contract [OF inv own] show ?thesis
    by (simp only: outcome.inject prod.inject) blast
qed (use ok in auto)

text \<open>(C4) Retraction succeeds exactly for the plugin that holds the claim, and otherwise
  refuses without touching the registry. On success exactly that addressing stops resolving;
  the subject keeps its other addressings, or, when it was the last one, the subject and its
  state are gone and a tombstone naming the retracting plugin is recorded.\<close>

theorem retract_effect:
  assumes inv: "reg_inv r"
  shows "case retract r a c reason clk of
           Err e \<Rightarrow> \<forall>i rec. \<not> claims_addressing r c a i rec
         | Panic m \<Rightarrow> False
         | Ok (r', out) \<Rightarrow> \<exists>i rec. claims_addressing r c a i rec \<and>
             retraction_contract r a c reason clk i rec r' \<and>
             out = (if left_without rec a = [] then SubjectForgotten i (sr_subject_type rec)
                    else AddressingRemoved)"
proof (cases "retract r a c reason clk")
  case (Ok x)
  obtain r' out where "x = (r', out)" by fastforce
  with Ok retract_contract_ok [OF inv, of a c reason clk r' out] show ?thesis by simp
next
  case (Err e)
  show ?thesis
    by (rule retract_cases [of r a c reason clk])
       (use Err claims_addressing_owned [OF inv] in auto)
next
  case (Panic m)
  show ?thesis by (rule retract_cases [of r a c reason clk]) (use Panic in auto)
qed

theorem retract_effect_witness:
  "reg_inv registry_two \<and>
   (case retract registry_two path_a ''plug.one'' None tick of
      Ok (r', out) \<Rightarrow> out = AddressingRemoved \<and> resolve r' = (resolve registry_two)(path_a := None)
    | _ \<Rightarrow> False)"
proof -
  have "(case retract registry_two path_a ''plug.one'' None tick of
      Ok (r', out) \<Rightarrow> out = AddressingRemoved | _ \<Rightarrow> False)" by code_simp
  with retract_effect [OF registry_two_inv, where a = path_a and c = "''plug.one''"
      and reason = None and clk = tick] registry_two_inv
  show ?thesis by (auto simp: retraction_contract_def split: outcome.splits)
qed

text \<open>An administrator's forced retraction does what the target plugin's own retraction
  would have done, with the administrator named on the tombstone; where the target holds no
  such claim it reports so and changes nothing. It never fails and never panics.\<close>

theorem forced_retract_effect:
  assumes inv: "reg_inv r"
  shows "case forced_retract_addressing r a tp ap reason clk of
           Ok (r', ForcedNotFound) \<Rightarrow>
             r' = r \<and> (\<exists>e. retract r a tp reason clk = Err (Dispatch e))
         | Ok (r', ForcedAddressingRemoved i) \<Rightarrow>
             resolve r a = Some i \<and> retract r a tp reason clk = Ok (r', AddressingRemoved)
         | Ok (r', ForcedSubjectForgotten i ty) \<Rightarrow>
             \<exists>rec s. claims_addressing r tp a i rec \<and> sr_subject_type rec = ty \<and>
               retraction_contract r a ap reason clk i rec r' \<and>
               retract r a tp reason clk = Ok (s, SubjectForgotten i ty)
         | _ \<Rightarrow> False"
proof (rule forced_retract_cases [of r a tp ap reason clk])
  fix i rec idx
  assume own: "owned_claim r a tp i rec idx"
    and eq: "forced_retract_addressing r a tp ap reason clk =
       Ok (retracted r a ap reason clk i rec idx,
         if sr_addressings (without_claim rec idx (clk 0)) = []
         then ForcedSubjectForgotten i (sr_subject_type rec) else ForcedAddressingRemoved i)"
  have ret: "retract r a tp reason clk = Ok (retracted r a tp reason clk i rec idx,
       if sr_addressings (without_claim rec idx (clk 0)) = []
       then SubjectForgotten i (sr_subject_type rec) else AddressingRemoved)"
    using own by (simp add: owned_claim_def retract_def retracted_def Let_def should_forget_drop)
  have same: "retracted r a tp reason clk i rec idx = retracted r a ap reason clk i rec idx"
    if "sr_addressings (without_claim rec idx (clk 0)) \<noteq> []"
    using that by (simp add: retracted_def should_forget_drop)
  have "resolve r a = Some i" using own by (simp add: owned_claim_def resolve_def)
  with eq ret same own retracted_contract(1) [OF inv own, where p = ap and reason = reason and clk = clk]
    claims_addressing_owned [OF inv] show ?thesis by auto
next
  assume "forced_retract_addressing r a tp ap reason clk = Ok (r, ForcedNotFound)"
    and no: "\<nexists>i rec idx. owned_claim r a tp i rec idx"
  moreover have "\<exists>e. retract r a tp reason clk = Err (Dispatch e)"
    by (rule retract_cases [of r a tp reason clk]) (use no in auto)
  ultimately show ?thesis by simp
qed

theorem forced_retract_effect_witness:
  "reg_inv registry_two \<and>
   (case forced_retract_addressing registry_two path_b ''plug.two'' ''admin'' None tick of
      Ok (r', out) \<Rightarrow> out = ForcedSubjectForgotten ''y0'' ''track'' \<and> describe r' ''y0'' = None
    | _ \<Rightarrow> False)"
proof -
  have "(case forced_retract_addressing registry_two path_b ''plug.two'' ''admin'' None tick of
      Ok (r', out) \<Rightarrow> out = ForcedSubjectForgotten ''y0'' ''track'' \<and> describe r' ''y0'' = None
    | _ \<Rightarrow> False)" by code_simp
  with forced_retract_effect [OF registry_two_inv, where a = path_b and tp = "''plug.two''"
      and ap = "''admin''" and reason = None and clk = tick] registry_two_inv
  show ?thesis by (auto split: outcome.splits)
qed

section \<open>Merge and split\<close>

lemma read_maps:
  "resolve r = hm_get (ri_addressings r)" "describe r = hm_get (ri_subjects r)"
  "state_of r = hm_get (ri_states r)" "describe_alias r = hm_get (ri_aliases r)"
  by (auto simp: resolve_def describe_def state_of_def describe_alias_def fun_eq_iff)

lemma resolve_iff:
  assumes "reg_inv r" "describe r i = Some rec"
  shows "resolve r a = Some i \<longleftrightarrow> a \<in> addrs_of rec"
  using assms coherent_iff [of "hm_get (ri_subjects r)" "hm_get (ri_addressings r)"]
  by (simp add: reg_inv_def read_maps)

lemma resolve_SomeE:
  assumes "reg_inv r" "resolve r a = Some i"
  obtains rec where "describe r i = Some rec" "a \<in> addrs_of rec"
proof -
  have "coherent (hm_get (ri_subjects r)) (hm_get (ri_addressings r))"
    using assms(1) by (simp add: reg_inv_def)
  from coherent_iff [OF this, of a i] assms(2) that show ?thesis by (auto simp: read_maps)
qed

text \<open>The effect of an accepted merge of \<open>a\<close> and \<open>b\<close> under the new id \<open>n\<close>.\<close>

definition merge_contract ::
    "'v registry_inner \<Rightarrow> string \<Rightarrow> string \<Rightarrow> string \<Rightarrow> string option \<Rightarrow> string \<Rightarrow> systime
       \<Rightarrow> 'v registry_inner \<Rightarrow> bool" where
  "merge_contract r a b ap reason n t r' \<longleftrightarrow>
     (\<exists>ra rb. describe r a = Some ra \<and> describe r b = Some rb \<and>
        sr_subject_type ra = sr_subject_type rb \<and>
        describe r' = (describe r)(a := None, b := None,
          n \<mapsto> \<lparr>sr_id = n, sr_subject_type = sr_subject_type ra,
               sr_addressings = sr_addressings ra @ sr_addressings rb,
               sr_created_at = t, sr_modified_at = t\<rparr>)) \<and>
     resolve r' = (\<lambda>x. if resolve r x \<in> {Some a, Some b} then Some n else resolve r x) \<and>
     state_of r' = (state_of r)(a := None, b := None) \<and>
     describe_alias r' = (describe_alias r)
       (a \<mapsto> retired_alias a [n] AliasMerged t ap reason,
        b \<mapsto> retired_alias b [n] AliasMerged t ap reason) \<and>
     cr_kind (last (claims_snapshot r')) = CK_Merged [a, b] n"

lemma merge_contract_ok:
  assumes inv: "reg_inv r"
    and ok: "merge_aliases r a b ap reason uid clk = Ok (r', out)"
  shows "merge_contract r a b ap reason (uid 0) (clk 0) r' \<and> a \<noteq> b \<and> mo_new_id out = uid 0"
proof (rule merge_cases [OF inv, of a b ap reason uid clk])
  fix ra rb
  assume S: "a \<noteq> b" "hm_get (ri_subjects r) a = Some ra" "hm_get (ri_subjects r) b = Some rb"
    and ty: "sr_subject_type ra = sr_subject_type rb"
    and eq: "merge_aliases r a b ap reason uid clk = Ok
        (merged_registry r a b ra rb ap reason (uid 0) (clk 0),
         \<lparr>mo_new_id = uid 0,
          mo_addressing_transfers = transfers_of a (uid 0) (sr_addressings ra) @
                                    transfers_of b (uid 0) (sr_addressings rb)\<rparr>)"
  have A: "hm_get (ri_addressings r) x = Some a \<longleftrightarrow> x \<in> addrs_of ra"
    "hm_get (ri_addressings r) x = Some b \<longleftrightarrow> x \<in> addrs_of rb" for x
    using resolve_iff [OF inv] S by (simp_all add: read_maps)
  have r': "r' = merged_registry r a b ra rb ap reason (uid 0) (clk 0)"
    and o: "mo_new_id out = uid 0" using ok eq by auto
  have "merge_contract r a b ap reason (uid 0) (clk 0) r'"
    using S ty A unfolding r' merge_contract_def read_maps claims_snapshot_def
    by (auto simp: merged_registry_def merged_record_def fun_eq_iff image_Un)
  with S o show ?thesis by simp
qed (use ok in auto)

text \<open>(C5) A merge is refused exactly when the ids are equal, one is not live, or the types
  differ; it never panics. An accepted merge retires both sources with alias records to the new
  id, gives the new subject the addressing records of both (each with its claimant and date),
  makes every addressing of either source resolve to the new id and no other addressing change,
  and drops both runtime states.\<close>

theorem merge_effect:
  assumes inv: "reg_inv r"
  shows "case merge_aliases r a b ap reason uid clk of
           Ok (r', out) \<Rightarrow> a \<noteq> b \<and> mo_new_id out = uid 0 \<and>
             merge_contract r a b ap reason (uid 0) (clk 0) r'
         | Err e \<Rightarrow> a = b \<or> describe r a = None \<or> describe r b = None \<or>
             sr_subject_type (the (describe r a)) \<noteq> sr_subject_type (the (describe r b))
         | Panic m \<Rightarrow> False"
proof (cases "merge_aliases r a b ap reason uid clk")
  case (Ok x)
  obtain r' out where "x = (r', out)" by fastforce
  with Ok merge_contract_ok [OF inv, of a b ap reason uid clk r' out] show ?thesis by simp
next
  case (Err e)
  show ?thesis
    by (rule merge_cases [OF inv, of a b ap reason uid clk])
       (use Err in \<open>auto simp: read_maps domIff\<close>)
next
  case (Panic m)
  show ?thesis
    by (rule merge_cases [OF inv, of a b ap reason uid clk]) (use Panic in auto)
qed

theorem merge_effect_witness:
  "reg_inv registry_two \<and>
   (case merge_aliases registry_two ''x0'' ''y0'' ''admin'' None (uid_from CHR ''z'') tick of
      Ok (r', out) \<Rightarrow> mo_new_id out = ''z0'' \<and> resolve r' path_b = Some ''z0'' \<and>
        state_of r' ''x0'' = None
    | _ \<Rightarrow> False)"
proof -
  have "(case merge_aliases registry_two ''x0'' ''y0'' ''admin'' None (uid_from CHR ''z'') tick of
      Ok (r', out) \<Rightarrow> mo_new_id out = ''z0'' \<and> resolve r' path_b = Some ''z0'' | _ \<Rightarrow> False)"
    by code_simp
  with merge_effect [OF registry_two_inv, where a = "''x0''" and b = "''y0''" and ap = "''admin''"
      and reason = None and uid = "uid_from CHR ''z''" and clk = tick] registry_two_inv
  show ?thesis by (auto simp: merge_contract_def split: outcome.splits)
qed

text \<open>A partition the registry accepts: at least two groups, none empty, together listing
  each addressing of the subject exactly once.\<close>

definition valid_partition :: "subject_record \<Rightarrow> external_addressing list list \<Rightarrow> bool" where
  "valid_partition rec groups \<longleftrightarrow> 2 \<le> length groups \<and> [] \<notin> set groups \<and>
     distinct (concat groups) \<and> set (concat groups) = addrs_of rec"

definition split_contract ::
    "'v registry_inner \<Rightarrow> string \<Rightarrow> subject_record \<Rightarrow> external_addressing list list \<Rightarrow> string
       \<Rightarrow> string option \<Rightarrow> uuids \<Rightarrow> systime \<Rightarrow> 'v registry_inner \<Rightarrow> bool" where
  "split_contract r src rec groups ap reason uid t r' \<longleftrightarrow>
     (\<forall>k < length groups. \<exists>ars. map ar_addressing ars = groups ! k \<and>
        set ars \<subseteq> set (sr_addressings rec) \<and>
        describe r' (uid k) = Some \<lparr>sr_id = uid k, sr_subject_type = sr_subject_type rec,
          sr_addressings = ars, sr_created_at = t, sr_modified_at = t\<rparr> \<and>
        (\<forall>a \<in> set (groups ! k). resolve r' a = Some (uid k))) \<and>
     (\<forall>a. resolve r a \<noteq> Some src \<longrightarrow> resolve r' a = resolve r a) \<and>
     describe r' src = None \<and>
     (\<forall>i. i \<noteq> src \<longrightarrow> i \<notin> set (map uid [0..<length groups]) \<longrightarrow> describe r' i = describe r i) \<and>
     state_of r' = (state_of r)(src := None) \<and>
     describe_alias r' = (describe_alias r)
       (src \<mapsto> retired_alias src (map uid [0..<length groups]) AliasSplit t ap reason)"

lemma split_contract_ok:
  assumes inv: "reg_inv r" and fresh: "fresh_ids r uid (length groups)"
    and S: "hm_get (ri_subjects r) src = Some rec" and chk: "split_check rec groups = None"
  shows "split_contract r src rec groups ap reason uid t (split_registry r src rec
     (zip (map uid [0..<length groups]) groups) ap reason t)"
proof -
  let ?zs = "zip (map uid [0..<length groups]) groups"
  let ?r' = "split_registry r src rec ?zs ap reason t"
  note z = split_zip_facts [OF chk fresh]
  note maps = split_registry_maps [OF fresh chk, where src = src and ap = ap and reason = reason and t = t]
  have mem: "(uid k, groups ! k) \<in> set ?zs" if "k < length groups" for k
    using that by (force simp: set_zip)
  have sub: "set (groups ! k) \<subseteq> addrs_of rec" if "k < length groups" for k
    using chk that unfolding split_check_None by (metis UN_upper nth_mem set_concat)
  have nsrc: "uid k \<noteq> src" if "k < length groups" for k
    using z(2) mem [OF that] S by (auto simp: known_ids_def)
  have own: "owner ?zs a = Some (uid k)" if "k < length groups" "a \<in> set (groups ! k)" for a k
    using owner_iff [OF z(4)] mem that by blast
  have rest: "owner ?zs a = None" if "hm_get (ri_addressings r) a \<noteq> Some src" for a
  proof (rule ccontr)
    assume "owner ?zs a \<noteq> None"
    then obtain j g where "(j, g) \<in> set ?zs" "a \<in> set g" using owner_iff [OF z(4)] by blast
    then have "a \<in> \<Union> (set ` snd ` set ?zs)" by (intro UN_I [of g] image_eqI [of _ _ "(j, g)"]) simp_all
    then have "a \<in> addrs_of rec" unfolding z(5) [symmetric] by (simp only: set_concat set_map)
    with that resolve_iff [OF inv] S show False by (simp add: read_maps)
  qed
  have "\<exists>ars. map ar_addressing ars = groups ! k \<and> set ars \<subseteq> set (sr_addressings rec) \<and>
      describe ?r' (uid k) = Some \<lparr>sr_id = uid k, sr_subject_type = sr_subject_type rec,
          sr_addressings = ars, sr_created_at = t, sr_modified_at = t\<rparr> \<and>
      (\<forall>a \<in> set (groups ! k). resolve ?r' a = Some (uid k))" if k: "k < length groups" for k
  proof (intro exI conjI ballI)
    have "map_of ?zs (uid k) = Some (groups ! k)" using mem [OF k] z(1) by simp
    then show "describe ?r' (uid k) = Some \<lparr>sr_id = uid k, sr_subject_type = sr_subject_type rec,
        sr_addressings = group_records rec (groups ! k), sr_created_at = t, sr_modified_at = t\<rparr>"
      unfolding read_maps maps using nsrc [OF k] by (simp add: group_record_def del: map_of_zip_map)
    fix a assume "a \<in> set (groups ! k)"
    then show "resolve ?r' a = Some (uid k)" unfolding read_maps maps using own [OF k] by simp
  qed (use group_records_addr [OF sub [OF k]] group_records_mem [OF sub [OF k]] in simp_all)
  moreover have "resolve ?r' a = resolve r a" if "resolve r a \<noteq> Some src" for a
    using rest [of a] that unfolding read_maps maps by simp
  moreover have "describe ?r' i = describe r i"
    if "i \<noteq> src" "i \<notin> set (map uid [0..<length groups])" for i
  proof -
    have "i \<notin> set (map fst ?zs)" using that(2) by simp
    then have "map_of ?zs i = None" by (simp only: map_of_eq_None_iff set_map not_False_eq_True)
    with that(1) show ?thesis
      unfolding read_maps maps by (simp only: if_False option.case simp_thms)
  qed
  moreover have "describe ?r' src = None" unfolding read_maps maps by simp
  ultimately show ?thesis
    unfolding split_contract_def by (simp add: read_maps split_registry_def)
qed

lemma split_contract_done:
  assumes inv: "reg_inv r" and fresh: "fresh_ids r uid (length groups)"
    and ok: "split_subject r src groups ap reason uid clk = Ok (r', out)"
  shows "so_new_ids out = map uid [0..<length groups] \<and>
    (\<exists>rec. describe r src = Some rec \<and> valid_partition rec groups \<and>
       split_contract r src rec groups ap reason uid (clk 0) r')"
proof (rule split_cases [OF inv, of src groups ap reason uid clk])
  let ?zs = "zip (map uid [0..<length groups]) groups"
  fix rec
  assume S: "hm_get (ri_subjects r) src = Some rec" and chk: "split_check rec groups = None"
    and eq: "split_subject r src groups ap reason uid clk = Ok
         (split_registry r src rec ?zs ap reason (clk 0),
          \<lparr>so_new_ids = map fst ?zs, so_addressing_transfers =
             concat (map (\<lambda>z. transfers_of src (fst z) (group_records rec (snd z))) ?zs)\<rparr>)"
  have "valid_partition rec groups" using chk unfolding split_check_None valid_partition_def .
  with eq ok S split_contract_ok [OF inv fresh S chk] show ?thesis by (auto simp: read_maps)
qed (use ok in auto)

text \<open>(C6) A split is accepted exactly for a live subject and a valid partition of its
  addressings, and it never panics. It creates one subject per group, carrying exactly the
  group's addressing records of the source (claimants and dates kept), each group's addressings
  resolve to its subject, everything else resolves as before, and the source is retired with an
  alias record listing the new ids.\<close>

theorem split_effect:
  assumes inv: "reg_inv r" and fresh: "fresh_ids r uid (length groups)"
  shows "case split_subject r src groups ap reason uid clk of
           Ok (r', out) \<Rightarrow> so_new_ids out = map uid [0..<length groups] \<and>
             (\<exists>rec. describe r src = Some rec \<and> valid_partition rec groups \<and>
                split_contract r src rec groups ap reason uid (clk 0) r')
         | Err e \<Rightarrow> (case describe r src of None \<Rightarrow> True
                      | Some rec \<Rightarrow> \<not> valid_partition rec groups)
         | Panic m \<Rightarrow> False"
proof (rule split_cases [OF inv, of src groups ap reason uid clk])
  fix rec
  assume "split_subject r src groups ap reason uid clk = Ok
         (split_registry r src rec (zip (map uid [0..<length groups]) groups) ap reason (clk 0),
          \<lparr>so_new_ids = map fst (zip (map uid [0..<length groups]) groups), so_addressing_transfers =
             concat (map (\<lambda>z. transfers_of src (fst z) (group_records rec (snd z)))
               (zip (map uid [0..<length groups]) groups))\<rparr>)"
  from split_contract_done [OF inv fresh this] this show ?thesis by simp
next
  fix e
  assume "split_subject r src groups ap reason uid clk = Err e"
    "src \<notin> dom (hm_get (ri_subjects r)) \<or>
       split_check (the (hm_get (ri_subjects r) src)) groups = Some e"
  moreover have "\<not> valid_partition rec groups" if "split_check rec groups = Some e" for rec
    using that split_check_None [of rec groups] by (auto simp only: valid_partition_def)
  ultimately show ?thesis by (auto simp: read_maps domIff split: option.splits)
qed

theorem split_effect_witness:
  "reg_inv registry_two \<and> fresh_ids registry_two (uid_from CHR ''z'') 2 \<and>
   (case split_subject registry_two ''x0'' [[mbid_c], [path_a]] ''admin'' None
           (uid_from CHR ''z'') tick of
      Ok (r', out) \<Rightarrow> so_new_ids out = [''z0'', ''z1''] \<and> resolve r' path_a = Some ''z1'' \<and>
        resolve r' path_b = Some ''y0'' \<and> describe r' ''x0'' = None
    | _ \<Rightarrow> False)"
proof -
  have fresh: "fresh_ids registry_two (uid_from CHR ''z'') 2"
    by (simp add: fresh_ids_def registry_two_ids uid_from_def numeral_2_eq_2)
  have "(case split_subject registry_two ''x0'' [[mbid_c], [path_a]] ''admin'' None
           (uid_from CHR ''z'') tick of
      Ok (r', out) \<Rightarrow> so_new_ids out = [''z0'', ''z1''] \<and> resolve r' path_a = Some ''z1'' \<and>
        resolve r' path_b = Some ''y0''
    | _ \<Rightarrow> False)" by code_simp
  moreover have "length [[mbid_c], [path_a]] = 2" by simp
  ultimately show ?thesis using fresh registry_two_inv
    split_effect [OF registry_two_inv, where src = "''x0''" and groups = "[[mbid_c], [path_a]]"
      and ap = "''admin''" and reason = None and uid = "uid_from CHR ''z''" and clk = tick]
    by (auto simp: numeral_2_eq_2 split_contract_def split: outcome.splits)
qed

section \<open>Ownership: the registry refines a claim ledger\<close>

text \<open>
  The abstract view of the registry is a ledger: which plugin holds the claim on an
  addressing. The ledger only ever grants unclaimed addressings and drops claimed ones;
  merging and splitting subjects are invisible in it.
\<close>

definition ledger :: "'v registry_inner \<Rightarrow> external_addressing \<rightharpoonup> string" where
  "ledger r a = (case resolve r a of None \<Rightarrow> None | Some i \<Rightarrow>
     (case describe r i of None \<Rightarrow> None | Some rec \<Rightarrow>
        map_option ar_claimant (List.find (\<lambda>x. ar_addressing x = a) (sr_addressings rec))))"

inductive ledger_step ::
    "(external_addressing \<rightharpoonup> string) \<Rightarrow> (external_addressing \<rightharpoonup> string) \<Rightarrow> bool" where
  ledger_keep: "ledger_step m m"
| ledger_grant: "U \<inter> dom m = {} \<Longrightarrow> ledger_step m (\<lambda>a. if a \<in> U then Some c else m a)"
| ledger_drop: "m a = Some c \<Longrightarrow> ledger_step m (m(a := None))"

lemma find_distinct:
  assumes "distinct (map f xs)" "x \<in> set xs"
  shows "List.find (\<lambda>y. f y = f x) xs = Some x"
  using assms by (induction xs) (auto simp: image_iff)

lemma ledger_iff:
  assumes inv: "reg_inv r"
  shows "ledger r a = Some c \<longleftrightarrow> (\<exists>i rec. claims_addressing r c a i rec)"
proof
  assume "ledger r a = Some c"
  then obtain i rec x where "resolve r a = Some i" "describe r i = Some rec"
    "List.find (\<lambda>x. ar_addressing x = a) (sr_addressings rec) = Some x" "ar_claimant x = c"
    by (auto simp: ledger_def split: option.splits)
  then show "\<exists>i rec. claims_addressing r c a i rec"
    by (fastforce simp: claims_addressing_def find_Some_iff)
next
  assume "\<exists>i rec. claims_addressing r c a i rec"
  then obtain i rec x where S: "describe r i = Some rec" and x: "x \<in> set (sr_addressings rec)"
    "ar_addressing x = a" "ar_claimant x = c" by (auto simp: claims_addressing_def)
  have "distinct (map ar_addressing (sr_addressings rec))"
    using inv S by (auto simp: reg_inv_def read_maps wf_record_def dest!: coherent_wf)
  from find_distinct [OF this x(1)] x have
    "List.find (\<lambda>y. ar_addressing y = a) (sr_addressings rec) = Some x" by simp
  moreover have "resolve r a = Some i" using resolve_iff [OF inv S] x by blast
  ultimately show "ledger r a = Some c" using S x by (simp add: ledger_def)
qed

lemma ledger_dom:
  assumes inv: "reg_inv r"
  shows "ledger r a = None \<longleftrightarrow> resolve r a = None"
proof -
  have "ledger r a \<noteq> None" if "resolve r a = Some i" for i
  proof -
    obtain rec where "describe r i = Some rec" "a \<in> addrs_of rec"
      using resolve_SomeE [OF inv \<open>resolve r a = Some i\<close>] .
    then have "\<exists>c. claims_addressing r c a i rec" by (auto simp: claims_addressing_def)
    then show ?thesis using ledger_iff [OF inv] by blast
  qed
  then show ?thesis by (cases "resolve r a") (auto simp: ledger_def)
qed

text \<open>Two registries agree on \<open>a\<close> when the holder's record of \<open>a\<close> survives somewhere.\<close>

lemma ledger_keepI:
  assumes "reg_inv r" "reg_inv r'"
    and "\<And>c i rec. claims_addressing r c a i rec \<Longrightarrow> \<exists>j rec'. claims_addressing r' c a j rec'"
    and "resolve r a = None \<Longrightarrow> resolve r' a = None"
  shows "ledger r' a = ledger r a"
proof (cases "ledger r a")
  case None
  then have "resolve r a = None" by (simp only: ledger_dom [OF assms(1)])
  then have "ledger r' a = None" by (simp only: ledger_dom [OF assms(2)] assms(4))
  with None show ?thesis by simp
next
  case (Some c)
  then have "\<exists>j rec'. claims_addressing r' c a j rec'"
    using assms(3) ledger_iff [OF assms(1)] by blast
  with Some ledger_iff [OF assms(2)] show ?thesis by simp
qed

lemma ledger_frame:
  assumes "resolve r' = resolve r" "describe r' = describe r"
  shows "ledger r' = ledger r"
  by (rule ext) (simp only: ledger_def assms)

lemma announce_created_id:
  assumes "announce r ann c uid clk = Ok (r', upd, Created i)"
  shows "i = uid 0"
  using assms
  by (rule announce_OkE) (auto simp: announce_classify_def Let_def split: list.splits if_splits)

lemma announce_ledger:
  assumes inv: "reg_inv r" and new: "fresh_ids r uid 1" and inv': "reg_inv r'"
    and ok: "announce r ann c uid clk = Ok (r', upd, out)"
  shows "ledger_step (ledger r) (ledger r')"
proof -
  have con: "announce_contract r ann c (clk 0) r' out" by (rule announce_contract_ok [OF inv ok])
  have u0: "describe r (uid 0) = None" using new by (auto simp: fresh_ids_def known_ids_def read_maps)
  let ?U = "{a \<in> set (an_addressings ann). resolve r a = None}"
  have grant: "ledger_step (ledger r) (\<lambda>a. if a \<in> ?U then Some c else ledger r a)"
    by (rule ledger_grant) (simp only: disjoint_iff domIff ledger_dom [OF inv] mem_Collect_eq; simp)
  show ?thesis
  proof (cases out)
    case (Created i)
    have i: "i = uid 0"
      using announce_created_id ok Created by blast
    have "ledger r' a = (if a \<in> ?U then Some c else ledger r a)" for a
    proof (cases "a \<in> ?U")
      case True
      then have "\<exists>rec. claims_addressing r' c a i rec"
        using con Created by (auto simp: claims_addressing_def new_addressing_record_def image_iff)
      with True show ?thesis using ledger_iff [OF inv'] by auto
    next
      case False
      have "ledger r' a = ledger r a"
      proof (rule ledger_keepI [OF inv inv'])
        fix d j rec1 assume "claims_addressing r d a j rec1"
        then have "claims_addressing r' d a j rec1"
          using con Created i u0 by (auto simp: claims_addressing_def)
        then show "\<exists>j rec'. claims_addressing r' d a j rec'" by blast
      qed (use con Created False in auto)
      with False show ?thesis by (simp only: if_False)
    qed
    then have "ledger r' = (\<lambda>a. if a \<in> ?U then Some c else ledger r a)" by (rule ext)
    with grant show ?thesis by (simp only:)
  next
    case (Updated i)
    then obtain rec where rec: "describe r i = Some rec"
      "describe r' = (describe r)(i \<mapsto> rec\<lparr>sr_addressings := sr_addressings rec @
           map (new_addressing_record c (clk 0))
             (filter (\<lambda>a. resolve r a = None) (an_addressings ann)), sr_modified_at := clk 0\<rparr>)"
      using con by auto
    have "ledger r' a = (if a \<in> ?U then Some c else ledger r a)" for a
    proof (cases "a \<in> ?U")
      case True
      then have "\<exists>rec. claims_addressing r' c a i rec"
        using rec by (auto simp: claims_addressing_def new_addressing_record_def bex_Un)
      with True show ?thesis using ledger_iff [OF inv'] by auto
    next
      case False
      have "ledger r' a = ledger r a"
      proof (rule ledger_keepI [OF inv inv'])
        fix d j rec1 assume "claims_addressing r d a j rec1"
        then show "\<exists>j rec'. claims_addressing r' d a j rec'"
          using rec by (cases "j = i") (auto simp: claims_addressing_def intro!: exI [of _ j])
      qed (use con Updated False in auto)
      with False show ?thesis by (simp only: if_False)
    qed
    then have "ledger r' = (\<lambda>a. if a \<in> ?U then Some c else ledger r a)" by (rule ext)
    with grant show ?thesis by (simp only:)
  next
    case (NoChange i)
    with con have "ledger r' = ledger r" by (intro ledger_frame) simp_all
    then show ?thesis by (simp add: ledger_keep)
  next
    case (Conflict ids)
    with con have "ledger r' = ledger r" by (intro ledger_frame) simp_all
    then show ?thesis by (simp add: ledger_keep)
  qed
qed

lemma retraction_ledger:
  assumes inv: "reg_inv r" and inv': "reg_inv r'" and cl: "claims_addressing r c a i rec"
    and con: "retraction_contract r a p reason clk i rec r'"
  shows "ledger_step (ledger r) (ledger r')"
proof -
  have S: "describe r i = Some rec" using cl by (simp add: claims_addressing_def)
  have "ledger r' b = ((ledger r)(a := None)) b" for b
  proof (cases "b = a")
    case True
    then show ?thesis using con ledger_dom [OF inv'] by (simp add: retraction_contract_def)
  next
    case False
    have "ledger r' b = ledger r b"
    proof (rule ledger_keepI [OF inv inv'])
      fix d j rec1 assume h: "claims_addressing r d b j rec1"
      show "\<exists>j rec'. claims_addressing r' d b j rec'"
      proof (cases "j = i")
        case True
        with h S obtain x where x: "x \<in> set (left_without rec a)" "ar_addressing x = b"
          "ar_claimant x = d" using \<open>b \<noteq> a\<close> by (auto simp: claims_addressing_def left_without_def)
        then have "left_without rec a \<noteq> []" by auto
        with con have "describe r' i = Some (rec\<lparr>sr_addressings := left_without rec a,
            sr_modified_at := clk 0\<rparr>)" by (simp add: retraction_contract_def)
        with x have "claims_addressing r' d b i (rec\<lparr>sr_addressings := left_without rec a,
            sr_modified_at := clk 0\<rparr>)" by (auto simp: claims_addressing_def)
        then show ?thesis by blast
      next
        case False
        with con have "describe r' j = describe r j"
          by (simp add: retraction_contract_def split: if_splits)
        with h show ?thesis by (auto simp: claims_addressing_def)
      qed
    qed (use con False in \<open>simp add: retraction_contract_def\<close>)
    with False show ?thesis by simp
  qed
  then have "ledger r' = (ledger r)(a := None)" by blast
  moreover have "ledger r a = Some c" using cl ledger_iff [OF inv] by blast
  ultimately show ?thesis by (metis ledger_drop)
qed

lemma merge_ledger:
  assumes inv: "reg_inv r" and inv': "reg_inv r'" and new: "fresh_ids r uid 1"
    and ok: "merge_aliases r a b ap reason uid clk = Ok (r', out)"
  shows "ledger r' = ledger r"
proof
  fix x
  have con: "merge_contract r a b ap reason (uid 0) (clk 0) r'"
    using merge_contract_ok [OF inv ok] by blast
  then obtain ra rb where S: "describe r a = Some ra" "describe r b = Some rb"
    and d: "describe r' = (describe r)(a := None, b := None,
          uid 0 \<mapsto> \<lparr>sr_id = uid 0, sr_subject_type = sr_subject_type ra,
               sr_addressings = sr_addressings ra @ sr_addressings rb,
               sr_created_at = clk 0, sr_modified_at = clk 0\<rparr>)"
    unfolding merge_contract_def by blast
  have u0: "describe r (uid 0) = None" using new by (auto simp: fresh_ids_def known_ids_def read_maps)
  show "ledger r' x = ledger r x"
  proof (rule ledger_keepI [OF inv inv'])
    fix c i rec assume h: "claims_addressing r c x i rec"
    consider "i = a" | "i = b" | "i \<noteq> a" "i \<noteq> b" by blast
    then show "\<exists>j rec'. claims_addressing r' c x j rec'"
    proof cases
      case 3
      with h d u0 have "describe r' i = describe r i" by (auto simp: claims_addressing_def)
      with h show ?thesis by (auto simp: claims_addressing_def)
    qed (use h S d in \<open>auto simp: claims_addressing_def intro!: exI [of _ "uid 0"]\<close>)
  qed (use con in \<open>simp add: merge_contract_def\<close>)
qed

lemma split_ledger:
  assumes inv: "reg_inv r" and inv': "reg_inv r'" and new: "fresh_ids r uid (length groups)"
    and ok: "split_subject r src groups ap reason uid clk = Ok (r', out)"
  shows "ledger r' = ledger r"
proof
  fix x
  obtain rec where S: "describe r src = Some rec" and part: "valid_partition rec groups"
    and con: "split_contract r src rec groups ap reason uid (clk 0) r'"
    using split_contract_done [OF inv new ok] by blast
  have dist: "distinct (map ar_addressing (sr_addressings rec))"
    using inv S by (auto simp: reg_inv_def read_maps wf_record_def dest!: coherent_wf)
  show "ledger r' x = ledger r x"
  proof (rule ledger_keepI [OF inv inv'])
    fix c i rec1 assume h: "claims_addressing r c x i rec1"
    show "\<exists>j rec'. claims_addressing r' c x j rec'"
    proof (cases "i = src")
      case True
      with h S obtain y where y: "y \<in> set (sr_addressings rec)" "ar_addressing y = x"
        "ar_claimant y = c" by (auto simp: claims_addressing_def)
      then have "x \<in> set (concat groups)" using part by (simp only: valid_partition_def) blast
      then obtain k where k: "k < length groups" "x \<in> set (groups ! k)"
        by (metis UN_E in_set_conv_nth set_concat)
      then obtain ars where ars: "map ar_addressing ars = groups ! k"
        "set ars \<subseteq> set (sr_addressings rec)" "describe r' (uid k) = Some
          \<lparr>sr_id = uid k, sr_subject_type = sr_subject_type rec,
           sr_addressings = ars, sr_created_at = clk 0, sr_modified_at = clk 0\<rparr>"
        using con unfolding split_contract_def by metis
      from ars(1) k(2) obtain w where w: "w \<in> set ars" "ar_addressing w = x" by (metis imageE list.set_map)
      with ars(2) y dist have "w = y" by (auto simp: distinct_map dest: inj_onD)
      with w ars(3) y(3) have "claims_addressing r' c x (uid k)
          \<lparr>sr_id = uid k, sr_subject_type = sr_subject_type rec,
           sr_addressings = ars, sr_created_at = clk 0, sr_modified_at = clk 0\<rparr>"
        by (auto simp: claims_addressing_def)
      then show ?thesis by blast
    next
      case False
      have "i \<notin> set (map uid [0..<length groups])"
        using h new by (auto simp: claims_addressing_def fresh_ids_def known_ids_def read_maps)
      with False con have "describe r' i = describe r i" unfolding split_contract_def by blast
      with h show ?thesis by (auto simp: claims_addressing_def)
    qed
  next
    assume "resolve r x = None"
    then show "resolve r' x = None" using con unfolding split_contract_def by simp
  qed
qed



section \<open>A repeated addressing\<close>

definition dup_ann :: "nat subject_announcement" where
  "dup_ann = track_ann [path_a, path_a] None"

definition registry_dup :: "nat registry_inner" where
  "registry_dup = ok_state (announce empty_registry_inner dup_ann ''plug.one''
     (uid_from CHR ''x'') tick)"


text \<open>A claim moves. One plugin announces an addressing twice beside another one and retracts it,
  which leaves a record that does not resolve; a second plugin then claims the free addressing;
  when an administrator merges the two subjects, the first plugin's record comes first in the
  merged list, and the claim of the second plugin has passed to the first.\<close>

theorem duplicate_claim_moves:
  "case announce empty_registry_inner (track_ann [path_a, path_a, mbid_c] None) ''plug.one''
      (uid_from CHR ''x'') tick of
     Ok (r1, _) \<Rightarrow>
       (case retract r1 path_a ''plug.one'' None tick of
          Ok (r2, _) \<Rightarrow>
            (case announce r2 (track_ann [path_a] (None :: nat option)) ''plug.two''
                (uid_from CHR ''y'') tick of
               Ok (r3, _) \<Rightarrow>
                 (case merge_aliases r3 ''x0'' ''y0'' ''admin'' None (uid_from CHR ''z'') tick of
                    Ok (r4, _) \<Rightarrow> ledger r3 path_a = Some ''plug.two'' \<and>
                      ledger r4 path_a = Some ''plug.one''
                  | _ \<Rightarrow> False)
             | _ \<Rightarrow> False)
        | _ \<Rightarrow> False)
   | _ \<Rightarrow> False"
  by code_simp

section \<open>Interest counters\<close>

text \<open>The per-type subscription counter: an increment followed by a decrement restores
  it unless it had saturated; the increment never wraps (it stays at the largest \<open>u32\<close>) and
  the decrement never goes below zero; counters of other types are untouched.\<close>

theorem interest_counter:
  "unat (interest_count (fst (increment_interest mk g ty uid clk)) ty) =
     min (unat (interest_count g ty) + 1) (2 ^ 32 - 1) \<and>
   unat (interest_count (fst (decrement_interest mk g ty uid clk)) ty) =
     unat (interest_count g ty) - 1 \<and>
   (interest_count g ty \<noteq> - 1 \<longrightarrow>
     interest_count (fst (decrement_interest mk (fst (increment_interest mk g ty uid clk)) ty
       uid' clk')) ty = interest_count g ty) \<and>
   (\<forall>ty'. ty' \<noteq> ty \<longrightarrow>
     interest_count (fst (increment_interest mk g ty uid clk)) ty' = interest_count g ty' \<and>
     interest_count (fst (decrement_interest mk g ty uid clk)) ty' = interest_count g ty')"
  by (auto simp: interest_count_def increment_interest_def decrement_interest_def Let_def
      unat_sat_inc unat_sat_dec sat_dec_inc split: prod.splits option.splits)

theorem interest_counter_witness:
  "interest_count (fst (decrement_interest (\<lambda>_ _ _. 0 :: nat)
     (fst (increment_interest (\<lambda>_ _ _. 0) new_subject_registry ''track'' (uid_from CHR ''x'') tick))
     ''track'' (uid_from CHR ''y'') tick)) ''track'' = 0"
proof -
  have z: "interest_count (new_subject_registry :: nat subject_registry) ''track'' = 0"
    by (simp add: interest_count_def new_subject_registry_def)
  with interest_counter [where g = "new_subject_registry :: nat subject_registry"
      and ty = "''track''" and mk = "\<lambda>_ _ _. 0" and uid = "uid_from CHR ''x''" and clk = tick
      and uid' = "uid_from CHR ''y''" and clk' = tick]
  show ?thesis by simp
qed

text \<open>The interest bookkeeping keeps the registry invariant: it only announces one addressing
  under a framework claimant and updates that subject's state.\<close>

lemma publish_interest_inv:
  assumes inv: "reg_inv r" and fresh: "fresh_ids r uid 1"
  shows "reg_inv (fst (publish_interest_state mk r ty count uid clk))"
proof -
  let ?a = "interest_addressing ty"
  let ?ann = "\<lparr>an_subject_type = ''system_subscription_interest'', an_addressings = [?a],
    an_claims = [], an_state = None, an_announced_at = clk 0\<rparr> :: 'a subject_announcement"
  have ann: "reg_inv r1"
    if "announce r ?ann ''framework.system'' uid (\<lambda>i. clk (Suc i)) = Ok (r1, u, out)" for r1 u out
    by (rule announce_inv [OF inv _ fresh that]) simp
  show ?thesis
    using inv by (auto simp: publish_interest_state_def Let_def split: option.splits outcome.splits
        dest: ann update_state_inv)
qed

end
