(* ===== verification/Relations.thy ===== *)
theory Relations
  imports Evo_Prelude
begin

text \<open>
  The relation graph (\<open>crates/evo/src/relations.rs\<close>): directed, multi-claimant edges
  between canonical subject ids, with forward and inverse neighbour indices from which
  suppressed edges are absent.

  State: \<open>graph_inner\<close> is the record under the graph's mutex. Each method is one
  definition on it; \<open>clk i\<close> is the \<open>i\<close>-th \<open>SystemTime::now()\<close> of the call. The loops of
  \<open>rewrite_subject_to\<close> and \<open>split_relations\<close> have the same body up to where an edge goes
  and which report is kept, so both are \<open>move_edges\<close> here, with the reports read off its log.
\<close>

section \<open>Data\<close>

record relation_key =
  rk_source_id :: string
  rk_predicate :: string
  rk_target_id :: string

definition mk_key :: "string \<Rightarrow> string \<Rightarrow> string \<Rightarrow> relation_key" where
  "mk_key source_id predicate target_id =
     \<lparr>rk_source_id = source_id, rk_predicate = predicate, rk_target_id = target_id\<rparr>"

record relation_claim =
  rc_claimant :: string
  rc_asserted_at :: systime
  rc_reason :: "string option"

record suppression_record =
  sp_admin_plugin :: string
  sp_suppressed_at :: systime
  sp_reason :: "string option"

record relation_record =
  rr_key :: relation_key
  rr_created_at :: systime
  rr_modified_at :: systime
  rr_claims :: "relation_claim list"
  rr_suppression :: "suppression_record option"

type_synonym neighbour_index = "(string \<times> string, string hset) hmap"

record graph_inner =
  gi_relations :: "(relation_key, relation_record) hmap"
  gi_forward :: neighbour_index
  gi_inverse :: neighbour_index

datatype assert_outcome = RelCreated | RelClaimantAdded | RelNoChange

datatype relation_retract_outcome = RelClaimRemoved | RelRelationForgotten

datatype forced_retract_claim_outcome =
    FrcClaimRemoved | FrcRelationForgotten | FrcNotFound

datatype suppress_outcome =
    NewlySuppressed | AlreadySuppressed
  | ReasonUpdated "string option" "string option" | SuppressNotFound

datatype unsuppress_outcome = Unsuppressed | NotSuppressed | UnsuppressNotFound

record resolved_split_assignment =
  sa_source_id :: string
  sa_predicate :: string
  sa_target_id :: string
  sa_target_new_id :: string

record ambiguous_edge =
  ae_source_subject :: string
  ae_predicate :: string
  ae_other_endpoint_id :: string
  ae_candidate_new_ids :: "string list"

record edge_rewrite =
  er_old_key :: relation_key
  er_new_key :: relation_key
  er_claims :: "relation_claim list"

record claim_union =
  cu_surviving_key :: relation_key
  cu_absorbed_claimants :: "relation_claim list"

record suppression_collapse =
  sc_surviving_key :: relation_key
  sc_demoted_claimants :: "relation_claim list"
  sc_surviving_suppression :: suppression_record

record split_relations_outcome =
  sro_ambiguous :: "ambiguous_edge list"
  sro_rewrites :: "edge_rewrite list"
  sro_claim_unions :: "claim_union list"

record rewrite_subject_outcome =
  rso_rewrites :: "edge_rewrite list"
  rso_claim_unions :: "claim_union list"
  rso_suppression_collapses :: "suppression_collapse list"

datatype split_relation_strategy = ToBoth | ToFirst | Explicit

datatype walk_direction = WalkForward | WalkInverse | WalkBoth

record walk_scope =
  ws_predicates :: "string hset"
  ws_direction :: walk_direction
  ws_max_depth :: nat
  ws_max_visits :: nat

definition new_walk_scope :: walk_scope where
  "new_walk_scope = \<lparr>ws_predicates = [], ws_direction = WalkForward,
     ws_max_depth = 2 ^ 64 - 1, ws_max_visits = 1000\<rparr>"

definition with_predicates :: "walk_scope \<Rightarrow> string list \<Rightarrow> walk_scope" where
  "with_predicates sc ps = sc\<lparr>ws_predicates := fold hs_insert ps (ws_predicates sc)\<rparr>"

record visit_record =
  vr_canonical_id :: string
  vr_depth :: nat
  vr_arrived_via :: "string option"

record walk_result =
  wr_visited :: "visit_record list"
  wr_truncated :: bool

definition new_graph :: graph_inner where
  "new_graph = \<lparr>gi_relations = [], gi_forward = [], gi_inverse = []\<rparr>"

section \<open>Neighbour indices\<close>

text \<open>\<open>get(&bucket)\<close> read as a set, \<open>entry(bucket).or_default().insert(x)\<close>, and the removal
  that drops an emptied bucket.\<close>

definition bucket :: "('b, 'x hset) hmap \<Rightarrow> 'b \<Rightarrow> 'x hset" where
  "bucket ix b = (case hm_get ix b of None \<Rightarrow> [] | Some xs \<Rightarrow> xs)"

definition index_add :: "'b \<Rightarrow> 'x \<Rightarrow> ('b, 'x hset) hmap \<Rightarrow> ('b, 'x hset) hmap" where
  "index_add b x ix = hm_insert b (hs_insert x (bucket ix b)) ix"

definition index_del :: "'b \<Rightarrow> 'x \<Rightarrow> ('b, 'x hset) hmap \<Rightarrow> ('b, 'x hset) hmap" where
  "index_del b x ix = (case hm_get ix b of
      None \<Rightarrow> ix
    | Some xs \<Rightarrow> let ys = hs_remove x xs
                 in if ys = [] then hm_remove b ix else hm_insert b ys ix)"

definition index_key :: "relation_key \<Rightarrow> graph_inner \<Rightarrow> graph_inner" where
  "index_key k g = g\<lparr>
     gi_forward := index_add (rk_source_id k, rk_predicate k) (rk_target_id k) (gi_forward g),
     gi_inverse := index_add (rk_target_id k, rk_predicate k) (rk_source_id k) (gi_inverse g)\<rparr>"

definition unindex_key :: "relation_key \<Rightarrow> graph_inner \<Rightarrow> graph_inner" where
  "unindex_key k g = g\<lparr>
     gi_forward := index_del (rk_source_id k, rk_predicate k) (rk_target_id k) (gi_forward g),
     gi_inverse := index_del (rk_target_id k, rk_predicate k) (rk_source_id k) (gi_inverse g)\<rparr>"

section \<open>Reads\<close>

definition relation_count :: "graph_inner \<Rightarrow> nat" where
  "relation_count g = length (gi_relations g)"

definition relation_claim_count :: "graph_inner \<Rightarrow> nat" where
  "relation_claim_count g = sum_list (map (\<lambda>kv. length (rr_claims (snd kv))) (gi_relations g))"

definition snapshot_relations :: "graph_inner \<Rightarrow> relation_record list" where
  "snapshot_relations g = map snd (gi_relations g)"

definition relation_exists :: "graph_inner \<Rightarrow> string \<Rightarrow> string \<Rightarrow> string \<Rightarrow> bool" where
  "relation_exists g source_id predicate target_id =
     hm_contains (gi_relations g) (mk_key source_id predicate target_id)"

definition forward_count :: "graph_inner \<Rightarrow> string \<Rightarrow> string \<Rightarrow> nat" where
  "forward_count g source_id predicate =
     (case hm_get (gi_forward g) (source_id, predicate) of None \<Rightarrow> 0 | Some xs \<Rightarrow> length xs)"

definition inverse_count :: "graph_inner \<Rightarrow> string \<Rightarrow> string \<Rightarrow> nat" where
  "inverse_count g target_id predicate =
     (case hm_get (gi_inverse g) (target_id, predicate) of None \<Rightarrow> 0 | Some xs \<Rightarrow> length xs)"

definition describe_relation ::
    "graph_inner \<Rightarrow> string \<Rightarrow> string \<Rightarrow> string \<Rightarrow> relation_record option" where
  "describe_relation g source_id predicate target_id =
     hm_get (gi_relations g) (mk_key source_id predicate target_id)"

definition is_suppressed :: "graph_inner \<Rightarrow> string \<Rightarrow> string \<Rightarrow> string \<Rightarrow> bool" where
  "is_suppressed g source_id predicate target_id =
     (case hm_get (gi_relations g) (mk_key source_id predicate target_id) of
        None \<Rightarrow> False | Some record \<Rightarrow> rr_suppression record \<noteq> None)"

definition follows_forward :: "walk_direction \<Rightarrow> bool" where
  "follows_forward d \<longleftrightarrow> d = WalkForward \<or> d = WalkBoth"

definition follows_inverse :: "walk_direction \<Rightarrow> bool" where
  "follows_inverse d \<longleftrightarrow> d = WalkInverse \<or> d = WalkBoth"

definition neighbours ::
    "graph_inner \<Rightarrow> string \<Rightarrow> string \<Rightarrow> walk_direction \<Rightarrow> string list" where
  "neighbours g subject_id predicate d =
     (let out1 = (if follows_forward d
                  then fold hs_insert (bucket (gi_forward g) (subject_id, predicate)) [] else []);
          out2 = (if follows_inverse d
                  then fold hs_insert (bucket (gi_inverse g) (subject_id, predicate)) out1 else out1)
      in sort out2)"

section \<open>Assert and retract\<close>

definition rel_assert ::
    "graph_inner \<Rightarrow> string \<Rightarrow> string \<Rightarrow> string \<Rightarrow> string \<Rightarrow> string option \<Rightarrow> (nat \<Rightarrow> systime)
       \<Rightarrow> (graph_inner \<times> assert_outcome) outcome" where
  "rel_assert g source_id predicate target_id claimant reason clk =
     (if source_id = [] \<or> predicate = [] \<or> target_id = [] then
        Err (Dispatch ''assert: empty source, predicate, or target'')
      else
        let now = clk 0; key = mk_key source_id predicate target_id;
            claim = \<lparr>rc_claimant = claimant, rc_asserted_at = now, rc_reason = reason\<rparr>
        in case hm_get (gi_relations g) key of
             Some record \<Rightarrow>
               if \<exists>c \<in> set (rr_claims record). rc_claimant c = claimant then Ok (g, RelNoChange)
               else Ok (g\<lparr>gi_relations := hm_insert key
                            (record\<lparr>rr_claims := rr_claims record @ [claim],
                                    rr_modified_at := now\<rparr>) (gi_relations g)\<rparr>,
                        RelClaimantAdded)
           | None \<Rightarrow>
               Ok (index_key key (g\<lparr>gi_relations := hm_insert key
                     \<lparr>rr_key = key, rr_created_at = now, rr_modified_at = now,
                      rr_claims = [claim], rr_suppression = None\<rparr> (gi_relations g)\<rparr>),
                   RelCreated))"

text \<open>Dropping the claim at \<open>idx\<close>; the flag says that none is left and the relation is gone.\<close>

definition drop_rel_claim ::
    "graph_inner \<Rightarrow> relation_key \<Rightarrow> relation_record \<Rightarrow> nat \<Rightarrow> systime \<Rightarrow> graph_inner \<times> bool" where
  "drop_rel_claim g key record idx now =
     (let record' = record\<lparr>rr_claims := vec_remove idx (rr_claims record), rr_modified_at := now\<rparr>
      in if rr_claims record' = [] then
           (unindex_key key (g\<lparr>gi_relations := hm_remove key (gi_relations g)\<rparr>), True)
         else (g\<lparr>gi_relations := hm_insert key record' (gi_relations g)\<rparr>, False))"

definition triple_display :: "string \<Rightarrow> string \<Rightarrow> string \<Rightarrow> string" where
  "triple_display s p t = ''('' @ s @ '', '' @ p @ '', '' @ t @ '')''"

definition rel_retract ::
    "graph_inner \<Rightarrow> string \<Rightarrow> string \<Rightarrow> string \<Rightarrow> string \<Rightarrow> (nat \<Rightarrow> systime)
       \<Rightarrow> (graph_inner \<times> relation_retract_outcome) outcome" where
  "rel_retract g source_id predicate target_id claimant clk =
     (let key = mk_key source_id predicate target_id
      in case hm_get (gi_relations g) key of
           None \<Rightarrow> Err (Dispatch (''retract: relation '' @
                     triple_display source_id predicate target_id @ '' does not exist''))
         | Some record \<Rightarrow>
        (case position (\<lambda>c. rc_claimant c = claimant) (rr_claims record) of
           None \<Rightarrow> Err (Dispatch (''retract: plugin '' @ claimant @ '' did not claim '' @
                     triple_display source_id predicate target_id))
         | Some idx \<Rightarrow>
             let (g', gone) = drop_rel_claim g key record idx (clk 0)
             in Ok (g', if gone then RelRelationForgotten else RelClaimRemoved)))"

definition forced_retract_claim ::
    "graph_inner \<Rightarrow> string \<Rightarrow> string \<Rightarrow> string \<Rightarrow> string \<Rightarrow> (nat \<Rightarrow> systime)
       \<Rightarrow> (graph_inner \<times> forced_retract_claim_outcome) outcome" where
  "forced_retract_claim g source_id predicate target_id target_plugin clk =
     (let key = mk_key source_id predicate target_id
      in case hm_get (gi_relations g) key of
           None \<Rightarrow> Ok (g, FrcNotFound)
         | Some record \<Rightarrow>
        (case position (\<lambda>c. rc_claimant c = target_plugin) (rr_claims record) of
           None \<Rightarrow> Ok (g, FrcNotFound)
         | Some idx \<Rightarrow>
             let (g', gone) = drop_rel_claim g key record idx (clk 0)
             in Ok (g', if gone then FrcRelationForgotten else FrcClaimRemoved)))"

definition touches :: "string \<Rightarrow> relation_key \<Rightarrow> bool" where
  "touches i k \<longleftrightarrow> rk_source_id k = i \<or> rk_target_id k = i"

definition keys_touching :: "graph_inner \<Rightarrow> string \<Rightarrow> relation_key list" where
  "keys_touching g i = filter (touches i) (hm_keys (gi_relations g))"

definition remove_relation :: "relation_key \<Rightarrow> graph_inner \<Rightarrow> graph_inner" where
  "remove_relation k g = unindex_key k (g\<lparr>gi_relations := hm_remove k (gi_relations g)\<rparr>)"

definition forget_all_touching :: "graph_inner \<Rightarrow> string \<Rightarrow> graph_inner \<times> relation_key list" where
  "forget_all_touching g subject_id =
     (let to_remove = keys_touching g subject_id
      in (fold remove_relation to_remove g, to_remove))"

section \<open>Suppression\<close>

definition suppress ::
    "graph_inner \<Rightarrow> string \<Rightarrow> string \<Rightarrow> string \<Rightarrow> string \<Rightarrow> string option \<Rightarrow> (nat \<Rightarrow> systime)
       \<Rightarrow> (graph_inner \<times> suppress_outcome) outcome" where
  "suppress g source_id predicate target_id admin_plugin reason clk =
     (let key = mk_key source_id predicate target_id; now = clk 0
      in case hm_get (gi_relations g) key of
           None \<Rightarrow> Ok (g, SuppressNotFound)
         | Some record \<Rightarrow>
        (case rr_suppression record of
           Some existing \<Rightarrow>
             if sp_reason existing = reason then Ok (g, AlreadySuppressed)
             else Ok (g\<lparr>gi_relations := hm_insert key
                        (record\<lparr>rr_suppression := Some (existing\<lparr>sp_reason := reason\<rparr>),
                                rr_modified_at := now\<rparr>) (gi_relations g)\<rparr>,
                      ReasonUpdated (sp_reason existing) reason)
         | None \<Rightarrow>
             Ok (unindex_key key (g\<lparr>gi_relations := hm_insert key
                   (record\<lparr>rr_suppression := Some \<lparr>sp_admin_plugin = admin_plugin,
                             sp_suppressed_at = now, sp_reason = reason\<rparr>,
                           rr_modified_at := now\<rparr>) (gi_relations g)\<rparr>),
                 NewlySuppressed)))"

definition unsuppress ::
    "graph_inner \<Rightarrow> string \<Rightarrow> string \<Rightarrow> string \<Rightarrow> (nat \<Rightarrow> systime)
       \<Rightarrow> (graph_inner \<times> unsuppress_outcome) outcome" where
  "unsuppress g source_id predicate target_id clk =
     (let key = mk_key source_id predicate target_id
      in case hm_get (gi_relations g) key of
           None \<Rightarrow> Ok (g, UnsuppressNotFound)
         | Some record \<Rightarrow>
             if rr_suppression record = None then Ok (g, NotSuppressed)
             else Ok (index_key key (g\<lparr>gi_relations := hm_insert key
                        (record\<lparr>rr_suppression := None, rr_modified_at := clk 0\<rparr>)
                        (gi_relations g)\<rparr>), Unsuppressed))"

section \<open>The merge and split cascades\<close>

text \<open>Claim-set union: claimants already present are skipped; the second component lists
  what was transferred.\<close>

fun absorb_claims ::
    "relation_claim list \<Rightarrow> relation_claim list \<Rightarrow> relation_claim list \<times> relation_claim list" where
  "absorb_claims existing [] = (existing, [])"
| "absorb_claims existing (c # cs) =
     (if \<exists>d \<in> set existing. rc_claimant d = rc_claimant c then absorb_claims existing cs
      else let (merged, transferred) = absorb_claims (existing @ [c]) cs
           in (merged, c # transferred))"

text \<open>One output edge: \<open>None\<close> is reported when the key was free, otherwise the transferred
  claims and the surviving record's suppression marker.\<close>

type_synonym carry_report =
  "relation_key \<times> (relation_claim list \<times> suppression_record option) option"

definition carry_edge ::
    "relation_record \<Rightarrow> relation_key \<Rightarrow> systime \<Rightarrow> graph_inner \<Rightarrow> graph_inner \<times> carry_report" where
  "carry_edge record new_key now g =
     (case hm_get (gi_relations g) new_key of
        Some existing \<Rightarrow>
          let (merged, transferred) = absorb_claims (rr_claims existing) (rr_claims record)
          in (g\<lparr>gi_relations := hm_insert new_key
                 (existing\<lparr>rr_claims := merged, rr_modified_at := now\<rparr>) (gi_relations g)\<rparr>,
              (new_key, Some (transferred, rr_suppression existing)))
      | None \<Rightarrow>
          let g' = g\<lparr>gi_relations := hm_insert new_key
                 \<lparr>rr_key = new_key, rr_created_at = rr_created_at record, rr_modified_at = now,
                  rr_claims = rr_claims record, rr_suppression = rr_suppression record\<rparr>
                 (gi_relations g)\<rparr>
          in (if rr_suppression record = None then index_key new_key g' else g', (new_key, None)))"

fun carry_edges ::
    "relation_record \<Rightarrow> (nat \<Rightarrow> systime) \<Rightarrow> nat \<Rightarrow> relation_key list \<Rightarrow> graph_inner
       \<Rightarrow> graph_inner \<times> carry_report list" where
  "carry_edges record clk n [] g = (g, [])"
| "carry_edges record clk n (k # ks) g =
     (let (g1, rep) = carry_edge record k (clk n) g;
          (g2, reps) = carry_edges record clk (Suc n) ks g1
      in (g2, rep # reps))"

text \<open>The cascade loop: every collected key is taken out of the graph and carried over to the
  keys \<open>dest\<close> gives it. A collected key that is gone would be the \<open>expect\<close> of the source.\<close>

fun move_edges ::
    "(relation_key \<Rightarrow> relation_key list) \<Rightarrow> (nat \<Rightarrow> systime) \<Rightarrow> nat \<Rightarrow> relation_key list
       \<Rightarrow> graph_inner
       \<Rightarrow> (graph_inner \<times> (relation_key \<times> relation_record \<times> carry_report list) list) outcome" where
  "move_edges dest clk n [] g = Ok (g, [])"
| "move_edges dest clk n (k # ks) g =
     (case hm_get (gi_relations g) k of
        None \<Rightarrow> Panic ''key just collected from the map''
      | Some record \<Rightarrow>
          let (g1, reps) = carry_edges record clk n (dest k) (remove_relation k g)
          in case move_edges dest clk (n + length (dest k)) ks g1 of
               Ok (g2, log) \<Rightarrow> Ok (g2, (k, record, reps) # log)
             | Err e \<Rightarrow> Err e
             | Panic m \<Rightarrow> Panic m)"

text \<open>The reports kept of the log.\<close>

definition log_rewrites ::
    "(relation_key \<times> relation_record \<times> carry_report list) list \<Rightarrow> edge_rewrite list" where
  "log_rewrites log = concat (map (\<lambda>(k, record, reps).
     map (\<lambda>(new_key, _). \<lparr>er_old_key = k, er_new_key = new_key, er_claims = rr_claims record\<rparr>)
       reps) log)"

definition log_reports ::
    "(relation_key \<times> relation_record \<times> carry_report list) list \<Rightarrow> carry_report list" where
  "log_reports log = concat (map (\<lambda>(_, _, reps). reps) log)"

text \<open>The key with \<open>old_id\<close> replaced on the matching sides.\<close>

definition subst_key :: "string \<Rightarrow> string \<Rightarrow> relation_key \<Rightarrow> relation_key" where
  "subst_key old_id new_id k =
     mk_key (if rk_source_id k = old_id then new_id else rk_source_id k) (rk_predicate k)
            (if rk_target_id k = old_id then new_id else rk_target_id k)"

definition rewrite_subject_to ::
    "graph_inner \<Rightarrow> string \<Rightarrow> string \<Rightarrow> (nat \<Rightarrow> systime)
       \<Rightarrow> (graph_inner \<times> rewrite_subject_outcome) outcome" where
  "rewrite_subject_to g old_id new_id clk =
     (if old_id = [] \<or> new_id = [] then
        Err (Dispatch ''rewrite_subject_to: empty old_id or new_id'')
      else if old_id = new_id then
        Ok (g, \<lparr>rso_rewrites = [], rso_claim_unions = [], rso_suppression_collapses = []\<rparr>)
      else case move_edges (\<lambda>k. [subst_key old_id new_id k]) clk 0 (keys_touching g old_id) g of
        Err e \<Rightarrow> Err e
      | Panic m \<Rightarrow> Panic m
      | Ok (g', log) \<Rightarrow>
          Ok (g', \<lparr>rso_rewrites = log_rewrites log,
                   rso_claim_unions = List.map_filter (\<lambda>(k, rep). case rep of
                     Some (transferred, None) \<Rightarrow>
                       Some \<lparr>cu_surviving_key = k, cu_absorbed_claimants = transferred\<rparr>
                   | _ \<Rightarrow> None) (log_reports log),
                   rso_suppression_collapses = List.map_filter (\<lambda>(k, rep). case rep of
                     Some (transferred, Some s) \<Rightarrow>
                       Some \<lparr>sc_surviving_key = k, sc_demoted_claimants = transferred,
                             sc_surviving_suppression = s\<rparr>
                   | _ \<Rightarrow> None) (log_reports log)\<rparr>))"

definition find_assignment ::
    "resolved_split_assignment list \<Rightarrow> relation_key \<Rightarrow> resolved_split_assignment option" where
  "find_assignment assignments k = List.find (\<lambda>a. sa_source_id a = rk_source_id k \<and>
     sa_predicate a = rk_predicate k \<and> sa_target_id a = rk_target_id k) assignments"

fun assigned_new_ids ::
    "split_relation_strategy \<Rightarrow> string list \<Rightarrow> resolved_split_assignment list \<Rightarrow> relation_key
       \<Rightarrow> string list" where
  "assigned_new_ids ToBoth new_ids assignments k = new_ids"
| "assigned_new_ids ToFirst new_ids assignments k = [hd new_ids]"
| "assigned_new_ids Explicit new_ids assignments k =
     (case find_assignment assignments k of
        Some a \<Rightarrow> [sa_target_new_id a] | None \<Rightarrow> new_ids)"

definition ambiguous_edges ::
    "string \<Rightarrow> split_relation_strategy \<Rightarrow> string list \<Rightarrow> resolved_split_assignment list
       \<Rightarrow> relation_key list \<Rightarrow> ambiguous_edge list" where
  "ambiguous_edges source_subject strategy new_ids assignments ks =
     map (\<lambda>k. \<lparr>ae_source_subject = source_subject, ae_predicate = rk_predicate k,
                ae_other_endpoint_id = (if rk_source_id k = source_subject
                                        then rk_target_id k else rk_source_id k),
                ae_candidate_new_ids = new_ids\<rparr>)
       (filter (\<lambda>k. strategy = Explicit \<and> find_assignment assignments k = None) ks)"

definition split_relations ::
    "graph_inner \<Rightarrow> string \<Rightarrow> string list \<Rightarrow> split_relation_strategy
       \<Rightarrow> resolved_split_assignment list \<Rightarrow> (nat \<Rightarrow> systime)
       \<Rightarrow> (graph_inner \<times> split_relations_outcome) outcome" where
  "split_relations g source_subject new_ids strategy assignments clk =
     (if source_subject = [] then Err (Dispatch ''split_relations: empty source_subject'')
      else if new_ids = [] then Err (Dispatch ''split_relations: new_ids must be non-empty'')
      else
        let to_split = keys_touching g source_subject;
            dest = (\<lambda>k. map (\<lambda>nid. subst_key source_subject nid k)
                          (assigned_new_ids strategy new_ids assignments k))
        in case move_edges dest clk 0 to_split g of
             Err e \<Rightarrow> Err e
           | Panic m \<Rightarrow> Panic m
           | Ok (g', log) \<Rightarrow>
               Ok (g', \<lparr>sro_ambiguous =
                          ambiguous_edges source_subject strategy new_ids assignments to_split,
                        sro_rewrites = log_rewrites log,
                        sro_claim_unions = List.map_filter (\<lambda>(k, rep). case rep of
                          Some (transferred, _) \<Rightarrow>
                            Some \<lparr>cu_surviving_key = k, cu_absorbed_claimants = transferred\<rparr>
                        | None \<Rightarrow> None) (log_reports log)\<rparr>))"

section \<open>Walks\<close>

text \<open>The edges a visit follows, in the order of the loop over the scope's predicates.\<close>

definition edges_from :: "graph_inner \<Rightarrow> walk_scope \<Rightarrow> string \<Rightarrow> (string \<times> string) list" where
  "edges_from g sc i = concat (map (\<lambda>p.
     (if follows_forward (ws_direction sc)
      then map (\<lambda>t. (t, p)) (bucket (gi_forward g) (i, p)) else []) @
     (if follows_inverse (ws_direction sc)
      then map (\<lambda>s. (s, p)) (bucket (gi_inverse g) (i, p)) else [])) (ws_predicates sc))"

type_synonym walk_queue = "(string \<times> nat \<times> string option) list"

fun enqueue_unseen ::
    "nat \<Rightarrow> (string \<times> string) list \<Rightarrow> walk_queue \<times> string list \<Rightarrow> walk_queue \<times> string list" where
  "enqueue_unseen depth [] qs = qs"
| "enqueue_unseen depth ((t, p) # es) (queue, seen) =
     enqueue_unseen depth es (if t \<in> set seen then (queue, seen)
                              else (queue @ [(t, depth, Some p)], hs_insert t seen))"

function walk_loop ::
    "graph_inner \<Rightarrow> walk_scope \<Rightarrow> walk_queue \<Rightarrow> string list \<Rightarrow> visit_record list \<Rightarrow> walk_result" where
  "walk_loop g sc [] seen visited = \<lparr>wr_visited = visited, wr_truncated = False\<rparr>"
| "walk_loop g sc ((i, depth, via) # queue) seen visited =
     (if ws_max_visits sc \<le> length visited then \<lparr>wr_visited = visited, wr_truncated = True\<rparr>
      else
        let visited' = visited @ [\<lparr>vr_canonical_id = i, vr_depth = depth, vr_arrived_via = via\<rparr>]
        in if ws_max_depth sc \<le> depth then walk_loop g sc queue seen visited'
           else let (queue', seen') = enqueue_unseen (depth + 1) (edges_from g sc i) (queue, seen)
                in walk_loop g sc queue' seen' visited')"
  by pat_completeness auto
termination
  by (relation "measure (\<lambda>(g, sc, queue, seen, visited). ws_max_visits sc - length visited)") auto

definition walk :: "graph_inner \<Rightarrow> string \<Rightarrow> walk_scope \<Rightarrow> walk_result" where
  "walk g start_id sc = walk_loop g sc [(start_id, 0, None)] [start_id] []"

end
