(* ===== verification/Relation_Laws.thy ===== *)
theory Relation_Laws
  imports Relations
begin

text \<open>
  The graph invariant: the two neighbour indices are exactly the visible relations, read
  from either end; every record knows its key and has claims of distinct claimants. Every
  operation keeps it. The cascade loop is characterised by what becomes of claimants.
\<close>

section \<open>Index laws\<close>

text \<open>An index represents a relation \<open>V\<close> between buckets and entries, with no empty bucket
  and no entry twice.\<close>

definition index_ok :: "('b \<Rightarrow> 'x \<Rightarrow> bool) \<Rightarrow> ('b, 'x hset) hmap \<Rightarrow> bool" where
  "index_ok V ix \<longleftrightarrow> hm_wf ix \<and>
     (\<forall>b xs. hm_get ix b = Some xs \<longrightarrow> xs \<noteq> [] \<and> distinct xs) \<and>
     (\<forall>b x. x \<in> set (bucket ix b) \<longleftrightarrow> V b x)"

lemma bucket_insert [simp]: "bucket (hm_insert b xs ix) c = (if c = b then xs else bucket ix c)"
  by (simp add: bucket_def)

lemma bucket_remove [simp]: "bucket (hm_remove b ix) c = (if c = b then [] else bucket ix c)"
  by (simp add: bucket_def)

lemma bucket_distinct: "index_ok V ix \<Longrightarrow> distinct (bucket ix b)"
  by (auto simp: index_ok_def bucket_def split: option.splits)

lemma bucket_iff: "index_ok V ix \<Longrightarrow> x \<in> set (bucket ix b) \<longleftrightarrow> V b x"
  by (simp add: index_ok_def)

lemma set_bucket: "index_ok V ix \<Longrightarrow> set (bucket ix b) = {x. V b x}"
  by (auto simp: index_ok_def)

lemma index_add_ok:
  assumes "index_ok V ix" "\<And>c y. V' c y \<longleftrightarrow> V c y \<or> c = b \<and> y = x"
  shows "index_ok V' (index_add b x ix)"
  using assms bucket_distinct [OF assms(1)]
  by (auto simp: index_ok_def index_add_def split: if_splits)

lemma index_del_ok:
  assumes ok: "index_ok V ix" and V': "\<And>c y. V' c y \<longleftrightarrow> V c y \<and> \<not> (c = b \<and> y = x)"
  shows "index_ok V' (index_del b x ix)"
proof (cases "hm_get ix b")
  case None
  then have "bucket ix b = []" by (simp add: bucket_def)
  then have "\<not> V b x" using bucket_iff [OF ok, of x b] by simp
  with None ok V' show ?thesis by (auto simp: index_ok_def index_del_def)
next
  case (Some xs)
  then have b: "bucket ix b = xs" by (simp add: bucket_def)
  have xs: "distinct xs" "\<And>y. y \<in> set xs \<longleftrightarrow> V b y"
    using bucket_distinct [OF ok, of b] bucket_iff [OF ok, of _ b] b by simp_all
  let ?ys = "hs_remove x xs"
  have ys: "set ?ys = {y. V' b y}" using xs(2) V' by auto
  show ?thesis
  proof (cases "?ys = []")
    case True
    then have "\<not> V' b y" for y using ys by simp
    with True Some ok V' show ?thesis
      by (auto simp: index_ok_def index_del_def split: if_splits)
  next
    case False
    with Some ok V' xs ys show ?thesis
      by (auto simp: index_ok_def index_del_def split: if_splits)
  qed
qed

section \<open>The invariant\<close>

definition indexed :: "relation_key set \<Rightarrow> graph_inner \<Rightarrow> bool" where
  "indexed V g \<longleftrightarrow>
     index_ok (\<lambda>(s, p) t. mk_key s p t \<in> V) (gi_forward g) \<and>
     index_ok (\<lambda>(t, p) s. mk_key s p t \<in> V) (gi_inverse g)"

definition visible :: "(relation_key \<rightharpoonup> relation_record) \<Rightarrow> relation_key set" where
  "visible R = {k. \<exists>rec. R k = Some rec \<and> rr_suppression rec = None}"

definition wf_relation :: "relation_key \<Rightarrow> relation_record \<Rightarrow> bool" where
  "wf_relation k rec \<longleftrightarrow> rr_key rec = k \<and> rr_claims rec \<noteq> [] \<and>
     distinct (map rc_claimant (rr_claims rec))"

definition graph_inv :: "graph_inner \<Rightarrow> bool" where
  "graph_inv g \<longleftrightarrow> hm_wf (gi_relations g) \<and>
     (\<forall>k rec. hm_get (gi_relations g) k = Some rec \<longrightarrow> wf_relation k rec) \<and>
     indexed (visible (hm_get (gi_relations g))) g"

lemma mk_key_eq [simp]:
  "mk_key s p t = k \<longleftrightarrow> s = rk_source_id k \<and> p = rk_predicate k \<and> t = rk_target_id k"
  "k = mk_key s p t \<longleftrightarrow> s = rk_source_id k \<and> p = rk_predicate k \<and> t = rk_target_id k"
  by (auto simp: mk_key_def)

lemma mk_key_sel [simp]:
  "rk_source_id (mk_key s p t) = s" "rk_predicate (mk_key s p t) = p"
  "rk_target_id (mk_key s p t) = t"
  by (simp_all add: mk_key_def)

lemma new_graph_inv [simp]: "graph_inv new_graph"
  by (simp add: graph_inv_def new_graph_def indexed_def index_ok_def visible_def bucket_def
      split_beta)

lemma indexed_relations [simp]: "indexed V (g\<lparr>gi_relations := R\<rparr>) = indexed V g"
  by (simp add: indexed_def)

lemma gi_relations_index [simp]:
  "gi_relations (index_key k g) = gi_relations g"
  "gi_relations (unindex_key k g) = gi_relations g"
  by (simp_all add: index_key_def unindex_key_def)

lemma indexed_index_key:
  assumes "indexed V g"
  shows "indexed (insert k V) (index_key k g)"
proof -
  have "index_ok (\<lambda>(s, p) t. mk_key s p t \<in> insert k V) (gi_forward (index_key k g))"
    "index_ok (\<lambda>(t, p) s. mk_key s p t \<in> insert k V) (gi_inverse (index_key k g))"
    using assms by (auto simp: indexed_def index_key_def intro!: index_add_ok)
  then show ?thesis by (simp add: indexed_def)
qed

lemma indexed_unindex_key:
  assumes "indexed V g"
  shows "indexed (V - {k}) (unindex_key k g)"
proof -
  have "index_ok (\<lambda>(s, p) t. mk_key s p t \<in> V - {k}) (gi_forward (unindex_key k g))"
    "index_ok (\<lambda>(t, p) s. mk_key s p t \<in> V - {k}) (gi_inverse (unindex_key k g))"
    using assms by (auto simp: indexed_def unindex_key_def intro!: index_del_ok)
  then show ?thesis by (simp add: indexed_def)
qed

lemma visible_upd:
  "visible (R(k \<mapsto> rec)) =
     (if rr_suppression rec = None then insert k (visible R) else visible R - {k})"
  "visible (R(k := None)) = visible R - {k}"
  by (auto simp: visible_def split: if_splits)

text \<open>The three shapes every mutation has: a record written under unchanged visibility, a
  record made visible, a record hidden or removed.\<close>

lemma graph_inv_same:
  assumes "graph_inv g" "hm_get (gi_relations g) k = Some old" "wf_relation k rec"
    and "rr_suppression rec = None \<longleftrightarrow> rr_suppression old = None"
  shows "graph_inv (g\<lparr>gi_relations := hm_insert k rec (gi_relations g)\<rparr>)"
proof -
  have "visible ((hm_get (gi_relations g))(k \<mapsto> rec)) = visible (hm_get (gi_relations g))"
    using assms(2,4) by (auto simp: visible_def)
  with assms show ?thesis by (simp add: graph_inv_def)
qed

lemma graph_inv_show:
  assumes "graph_inv g" "wf_relation k rec" "rr_suppression rec = None"
  shows "graph_inv (index_key k (g\<lparr>gi_relations := hm_insert k rec (gi_relations g)\<rparr>))"
  using assms indexed_index_key [of "visible (hm_get (gi_relations g))"
      "g\<lparr>gi_relations := hm_insert k rec (gi_relations g)\<rparr>" k]
  by (auto simp: graph_inv_def visible_upd)

lemma graph_inv_hide:
  assumes "graph_inv g" "wf_relation k rec" "rr_suppression rec \<noteq> None"
  shows "graph_inv (unindex_key k (g\<lparr>gi_relations := hm_insert k rec (gi_relations g)\<rparr>))"
  using assms indexed_unindex_key [of "visible (hm_get (gi_relations g))"
      "g\<lparr>gi_relations := hm_insert k rec (gi_relations g)\<rparr>" k]
  by (auto simp: graph_inv_def visible_upd)

lemma graph_inv_put_hidden:
  assumes "graph_inv g" "hm_get (gi_relations g) k = None" "wf_relation k rec"
    "rr_suppression rec \<noteq> None"
  shows "graph_inv (g\<lparr>gi_relations := hm_insert k rec (gi_relations g)\<rparr>)"
proof -
  have "visible ((hm_get (gi_relations g))(k \<mapsto> rec)) = visible (hm_get (gi_relations g))"
    using assms(2,4) by (auto simp: visible_def)
  with assms show ?thesis by (simp add: graph_inv_def)
qed

lemma graph_inv_remove:
  assumes "graph_inv g"
  shows "graph_inv (remove_relation k g)"
  using assms indexed_unindex_key [of "visible (hm_get (gi_relations g))"
      "g\<lparr>gi_relations := hm_remove k (gi_relations g)\<rparr>" k]
  by (auto simp: graph_inv_def visible_upd remove_relation_def split: if_splits)

lemma remove_relation_get [simp]:
  "hm_get (gi_relations (remove_relation k g)) = (hm_get (gi_relations g))(k := None)"
  by (simp add: remove_relation_def)

lemma graph_inv_wf: "graph_inv g \<Longrightarrow> hm_get (gi_relations g) k = Some rec \<Longrightarrow> wf_relation k rec"
  by (simp add: graph_inv_def)

section \<open>Assert, retract, suppress\<close>

lemma rel_assert_inv:
  assumes inv: "graph_inv g" and ok: "rel_assert g s p t c reason clk = Ok (g', out)"
  shows "graph_inv g'"
proof (cases "hm_get (gi_relations g) (mk_key s p t)")
  case None
  with ok inv show ?thesis
    by (auto simp: rel_assert_def Let_def wf_relation_def split: if_splits intro!: graph_inv_show)
next
  case (Some rec)
  then have "wf_relation (mk_key s p t) rec" using inv by (rule graph_inv_wf [rotated])
  with Some ok inv show ?thesis
    by (auto simp: rel_assert_def Let_def wf_relation_def split: if_splits
        intro!: graph_inv_same [where old = rec])
qed

lemma drop_rel_claim_inv:
  assumes inv: "graph_inv g" and S: "hm_get (gi_relations g) k = Some rec"
    and idx: "idx < length (rr_claims rec)"
  shows "graph_inv (fst (drop_rel_claim g k rec idx now))"
proof -
  have wf: "wf_relation k rec" using inv S by (rule graph_inv_wf)
  obtain ys zs where split: "rr_claims rec = ys @ rr_claims rec ! idx # zs"
    "vec_remove idx (rr_claims rec) = ys @ zs" using vec_remove_split [OF idx] by metis
  have "distinct (map rc_claimant (ys @ rr_claims rec ! idx # zs))"
    using wf by (simp only: wf_relation_def split(1) [symmetric])
  then have d: "distinct (map rc_claimant (ys @ zs))" by auto
  show ?thesis
  proof (cases "ys @ zs = []")
    case True
    with split graph_inv_remove [OF inv] show ?thesis
      by (simp add: drop_rel_claim_def Let_def remove_relation_def)
  next
    case False
    have "graph_inv (g\<lparr>gi_relations := hm_insert k
        (rec\<lparr>rr_claims := ys @ zs, rr_modified_at := now\<rparr>) (gi_relations g)\<rparr>)"
      by (rule graph_inv_same [OF inv S]) (use wf d False in \<open>auto simp: wf_relation_def\<close>)
    with False split show ?thesis by (auto simp: drop_rel_claim_def Let_def)
  qed
qed

lemma rel_retract_inv:
  assumes "graph_inv g" "rel_retract g s p t c clk = Ok (g', out)"
  shows "graph_inv g'"
proof -
  obtain rec idx where S: "hm_get (gi_relations g) (mk_key s p t) = Some rec"
    and pos: "position (\<lambda>x. rc_claimant x = c) (rr_claims rec) = Some idx"
    using assms(2) by (auto simp: rel_retract_def Let_def split: option.splits)
  then have "g' = fst (drop_rel_claim g (mk_key s p t) rec idx (clk 0))"
    using assms(2) by (auto simp: rel_retract_def Let_def split: prod.splits)
  with drop_rel_claim_inv [OF assms(1) S] position_SomeD [OF pos] show ?thesis by simp
qed

lemma forced_retract_claim_inv:
  assumes "graph_inv g" "forced_retract_claim g s p t c clk = Ok (g', out)"
  shows "graph_inv g'"
proof (cases "g' = g")
  case False
  then obtain rec idx where S: "hm_get (gi_relations g) (mk_key s p t) = Some rec"
    and pos: "position (\<lambda>x. rc_claimant x = c) (rr_claims rec) = Some idx"
    using assms(2) by (auto simp: forced_retract_claim_def Let_def split: option.splits)
  then have "g' = fst (drop_rel_claim g (mk_key s p t) rec idx (clk 0))"
    using assms(2) by (auto simp: forced_retract_claim_def Let_def split: prod.splits)
  with drop_rel_claim_inv [OF assms(1) S] position_SomeD [OF pos] show ?thesis by simp
qed (use assms in simp)

lemma fold_remove_inv: "graph_inv g \<Longrightarrow> graph_inv (fold remove_relation ks g)"
  by (induction ks arbitrary: g) (simp_all add: graph_inv_remove)

lemma fold_remove_get:
  "hm_get (gi_relations (fold remove_relation ks g)) =
     (\<lambda>k. if k \<in> set ks then None else hm_get (gi_relations g) k)"
  by (induction ks arbitrary: g) (auto simp: fun_eq_iff)

lemma set_keys_touching [simp]:
  "set (keys_touching g i) = {k. touches i k \<and> hm_get (gi_relations g) k \<noteq> None}"
  by (auto simp: keys_touching_def)

lemma forget_all_touching_get:
  "hm_get (gi_relations (fst (forget_all_touching g i))) =
     (\<lambda>k. if touches i k then None else hm_get (gi_relations g) k)"
  by (auto simp: forget_all_touching_def Let_def fold_remove_get fun_eq_iff)

lemma forget_all_touching_inv: "graph_inv g \<Longrightarrow> graph_inv (fst (forget_all_touching g i))"
  by (simp add: forget_all_touching_def Let_def fold_remove_inv)

lemma suppress_inv:
  assumes inv: "graph_inv g" and ok: "suppress g s p t ap reason clk = Ok (g', out)"
  shows "graph_inv g'"
proof (cases "hm_get (gi_relations g) (mk_key s p t)")
  case None
  with ok inv show ?thesis by (simp add: suppress_def Let_def)
next
  case (Some rec)
  then have wf: "wf_relation (mk_key s p t) rec" using inv by (rule graph_inv_wf [rotated])
  show ?thesis
  proof (cases "rr_suppression rec")
    case None
    with Some ok inv wf show ?thesis
      by (auto simp: suppress_def Let_def wf_relation_def intro!: graph_inv_hide)
  next
    case S: (Some sup)
    with Some ok inv wf show ?thesis
      by (auto simp: suppress_def Let_def wf_relation_def split: if_splits
          intro!: graph_inv_same [where old = rec])
  qed
qed

lemma unsuppress_inv:
  assumes inv: "graph_inv g" and ok: "unsuppress g s p t clk = Ok (g', out)"
  shows "graph_inv g'"
proof (cases "hm_get (gi_relations g) (mk_key s p t)")
  case None
  with ok inv show ?thesis by (simp add: unsuppress_def Let_def)
next
  case (Some rec)
  then have "wf_relation (mk_key s p t) rec" using inv by (rule graph_inv_wf [rotated])
  with Some ok inv show ?thesis
    by (auto simp: unsuppress_def Let_def wf_relation_def split: if_splits intro!: graph_inv_show)
qed

section \<open>The cascade loop\<close>

definition claimants :: "(relation_key \<rightharpoonup> relation_record) \<Rightarrow> relation_key \<Rightarrow> string set" where
  "claimants R k = (case R k of None \<Rightarrow> {} | Some rec \<Rightarrow> rc_claimant ` set (rr_claims rec))"

lemma claimants_upd [simp]:
  "claimants (R(k \<mapsto> rec)) j = (if j = k then rc_claimant ` set (rr_claims rec) else claimants R j)"
  "claimants (R(k := None)) j = (if j = k then {} else claimants R j)"
  by (simp_all add: claimants_def)

lemma absorb_claims_set:
  "rc_claimant ` set (fst (absorb_claims ex cs)) = rc_claimant ` set ex \<union> rc_claimant ` set cs"
proof (induction cs arbitrary: ex)
  case (Cons c cs)
  show ?case
  proof (cases "\<exists>d \<in> set ex. rc_claimant d = rc_claimant c")
    case True
    then have "rc_claimant c \<in> rc_claimant ` set ex" by (metis imageI)
    with True Cons show ?thesis by auto
  next
    case False
    with Cons [of "ex @ [c]"] show ?thesis by (auto simp: split_beta)
  qed
qed simp

lemma absorb_claims_distinct:
  "distinct (map rc_claimant ex) \<Longrightarrow> distinct (map rc_claimant (fst (absorb_claims ex cs)))"
proof (induction cs arbitrary: ex)
  case (Cons c cs)
  show ?case
  proof (cases "\<exists>d \<in> set ex. rc_claimant d = rc_claimant c")
    case True
    with Cons show ?thesis by simp
  next
    case False
    then have "distinct (map rc_claimant (ex @ [c]))" using Cons.prems by auto
    with False Cons.IH show ?thesis by (simp add: split_beta)
  qed
qed simp

lemma absorb_claims_nonempty: "ex \<noteq> [] \<Longrightarrow> fst (absorb_claims ex cs) \<noteq> []"
  by (induction ex cs rule: absorb_claims.induct) (auto simp: split_beta)

lemmas absorb_claims_fst = absorb_claims_set absorb_claims_distinct absorb_claims_nonempty

definition claims_ok :: "relation_record \<Rightarrow> bool" where
  "claims_ok rec \<longleftrightarrow> rr_claims rec \<noteq> [] \<and> distinct (map rc_claimant (rr_claims rec))"

lemma wf_claims_ok: "wf_relation k rec \<Longrightarrow> claims_ok rec"
  by (simp add: wf_relation_def claims_ok_def)

lemma carry_edge_inv:
  assumes inv: "graph_inv g" and rec: "claims_ok rec"
  shows "graph_inv (fst (carry_edge rec k now g))"
proof (cases "hm_get (gi_relations g) k")
  case None
  show ?thesis
  proof (cases "rr_suppression rec")
    case N: None
    with None inv rec show ?thesis
      by (auto simp: carry_edge_def Let_def wf_relation_def claims_ok_def intro!: graph_inv_show)
  next
    case (Some sp)
    with None inv rec show ?thesis
      by (auto simp: carry_edge_def Let_def wf_relation_def claims_ok_def
          intro!: graph_inv_put_hidden)
  qed
next
  case (Some old)
  then have "wf_relation k old" using inv by (rule graph_inv_wf [rotated])
  with Some inv absorb_claims_fst [of "rr_claims old" "rr_claims rec"] show ?thesis
    by (auto simp: carry_edge_def split_beta wf_relation_def intro!: graph_inv_same [where old = old])
qed

lemma carry_edge_get:
  defines "R \<equiv> \<lambda>g. hm_get (gi_relations g)"
  shows "j \<noteq> k \<Longrightarrow> R (fst (carry_edge rec k now g)) j = R g j"
    and "dom (R (fst (carry_edge rec k now g))) = insert k (dom (R g))"
    and "claimants (R (fst (carry_edge rec k now g))) j =
           claimants (R g) j \<union> (if j = k then rc_claimant ` set (rr_claims rec) else {})"
  using absorb_claims_fst(1) [of _ "rr_claims rec"]
  by (auto simp: R_def carry_edge_def Let_def split_beta claimants_def split: option.splits)

lemma carry_edges_law:
  assumes "graph_inv g" "claims_ok rec"
  defines "R \<equiv> \<lambda>g. hm_get (gi_relations g)"
  shows "graph_inv (fst (carry_edges rec clk n ks g)) \<and>
     (\<forall>j. j \<notin> set ks \<longrightarrow> R (fst (carry_edges rec clk n ks g)) j = R g j) \<and>
     dom (R (fst (carry_edges rec clk n ks g))) = set ks \<union> dom (R g) \<and>
     (\<forall>j. claimants (R (fst (carry_edges rec clk n ks g))) j =
        claimants (R g) j \<union> (if j \<in> set ks then rc_claimant ` set (rr_claims rec) else {})) \<and>
     map fst (snd (carry_edges rec clk n ks g)) = ks"
  using assms(1)
proof (induction ks arbitrary: n g)
  case (Cons k ks)
  let ?g1 = "fst (carry_edge rec k (clk n) g)"
  have inv1: "graph_inv ?g1" by (rule carry_edge_inv [OF Cons.prems assms(2)])
  have rep: "fst (snd (carry_edge rec k (clk n) g)) = k"
    by (auto simp: carry_edge_def Let_def split: option.splits prod.splits)
  note IH = Cons.IH [OF inv1, of "Suc n"]
  have unfold: "fst (carry_edges rec clk n (k # ks) g) = fst (carry_edges rec clk (Suc n) ks ?g1)"
    "map fst (snd (carry_edges rec clk n (k # ks) g)) =
       k # map fst (snd (carry_edges rec clk (Suc n) ks ?g1))"
    using rep by (simp_all add: split_beta)
  from IH carry_edge_get [where k = k and rec = rec and now = "clk n" and g = g]
  show ?case unfolding unfold R_def by auto
qed (simp add: R_def)

text \<open>
  What the loop does, provided no destination is itself among the collected keys: it never
  panics, keeps the invariant, and every claimant of a moved edge ends up on each of the
  edge's destinations; no other edge changes.
\<close>

lemma move_edges_law:
  assumes "graph_inv g" "distinct ks" "set ks \<subseteq> dom (hm_get (gi_relations g))"
    "\<And>k. k \<in> set ks \<Longrightarrow> set (dest k) \<inter> set ks = {}"
  obtains g' log where "move_edges dest clk n ks g = Ok (g', log)" "graph_inv g'"
    "map fst log = ks" "\<forall>(k, rec, reps) \<in> set log. map fst reps = dest k"
    "\<And>j. j \<notin> set ks \<Longrightarrow> j \<notin> (\<Union>k \<in> set ks. set (dest k)) \<Longrightarrow>
       hm_get (gi_relations g') j = hm_get (gi_relations g) j"
    "dom (hm_get (gi_relations g')) =
       (dom (hm_get (gi_relations g)) - set ks) \<union> (\<Union>k \<in> set ks. set (dest k))"
    "\<And>j. claimants (hm_get (gi_relations g')) j =
       (if j \<in> set ks then {} else claimants (hm_get (gi_relations g)) j) \<union>
       (\<Union>k \<in> {k \<in> set ks. j \<in> set (dest k)}. claimants (hm_get (gi_relations g)) k)"
  using assms
proof (induction ks arbitrary: n g thesis)
  case Nil
  then show ?case by simp
next
  case (Cons k ks)
  obtain rec where rec: "hm_get (gi_relations g) k = Some rec" using Cons.prems(4) by auto
  have ok: "claims_ok rec" using wf_claims_ok graph_inv_wf [OF Cons.prems(2) rec] by blast
  let ?g0 = "remove_relation k g"
  let ?g1 = "fst (carry_edges rec clk n (dest k) ?g0)"
  note c = carry_edges_law [OF graph_inv_remove [OF Cons.prems(2)] ok, of clk n "dest k" k]
  have c1: "graph_inv ?g1"
    and c2: "\<And>j. j \<notin> set (dest k) \<Longrightarrow> hm_get (gi_relations ?g1) j =
        ((hm_get (gi_relations g))(k := None)) j"
    and c3: "dom (hm_get (gi_relations ?g1)) = set (dest k) \<union> (dom (hm_get (gi_relations g)) - {k})"
    and c4: "\<And>j. claimants (hm_get (gi_relations ?g1)) j =
        (if j = k then {} else claimants (hm_get (gi_relations g)) j) \<union>
        (if j \<in> set (dest k) then rc_claimant ` set (rr_claims rec) else {})"
    and c5: "map fst (snd (carry_edges rec clk n (dest k) ?g0)) = dest k"
    using c by auto
  have kd: "k \<notin> set ks" "set (dest k) \<inter> set ks = {}" "k \<notin> set (dest k)"
    using Cons.prems(3,5) by auto
  have sub: "set ks \<subseteq> dom (hm_get (gi_relations ?g1))" using c3 Cons.prems(4) kd by auto
  have ck: "claimants (hm_get (gi_relations g)) k = rc_claimant ` set (rr_claims rec)"
    using rec by (simp add: claimants_def)
  show ?case
  proof (rule Cons.IH [OF _ c1 _ sub, of "n + length (dest k)"])
    show "distinct ks" using Cons.prems(3) by simp
    show "set (dest j) \<inter> set ks = {}" if "j \<in> set ks" for j
      using Cons.prems(5) [of j] that by auto
    fix g' log
    assume IH: "move_edges dest clk (n + length (dest k)) ks ?g1 = Ok (g', log)" "graph_inv g'"
      "map fst log = ks" "\<forall>(k, rec, reps) \<in> set log. map fst reps = dest k"
      "\<And>j. j \<notin> set ks \<Longrightarrow> j \<notin> (\<Union>k \<in> set ks. set (dest k)) \<Longrightarrow>
         hm_get (gi_relations g') j = hm_get (gi_relations ?g1) j"
      "dom (hm_get (gi_relations g')) =
         (dom (hm_get (gi_relations ?g1)) - set ks) \<union> (\<Union>k \<in> set ks. set (dest k))"
      "\<And>j. claimants (hm_get (gi_relations g')) j =
         (if j \<in> set ks then {} else claimants (hm_get (gi_relations ?g1)) j) \<union>
         (\<Union>k \<in> {k \<in> set ks. j \<in> set (dest k)}. claimants (hm_get (gi_relations ?g1)) k)"
    have same: "claimants (hm_get (gi_relations ?g1)) j = claimants (hm_get (gi_relations g)) j"
      if "j \<in> set ks" for j using c4 that kd by auto
    show thesis
    proof (rule Cons.prems(1) [of g' "(k, rec, snd (carry_edges rec clk n (dest k) ?g0)) # log"])
      show "move_edges dest clk n (k # ks) g =
          Ok (g', (k, rec, snd (carry_edges rec clk n (dest k) ?g0)) # log)"
        using rec IH(1) by (simp add: split_beta)
      fix j
      show "claimants (hm_get (gi_relations g')) j =
          (if j \<in> set (k # ks) then {} else claimants (hm_get (gi_relations g)) j) \<union>
          (\<Union>k \<in> {i \<in> set (k # ks). j \<in> set (dest i)}. claimants (hm_get (gi_relations g)) k)"
      proof -
        let ?C = "claimants (hm_get (gi_relations g))"
        have U: "(\<Union>i \<in> {i \<in> set ks. j \<in> set (dest i)}. claimants (hm_get (gi_relations ?g1)) i) =
            (\<Union>i \<in> {i \<in> set ks. j \<in> set (dest i)}. ?C i)" using same by auto
        have V: "(\<Union>i \<in> {i \<in> set (k # ks). j \<in> set (dest i)}. ?C i) =
            (if j \<in> set (dest k) then ?C k else {}) \<union>
            (\<Union>i \<in> {i \<in> set ks. j \<in> set (dest i)}. ?C i)" by auto
        consider "j = k" | "j \<in> set ks" | "j \<noteq> k" "j \<notin> set ks" by blast
        then show ?thesis
        proof cases
          case 1
          then show ?thesis unfolding IH(7) U V using kd c4 [of j] by simp
        next
          case 2
          then show ?thesis unfolding IH(7) U V using kd by auto
        next
          case 3
          then show ?thesis unfolding IH(7) U V using c4 [of j] ck by auto
        qed
      qed
    next
      fix j assume "j \<notin> set (k # ks)" "j \<notin> (\<Union>k \<in> set (k # ks). set (dest k))"
      then show "hm_get (gi_relations g') j = hm_get (gi_relations g) j"
        using IH(5) c2 by auto
    next
      show "dom (hm_get (gi_relations g')) = (dom (hm_get (gi_relations g)) - set (k # ks)) \<union>
          (\<Union>k \<in> set (k # ks). set (dest k))"
        unfolding IH(6) c3 using kd by auto
    qed (use IH(2-4) c5 in auto)
  qed
qed

end
