(* ===== verification/Relation_Spec.thy ===== *)
theory Relation_Spec
  imports Relation_Laws
begin

text \<open>
  What the relation graph promises: coherence of the neighbour indices in every reachable
  graph, exact neighbour queries, the claim lifecycle on every branch, suppression and its
  inverse, and the cascades that keep the graph free of retired subject ids without losing a
  claimant.
\<close>

section \<open>A concrete graph\<close>

definition rel_tick :: "nat \<Rightarrow> systime" where
  "rel_tick n = int n * 1000000"

fun ok_graph :: "(graph_inner \<times> 'o) outcome \<Rightarrow> graph_inner" where
  "ok_graph (Ok (g, _)) = g"
| "ok_graph _ = new_graph"

text \<open>Two plugins claim \<open>t1 in_album a1\<close>, one claims \<open>t2 in_album a1\<close> and \<open>t1 next t2\<close>.\<close>

definition graph_a :: graph_inner where
  "graph_a = ok_graph (rel_assert new_graph ''t1'' ''in_album'' ''a1'' ''plug.one'' None rel_tick)"

definition graph_b :: graph_inner where
  "graph_b = ok_graph (rel_assert graph_a ''t1'' ''in_album'' ''a1'' ''plug.two'' None rel_tick)"

definition graph_c :: graph_inner where
  "graph_c = ok_graph (rel_assert graph_b ''t2'' ''in_album'' ''a1'' ''plug.one'' None rel_tick)"

definition graph_d :: graph_inner where
  "graph_d = ok_graph (rel_assert graph_c ''t1'' ''next'' ''t2'' ''plug.one'' None rel_tick)"

section \<open>Histories\<close>

text \<open>Where a split may send an edge.\<close>

definition split_destinations :: "string list \<Rightarrow> resolved_split_assignment list \<Rightarrow> string set" where
  "split_destinations new_ids assignments =
     set new_ids \<union> sa_target_new_id ` set assignments"

text \<open>One step is one call; a split is told ids other than the one it retires.\<close>

inductive graph_step :: "graph_inner \<Rightarrow> graph_inner \<Rightarrow> bool" where
  gs_assert: "rel_assert g s p t c reason clk = Ok (g', ao) \<Longrightarrow> graph_step g g'"
| gs_retract: "rel_retract g s p t c clk = Ok (g', ro) \<Longrightarrow> graph_step g g'"
| gs_forced: "forced_retract_claim g s p t c clk = Ok (g', fo) \<Longrightarrow> graph_step g g'"
| gs_forget: "forget_all_touching g i = (g', ks) \<Longrightarrow> graph_step g g'"
| gs_suppress: "suppress g s p t ap reason clk = Ok (g', so) \<Longrightarrow> graph_step g g'"
| gs_unsuppress: "unsuppress g s p t clk = Ok (g', uo) \<Longrightarrow> graph_step g g'"
| gs_rewrite: "rewrite_subject_to g old new clk = Ok (g', wo) \<Longrightarrow> graph_step g g'"
| gs_split: "src \<notin> split_destinations new_ids assignments \<Longrightarrow>
     split_relations g src new_ids strategy assignments clk = Ok (g', lo) \<Longrightarrow> graph_step g g'"

lemma distinct_keys_touching: "graph_inv g \<Longrightarrow> distinct (keys_touching g i)"
  by (simp add: keys_touching_def graph_inv_def)

lemma touches_subst [simp]: "touches old (subst_key old new k) \<longleftrightarrow> new = old \<and> touches old k"
  by (auto simp: touches_def subst_key_def)

lemma keys_touching_dom: "set (keys_touching g i) \<subseteq> dom (hm_get (gi_relations g))"
  by auto

text \<open>The effect of \<open>rewrite_subject_to\<close> on keys and claimants.\<close>

definition rewritten :: "string \<Rightarrow> string \<Rightarrow> graph_inner \<Rightarrow> graph_inner \<Rightarrow> bool" where
  "rewritten old new g g' \<longleftrightarrow>
     dom (hm_get (gi_relations g')) = subst_key old new ` dom (hm_get (gi_relations g)) \<and>
     (\<forall>j. claimants (hm_get (gi_relations g')) j =
        (\<Union>k \<in> {k. subst_key old new k = j}. claimants (hm_get (gi_relations g)) k)) \<and>
     (\<forall>k. \<not> touches old k \<longrightarrow> \<not> touches new k \<longrightarrow>
        hm_get (gi_relations g') k = hm_get (gi_relations g) k)"

lemma subst_key_id: "\<not> touches old k \<Longrightarrow> subst_key old new k = k"
  by (auto simp: touches_def subst_key_def)

lemma subst_image:
  "subst_key old new ` D = {k \<in> D. \<not> touches old k} \<union> subst_key old new ` {k \<in> D. touches old k}"
proof -
  have "subst_key old new ` {k \<in> D. \<not> touches old k} = {k \<in> D. \<not> touches old k}"
    by (simp add: subst_key_id cong: image_cong_simp)
  moreover have "subst_key old new ` D =
      subst_key old new ` {k \<in> D. \<not> touches old k} \<union> subst_key old new ` {k \<in> D. touches old k}"
    by blast
  ultimately show ?thesis by simp
qed

lemma touches_new_subst: "touches old k \<Longrightarrow> touches new (subst_key old new k)"
  by (auto simp: touches_def subst_key_def)

lemma rewrite_law:
  assumes inv: "graph_inv g" and ids: "old \<noteq> []" "new \<noteq> []" "old \<noteq> new"
  obtains g' out where "rewrite_subject_to g old new clk = Ok (g', out)" "graph_inv g'"
    "rewritten old new g g'" "map er_old_key (rso_rewrites out) = keys_touching g old"
proof -
  let ?R = "hm_get (gi_relations g)" and ?dest = "\<lambda>k. [subst_key old new k]"
  let ?ks = "keys_touching g old"
  show ?thesis
  proof (rule move_edges_law [OF inv distinct_keys_touching [OF inv] keys_touching_dom,
        of old ?dest clk 0])
    show "set (?dest k) \<inter> set ?ks = {}" if "k \<in> set ?ks" for k
      using ids(3) by auto
    fix g' log
    assume m: "move_edges ?dest clk 0 ?ks g = Ok (g', log)" "graph_inv g'" "map fst log = ?ks"
      "\<forall>(k, rec, reps) \<in> set log. map fst reps = ?dest k"
      "\<And>j. j \<notin> set ?ks \<Longrightarrow> j \<notin> (\<Union>k \<in> set ?ks. set (?dest k)) \<Longrightarrow>
         hm_get (gi_relations g') j = ?R j"
      "dom (hm_get (gi_relations g')) = (dom ?R - set ?ks) \<union> (\<Union>k \<in> set ?ks. set (?dest k))"
      "\<And>j. claimants (hm_get (gi_relations g')) j = (if j \<in> set ?ks then {} else claimants ?R j) \<union>
         (\<Union>k \<in> {k \<in> set ?ks. j \<in> set (?dest k)}. claimants ?R k)"
    have dom: "dom (hm_get (gi_relations g')) = subst_key old new ` dom ?R"
      unfolding m(6) subst_image [of old new "dom ?R"] by auto
    have none: "claimants ?R k = {}" if "?R k = None" for k using that by (simp add: claimants_def)
    have cl: "claimants (hm_get (gi_relations g')) j =
        (\<Union>k \<in> {k. subst_key old new k = j}. claimants ?R k)" for j
    proof (cases "touches old j")
      case True
      then have no: "\<And>k. subst_key old new k \<noteq> j" using ids(3) by (metis touches_subst)
      then have "claimants (hm_get (gi_relations g')) j = (if j \<in> set ?ks then {} else claimants ?R j)"
        unfolding m(7) by auto
      with True none no show ?thesis by auto
    next
      case False
      have "{k. subst_key old new k = j} = insert j {k. touches old k \<and> subst_key old new k = j}"
        (is "?A = insert j ?B")
      proof (rule set_eqI)
        fix k show "k \<in> ?A \<longleftrightarrow> k \<in> insert j ?B"
          using False subst_key_id [of old k new] subst_key_id [of old j new]
          by (cases "touches old k") auto
      qed
      with False none show ?thesis unfolding m(7) by auto
    qed
    have frame: "hm_get (gi_relations g') k = ?R k" if "\<not> touches old k" "\<not> touches new k" for k
      using that touches_new_subst by (intro m(5)) auto
    have "map er_old_key (log_rewrites log) = map fst log"
      using m(4) by (induction log) (auto simp: log_rewrites_def map_eq_Cons_conv)
    with m(1,2,3) ids dom cl frame show ?thesis
      by (intro that) (auto simp: rewrite_subject_to_def rewritten_def)
  qed
qed

text \<open>The effect of \<open>split_relations\<close>: \<open>to k\<close> are the ids an edge goes to.\<close>

definition distributed ::
    "string \<Rightarrow> (relation_key \<Rightarrow> string list) \<Rightarrow> graph_inner \<Rightarrow> graph_inner \<Rightarrow> bool" where
  "distributed src to g g' \<longleftrightarrow>
     (\<forall>k \<in> dom (hm_get (gi_relations g')). \<not> touches src k) \<and>
     (\<forall>j. \<not> touches src j \<longrightarrow> claimants (hm_get (gi_relations g')) j =
        claimants (hm_get (gi_relations g)) j \<union>
        (\<Union>k \<in> {k. touches src k \<and> (\<exists>n \<in> set (to k). subst_key src n k = j)}.
           claimants (hm_get (gi_relations g)) k)) \<and>
     (\<forall>j. \<not> touches src j \<longrightarrow> (\<forall>k. touches src k \<longrightarrow> j \<notin> (\<lambda>n. subst_key src n k) ` set (to k)) \<longrightarrow>
        hm_get (gi_relations g') j = hm_get (gi_relations g) j)"

lemma assigned_sub:
  assumes "new_ids \<noteq> []"
  shows "set (assigned_new_ids strategy new_ids assignments k) \<subseteq> split_destinations new_ids assignments"
  using assms
  by (cases strategy) (auto simp: split_destinations_def find_assignment_def find_Some_iff
      split: option.splits)

lemma split_law:
  assumes inv: "graph_inv g" and ids: "src \<noteq> []" "new_ids \<noteq> []"
    and new: "src \<notin> split_destinations new_ids assignments"
  obtains g' out where "split_relations g src new_ids strategy assignments clk = Ok (g', out)"
    "graph_inv g'" "distributed src (assigned_new_ids strategy new_ids assignments) g g'"
proof -
  let ?R = "hm_get (gi_relations g)" and ?to = "assigned_new_ids strategy new_ids assignments"
  let ?dest = "\<lambda>k. map (\<lambda>n. subst_key src n k) (?to k)"
  let ?ks = "keys_touching g src"
  have nsrc: "src \<notin> set (?to k)" for k using assigned_sub [OF ids(2)] new by blast
  then have free: "\<not> touches src j" if "j \<in> set (?dest k)" for j k
    using that by auto
  show ?thesis
  proof (rule move_edges_law [OF inv distinct_keys_touching [OF inv] keys_touching_dom,
        of src ?dest clk 0])
    show "set (?dest k) \<inter> set ?ks = {}" if "k \<in> set ?ks" for k
      using free [of _ k] by auto
    fix g' log
    assume m: "move_edges ?dest clk 0 ?ks g = Ok (g', log)" "graph_inv g'"
      "\<And>j. j \<notin> set ?ks \<Longrightarrow> j \<notin> (\<Union>k \<in> set ?ks. set (?dest k)) \<Longrightarrow>
         hm_get (gi_relations g') j = ?R j"
      "dom (hm_get (gi_relations g')) = (dom ?R - set ?ks) \<union> (\<Union>k \<in> set ?ks. set (?dest k))"
      "\<And>j. claimants (hm_get (gi_relations g')) j = (if j \<in> set ?ks then {} else claimants ?R j) \<union>
         (\<Union>k \<in> {k \<in> set ?ks. j \<in> set (?dest k)}. claimants ?R k)"
    have none: "claimants ?R k = {}" if "?R k = None" for k using that by (simp add: claimants_def)
    have "\<not> touches src k" if "k \<in> dom (hm_get (gi_relations g'))" for k
      using that free unfolding m(4) by auto
    moreover have "claimants (hm_get (gi_relations g')) j = claimants ?R j \<union>
        (\<Union>k \<in> {k. touches src k \<and> (\<exists>n \<in> set (?to k). subst_key src n k = j)}. claimants ?R k)"
      if "\<not> touches src j" for j
      using that none unfolding m(5) by (auto simp: image_iff)
    moreover have "hm_get (gi_relations g') j = ?R j"
      if "\<not> touches src j" "\<forall>k. touches src k \<longrightarrow> j \<notin> (\<lambda>n. subst_key src n k) ` set (?to k)" for j
      using that by (intro m(3)) auto
    ultimately have "distributed src ?to g g'" by (simp add: distributed_def)
    with m(1,2) ids show ?thesis
      by (intro that) (auto simp: split_relations_def Let_def)
  qed
qed

lemma rewrite_inv:
  assumes "graph_inv g" "rewrite_subject_to g old new clk = Ok (g', out)"
  shows "graph_inv g'"
proof (cases "old = new")
  case True
  with assms show ?thesis by (auto simp: rewrite_subject_to_def split: if_splits)
next
  case False
  moreover have "old \<noteq> []" "new \<noteq> []" using assms(2) by (auto simp: rewrite_subject_to_def)
  ultimately show ?thesis using rewrite_law [OF assms(1)] assms(2) by (metis Pair_inject outcome.inject(1))
qed

lemma split_relations_inv:
  assumes "graph_inv g" "src \<notin> split_destinations new_ids assignments"
    "split_relations g src new_ids strategy assignments clk = Ok (g', out)"
  shows "graph_inv g'"
proof -
  have "src \<noteq> []" "new_ids \<noteq> []" using assms(3) by (auto simp: split_relations_def split: if_splits)
  then show ?thesis using split_law [OF assms(1)] assms(2,3)
    by (metis Pair_inject outcome.inject(1))
qed

lemma graph_step_inv: "graph_step g g' \<Longrightarrow> graph_inv g \<Longrightarrow> graph_inv g'"
proof (induction rule: graph_step.induct)
  case (gs_forget g i g' ks)
  then show ?case using forget_all_touching_inv [of g i] by simp
qed (blast intro: rel_assert_inv rel_retract_inv forced_retract_claim_inv suppress_inv
      unsuppress_inv rewrite_inv split_relations_inv)+

interpretation graph: invariant_system "\<lambda>g. g = new_graph" graph_step graph_inv
  by unfold_locales (auto intro: graph_step_inv)

lemma graph_d_reachable: "graph_step\<^sup>*\<^sup>* new_graph graph_d"
proof -
  have "graph_step new_graph graph_a"
    by (rule gs_assert [of _ "''t1''" "''in_album''" "''a1''" "''plug.one''" None rel_tick _ RelCreated])
       code_simp
  moreover have "graph_step graph_a graph_b"
    by (rule gs_assert [of _ "''t1''" "''in_album''" "''a1''" "''plug.two''" None rel_tick _
          RelClaimantAdded]) code_simp
  moreover have "graph_step graph_b graph_c"
    by (rule gs_assert [of _ "''t2''" "''in_album''" "''a1''" "''plug.one''" None rel_tick _ RelCreated])
       code_simp
  moreover have "graph_step graph_c graph_d"
    by (rule gs_assert [of _ "''t1''" "''next''" "''t2''" "''plug.one''" None rel_tick _ RelCreated])
       code_simp
  ultimately show ?thesis by (meson rtranclp.rtrancl_into_rtrancl rtranclp.rtrancl_refl)
qed

lemma graph_d_inv: "graph_inv graph_d"
  by (rule graph.reachable_inv [OF refl graph_d_reachable])

section \<open>Reachable graphs\<close>

text \<open>(C9) Whatever asserts, retractions, suppressions and cascades a steward has performed,
  the graph is coherent: each record is stored under its own key and has at least one claim
  and no claimant twice, and the forward and inverse indices list exactly the unsuppressed
  relations, without empty buckets or repeated entries.\<close>

theorem graph_reachable_inv:
  assumes "graph_step\<^sup>*\<^sup>* new_graph g"
  shows "graph_inv g"
  by (rule graph.reachable_inv [OF refl assms])

theorem graph_reachable_inv_witness: "graph_step\<^sup>*\<^sup>* new_graph graph_d \<and> graph_inv graph_d"
  using graph_reachable_inv [OF graph_d_reachable] graph_d_reachable by blast

section \<open>Queries\<close>

definition edge_visible :: "graph_inner \<Rightarrow> string \<Rightarrow> string \<Rightarrow> string \<Rightarrow> bool" where
  "edge_visible g s p t \<longleftrightarrow> relation_exists g s p t \<and> \<not> is_suppressed g s p t"

lemma edge_visible_iff:
  "edge_visible g s p t \<longleftrightarrow> mk_key s p t \<in> visible (hm_get (gi_relations g))"
  by (auto simp: edge_visible_def relation_exists_def is_suppressed_def visible_def split: option.splits)

lemma graph_index:
  assumes "graph_inv g"
  shows "index_ok (\<lambda>(s, p) t. edge_visible g s p t) (gi_forward g)"
    and "index_ok (\<lambda>(t, p) s. edge_visible g s p t) (gi_inverse g)"
  using assms by (simp_all add: graph_inv_def indexed_def edge_visible_iff)

lemma fold_hs_insert:
  "set (fold hs_insert xs ys) = set xs \<union> set ys"
  "distinct ys \<Longrightarrow> distinct (fold hs_insert xs ys)"
  by (induction xs arbitrary: ys) auto

lemma graph_bucket:
  assumes inv: "graph_inv g"
  shows "set (bucket (gi_forward g) (i, p)) = {t. edge_visible g i p t}"
    and "set (bucket (gi_inverse g) (i, p)) = {s. edge_visible g s p i}"
  using set_bucket [OF graph_index(1) [OF inv], of "(i, p)"]
    set_bucket [OF graph_index(2) [OF inv], of "(i, p)"] by simp_all

lemma neighbours_sorted: "sorted (neighbours g i p d)" "distinct (neighbours g i p d)"
  by (simp_all add: neighbours_def Let_def fold_hs_insert)

lemma neighbours_set:
  assumes inv: "graph_inv g"
  shows "set (neighbours g i p d) =
     {x. follows_forward d \<and> edge_visible g i p x \<or> follows_inverse d \<and> edge_visible g x p i}"
  using graph_bucket [OF inv] by (auto simp: neighbours_def Let_def fold_hs_insert)

lemma neighbour_counts:
  assumes inv: "graph_inv g"
  shows "forward_count g i p = card {t. edge_visible g i p t}"
    and "inverse_count g i p = card {s. edge_visible g s p i}"
proof -
  have "forward_count g i p = length (bucket (gi_forward g) (i, p))"
    "inverse_count g i p = length (bucket (gi_inverse g) (i, p))"
    by (simp_all add: forward_count_def inverse_count_def bucket_def split: option.splits)
  then show "forward_count g i p = card {t. edge_visible g i p t}"
    "inverse_count g i p = card {s. edge_visible g s p i}"
    using graph_bucket [OF inv] bucket_distinct [OF graph_index(1) [OF inv]]
      bucket_distinct [OF graph_index(2) [OF inv]] by (simp_all flip: distinct_card)
qed

text \<open>The neighbour query returns, sorted and without repetition, exactly the subjects
  one visible relation away in the asked direction; the cardinality counts count them.\<close>

theorem neighbours_exact:
  assumes inv: "graph_inv g"
  shows "sorted (neighbours g i p d) \<and> distinct (neighbours g i p d) \<and>
     set (neighbours g i p d) =
       {x. follows_forward d \<and> edge_visible g i p x \<or> follows_inverse d \<and> edge_visible g x p i} \<and>
     forward_count g i p = card {t. edge_visible g i p t} \<and>
     inverse_count g i p = card {s. edge_visible g s p i}"
  using neighbours_sorted neighbours_set [OF inv] neighbour_counts [OF inv] by blast

theorem neighbours_exact_witness:
  "graph_inv graph_d \<and> neighbours graph_d ''a1'' ''in_album'' WalkInverse = [''t1'', ''t2''] \<and>
   inverse_count graph_d ''a1'' ''in_album'' = card {s. edge_visible graph_d s ''in_album'' ''a1''}"
proof -
  have "neighbours graph_d ''a1'' ''in_album'' WalkInverse = [''t1'', ''t2'']" by code_simp
  with neighbours_exact [OF graph_d_inv, of "''a1''" "''in_album''" WalkInverse] graph_d_inv
  show ?thesis by simp
qed

section \<open>The claim lifecycle\<close>

abbreviation relation_of :: "graph_inner \<Rightarrow> relation_key \<rightharpoonup> relation_record" where
  "relation_of g \<equiv> hm_get (gi_relations g)"

text \<open>Asserting a relation is refused exactly for an empty component. Otherwise the
  relation exists afterwards with the claimant among its claimants, every earlier claim
  intact, and no other relation changed; a second assert by the same plugin changes nothing.\<close>

theorem rel_assert_effect:
  "case rel_assert g s p t c reason clk of
     Err e \<Rightarrow> s = [] \<or> p = [] \<or> t = []
   | Panic m \<Rightarrow> False
   | Ok (g', out) \<Rightarrow> s \<noteq> [] \<and> p \<noteq> [] \<and> t \<noteq> [] \<and>
       (out = RelCreated \<longleftrightarrow> \<not> relation_exists g s p t) \<and>
       (out = RelNoChange \<longleftrightarrow> c \<in> claimants (relation_of g) (mk_key s p t)) \<and>
       (out = RelNoChange \<longrightarrow> g' = g) \<and>
       claimants (relation_of g') (mk_key s p t) =
         insert c (claimants (relation_of g) (mk_key s p t)) \<and>
       (\<forall>k. k \<noteq> mk_key s p t \<longrightarrow> relation_of g' k = relation_of g k) \<and>
       is_suppressed g' s p t = is_suppressed g s p t"
proof (cases "s = [] \<or> p = [] \<or> t = []")
  case True
  then show ?thesis by (simp add: rel_assert_def)
next
  case False
  show ?thesis
  proof (cases "hm_get (gi_relations g) (mk_key s p t)")
    case None
    with False show ?thesis
      by (auto simp: rel_assert_def Let_def relation_exists_def is_suppressed_def claimants_def)
  next
    case (Some rec)
    have mem: "(\<exists>d \<in> set (rr_claims rec). rc_claimant d = c) \<longleftrightarrow> c \<in> rc_claimant ` set (rr_claims rec)"
      by (metis imageE imageI)
    from False Some show ?thesis
      unfolding rel_assert_def Let_def
      by (auto simp: relation_exists_def is_suppressed_def claimants_def mem)
  qed
qed

theorem rel_assert_effect_witness:
  "case rel_assert graph_d ''t2'' ''in_album'' ''a1'' ''plug.two'' None rel_tick of
     Ok (g', out) \<Rightarrow> claimants (relation_of g') (mk_key ''t2'' ''in_album'' ''a1'') =
       {''plug.two'', ''plug.one''} | _ \<Rightarrow> False"
proof -
  have "(case rel_assert graph_d ''t2'' ''in_album'' ''a1'' ''plug.two'' None rel_tick of
     Ok (g', out) \<Rightarrow> out = RelClaimantAdded | _ \<Rightarrow> False)" by code_simp
  moreover have "claimants (relation_of graph_d) (mk_key ''t2'' ''in_album'' ''a1'') = {''plug.one''}"
    by code_simp
  ultimately show ?thesis
    using rel_assert_effect [where g = graph_d and s = "''t2''" and p = "''in_album''"
        and t = "''a1''" and c = "''plug.two''" and reason = None and clk = rel_tick]
    by (auto split: outcome.splits)
qed

lemma drop_rel_claim_effect:
  assumes inv: "graph_inv g" and S: "relation_of g k = Some rec"
    and pos: "position (\<lambda>x. rc_claimant x = c) (rr_claims rec) = Some idx"
    and eq: "drop_rel_claim g k rec idx now = (g', gone)"
  shows "claimants (relation_of g') k = claimants (relation_of g) k - {c}"
    and "gone \<longleftrightarrow> claimants (relation_of g) k = {c}"
    and "gone \<longleftrightarrow> relation_of g' k = None"
    and "j \<noteq> k \<Longrightarrow> relation_of g' j = relation_of g j"
    and "c \<in> claimants (relation_of g) k"
proof -
  obtain ys x zs where split: "rr_claims rec = ys @ x # zs"
    "vec_remove idx (rr_claims rec) = ys @ zs" "rc_claimant x = c"
    using position_split [OF pos] by metis
  have "distinct (map rc_claimant (ys @ x # zs))"
    using graph_inv_wf [OF inv S] split(1) by (simp add: wf_relation_def)
  then have "c \<notin> rc_claimant ` set (ys @ zs)" using split(3) by auto
  moreover have "rc_claimant ` set (ys @ x # zs) = insert c (rc_claimant ` set (ys @ zs))"
    using split(3) by auto
  ultimately have img: "rc_claimant ` set (ys @ zs) = rc_claimant ` set (ys @ x # zs) - {c}"
    by simp
  have cl: "claimants (relation_of g) k = rc_claimant ` set (ys @ x # zs)"
    using S split(1) by (simp add: claimants_def)
  show "c \<in> claimants (relation_of g) k" using cl split(3) by auto
  have empty: "ys @ zs = [] \<longleftrightarrow> claimants (relation_of g) k = {c}"
  proof
    assume "claimants (relation_of g) k = {c}"
    then have "rc_claimant ` set (ys @ x # zs) = {c}" by (simp only: cl)
    then have "rc_claimant ` set (ys @ zs) = {}" unfolding img by simp
    then show "ys @ zs = []" by simp
  qed (use cl split(3) in auto)
  have g': "g' = (if ys @ zs = [] then remove_relation k g else g\<lparr>gi_relations := hm_insert k
      (rec\<lparr>rr_claims := ys @ zs, rr_modified_at := now\<rparr>) (gi_relations g)\<rparr>)" "gone \<longleftrightarrow> ys @ zs = []"
    using eq split(2) by (auto simp: drop_rel_claim_def Let_def remove_relation_def split: if_splits)
  show "claimants (relation_of g') k = claimants (relation_of g) k - {c}"
  proof -
    have "claimants (relation_of g') k = rc_claimant ` set (ys @ zs)"
      by (cases "ys @ zs = []") (simp_all only: g'(1) if_True if_False, simp_all)
    then show ?thesis by (simp only: cl img)
  qed
  show "gone \<longleftrightarrow> claimants (relation_of g) k = {c}" by (simp only: g'(2) empty)
  show "gone \<longleftrightarrow> relation_of g' k = None" by (auto simp: g')
  show "j \<noteq> k \<Longrightarrow> relation_of g' j = relation_of g j" by (simp add: g'(1))
qed

text \<open>A plugin can retract exactly the claims it holds; what goes is that claim alone,
  and the relation with it when no other plugin claims it. A forced retraction by an
  administrator changes the graph exactly as the target plugin's own retraction would, and
  reports \<open>NotFound\<close> on an unchanged graph where the plugin's own would be refused.\<close>

theorem rel_retract_effect:
  assumes inv: "graph_inv g"
  shows "case rel_retract g s p t c clk of
     Err e \<Rightarrow> c \<notin> claimants (relation_of g) (mk_key s p t) \<and>
       forced_retract_claim g s p t c clk = Ok (g, FrcNotFound)
   | Panic m \<Rightarrow> False
   | Ok (g', out) \<Rightarrow> c \<in> claimants (relation_of g) (mk_key s p t) \<and>
       claimants (relation_of g') (mk_key s p t) = claimants (relation_of g) (mk_key s p t) - {c} \<and>
       (out = RelRelationForgotten \<longleftrightarrow> claimants (relation_of g) (mk_key s p t) = {c}) \<and>
       (out = RelRelationForgotten \<longleftrightarrow> \<not> relation_exists g' s p t) \<and>
       (\<forall>k. k \<noteq> mk_key s p t \<longrightarrow> relation_of g' k = relation_of g k) \<and>
       forced_retract_claim g s p t c clk = Ok (g',
         if out = RelRelationForgotten then FrcRelationForgotten else FrcClaimRemoved)"
proof (cases "relation_of g (mk_key s p t)")
  case None
  then show ?thesis by (simp add: rel_retract_def forced_retract_claim_def claimants_def)
next
  case S: (Some rec)
  show ?thesis
  proof (cases "position (\<lambda>x. rc_claimant x = c) (rr_claims rec)")
    case None
    then have "c \<notin> claimants (relation_of g) (mk_key s p t)"
      using S by (auto simp: position_None claimants_def)
    with None S show ?thesis by (simp add: rel_retract_def forced_retract_claim_def)
  next
    case (Some idx)
    obtain g' gone where eq: "drop_rel_claim g (mk_key s p t) rec idx (clk 0) = (g', gone)"
      by fastforce
    note d = drop_rel_claim_effect [OF inv S Some eq]
    have "rel_retract g s p t c clk = Ok (g', if gone then RelRelationForgotten else RelClaimRemoved)"
      "forced_retract_claim g s p t c clk = Ok (g', if gone then FrcRelationForgotten else FrcClaimRemoved)"
      using S Some eq by (simp_all add: rel_retract_def forced_retract_claim_def)
    with d show ?thesis by (auto simp: relation_exists_def simp del: not_None_eq)
  qed
qed

theorem rel_retract_effect_witness:
  "graph_inv graph_d \<and> (case rel_retract graph_d ''t1'' ''in_album'' ''a1'' ''plug.two'' rel_tick of
     Ok (g', out) \<Rightarrow> out = RelClaimRemoved \<and> relation_exists g' ''t1'' ''in_album'' ''a1'' | _ \<Rightarrow> False)"
proof -
  have "(case rel_retract graph_d ''t1'' ''in_album'' ''a1'' ''plug.two'' rel_tick of
     Ok (g', out) \<Rightarrow> out = RelClaimRemoved | _ \<Rightarrow> False)" by code_simp
  with rel_retract_effect [OF graph_d_inv, where s = "''t1''" and p = "''in_album''"
      and t = "''a1''" and c = "''plug.two''" and clk = rel_tick] graph_d_inv
  show ?thesis by (auto split: outcome.splits)
qed

section \<open>Suppression\<close>

text \<open>The index is determined by visibility alone, so equal visibility gives equal answers.\<close>

lemma neighbours_visible:
  assumes "graph_inv g" "graph_inv h" "\<And>s p t. edge_visible g s p t = edge_visible h s p t"
  shows "neighbours g i p d = neighbours h i p d"
proof (rule sorted_distinct_set_unique [OF neighbours_sorted neighbours_sorted])
  show "set (neighbours g i p d) = set (neighbours h i p d)"
    using assms(3) neighbours_set [OF assms(1)] neighbours_set [OF assms(2)] by simp
qed

text \<open>What suppressing and unsuppressing do to the record under the key.\<close>

definition same_but_suppression :: "relation_record \<Rightarrow> relation_record \<Rightarrow> bool" where
  "same_but_suppression rec rec' \<longleftrightarrow> rr_key rec' = rr_key rec \<and> rr_claims rec' = rr_claims rec \<and>
     rr_created_at rec' = rr_created_at rec"

lemma suppress_total: "\<exists>g' out. suppress g s p t ap reason clk = Ok (g', out)"
  by (auto simp: suppress_def Let_def split: option.splits)

lemma suppress_facts:
  assumes eq: "suppress g s p t ap reason clk = Ok (g', out)"
  shows "k \<noteq> mk_key s p t \<Longrightarrow> relation_of g' k = relation_of g k"
    and "relation_of g (mk_key s p t) = None \<Longrightarrow> out = SuppressNotFound \<and> g' = g"
    and "relation_of g (mk_key s p t) = Some rec \<Longrightarrow> out \<noteq> SuppressNotFound \<and>
       (\<exists>rec'. relation_of g' (mk_key s p t) = Some rec' \<and> same_but_suppression rec rec' \<and>
          rr_suppression rec' = Some (case rr_suppression rec of
            None \<Rightarrow> \<lparr>sp_admin_plugin = ap, sp_suppressed_at = clk 0, sp_reason = reason\<rparr>
          | Some sp \<Rightarrow> sp\<lparr>sp_reason := reason\<rparr>))"
proof -
  show "relation_of g' k = relation_of g k" if "k \<noteq> mk_key s p t"
    using eq that by (auto simp: suppress_def Let_def split: option.splits if_splits)
  show "out = SuppressNotFound \<and> g' = g" if "relation_of g (mk_key s p t) = None"
    using eq that by (auto simp: suppress_def Let_def)
  show "out \<noteq> SuppressNotFound \<and>
       (\<exists>rec'. relation_of g' (mk_key s p t) = Some rec' \<and> same_but_suppression rec rec' \<and>
          rr_suppression rec' = Some (case rr_suppression rec of
            None \<Rightarrow> \<lparr>sp_admin_plugin = ap, sp_suppressed_at = clk 0, sp_reason = reason\<rparr>
          | Some sp \<Rightarrow> sp\<lparr>sp_reason := reason\<rparr>))"
    if "relation_of g (mk_key s p t) = Some rec"
    using eq that
    by (cases "rr_suppression rec")
       (auto simp: suppress_def Let_def same_but_suppression_def split: if_splits)
qed

lemma unsuppress_total: "\<exists>g' out. unsuppress g s p t clk = Ok (g', out)"
  by (auto simp: unsuppress_def Let_def split: option.splits)

lemma unsuppress_facts:
  assumes eq: "unsuppress g s p t clk = Ok (g', out)"
  shows "k \<noteq> mk_key s p t \<Longrightarrow> relation_of g' k = relation_of g k"
    and "relation_of g (mk_key s p t) = None \<Longrightarrow> out = UnsuppressNotFound \<and> g' = g"
    and "relation_of g (mk_key s p t) = Some rec \<Longrightarrow>
       (\<exists>rec'. relation_of g' (mk_key s p t) = Some rec' \<and> same_but_suppression rec rec' \<and>
          rr_suppression rec' = None)"
proof -
  show "relation_of g' k = relation_of g k" if "k \<noteq> mk_key s p t"
    using eq that by (auto simp: unsuppress_def Let_def split: option.splits if_splits)
  show "out = UnsuppressNotFound \<and> g' = g" if "relation_of g (mk_key s p t) = None"
    using eq that by (auto simp: unsuppress_def Let_def)
  show "\<exists>rec'. relation_of g' (mk_key s p t) = Some rec' \<and> same_but_suppression rec rec' \<and>
          rr_suppression rec' = None" if "relation_of g (mk_key s p t) = Some rec"
    using eq that
    by (cases "rr_suppression rec") (auto simp: unsuppress_def Let_def same_but_suppression_def)
qed

lemma edge_visible_relation:
  "edge_visible g s p t \<longleftrightarrow>
     (\<exists>rec. relation_of g (mk_key s p t) = Some rec \<and> rr_suppression rec = None)"
  by (auto simp: edge_visible_def relation_exists_def is_suppressed_def split: option.splits)

text \<open>Suppressing an existing relation hides exactly that edge from neighbour queries and
  counts while its claims stay recorded; re-suppressing only replaces the reason, keeping the
  original administrator and date; unsuppressing brings back exactly the answers there were
  before for an edge that was visible. Neither ever fails.\<close>

theorem suppress_roundtrip:
  assumes inv: "graph_inv g"
  shows "case suppress g s p t ap reason clk of Ok (g1, out) \<Rightarrow>
       (\<forall>s' p' t'. edge_visible g1 s' p' t' \<longleftrightarrow>
          edge_visible g s' p' t' \<and> (s', p', t') \<noteq> (s, p, t)) \<and>
       claimants (relation_of g1) = claimants (relation_of g) \<and>
       (out = SuppressNotFound \<longleftrightarrow> \<not> relation_exists g s p t) \<and>
       (case unsuppress g1 s p t clk' of Ok (g2, out2) \<Rightarrow>
          (relation_exists g s p t \<longrightarrow> edge_visible g2 s p t) \<and>
          claimants (relation_of g2) = claimants (relation_of g) \<and>
          (edge_visible g s p t \<longrightarrow> neighbours g2 = neighbours g)
        | _ \<Rightarrow> False)
     | _ \<Rightarrow> False"
proof -
  obtain g1 out where sup: "suppress g s p t ap reason clk = Ok (g1, out)"
    using suppress_total by blast
  note o1 = suppress_facts(1) [OF sup] and n1 = suppress_facts(2) [OF sup]
  have s1: "out \<noteq> SuppressNotFound \<and>
       (\<exists>rec'. relation_of g1 (mk_key s p t) = Some rec' \<and> same_but_suppression rec rec' \<and>
          rr_suppression rec' \<noteq> None)" if "relation_of g (mk_key s p t) = Some rec" for rec
    using suppress_facts(3) [OF sup that] by auto
  obtain g2 out2 where uns: "unsuppress g1 s p t clk' = Ok (g2, out2)"
    using unsuppress_total by blast
  note o2 = unsuppress_facts(1) [OF uns] and n2 = unsuppress_facts(2) [OF uns]
    and s2 = unsuppress_facts(3) [OF uns]
  have inv2: "graph_inv g2" using unsuppress_inv [OF suppress_inv [OF inv sup] uns] .
  have cl1: "claimants (relation_of g1) k = claimants (relation_of g) k" for k
    by (cases "k = mk_key s p t"; cases "relation_of g (mk_key s p t)")
       (use o1 n1 s1 in \<open>auto simp: claimants_def same_but_suppression_def simp del: mk_key_eq\<close>)
  have cl2: "claimants (relation_of g2) k = claimants (relation_of g1) k" for k
    by (cases "k = mk_key s p t"; cases "relation_of g1 (mk_key s p t)")
       (use o2 n2 s2 in \<open>auto simp: claimants_def same_but_suppression_def simp del: mk_key_eq\<close>)
  have v1: "edge_visible g1 s' p' t' \<longleftrightarrow> edge_visible g s' p' t' \<and> (s', p', t') \<noteq> (s, p, t)"
    for s' p' t'
  proof (cases "(s', p', t') = (s, p, t)")
    case True
    then show ?thesis
      by (cases "relation_of g (mk_key s p t)") (use n1 s1 in \<open>auto simp: edge_visible_relation\<close>)
  next
    case False
    then have "relation_of g1 (mk_key s' p' t') = relation_of g (mk_key s' p' t')"
      by (intro o1) auto
    with False show ?thesis by (simp only: edge_visible_relation simp_thms)
  qed
  have ex: "relation_exists g s p t \<longleftrightarrow> relation_of g (mk_key s p t) \<noteq> None"
    by (simp add: relation_exists_def)
  have v2: "edge_visible g2 s p t" if "relation_exists g s p t"
    using that s1 s2 unfolding ex edge_visible_relation by blast
  have "neighbours g2 = neighbours g" if "edge_visible g s p t"
  proof (intro ext neighbours_visible [OF inv2 inv])
    fix s' p' t'
    show "edge_visible g2 s' p' t' = edge_visible g s' p' t'"
    proof (cases "(s', p', t') = (s, p, t)")
      case True
      with that v2 show ?thesis by (simp add: edge_visible_def)
    next
      case False
      then have "relation_of g2 (mk_key s' p' t') = relation_of g1 (mk_key s' p' t')"
        by (intro o2) auto
      then have "edge_visible g2 s' p' t' = edge_visible g1 s' p' t'"
        by (simp only: edge_visible_relation)
      with False v1 show ?thesis by simp
    qed
  qed
  moreover have "out = SuppressNotFound \<longleftrightarrow> \<not> relation_exists g s p t"
    unfolding ex using n1 s1 by (cases "relation_of g (mk_key s p t)") auto
  ultimately show ?thesis
    using sup uns v1 v2 cl1 cl2 by (simp add: fun_eq_iff)
qed

theorem suppress_roundtrip_witness:
  "graph_inv graph_d \<and>
   (case suppress graph_d ''t1'' ''in_album'' ''a1'' ''admin'' (Some ''dup'') rel_tick of
      Ok (g1, out) \<Rightarrow> out = NewlySuppressed \<and> \<not> edge_visible g1 ''t1'' ''in_album'' ''a1'' \<and>
        (case unsuppress g1 ''t1'' ''in_album'' ''a1'' rel_tick of
           Ok (g2, _) \<Rightarrow> neighbours g2 = neighbours graph_d | _ \<Rightarrow> False)
    | _ \<Rightarrow> False)"
proof -
  have "edge_visible graph_d ''t1'' ''in_album'' ''a1''"
    "(case suppress graph_d ''t1'' ''in_album'' ''a1'' ''admin'' (Some ''dup'') rel_tick of
      Ok (g1, out) \<Rightarrow> out = NewlySuppressed | _ \<Rightarrow> False)" by code_simp+
  with suppress_roundtrip [OF graph_d_inv, where s = "''t1''" and p = "''in_album''" and t = "''a1''"
      and ap = "''admin''" and reason = "Some ''dup''" and clk = rel_tick and clk' = rel_tick]
    graph_d_inv
  show ?thesis by (auto split: outcome.splits)
qed

section \<open>Cascades\<close>

text \<open>Forgetting a subject removes exactly the relations that mention it, on either side
  and suppressed ones included, and reports each of them once.\<close>

theorem forget_all_touching_effect:
  assumes inv: "graph_inv g"
  shows "relation_of (fst (forget_all_touching g i)) =
       (\<lambda>k. if touches i k then None else relation_of g k) \<and>
     distinct (snd (forget_all_touching g i)) \<and>
     set (snd (forget_all_touching g i)) = {k. touches i k \<and> relation_of g k \<noteq> None} \<and>
     graph_inv (fst (forget_all_touching g i))"
  using forget_all_touching_get forget_all_touching_inv [OF inv] distinct_keys_touching [OF inv]
  by (simp add: forget_all_touching_def Let_def)

theorem forget_all_touching_effect_witness:
  "graph_inv graph_d \<and> distinct (snd (forget_all_touching graph_d ''t2'')) \<and>
   length (snd (forget_all_touching graph_d ''t2'')) = 2"
proof -
  have "length (snd (forget_all_touching graph_d ''t2'')) = 2" by code_simp
  with forget_all_touching_effect [OF graph_d_inv, of "''t2''"] graph_d_inv show ?thesis by blast
qed

text \<open>(C10) The merge cascade: rewriting a retired id to another id always succeeds on
  non-empty ids, leaves no relation that mentions the retired id, relabels every relation
  (collapsing those that become equal), and loses no claim: the claimants of a resulting
  relation are exactly those of the relations that became it. Relations that mention neither
  id are untouched.\<close>

theorem rewrite_effect:
  assumes inv: "graph_inv g" and ids: "old \<noteq> []" "new \<noteq> []" "old \<noteq> new"
  shows "case rewrite_subject_to g old new clk of
      Ok (g', out) \<Rightarrow> graph_inv g' \<and> rewritten old new g g' \<and>
        (\<forall>k. touches old k \<longrightarrow> relation_of g' k = None) \<and>
        map er_old_key (rso_rewrites out) = keys_touching g old
    | _ \<Rightarrow> False"
proof (rule rewrite_law [OF inv ids, of clk])
  fix g' out
  assume r: "rewrite_subject_to g old new clk = Ok (g', out)" "graph_inv g'"
    "rewritten old new g g'" "map er_old_key (rso_rewrites out) = keys_touching g old"
  have "relation_of g' k = None" if "touches old k" for k
  proof (rule ccontr)
    assume "relation_of g' k \<noteq> None"
    then have "k \<in> subst_key old new ` dom (relation_of g)"
      using r(3) by (auto simp: rewritten_def)
    with that ids(3) show False by auto
  qed
  with r show ?thesis by simp
qed

theorem rewrite_effect_witness:
  "graph_inv graph_d \<and> (case rewrite_subject_to graph_d ''t2'' ''t1'' rel_tick of
     Ok (g', out) \<Rightarrow> claimants (relation_of g') (mk_key ''t1'' ''in_album'' ''a1'') =
         {''plug.one'', ''plug.two''} \<and>
       relation_of g' (mk_key ''t2'' ''in_album'' ''a1'') = None \<and> length (rso_claim_unions out) = 1
   | _ \<Rightarrow> False)"
proof -
  have "(case rewrite_subject_to graph_d ''t2'' ''t1'' rel_tick of
     Ok (g', out) \<Rightarrow> claimants (relation_of g') (mk_key ''t1'' ''in_album'' ''a1'') =
         {''plug.one'', ''plug.two''} \<and> length (rso_claim_unions out) = 1
   | _ \<Rightarrow> False)" by code_simp
  moreover have "touches ''t2'' (mk_key ''t2'' ''in_album'' ''a1'')" by (simp add: touches_def)
  ultimately show ?thesis
    using rewrite_effect [OF graph_d_inv, of "''t2''" "''t1''" rel_tick] graph_d_inv
    by (auto split: outcome.splits)
qed

text \<open>(C11) The split cascade: with destinations other than the retired id it always succeeds
  and leaves no relation mentioning the retired id; each of its relations is carried to every
  id its strategy assigns, together with all its claimants, and relations that receive nothing
  are untouched. No claim is lost because at least one destination is always assigned.\<close>

theorem split_relations_effect:
  assumes inv: "graph_inv g" and ids: "src \<noteq> []" "new_ids \<noteq> []"
    and new: "src \<notin> split_destinations new_ids assignments"
  shows "case split_relations g src new_ids strategy assignments clk of
      Ok (g', out) \<Rightarrow> graph_inv g' \<and>
        distributed src (assigned_new_ids strategy new_ids assignments) g g' \<and>
        (\<forall>k. assigned_new_ids strategy new_ids assignments k \<noteq> [])
    | _ \<Rightarrow> False"
proof (rule split_law [OF inv ids new, of strategy clk])
  fix g' out
  assume "split_relations g src new_ids strategy assignments clk = Ok (g', out)"
    "graph_inv g'" "distributed src (assigned_new_ids strategy new_ids assignments) g g'"
  moreover have "assigned_new_ids strategy new_ids assignments k \<noteq> []" for k
    using ids(2) by (cases strategy) (auto split: option.splits)
  ultimately show ?thesis by simp
qed

theorem split_relations_effect_witness:
  "graph_inv graph_d \<and> (case split_relations graph_d ''t1'' [''u1'', ''u2''] Explicit
       [\<lparr>sa_source_id = ''t1'', sa_predicate = ''next'', sa_target_id = ''t2'', sa_target_new_id = ''u2''\<rparr>]
       rel_tick of
     Ok (g', out) \<Rightarrow> length (sro_ambiguous out) = 1 \<and> relation_exists g' ''u2'' ''next'' ''t2'' \<and>
       \<not> relation_exists g' ''u1'' ''next'' ''t2'' \<and> graph_inv g'
   | _ \<Rightarrow> False)"
proof -
  let ?as = "[\<lparr>sa_source_id = ''t1'', sa_predicate = ''next'', sa_target_id = ''t2'',
    sa_target_new_id = ''u2''\<rparr>]"
  have "(case split_relations graph_d ''t1'' [''u1'', ''u2''] Explicit ?as rel_tick of
     Ok (g', out) \<Rightarrow> length (sro_ambiguous out) = 1 \<and> relation_exists g' ''u2'' ''next'' ''t2'' \<and>
       \<not> relation_exists g' ''u1'' ''next'' ''t2''
   | _ \<Rightarrow> False)" by code_simp
  moreover have "''t1'' \<notin> split_destinations [''u1'', ''u2''] ?as"
    by (simp add: split_destinations_def)
  ultimately show ?thesis
    using split_relations_effect [OF graph_d_inv, of "''t1''" "[''u1'', ''u2'']" ?as Explicit rel_tick]
      graph_d_inv
    by (auto split: outcome.splits)
qed

end
