(* ===== verification/Relation_Walk.thy ===== *)
theory Relation_Walk
  imports Relation_Spec
begin

text \<open>
  Correctness of the breadth-first walk. The loop is bounded by the scope's \<open>max_visits\<close>, so
  it always ends; its invariant says that what was visited and what is queued are the subjects
  found so far, in order of distance, and that nothing next to a visited subject was missed.
\<close>

section \<open>Paths\<close>

definition walk_edge :: "graph_inner \<Rightarrow> walk_scope \<Rightarrow> string \<Rightarrow> string \<Rightarrow> bool" where
  "walk_edge g sc x y \<longleftrightarrow> (\<exists>p \<in> set (ws_predicates sc).
     follows_forward (ws_direction sc) \<and> edge_visible g x p y \<or>
     follows_inverse (ws_direction sc) \<and> edge_visible g y p x)"

definition within :: "graph_inner \<Rightarrow> walk_scope \<Rightarrow> string \<Rightarrow> nat \<Rightarrow> string \<Rightarrow> bool" where
  "within g sc x n y \<longleftrightarrow> (walk_edge g sc ^^ n) x y"

lemma set_edges_from:
  assumes "graph_inv g"
  shows "fst ` set (edges_from g sc x) = {y. walk_edge g sc x y}"
proof -
  have "fst ` set (edges_from g sc x) = (\<Union>p \<in> set (ws_predicates sc).
      (if follows_forward (ws_direction sc) then set (bucket (gi_forward g) (x, p)) else {}) \<union>
      (if follows_inverse (ws_direction sc) then set (bucket (gi_inverse g) (x, p)) else {}))"
    unfolding edges_from_def set_concat set_map image_UN image_image
    by (intro SUP_cong refl) (simp add: image_Un image_image)
  also have "\<dots> = {y. walk_edge g sc x y}"
    by (auto simp: graph_bucket [OF assms] walk_edge_def split: if_splits)
  finally show ?thesis .
qed

section \<open>The queue\<close>

abbreviation qid :: "string \<times> nat \<times> string option \<Rightarrow> string" where
  "qid \<equiv> fst"

abbreviation qdepth :: "string \<times> nat \<times> string option \<Rightarrow> nat" where
  "qdepth \<equiv> \<lambda>e. fst (snd e)"

text \<open>What one visit appends: the new neighbours, each once, all at the next depth.\<close>

lemma enqueue_unseen_law:
  assumes "enqueue_unseen d es (queue, seen) = (queue', seen')"
  obtains new where "queue' = queue @ new" "set seen' = set seen \<union> qid ` set new"
    "distinct (map qid new)" "qid ` set new \<inter> set seen = {}"
    "qid ` set new \<subseteq> fst ` set es" "fst ` set es \<subseteq> set seen'" "\<forall>e \<in> set new. qdepth e = d"
  using assms
proof (induction es arbitrary: queue seen thesis)
  case Nil
  then show ?case by simp
next
  case (Cons e es)
  obtain t p where e: "e = (t, p)" by fastforce
  show ?case
  proof (cases "t \<in> set seen")
    case True
    then have "enqueue_unseen d es (queue, seen) = (queue', seen')" using Cons.prems(2) e by simp
    then obtain new where "queue' = queue @ new" "set seen' = set seen \<union> qid ` set new"
      "distinct (map qid new)" "qid ` set new \<inter> set seen = {}"
      "qid ` set new \<subseteq> fst ` set es" "fst ` set es \<subseteq> set seen'" "\<forall>e \<in> set new. qdepth e = d"
      by (rule Cons.IH [rotated])
    with True e show ?thesis by (intro Cons.prems(1) [of new]) auto
  next
    case False
    have "enqueue_unseen d es (queue @ [(t, d, Some p)], hs_insert t seen) = (queue', seen')"
      using False Cons.prems(2) e by simp
    then obtain new where n: "queue' = queue @ (t, d, Some p) # new"
      "set seen' = insert t (set seen) \<union> qid ` set new" "distinct (map qid new)"
      "qid ` set new \<inter> insert t (set seen) = {}"
      "qid ` set new \<subseteq> fst ` set es" "fst ` set es \<subseteq> set seen'" "\<forall>e \<in> set new. qdepth e = d"
      by (rule Cons.IH [rotated]) auto
    show ?thesis
      by (rule Cons.prems(1) [of "(t, d, Some p) # new"]) (use n False e in auto)
  qed
qed

section \<open>The loop invariant\<close>

definition found :: "visit_record list \<Rightarrow> walk_queue \<Rightarrow> (string \<times> nat) list" where
  "found visited queue = map (\<lambda>v. (vr_canonical_id v, vr_depth v)) visited @
     map (\<lambda>e. (qid e, qdepth e)) queue"

definition walk_inv ::
    "graph_inner \<Rightarrow> walk_scope \<Rightarrow> string \<Rightarrow> walk_queue \<Rightarrow> string list \<Rightarrow> visit_record list \<Rightarrow> bool" where
  "walk_inv g sc x queue seen visited \<longleftrightarrow>
     set seen = fst ` set (found visited queue) \<and>
     distinct (map fst (found visited queue)) \<and>
     sorted (map snd (found visited queue)) \<and>
     (x, 0) \<in> set (found visited queue) \<and>
     (\<forall>(y, d) \<in> set (found visited queue). within g sc x d y \<and> d \<le> ws_max_depth sc) \<and>
     (\<forall>e \<in> set queue. \<forall>f \<in> set queue. qdepth f \<le> Suc (qdepth e)) \<and>
     (\<forall>v \<in> set visited. vr_depth v < ws_max_depth sc \<longrightarrow>
        (\<forall>y. walk_edge g sc (vr_canonical_id v) y \<longrightarrow>
           (\<exists>d \<le> Suc (vr_depth v). (y, d) \<in> set (found visited queue)))) \<and>
     length visited \<le> ws_max_visits sc"

lemma found_visit [simp]:
  "found (visited @ [\<lparr>vr_canonical_id = i, vr_depth = d, vr_arrived_via = via\<rparr>]) queue =
     found visited ((i, d, via) # queue)"
  by (simp add: found_def)

lemma found_append [simp]:
  "found visited (queue @ new) = found visited queue @ map (\<lambda>e. (qid e, qdepth e)) new"
  by (simp add: found_def)

lemma walk_inv_init: "walk_inv g sc x [(x, 0, None)] [x] []"
  by (simp add: walk_inv_def found_def within_def)

lemma walk_inv_leaf:
  assumes "walk_inv g sc x ((i, d, via) # queue) seen visited"
    "length visited < ws_max_visits sc" "ws_max_depth sc \<le> d"
  shows "walk_inv g sc x queue seen
    (visited @ [\<lparr>vr_canonical_id = i, vr_depth = d, vr_arrived_via = via\<rparr>])"
  using assms unfolding walk_inv_def found_visit by auto

lemma walk_inv_depths:
  assumes "walk_inv g sc x ((i, d, via) # queue) seen visited"
  shows "\<forall>(y, c) \<in> set (found visited ((i, d, via) # queue)). c \<le> Suc d" "\<forall>e \<in> set queue. d \<le> qdepth e"
proof -
  have s: "sorted (map snd (found visited ((i, d, via) # queue)))"
    and q: "\<forall>f \<in> set queue. qdepth f \<le> Suc d"
    using assms unfolding walk_inv_def by auto
  from s have "\<forall>v \<in> set visited. vr_depth v \<le> d" "\<forall>e \<in> set queue. d \<le> qdepth e"
    by (auto simp: found_def sorted_append)
  with q show "\<forall>(y, c) \<in> set (found visited ((i, d, via) # queue)). c \<le> Suc d"
    "\<forall>e \<in> set queue. d \<le> qdepth e" by (auto simp: found_def intro: le_SucI)
qed

lemma walk_inv_expand:
  assumes g: "graph_inv g" and inv: "walk_inv g sc x ((i, d, via) # queue) seen visited"
    and len: "length visited < ws_max_visits sc" and d: "d < ws_max_depth sc"
    and enq: "enqueue_unseen (Suc d) (edges_from g sc i) (queue, seen) = (queue', seen')"
  shows "walk_inv g sc x queue' seen'
    (visited @ [\<lparr>vr_canonical_id = i, vr_depth = d, vr_arrived_via = via\<rparr>])"
proof (rule enqueue_unseen_law [OF enq])
  fix new
  assume q': "queue' = queue @ new" and seen': "set seen' = set seen \<union> qid ` set new"
    and dist: "distinct (map qid new)" and fresh: "qid ` set new \<inter> set seen = {}"
    and sub: "qid ` set new \<subseteq> fst ` set (edges_from g sc i)"
    and all: "fst ` set (edges_from g sc i) \<subseteq> set seen'" and dep: "\<forall>e \<in> set new. qdepth e = Suc d"
  let ?F = "found visited ((i, d, via) # queue)" and ?N = "map (\<lambda>e. (qid e, qdepth e)) new"
  have F: "set seen = fst ` set ?F" "distinct (map fst ?F)" "sorted (map snd ?F)" "(x, 0) \<in> set ?F"
    "\<forall>(y, c) \<in> set ?F. within g sc x c y \<and> c \<le> ws_max_depth sc"
    and vis: "\<forall>v \<in> set visited. vr_depth v < ws_max_depth sc \<longrightarrow>
        (\<forall>y. walk_edge g sc (vr_canonical_id v) y \<longrightarrow> (\<exists>c \<le> Suc (vr_depth v). (y, c) \<in> set ?F))"
    using inv unfolding walk_inv_def by blast+
  note dd = walk_inv_depths [OF inv]
  have N: "snd ` set ?N \<subseteq> {Suc d}" "fst ` set ?N = qid ` set new"
    using dep by (auto simp: image_image)
  have edge: "walk_edge g sc i y" if "(y, c) \<in> set ?N" for y c
  proof -
    have "y \<in> fst ` set ?N" using that by (metis fst_conv image_eqI)
    then have "y \<in> qid ` set new" by (simp only: N)
    then show ?thesis using sub set_edges_from [OF g] by blast
  qed
  have wi: "within g sc x d i" using F(5) by (auto simp: found_def)
  have "sorted (map snd (?F @ ?N))"
  proof -
    have "sorted (map snd ?N)" using N(1) dep by (induction new) auto
    with F(3) dd(1) dep show ?thesis by (auto simp: sorted_append)
  qed
  moreover have "distinct (map fst (?F @ ?N))"
    using F(1,2) dist fresh N(2) by (auto simp: comp_def)
  moreover have "within g sc x c y \<and> c \<le> ws_max_depth sc" if "(y, c) \<in> set (?F @ ?N)" for y c
  proof (cases "(y, c) \<in> set ?F")
    case True
    with F(5) show ?thesis by blast
  next
    case False
    with that have "(y, c) \<in> set ?N" by simp
    with edge have "c = Suc d" "walk_edge g sc i y" using N(1) by force+
    with wi d show ?thesis by (auto simp: within_def)
  qed
  moreover have near: "\<exists>c \<le> Suc d. (y, c) \<in> set (?F @ ?N)" if "walk_edge g sc i y" for y
  proof -
    have "y \<in> set seen'" using that all set_edges_from [OF g] by blast
    then have "y \<in> fst ` set (?F @ ?N)"
      by (simp only: seen' F(1) N(2) set_append image_Un)
    then obtain z where z: "z \<in> set (?F @ ?N)" "y = fst z" by (rule imageE)
    then have zz: "(y, snd z) \<in> set (?F @ ?N)" by (simp only: prod.collapse)
    moreover have "snd z \<le> Suc d"
    proof (cases "(y, snd z) \<in> set ?F")
      case True
      with dd(1) show ?thesis by blast
    next
      case False
      with zz have "(y, snd z) \<in> set ?N" unfolding set_append by (simp only: Un_iff simp_thms)
      then have "snd (y, snd z) \<in> snd ` set ?N" by (rule imageI)
      then have "snd (y, snd z) \<in> {Suc d}" using N(1) by (rule rev_subsetD)
      then show ?thesis by simp
    qed
    ultimately show ?thesis by blast
  qed
  moreover have "qdepth f \<le> Suc (qdepth e)" if "e \<in> set queue'" "f \<in> set queue'" for e f
  proof -
    have "qdepth f \<le> Suc d" using that(2) q' dd(1) dep by (auto simp: found_def)
    moreover have "d \<le> qdepth e" using that(1) q' dd(2) dep by auto
    ultimately show ?thesis by simp
  qed
  moreover have "found (visited @ [\<lparr>vr_canonical_id = i, vr_depth = d, vr_arrived_via = via\<rparr>]) queue' = ?F @ ?N"
    by (simp add: q' found_def)
  moreover have "set seen' = fst ` set (?F @ ?N)" by (simp only: seen' F(1) N(2) set_append image_Un)
  moreover have "(x, 0) \<in> set (?F @ ?N)" using F(4) by simp
  moreover have "\<forall>v \<in> set (visited @ [\<lparr>vr_canonical_id = i, vr_depth = d, vr_arrived_via = via\<rparr>]).
      vr_depth v < ws_max_depth sc \<longrightarrow> (\<forall>y. walk_edge g sc (vr_canonical_id v) y \<longrightarrow>
        (\<exists>c \<le> Suc (vr_depth v). (y, c) \<in> set (?F @ ?N)))"
  proof -
    have "\<forall>v \<in> set visited. vr_depth v < ws_max_depth sc \<longrightarrow>
      (\<forall>y. walk_edge g sc (vr_canonical_id v) y \<longrightarrow> (\<exists>c \<le> Suc (vr_depth v). (y, c) \<in> set (?F @ ?N)))"
      using vis unfolding set_append by blast
    with near show ?thesis by (simp del: map_append)
  qed
  ultimately show ?thesis
    using len unfolding walk_inv_def by (auto simp del: set_append set_map)
qed

section \<open>The walk\<close>

lemma walk_loop_inv:
  assumes "graph_inv g" "walk_inv g sc x queue seen visited"
  shows "\<exists>queue' seen'. walk_inv g sc x queue' seen' (wr_visited (walk_loop g sc queue seen visited)) \<and>
     (wr_truncated (walk_loop g sc queue seen visited) \<longleftrightarrow> queue' \<noteq> []) \<and>
     (wr_truncated (walk_loop g sc queue seen visited) \<longrightarrow>
        length (wr_visited (walk_loop g sc queue seen visited)) = ws_max_visits sc)"
  using assms
proof (induction g sc queue seen visited rule: walk_loop.induct)
  case (1 g sc seen visited)
  then show ?case by (intro exI [of _ "[]"] exI [of _ seen]) simp
next
  case (2 g sc i d via queue seen visited)
  let ?v = "visited @ [\<lparr>vr_canonical_id = i, vr_depth = d, vr_arrived_via = via\<rparr>]"
  consider (cap) "ws_max_visits sc \<le> length visited"
    | (leaf) "length visited < ws_max_visits sc" "ws_max_depth sc \<le> d"
    | (expand) "length visited < ws_max_visits sc" "d < ws_max_depth sc" by linarith
  then show ?case
  proof cases
    case cap
    moreover have "length visited \<le> ws_max_visits sc" using 2(4) by (simp add: walk_inv_def)
    ultimately show ?thesis using 2(4) by auto
  next
    case leaf
    with walk_inv_leaf [OF 2(4)] 2(1) [OF _ refl _ 2(3)] show ?thesis by simp
  next
    case expand
    obtain queue' seen' where enq:
      "enqueue_unseen (d + 1) (edges_from g sc i) (queue, seen) = (queue', seen')" by fastforce
    have "walk_inv g sc x queue' seen' ?v"
      by (rule walk_inv_expand [OF 2(3,4)]) (use expand enq in auto)
    with expand enq 2(2) [OF _ refl _ enq [symmetric] refl 2(3)] show ?thesis by simp
  qed
qed

lemma walk_final:
  assumes "graph_inv g"
  obtains queue seen where "walk_inv g sc x queue seen (wr_visited (walk g x sc))"
    "wr_truncated (walk g x sc) \<longleftrightarrow> queue \<noteq> []"
    "wr_truncated (walk g x sc) \<Longrightarrow> length (wr_visited (walk g x sc)) = ws_max_visits sc"
  using walk_loop_inv [OF assms walk_inv_init] unfolding walk_def by blast

text \<open>(C12) A walk visits no subject twice and at most \<open>max_visits\<close> in all, in order of
  distance; every visited subject is that many followed edges away from the start and no
  further than \<open>max_depth\<close>; the truncation flag is raised only when the cap was reached.\<close>

theorem walk_sound:
  assumes inv: "graph_inv g"
  shows "distinct (map vr_canonical_id (wr_visited (walk g x sc))) \<and>
     length (wr_visited (walk g x sc)) \<le> ws_max_visits sc \<and>
     sorted (map vr_depth (wr_visited (walk g x sc))) \<and>
     (\<forall>v \<in> set (wr_visited (walk g x sc)).
        within g sc x (vr_depth v) (vr_canonical_id v) \<and> vr_depth v \<le> ws_max_depth sc) \<and>
     (wr_truncated (walk g x sc) \<longrightarrow> length (wr_visited (walk g x sc)) = ws_max_visits sc)"
proof (rule walk_final [OF inv, of sc x])
  fix queue seen
  assume w: "walk_inv g sc x queue seen (wr_visited (walk g x sc))"
    and t: "wr_truncated (walk g x sc) \<Longrightarrow> length (wr_visited (walk g x sc)) = ws_max_visits sc"
  let ?V = "wr_visited (walk g x sc)"
  have "distinct (map fst (found ?V queue))" "sorted (map snd (found ?V queue))"
    "length ?V \<le> ws_max_visits sc"
    and all: "\<forall>(y, d) \<in> set (found ?V queue). within g sc x d y \<and> d \<le> ws_max_depth sc"
    using w unfolding walk_inv_def by blast+
  then have "distinct (map vr_canonical_id ?V)" "sorted (map vr_depth ?V)" "length ?V \<le> ws_max_visits sc"
    by (simp_all add: found_def comp_def sorted_append)
  moreover have "within g sc x (vr_depth v) (vr_canonical_id v) \<and> vr_depth v \<le> ws_max_depth sc"
    if "v \<in> set ?V" for v
  proof -
    have "(vr_canonical_id v, vr_depth v) \<in> set (found ?V queue)" using that by (simp add: found_def)
    with all show ?thesis by blast
  qed
  ultimately show ?thesis using t by blast
qed

theorem walk_sound_witness:
  "graph_inv graph_d \<and> map vr_canonical_id (wr_visited (walk graph_d ''t1''
     \<lparr>ws_predicates = [''next'', ''in_album''], ws_direction = WalkForward, ws_max_depth = 3,
      ws_max_visits = 2\<rparr>)) = [''t1'', ''t2''] \<and>
   length (wr_visited (walk graph_d ''t1''
     \<lparr>ws_predicates = [''next'', ''in_album''], ws_direction = WalkForward, ws_max_depth = 3,
      ws_max_visits = 2\<rparr>)) \<le> 2"
proof -
  have "map vr_canonical_id (wr_visited (walk graph_d ''t1''
     \<lparr>ws_predicates = [''next'', ''in_album''], ws_direction = WalkForward, ws_max_depth = 3,
      ws_max_visits = 2\<rparr>)) = [''t1'', ''t2'']" by code_simp
  with walk_sound [OF graph_d_inv, of "''t1''" "\<lparr>ws_predicates = [''next'', ''in_album''],
      ws_direction = WalkForward, ws_max_depth = 3, ws_max_visits = 2\<rparr>"] graph_d_inv
  show ?thesis by simp
qed

text \<open>(C13) An untruncated walk misses nothing: every subject that can be reached in at most
  \<open>max_depth\<close> followed edges is visited, and the depth it is reported at is the length of a
  shortest path.\<close>

theorem walk_complete:
  assumes inv: "graph_inv g" and full: "\<not> wr_truncated (walk g x sc)"
    and path: "within g sc x n y" "n \<le> ws_max_depth sc"
  shows "\<exists>v \<in> set (wr_visited (walk g x sc)). vr_canonical_id v = y \<and> vr_depth v \<le> n"
proof (rule walk_final [OF inv, of sc x])
  fix queue seen
  assume w: "walk_inv g sc x queue seen (wr_visited (walk g x sc))"
    and "wr_truncated (walk g x sc) \<longleftrightarrow> queue \<noteq> []"
  then have q: "queue = []" using full by simp
  let ?V = "wr_visited (walk g x sc)"
  have mem: "(z, c) \<in> set (found ?V queue) \<longleftrightarrow> (\<exists>v \<in> set ?V. vr_canonical_id v = z \<and> vr_depth v = c)"
    for z c by (auto simp: found_def q)
  have start: "(x, 0) \<in> set (found ?V queue)"
    and close: "\<And>v z. v \<in> set ?V \<Longrightarrow> vr_depth v < ws_max_depth sc \<Longrightarrow>
      walk_edge g sc (vr_canonical_id v) z \<Longrightarrow>
      \<exists>c \<le> Suc (vr_depth v). (z, c) \<in> set (found ?V queue)"
    using w unfolding walk_inv_def by blast+
  have "within g sc x n y \<Longrightarrow> n \<le> ws_max_depth sc \<Longrightarrow> \<exists>c \<le> n. (y, c) \<in> set (found ?V queue)" for n y
  proof (induction n arbitrary: y)
    case 0
    with start show ?case by (auto simp: within_def)
  next
    case (Suc n)
    then obtain z where z: "within g sc x n z" "walk_edge g sc z y" by (auto simp: within_def)
    with Suc obtain c where c: "c \<le> n" "(z, c) \<in> set (found ?V queue)" by fastforce
    then obtain v where v: "v \<in> set ?V" "vr_canonical_id v = z" "vr_depth v = c" using mem by blast
    have "vr_depth v < ws_max_depth sc" using v(3) c(1) Suc.prems(2) by simp
    from close [OF v(1) this] z(2) v c(1) show ?case by (metis Suc_le_mono le_trans)
  qed
  from this [OF path] obtain c where "c \<le> n" "(y, c) \<in> set (found ?V queue)" by blast
  moreover from this(2) mem obtain v where "v \<in> set ?V" "vr_canonical_id v = y" "vr_depth v = c"
    by metis
  ultimately show ?thesis by auto
qed

theorem walk_complete_witness:
  "graph_inv graph_d \<and> (\<exists>v \<in> set (wr_visited (walk graph_d ''t1''
     \<lparr>ws_predicates = [''in_album''], ws_direction = WalkBoth, ws_max_depth = 2,
      ws_max_visits = 10\<rparr>)). vr_canonical_id v = ''t2'' \<and> vr_depth v \<le> 2)"
proof -
  let ?sc = "\<lparr>ws_predicates = [''in_album''], ws_direction = WalkBoth, ws_max_depth = 2,
      ws_max_visits = 10\<rparr>"
  have "walk_edge graph_d ?sc ''t1'' ''a1''" "walk_edge graph_d ?sc ''a1'' ''t2''" by code_simp+
  then have "within graph_d ?sc ''t1'' 2 ''t2''" by (auto simp: within_def numeral_2_eq_2)
  moreover have "\<not> wr_truncated (walk graph_d ''t1'' ?sc)" by code_simp
  ultimately show ?thesis
    using walk_complete [OF graph_d_inv, of "''t1''" ?sc 2 "''t2''"] graph_d_inv by simp
qed

end
