(* ===== verification/Memory_Store.thy ===== *)
theory Memory_Store
  imports Subjects Relations
begin

text \<open>
  The in-memory implementation of the persistence trait (\<open>MemoryPersistenceStore\<close> in
  \<open>crates/evo/src/persistence.rs\<close>) with the row types of that file: the subject, alias,
  claim-log, subject-state, relation, custody, happening, conflict and admin-log slices of its
  state. It stands for the durable store in the write-through and restart theorems; the SQLite
  implementation runs SQL text that is outside the model.

  Each trait method is one definition on \<open>memory_state\<close>. A method that only returns \<open>Ok(())\<close>
  returns the new state alone; one that can fail returns a sum. \<open>'v\<close> is the type of happening
  payloads. Row ids are \<open>i64\<close> counters in the source and \<open>int\<close> here.
\<close>

section \<open>Rows\<close>

text \<open>The variants a store operation returns; the open-time ones (schema version, migration) and
  the ledger's withdrawal refusal are not reached from the modelled code.\<close>

datatype persistence_error =
    Sqlite string string | PersistIo string string | Pool string string | Invalid string

fun display_persistence_error :: "persistence_error \<Rightarrow> string" where
  "display_persistence_error (Sqlite context detail) = ''SQLite error ('' @ context @ ''): '' @ detail"
| "display_persistence_error (PersistIo context detail) = ''I/O error ('' @ context @ ''): '' @ detail"
| "display_persistence_error (Pool context message) = ''pool error ('' @ context @ ''): '' @ message"
| "display_persistence_error (Invalid m) = ''invalid persistence input: '' @ m"

record persisted_addressing =
  pa_scheme :: string
  pa_value :: string
  pa_claimant :: string
  pa_asserted_at_ms :: u64
  pa_reason :: "string option"
  pa_quarantined_by :: "string option"
  pa_quarantined_at_ms :: "u64 option"

record persisted_subject =
  ps_id :: string
  ps_subject_type :: string
  ps_created_at_ms :: u64
  ps_modified_at_ms :: u64
  ps_forgotten_at_ms :: "u64 option"
  ps_addressings :: "persisted_addressing list"

record memory_subject =
  mb_subject_type :: string
  mb_created_at_ms :: u64
  mb_modified_at_ms :: u64
  mb_forgotten_at_ms :: "u64 option"
  mb_addressings :: "persisted_addressing list"

record persisted_alias =
  pl_alias_id :: int
  pl_old_id :: string
  pl_new_id :: string
  pl_kind :: alias_kind
  pl_recorded_at_ms :: u64
  pl_admin_plugin :: string
  pl_reason :: "string option"

record memory_claim_entry =
  me_kind :: string
  me_claimant :: string
  me_at_ms :: u64

record 'v persisted_happening =
  ph_seq :: u64
  ph_kind :: string
  ph_payload :: 'v
  ph_at_ms :: u64

text \<open>\<open>serde_json::Value\<close>, where the code looks inside it.\<close>

datatype json =
    JNull | JBool bool | JNumber string | JString string | JArray "json list"
  | JObject "(string, json) hmap"

record persisted_admin_entry =
  pe_admin_id :: int
  pe_kind :: string
  pe_admin_plugin :: string
  pe_target_claimant :: "string option"
  pe_payload :: json
  pe_asserted_at_ms :: u64
  pe_reason :: "string option"
  pe_reverses_admin_id :: "int option"

record pending_conflict =
  pf_id :: int
  pf_detected_at_ms :: u64
  pf_plugin :: string
  pf_addressings :: "external_addressing list"
  pf_canonical_ids :: "string list"
  pf_resolved_at_ms :: "u64 option"
  pf_resolution_kind :: "string option"

record persisted_relation =
  pr_source_id :: string
  pr_predicate :: string
  pr_target_id :: string
  pr_created_at_ms :: u64
  pr_modified_at_ms :: u64
  pr_suppressed_admin_plugin :: "string option"
  pr_suppressed_at_ms :: "u64 option"
  pr_suppression_reason :: "string option"

record persisted_relation_claim =
  pc_source_id :: string
  pc_predicate :: string
  pc_target_id :: string
  pc_claimant :: string
  pc_asserted_at_ms :: u64
  pc_reason :: "string option"

record persisted_custody =
  pu_plugin :: string
  pu_handle_id :: string
  pu_shelf :: "string option"
  pu_custody_type :: "string option"
  pu_state_kind :: string
  pu_state_reason :: "string option"
  pu_started_at_ms :: u64
  pu_last_updated_at_ms :: u64

record persisted_custody_state =
  pv_plugin :: string
  pv_handle_id :: string
  pv_payload :: "8 word list"
  pv_health :: string
  pv_reported_at_ms :: u64

record persisted_subject_state =
  pt_subject_id :: string
  pt_state_json :: string
  pt_updated_at_ms :: u64

datatype persisted_claim =
    PC_Equivalent external_addressing external_addressing claim_confidence "string option"
  | PC_Distinct external_addressing external_addressing "string option"
  | PC_MultiSubjectConflict "external_addressing list" "string list"

fun kind_str :: "persisted_claim \<Rightarrow> string" where
  "kind_str (PC_Equivalent _ _ _ _) = ''equivalent''"
| "kind_str (PC_Distinct _ _ _) = ''distinct''"
| "kind_str (PC_MultiSubjectConflict _ _) = ''multi_subject_conflict''"

type_synonym triple = "string \<times> string \<times> string"

record 'v memory_state =
  ms_subjects :: "(string, memory_subject) hmap"
  ms_aliases :: "persisted_alias list"
  ms_next_alias_id :: int
  ms_claim_log :: "memory_claim_entry list"
  ms_happenings :: "'v persisted_happening list"
  ms_pending_conflicts :: "pending_conflict list"
  ms_next_conflict_id :: int
  ms_custodies :: "(string \<times> string, persisted_custody) hmap"
  ms_custody_state :: "(string \<times> string, persisted_custody_state) hmap"
  ms_relations :: "(triple, persisted_relation) hmap"
  ms_relation_claimants :: "(triple \<times> string, persisted_relation_claim) hmap"
  ms_subject_states :: "(string, persisted_subject_state) hmap"
  ms_admin_log :: "persisted_admin_entry list"
  ms_next_admin_id :: int

definition new_memory_state :: "'v memory_state" where
  "new_memory_state = \<lparr>ms_subjects = [], ms_aliases = [], ms_next_alias_id = 0, ms_claim_log = [],
     ms_happenings = [], ms_pending_conflicts = [], ms_next_conflict_id = 0, ms_custodies = [],
     ms_custody_state = [], ms_relations = [], ms_relation_claimants = [], ms_subject_states = [],
     ms_admin_log = [], ms_next_admin_id = 0\<rparr>"

section \<open>Subjects and aliases\<close>

definition log_claim :: "string \<Rightarrow> string \<Rightarrow> u64 \<Rightarrow> 'v memory_state \<Rightarrow> 'v memory_state" where
  "log_claim kind claimant at_ms m = m\<lparr>ms_claim_log := ms_claim_log m @
     [\<lparr>me_kind = kind, me_claimant = claimant, me_at_ms = at_ms\<rparr>]\<rparr>"

definition push_alias ::
    "string \<Rightarrow> string \<Rightarrow> alias_kind \<Rightarrow> u64 \<Rightarrow> string \<Rightarrow> string option \<Rightarrow> 'v memory_state
       \<Rightarrow> 'v memory_state" where
  "push_alias old_id new_id kind at_ms admin reason m =
     m\<lparr>ms_next_alias_id := ms_next_alias_id m + 1,
       ms_aliases := ms_aliases m @ [\<lparr>pl_alias_id = ms_next_alias_id m + 1, pl_old_id = old_id,
         pl_new_id = new_id, pl_kind = kind, pl_recorded_at_ms = at_ms, pl_admin_plugin = admin,
         pl_reason = reason\<rparr>]\<rparr>"

definition same_addressing :: "external_addressing \<Rightarrow> persisted_addressing \<Rightarrow> bool" where
  "same_addressing a p \<longleftrightarrow> pa_scheme p = ea_scheme a \<and> pa_value p = ea_value a"

text \<open>The first stored row for the addressing is taken over by the claimant; an unknown
  addressing is appended.\<close>

fun upsert_addressing ::
    "string \<Rightarrow> u64 \<Rightarrow> external_addressing \<Rightarrow> persisted_addressing list \<Rightarrow> persisted_addressing list" where
  "upsert_addressing claimant at_ms a [] =
     [\<lparr>pa_scheme = ea_scheme a, pa_value = ea_value a, pa_claimant = claimant,
       pa_asserted_at_ms = at_ms, pa_reason = None, pa_quarantined_by = None,
       pa_quarantined_at_ms = None\<rparr>]"
| "upsert_addressing claimant at_ms a (p # ps) =
     (if same_addressing a p then p\<lparr>pa_claimant := claimant, pa_asserted_at_ms := at_ms\<rparr> # ps
      else p # upsert_addressing claimant at_ms a ps)"

definition record_subject_announce ::
    "string \<Rightarrow> string \<Rightarrow> external_addressing list \<Rightarrow> string \<Rightarrow> persisted_claim list \<Rightarrow> u64
       \<Rightarrow> 'v memory_state \<Rightarrow> 'v memory_state" where
  "record_subject_announce canonical_id subject_type addressings claimant claims at_ms m =
     (let entry = (case hm_get (ms_subjects m) canonical_id of
            Some s \<Rightarrow> s
          | None \<Rightarrow> \<lparr>mb_subject_type = subject_type, mb_created_at_ms = at_ms,
              mb_modified_at_ms = at_ms, mb_forgotten_at_ms = None, mb_addressings = []\<rparr>);
          entry' = entry\<lparr>mb_modified_at_ms := at_ms, mb_forgotten_at_ms := None,
            mb_addressings := fold (upsert_addressing claimant at_ms) addressings
                                (mb_addressings entry)\<rparr>;
          m1 = m\<lparr>ms_subjects := hm_insert canonical_id entry' (ms_subjects m)\<rparr>
      in fold (\<lambda>c. log_claim (kind_str c) claimant at_ms) claims
           (log_claim ''subject_announce'' claimant at_ms m1))"

definition record_subject_retract ::
    "string \<Rightarrow> external_addressing \<Rightarrow> string \<Rightarrow> u64 \<Rightarrow> 'v memory_state \<Rightarrow> 'v memory_state" where
  "record_subject_retract canonical_id a claimant at_ms m =
     log_claim ''subject_retract'' claimant at_ms
       (case hm_get (ms_subjects m) canonical_id of
          None \<Rightarrow> m
        | Some s \<Rightarrow> m\<lparr>ms_subjects := hm_insert canonical_id
            (s\<lparr>mb_addressings := filter (\<lambda>p. \<not> same_addressing a p) (mb_addressings s),
               mb_modified_at_ms := at_ms\<rparr>) (ms_subjects m)\<rparr>)"

text \<open>The rows of a subject that is taken out of the table, stamped with the time of the move.\<close>

definition drained :: "string \<Rightarrow> 'v memory_state \<Rightarrow> persisted_addressing list" where
  "drained i m = (case hm_get (ms_subjects m) i of None \<Rightarrow> [] | Some s \<Rightarrow> mb_addressings s)"

definition moved_subject :: "string \<Rightarrow> u64 \<Rightarrow> persisted_addressing list \<Rightarrow> memory_subject" where
  "moved_subject subject_type at_ms rows =
     \<lparr>mb_subject_type = subject_type, mb_created_at_ms = at_ms, mb_modified_at_ms = at_ms,
      mb_forgotten_at_ms = None,
      mb_addressings = map (\<lambda>p. p\<lparr>pa_asserted_at_ms := at_ms\<rparr>) rows\<rparr>"

definition record_subject_merge ::
    "string \<Rightarrow> string \<Rightarrow> string \<Rightarrow> string \<Rightarrow> string \<Rightarrow> string option \<Rightarrow> u64
       \<Rightarrow> 'v memory_state \<Rightarrow> 'v memory_state" where
  "record_subject_merge source_a source_b new_id subject_type admin_plugin reason at_ms m =
     (let m1 = m\<lparr>ms_subjects := hm_remove source_a (ms_subjects m)\<rparr>;
          m2 = m1\<lparr>ms_subjects := hm_remove source_b (ms_subjects m1)\<rparr>;
          moved = drained source_a m @ drained source_b m1;
          m3 = m2\<lparr>ms_subjects := hm_insert new_id (moved_subject subject_type at_ms moved)
                    (ms_subjects m2)\<rparr>
      in log_claim ''subject_merge'' admin_plugin at_ms
           (fold (\<lambda>old. push_alias old new_id AliasMerged at_ms admin_plugin reason)
              [source_a, source_b] m3))"

definition record_subject_type_migration ::
    "string \<Rightarrow> string \<Rightarrow> string \<Rightarrow> string \<Rightarrow> string option \<Rightarrow> u64
       \<Rightarrow> 'v memory_state \<Rightarrow> 'v memory_state" where
  "record_subject_type_migration source new_id to_type migration_id reason at_ms m =
     (let m1 = m\<lparr>ms_subjects := hm_insert new_id (moved_subject to_type at_ms (drained source m))
                   (hm_remove source (ms_subjects m))\<rparr>
      in log_claim ''subject_type_migration'' migration_id at_ms
           (push_alias source new_id AliasTypeMigrated at_ms migration_id reason m1))"

record type_migration_record =
  tm_source :: string
  tm_new_id :: string
  tm_from_type :: string
  tm_to_type :: string
  tm_migration_id :: string
  tm_reason :: "string option"
  tm_at_ms :: u64

definition record_subject_type_migrations_batch ::
    "type_migration_record list \<Rightarrow> 'v memory_state \<Rightarrow> 'v memory_state" where
  "record_subject_type_migrations_batch records m =
     fold (\<lambda>t. record_subject_type_migration (tm_source t) (tm_new_id t) (tm_to_type t)
                 (tm_migration_id t) (tm_reason t) (tm_at_ms t)) records m"

text \<open>\<open>Vec::swap_remove\<close>: the last element takes the removed one's place.\<close>

definition swap_remove :: "nat \<Rightarrow> 'a list \<Rightarrow> 'a list" where
  "swap_remove i xs = (if Suc i = length xs then butlast xs else (butlast xs)[i := last xs])"

text \<open>The rows of one group, drawn from what is left of the source.\<close>

fun take_group ::
    "external_addressing list \<Rightarrow> persisted_addressing list
       \<Rightarrow> persisted_addressing list \<times> persisted_addressing list" where
  "take_group [] rows = ([], rows)"
| "take_group (a # as) rows =
     (case position (same_addressing a) rows of
        None \<Rightarrow> take_group as rows
      | Some i \<Rightarrow> let (grp, rest) = take_group as (swap_remove i rows) in (rows ! i # grp, rest))"

fun place_groups ::
    "string \<Rightarrow> u64 \<Rightarrow> (external_addressing list \<times> string) list \<Rightarrow> persisted_addressing list
       \<Rightarrow> (string, memory_subject) hmap \<Rightarrow> (string, memory_subject) hmap" where
  "place_groups subject_type at_ms [] rows subs = subs"
| "place_groups subject_type at_ms ((grp, new_id) # rest) rows subs =
     (let (mine, left) = take_group grp rows
      in place_groups subject_type at_ms rest left
           (hm_insert new_id (moved_subject subject_type at_ms mine) subs))"

definition record_subject_split ::
    "string \<Rightarrow> string list \<Rightarrow> string \<Rightarrow> external_addressing list list \<Rightarrow> string \<Rightarrow> string option
       \<Rightarrow> u64 \<Rightarrow> 'v memory_state \<Rightarrow> persistence_error + 'v memory_state" where
  "record_subject_split source new_ids subject_type groups admin_plugin reason at_ms m =
     (if new_ids = [] then Inl (Invalid ''split must produce at least one new id'')
      else if length new_ids \<noteq> length groups then
        Inl (Invalid (''split: new_ids ('' @ show_nat (length new_ids) @ '') and partition ('' @
               show_nat (length groups) @ '') must have equal length''))
      else
        let m1 = m\<lparr>ms_subjects := place_groups subject_type at_ms (zip groups new_ids)
                     (drained source m) (hm_remove source (ms_subjects m))\<rparr>
        in Inr (log_claim ''subject_split'' admin_plugin at_ms
             (fold (\<lambda>new_id. push_alias source new_id AliasSplit at_ms admin_plugin reason)
                new_ids m1)))"

definition record_subject_forget ::
    "string \<Rightarrow> string \<Rightarrow> string option \<Rightarrow> u64 \<Rightarrow> 'v memory_state \<Rightarrow> 'v memory_state" where
  "record_subject_forget canonical_id forget_claimant forget_reason at_ms m =
     log_claim ''subject_forgotten'' forget_claimant at_ms
       (push_alias canonical_id [] AliasTombstone at_ms forget_claimant forget_reason
          (m\<lparr>ms_subjects := hm_remove canonical_id (ms_subjects m)\<rparr>))"

definition load_all_subjects :: "'v memory_state \<Rightarrow> persisted_subject list" where
  "load_all_subjects m = sort_key ps_created_at_ms (map (\<lambda>(i, s).
     \<lparr>ps_id = i, ps_subject_type = mb_subject_type s, ps_created_at_ms = mb_created_at_ms s,
      ps_modified_at_ms = mb_modified_at_ms s, ps_forgotten_at_ms = mb_forgotten_at_ms s,
      ps_addressings = mb_addressings s\<rparr>) (ms_subjects m))"

definition load_aliases_for :: "string \<Rightarrow> 'v memory_state \<Rightarrow> persisted_alias list" where
  "load_aliases_for canonical_id m =
     sort_key pl_alias_id (filter (\<lambda>r. pl_old_id r = canonical_id) (ms_aliases m))"

definition load_all_aliases :: "'v memory_state \<Rightarrow> persisted_alias list" where
  "load_all_aliases m = sort_key pl_alias_id (ms_aliases m)"

definition count_subjects_by_type :: "'v memory_state \<Rightarrow> (string \<times> nat) list" where
  "count_subjects_by_type m =
     sort_key fst (fold (\<lambda>(_, s) counts.
       if mb_forgotten_at_ms s = None then
         hm_insert (mb_subject_type s)
           (case hm_get counts (mb_subject_type s) of None \<Rightarrow> 1 | Some n \<Rightarrow> n + 1) counts
       else counts) (ms_subjects m) [])"

section \<open>Subject states\<close>

definition record_subject_state ::
    "string \<Rightarrow> string \<Rightarrow> u64 \<Rightarrow> 'v memory_state \<Rightarrow> 'v memory_state" where
  "record_subject_state subject_id state_json now_ms m =
     m\<lparr>ms_subject_states := hm_insert subject_id
        \<lparr>pt_subject_id = subject_id, pt_state_json = state_json, pt_updated_at_ms = now_ms\<rparr>
        (ms_subject_states m)\<rparr>"

definition load_subject_state :: "string \<Rightarrow> 'v memory_state \<Rightarrow> string option" where
  "load_subject_state subject_id m =
     map_option pt_state_json (hm_get (ms_subject_states m) subject_id)"

definition load_all_subject_states :: "'v memory_state \<Rightarrow> persisted_subject_state list" where
  "load_all_subject_states m = map snd (ms_subject_states m)"

definition forget_subject_state :: "string \<Rightarrow> 'v memory_state \<Rightarrow> 'v memory_state" where
  "forget_subject_state subject_id m =
     m\<lparr>ms_subject_states := hm_remove subject_id (ms_subject_states m)\<rparr>"

section \<open>Happenings\<close>

definition record_happening ::
    "u64 \<Rightarrow> string \<Rightarrow> 'v \<Rightarrow> u64 \<Rightarrow> 'v memory_state \<Rightarrow> 'v memory_state" where
  "record_happening seq kind payload at_ms m = m\<lparr>ms_happenings := ms_happenings m @
     [\<lparr>ph_seq = seq, ph_kind = kind, ph_payload = payload, ph_at_ms = at_ms\<rparr>]\<rparr>"

definition record_happenings_batch ::
    "'v persisted_happening list \<Rightarrow> 'v memory_state \<Rightarrow> 'v memory_state" where
  "record_happenings_batch rows m = m\<lparr>ms_happenings := ms_happenings m @ rows\<rparr>"

definition load_happenings_since ::
    "u64 \<Rightarrow> u32 \<Rightarrow> 'v memory_state \<Rightarrow> 'v persisted_happening list" where
  "load_happenings_since cursor limit m =
     sort_key ph_seq (take (unat limit) (filter (\<lambda>h. cursor < ph_seq h) (ms_happenings m)))"

definition load_max_happening_seq :: "'v memory_state \<Rightarrow> u64" where
  "load_max_happening_seq m = fold max (map ph_seq (ms_happenings m)) 0"

definition load_oldest_happening_seq :: "'v memory_state \<Rightarrow> u64" where
  "load_oldest_happening_seq m = (case map ph_seq (ms_happenings m) of
     [] \<Rightarrow> 0 | s # ss \<Rightarrow> fold min ss s)"

section \<open>Pending conflicts\<close>

definition record_pending_conflict ::
    "string \<Rightarrow> external_addressing list \<Rightarrow> string list \<Rightarrow> u64 \<Rightarrow> 'v memory_state
       \<Rightarrow> 'v memory_state \<times> int" where
  "record_pending_conflict plugin addressings canonical_ids at_ms m =
     (let i = ms_next_conflict_id m + 1
      in (m\<lparr>ms_next_conflict_id := i,
            ms_pending_conflicts := ms_pending_conflicts m @
              [\<lparr>pf_id = i, pf_detected_at_ms = at_ms, pf_plugin = plugin,
                pf_addressings = addressings, pf_canonical_ids = canonical_ids,
                pf_resolved_at_ms = None, pf_resolution_kind = None\<rparr>]\<rparr>, i))"

fun resolve_slot ::
    "int \<Rightarrow> string \<Rightarrow> u64 \<Rightarrow> pending_conflict list \<Rightarrow> pending_conflict list" where
  "resolve_slot i kind at_ms [] = []"
| "resolve_slot i kind at_ms (c # cs) =
     (if pf_id c = i then
        (if pf_resolved_at_ms c = None
         then c\<lparr>pf_resolved_at_ms := Some at_ms, pf_resolution_kind := Some kind\<rparr> else c) # cs
      else c # resolve_slot i kind at_ms cs)"

definition mark_conflict_resolved ::
    "int \<Rightarrow> string \<Rightarrow> u64 \<Rightarrow> 'v memory_state \<Rightarrow> 'v memory_state" where
  "mark_conflict_resolved i kind at_ms m =
     m\<lparr>ms_pending_conflicts := resolve_slot i kind at_ms (ms_pending_conflicts m)\<rparr>"

definition list_pending_conflicts :: "'v memory_state \<Rightarrow> pending_conflict list" where
  "list_pending_conflicts m =
     sort_key pf_detected_at_ms (filter (\<lambda>c. pf_resolved_at_ms c = None) (ms_pending_conflicts m))"

section \<open>Admin log\<close>

definition record_admin_entry :: "persisted_admin_entry \<Rightarrow> 'v memory_state \<Rightarrow> 'v memory_state" where
  "record_admin_entry entry m =
     (let admin_id = (if ms_next_admin_id m = 0 then 1 else ms_next_admin_id m)
      in m\<lparr>ms_next_admin_id := admin_id + 1,
           ms_admin_log := ms_admin_log m @ [entry\<lparr>pe_admin_id := admin_id\<rparr>]\<rparr>)"

definition load_all_admin_entries :: "'v memory_state \<Rightarrow> persisted_admin_entry list" where
  "load_all_admin_entries m = ms_admin_log m"

section \<open>Relations\<close>

definition relation_triple :: "persisted_relation \<Rightarrow> triple" where
  "relation_triple r = (pr_source_id r, pr_predicate r, pr_target_id r)"

definition record_relation_assert ::
    "persisted_relation \<Rightarrow> persisted_relation_claim \<Rightarrow> 'v memory_state \<Rightarrow> 'v memory_state" where
  "record_relation_assert relation claim m =
     (let k = relation_triple relation;
          ck = ((pc_source_id claim, pc_predicate claim, pc_target_id claim), pc_claimant claim)
      in m\<lparr>ms_relations := hm_insert k (case hm_get (ms_relations m) k of
              Some existing \<Rightarrow> existing\<lparr>pr_modified_at_ms := pr_modified_at_ms relation\<rparr>
            | None \<Rightarrow> relation) (ms_relations m),
           ms_relation_claimants := (if hm_contains (ms_relation_claimants m) ck
              then ms_relation_claimants m else hm_insert ck claim (ms_relation_claimants m))\<rparr>)"

definition forget_claimants :: "triple \<Rightarrow> 'v memory_state \<Rightarrow> 'v memory_state" where
  "forget_claimants k m =
     m\<lparr>ms_relation_claimants := filter (\<lambda>(ck, _). fst ck \<noteq> k) (ms_relation_claimants m)\<rparr>"

definition record_relation_retract ::
    "string \<Rightarrow> string \<Rightarrow> string \<Rightarrow> string \<Rightarrow> u64 \<Rightarrow> bool \<Rightarrow> 'v memory_state
       \<Rightarrow> 'v memory_state \<times> bool" where
  "record_relation_retract s p t claimant modified_at_ms relation_forgotten m =
     (let k = (s, p, t);
          removed = hm_contains (ms_relation_claimants m) (k, claimant);
          m1 = m\<lparr>ms_relation_claimants := hm_remove (k, claimant) (ms_relation_claimants m)\<rparr>
      in (if relation_forgotten then
            forget_claimants k (m1\<lparr>ms_relations := hm_remove k (ms_relations m1)\<rparr>)
          else if removed then
            (case hm_get (ms_relations m1) k of
               None \<Rightarrow> m1
             | Some rel \<Rightarrow> m1\<lparr>ms_relations := hm_insert k
                 (rel\<lparr>pr_modified_at_ms := modified_at_ms\<rparr>) (ms_relations m1)\<rparr>)
          else m1, removed))"

definition record_relation_forget ::
    "string \<Rightarrow> string \<Rightarrow> string \<Rightarrow> 'v memory_state \<Rightarrow> 'v memory_state \<times> bool" where
  "record_relation_forget s p t m =
     (forget_claimants (s, p, t) (m\<lparr>ms_relations := hm_remove (s, p, t) (ms_relations m)\<rparr>),
      hm_contains (ms_relations m) (s, p, t))"

definition record_relation_suppress ::
    "string \<Rightarrow> string \<Rightarrow> string \<Rightarrow> string \<Rightarrow> u64 \<Rightarrow> string option \<Rightarrow> u64 \<Rightarrow> 'v memory_state
       \<Rightarrow> 'v memory_state \<times> bool" where
  "record_relation_suppress s p t admin_plugin suppressed_at_ms reason modified_at_ms m =
     (case hm_get (ms_relations m) (s, p, t) of
        None \<Rightarrow> (m, False)
      | Some rel \<Rightarrow> (m\<lparr>ms_relations := hm_insert (s, p, t)
          (rel\<lparr>pr_suppressed_admin_plugin := Some admin_plugin,
               pr_suppressed_at_ms := Some suppressed_at_ms, pr_suppression_reason := reason,
               pr_modified_at_ms := modified_at_ms\<rparr>) (ms_relations m)\<rparr>, True))"

definition record_relation_unsuppress ::
    "string \<Rightarrow> string \<Rightarrow> string \<Rightarrow> u64 \<Rightarrow> 'v memory_state \<Rightarrow> 'v memory_state \<times> bool" where
  "record_relation_unsuppress s p t modified_at_ms m =
     (case hm_get (ms_relations m) (s, p, t) of
        None \<Rightarrow> (m, False)
      | Some rel \<Rightarrow> (m\<lparr>ms_relations := hm_insert (s, p, t)
          (rel\<lparr>pr_suppressed_admin_plugin := None, pr_suppressed_at_ms := None,
               pr_suppression_reason := None, pr_modified_at_ms := modified_at_ms\<rparr>)
          (ms_relations m)\<rparr>, True))"

text \<open>Keys in the order of the derived comparison on the tuple.\<close>

definition load_all_relations ::
    "'v memory_state \<Rightarrow> (persisted_relation \<times> persisted_relation_claim list) list" where
  "load_all_relations m =
     map (\<lambda>k. (the (hm_get (ms_relations m) k),
               sort_key pc_claimant (map snd
                 (filter (\<lambda>(ck, _). fst ck = k) (ms_relation_claimants m)))))
       (sort_key (\<lambda>(s, p, t). [s, p, t]) (hm_keys (ms_relations m)))"

section \<open>Custodies\<close>

definition upsert_custody :: "persisted_custody \<Rightarrow> 'v memory_state \<Rightarrow> 'v memory_state" where
  "upsert_custody c m =
     (let k = (pu_plugin c, pu_handle_id c)
      in m\<lparr>ms_custodies := hm_insert k (case hm_get (ms_custodies m) k of
             None \<Rightarrow> c
           | Some existing \<Rightarrow> existing\<lparr>
               pu_shelf := (if pu_shelf c \<noteq> None then pu_shelf c else pu_shelf existing),
               pu_custody_type := (if pu_custody_type c \<noteq> None then pu_custody_type c
                                   else pu_custody_type existing),
               pu_state_kind := pu_state_kind c, pu_state_reason := pu_state_reason c,
               pu_last_updated_at_ms := pu_last_updated_at_ms c\<rparr>) (ms_custodies m)\<rparr>)"

definition upsert_custody_state ::
    "persisted_custody_state \<Rightarrow> 'v memory_state \<Rightarrow> persistence_error + 'v memory_state" where
  "upsert_custody_state snap m =
     (let k = (pv_plugin snap, pv_handle_id snap)
      in if \<not> hm_contains (ms_custodies m) k then
           Inl (Invalid (''custody_state insert for missing custody ('' @ pv_plugin snap @ '', '' @
                         pv_handle_id snap @ ''): FK violated''))
         else Inr (m\<lparr>ms_custody_state := hm_insert k snap (ms_custody_state m)\<rparr>))"

definition mark_custody_state ::
    "string \<Rightarrow> string \<Rightarrow> string \<Rightarrow> string option \<Rightarrow> u64 \<Rightarrow> 'v memory_state
       \<Rightarrow> 'v memory_state \<times> bool" where
  "mark_custody_state plugin handle_id state_kind state_reason last_updated_at_ms m =
     (case hm_get (ms_custodies m) (plugin, handle_id) of
        None \<Rightarrow> (m, False)
      | Some c \<Rightarrow> (m\<lparr>ms_custodies := hm_insert (plugin, handle_id)
          (c\<lparr>pu_state_kind := state_kind, pu_state_reason := state_reason,
             pu_last_updated_at_ms := last_updated_at_ms\<rparr>) (ms_custodies m)\<rparr>, True))"

definition delete_custody :: "string \<Rightarrow> string \<Rightarrow> 'v memory_state \<Rightarrow> 'v memory_state \<times> bool" where
  "delete_custody plugin handle_id m =
     (m\<lparr>ms_custody_state := hm_remove (plugin, handle_id) (ms_custody_state m),
        ms_custodies := hm_remove (plugin, handle_id) (ms_custodies m)\<rparr>,
      hm_contains (ms_custodies m) (plugin, handle_id))"

definition load_all_custodies ::
    "'v memory_state \<Rightarrow> (persisted_custody \<times> persisted_custody_state option) list" where
  "load_all_custodies m =
     map (\<lambda>k. (the (hm_get (ms_custodies m) k), hm_get (ms_custody_state m) k))
       (sort_key (\<lambda>(p, h). [p, h]) (hm_keys (ms_custodies m)))"

end
