(* ===== verification/Custody.thy ===== *)
theory Custody
  imports Memory_Store
begin

text \<open>
  The custody ledger (\<open>crates/evo/src/custody.rs\<close>): which warden holds which custody, with the
  latest state report and the lifecycle state, mirrored to the durable store.

  The ledger is generic in its store: the trait object \<open>Arc<dyn PersistenceStore>\<close> is a record
  of functions (\<open>custody_store\<close>), and \<open>None\<close> is the ledger without persistence. A store
  operation returns the new store beside \<open>Inl e\<close> or \<open>Inr x\<close>, because a write that fails may
  follow one that succeeded. Every ledger operation is the composition of what the code does
  between two \<open>await\<close> points: a read of the mirror that builds the row, the store writes, and
  the commit to the mirror.
\<close>

section \<open>Data\<close>

datatype custody_state_kind = CActive | CDegraded string | CAborted string

datatype health_status = Healthy | HDegraded | Unhealthy

record state_snapshot =
  sn_payload :: "8 word list"
  sn_health :: health_status
  sn_reported_at :: systime

record custody_record =
  cu_plugin :: string
  cu_handle_id :: string
  cu_shelf :: "string option"
  cu_custody_type :: "string option"
  cu_last_state :: "state_snapshot option"
  cu_state :: custody_state_kind
  cu_started_at :: systime
  cu_last_updated :: systime

record custody_handle =
  ch_id :: string
  ch_started_at :: systime

type_synonym custody_key = "string \<times> string"
type_synonym custody_entries = "(custody_key, custody_record) hmap"

record 's custody_store =
  st_upsert_custody :: "persisted_custody \<Rightarrow> 's \<Rightarrow> 's \<times> (persistence_error + unit)"
  st_upsert_custody_state :: "persisted_custody_state \<Rightarrow> 's \<Rightarrow> 's \<times> (persistence_error + unit)"
  st_mark_custody_state ::
    "string \<Rightarrow> string \<Rightarrow> string \<Rightarrow> string option \<Rightarrow> u64 \<Rightarrow> 's \<Rightarrow> 's \<times> (persistence_error + bool)"
  st_delete_custody :: "string \<Rightarrow> string \<Rightarrow> 's \<Rightarrow> 's \<times> (persistence_error + bool)"
  st_load_all_custodies ::
    "'s \<Rightarrow> persistence_error + (persisted_custody \<times> persisted_custody_state option) list"

definition new_custody_ledger :: custody_entries where
  "new_custody_ledger = []"

section \<open>Row encoding\<close>

fun state_kind_to_str :: "custody_state_kind \<Rightarrow> string" where
  "state_kind_to_str CActive = ''active''"
| "state_kind_to_str (CDegraded _) = ''degraded''"
| "state_kind_to_str (CAborted _) = ''aborted''"

fun state_kind_reason :: "custody_state_kind \<Rightarrow> string option" where
  "state_kind_reason CActive = None"
| "state_kind_reason (CDegraded reason) = Some reason"
| "state_kind_reason (CAborted reason) = Some reason"

fun health_to_str :: "health_status \<Rightarrow> string" where
  "health_to_str Healthy = ''healthy''"
| "health_to_str HDegraded = ''degraded''"
| "health_to_str Unhealthy = ''unhealthy''"

definition health_from_str :: "string \<Rightarrow> health_status option" where
  "health_from_str s =
     (if s = ''healthy'' then Some Healthy
      else if s = ''degraded'' then Some HDegraded
      else if s = ''unhealthy'' then Some Unhealthy
      else None)"

text \<open>The decoding of a row; the error text carries the unknown discriminant between
  quotation marks (the escapes of the debug format are not reproduced).\<close>

definition state_from_row :: "persisted_custody \<Rightarrow> string + custody_state_kind" where
  "state_from_row c =
     (let reason = (case pu_state_reason c of None \<Rightarrow> [] | Some r \<Rightarrow> r)
      in if pu_state_kind c = ''active'' then Inr CActive
         else if pu_state_kind c = ''degraded'' then Inr (CDegraded reason)
         else if pu_state_kind c = ''aborted'' then Inr (CAborted reason)
         else Inl (''unknown custodies.state_kind \"'' @ pu_state_kind c @ ''\"''))"

definition snapshot_from_row ::
    "persisted_custody_state option \<Rightarrow> string + state_snapshot option" where
  "snapshot_from_row snapshot =
     (case snapshot of
        None \<Rightarrow> Inr None
      | Some s \<Rightarrow>
          (case health_from_str (pv_health s) of
             None \<Rightarrow> Inl (''unknown custody_state.health \"'' @ pv_health s @ ''\"'')
           | Some h \<Rightarrow> Inr (Some \<lparr>sn_payload = pv_payload s, sn_health = h,
                                 sn_reported_at = ms_to_system_time (pv_reported_at_ms s)\<rparr>)))"

definition custody_record_from_persisted ::
    "persisted_custody \<Rightarrow> persisted_custody_state option \<Rightarrow> string + custody_record" where
  "custody_record_from_persisted c snapshot =
     (case state_from_row c of
        Inl e \<Rightarrow> Inl e
      | Inr state \<Rightarrow>
     (case snapshot_from_row snapshot of
        Inl e \<Rightarrow> Inl e
      | Inr last_state \<Rightarrow>
          Inr \<lparr>cu_plugin = pu_plugin c, cu_handle_id = pu_handle_id c, cu_shelf = pu_shelf c,
               cu_custody_type = pu_custody_type c, cu_last_state = last_state, cu_state = state,
               cu_started_at = ms_to_system_time (pu_started_at_ms c),
               cu_last_updated = ms_to_system_time (pu_last_updated_at_ms c)\<rparr>))"

text \<open>Boot: the mirror is replaced by the rows that decode; the others are skipped.\<close>

definition rehydrate_row ::
    "persisted_custody \<times> persisted_custody_state option \<Rightarrow> custody_entries \<Rightarrow> custody_entries" where
  "rehydrate_row row m =
     (case custody_record_from_persisted (fst row) (snd row) of
        Inl _ \<Rightarrow> m
      | Inr rec \<Rightarrow> hm_insert (pu_plugin (fst row), pu_handle_id (fst row)) rec m)"

definition rehydrate_custodies ::
    "'s custody_store \<Rightarrow> 's \<Rightarrow> custody_entries \<Rightarrow> custody_entries \<times> (persistence_error + unit)" where
  "rehydrate_custodies st s entries =
     (case st_load_all_custodies st s of
        Inl e \<Rightarrow> (entries, Inl e)
      | Inr rows \<Rightarrow> (fold rehydrate_row rows [], Inr ()))"

section \<open>Recording a custody\<close>

definition record_custody_row ::
    "custody_entries \<Rightarrow> string \<Rightarrow> string \<Rightarrow> custody_handle \<Rightarrow> string \<Rightarrow> systime \<Rightarrow> persisted_custody" where
  "record_custody_row entries plugin shelf handle custody_type now =
     (let key = (plugin, ch_id handle);
          started_at_ms = (case hm_get entries key of
              None \<Rightarrow> system_time_to_ms now | Some r \<Rightarrow> system_time_to_ms (cu_started_at r));
          state_kind = (case hm_get entries key of None \<Rightarrow> CActive | Some r \<Rightarrow> cu_state r)
      in \<lparr>pu_plugin = plugin, pu_handle_id = ch_id handle, pu_shelf = Some shelf,
          pu_custody_type = Some custody_type, pu_state_kind = state_kind_to_str state_kind,
          pu_state_reason = state_kind_reason state_kind, pu_started_at_ms = started_at_ms,
          pu_last_updated_at_ms = system_time_to_ms now\<rparr>)"

definition record_custody_commit ::
    "string \<Rightarrow> string \<Rightarrow> custody_handle \<Rightarrow> string \<Rightarrow> systime \<Rightarrow> custody_entries \<Rightarrow> custody_entries" where
  "record_custody_commit plugin shelf handle custody_type now entries =
     hm_insert (plugin, ch_id handle)
       (case hm_get entries (plugin, ch_id handle) of
          Some rec \<Rightarrow> rec\<lparr>cu_shelf := Some shelf, cu_custody_type := Some custody_type,
                          cu_last_updated := now\<rparr>
        | None \<Rightarrow> \<lparr>cu_plugin = plugin, cu_handle_id = ch_id handle, cu_shelf = Some shelf,
                   cu_custody_type = Some custody_type, cu_last_state = None, cu_state = CActive,
                   cu_started_at = now, cu_last_updated = now\<rparr>)
       entries"

definition record_custody ::
    "'s custody_store option \<Rightarrow> string \<Rightarrow> string \<Rightarrow> custody_handle \<Rightarrow> string \<Rightarrow> systime
       \<Rightarrow> custody_entries \<times> 's \<Rightarrow> (custody_entries \<times> 's) \<times> (persistence_error + unit)" where
  "record_custody store plugin shelf handle custody_type now =
     (\<lambda>(entries, s).
        let row = record_custody_row entries plugin shelf handle custody_type now
        in case (case store of None \<Rightarrow> (s, Inr ()) | Some st \<Rightarrow> st_upsert_custody st row s) of
             (s1, Inl e) \<Rightarrow> ((entries, s1), Inl e)
           | (s1, Inr _) \<Rightarrow>
               ((record_custody_commit plugin shelf handle custody_type now entries, s1), Inr ()))"

section \<open>Recording a state report\<close>

definition record_state_row ::
    "custody_entries \<Rightarrow> string \<Rightarrow> string \<Rightarrow> systime \<Rightarrow> persisted_custody" where
  "record_state_row entries plugin handle_id now =
     (let (started_at_ms, state_kind, shelf, custody_type) =
            (case hm_get entries (plugin, handle_id) of
               Some rec \<Rightarrow> (system_time_to_ms (cu_started_at rec), cu_state rec, cu_shelf rec,
                            cu_custody_type rec)
             | None \<Rightarrow> (system_time_to_ms now, CActive, None, None))
      in \<lparr>pu_plugin = plugin, pu_handle_id = handle_id, pu_shelf = shelf,
          pu_custody_type = custody_type, pu_state_kind = state_kind_to_str state_kind,
          pu_state_reason = state_kind_reason state_kind, pu_started_at_ms = started_at_ms,
          pu_last_updated_at_ms = system_time_to_ms now\<rparr>)"

definition record_state_write ::
    "'s custody_store option \<Rightarrow> persisted_custody \<Rightarrow> 8 word list \<Rightarrow> health_status \<Rightarrow> systime \<Rightarrow> 's
       \<Rightarrow> 's \<times> (persistence_error + unit)" where
  "record_state_write store parent payload health now s =
     (case store of
        None \<Rightarrow> (s, Inr ())
      | Some st \<Rightarrow>
          (case st_upsert_custody st parent s of
             (s1, Inl e) \<Rightarrow> (s1, Inl e)
           | (s1, Inr _) \<Rightarrow> st_upsert_custody_state st
               \<lparr>pv_plugin = pu_plugin parent, pv_handle_id = pu_handle_id parent,
                pv_payload = payload, pv_health = health_to_str health,
                pv_reported_at_ms = system_time_to_ms now\<rparr> s1))"

definition record_state_commit ::
    "string \<Rightarrow> string \<Rightarrow> 8 word list \<Rightarrow> health_status \<Rightarrow> systime \<Rightarrow> custody_entries \<Rightarrow> custody_entries" where
  "record_state_commit plugin handle_id payload health now entries =
     (let snapshot = \<lparr>sn_payload = payload, sn_health = health, sn_reported_at = now\<rparr>
      in hm_insert (plugin, handle_id)
           (case hm_get entries (plugin, handle_id) of
              Some rec \<Rightarrow> rec\<lparr>cu_last_state := Some snapshot, cu_last_updated := now\<rparr>
            | None \<Rightarrow> \<lparr>cu_plugin = plugin, cu_handle_id = handle_id, cu_shelf = None,
                       cu_custody_type = None, cu_last_state = Some snapshot, cu_state = CActive,
                       cu_started_at = now, cu_last_updated = now\<rparr>)
           entries)"

definition record_state ::
    "'s custody_store option \<Rightarrow> string \<Rightarrow> string \<Rightarrow> 8 word list \<Rightarrow> health_status \<Rightarrow> systime
       \<Rightarrow> custody_entries \<times> 's \<Rightarrow> (custody_entries \<times> 's) \<times> (persistence_error + unit)" where
  "record_state store plugin handle_id payload health now =
     (\<lambda>(entries, s).
        case record_state_write store (record_state_row entries plugin handle_id now)
               payload health now s of
          (s1, Inl e) \<Rightarrow> ((entries, s1), Inl e)
        | (s1, Inr _) \<Rightarrow>
            ((record_state_commit plugin handle_id payload health now entries, s1), Inr ()))"

section \<open>Release and failure marks\<close>

definition release_custody ::
    "'s custody_store option \<Rightarrow> string \<Rightarrow> string \<Rightarrow> custody_entries \<times> 's
       \<Rightarrow> (custody_entries \<times> 's) \<times> (persistence_error + custody_record option)" where
  "release_custody store plugin handle_id =
     (\<lambda>(entries, s).
        case (case store of None \<Rightarrow> (s, Inr True)
              | Some st \<Rightarrow> st_delete_custody st plugin handle_id s) of
          (s1, Inl e) \<Rightarrow> ((entries, s1), Inl e)
        | (s1, Inr _) \<Rightarrow> ((hm_remove (plugin, handle_id) entries, s1),
                          Inr (hm_get entries (plugin, handle_id))))"

definition mark_commit ::
    "string \<Rightarrow> string \<Rightarrow> custody_state_kind \<Rightarrow> systime \<Rightarrow> custody_entries \<Rightarrow> custody_entries \<times> bool" where
  "mark_commit plugin handle_id state now entries =
     (case hm_get entries (plugin, handle_id) of
        None \<Rightarrow> (entries, False)
      | Some rec \<Rightarrow> (hm_insert (plugin, handle_id)
          (rec\<lparr>cu_state := state, cu_last_updated := now\<rparr>) entries, True))"

definition mark_aborted ::
    "'s custody_store option \<Rightarrow> string \<Rightarrow> string \<Rightarrow> string \<Rightarrow> systime \<Rightarrow> custody_entries \<times> 's
       \<Rightarrow> (custody_entries \<times> 's) \<times> (persistence_error + bool)" where
  "mark_aborted store plugin handle_id reason now =
     (\<lambda>(entries, s).
        case (case store of None \<Rightarrow> (s, Inr True)
              | Some st \<Rightarrow> st_mark_custody_state st plugin handle_id ''aborted'' (Some reason)
                             (system_time_to_ms now) s) of
          (s1, Inl e) \<Rightarrow> ((entries, s1), Inl e)
        | (s1, Inr _) \<Rightarrow>
            (case mark_commit plugin handle_id (CAborted reason) now entries of
               (entries', marked) \<Rightarrow> ((entries', s1), Inr marked)))"

definition mark_degraded ::
    "'s custody_store option \<Rightarrow> string \<Rightarrow> string \<Rightarrow> string \<Rightarrow> systime \<Rightarrow> custody_entries \<times> 's
       \<Rightarrow> (custody_entries \<times> 's) \<times> (persistence_error + bool)" where
  "mark_degraded store plugin handle_id reason now =
     (\<lambda>(entries, s).
        case (case store of None \<Rightarrow> (s, Inr True)
              | Some st \<Rightarrow> st_mark_custody_state st plugin handle_id ''degraded'' (Some reason)
                             (system_time_to_ms now) s) of
          (s1, Inl e) \<Rightarrow> ((entries, s1), Inl e)
        | (s1, Inr _) \<Rightarrow>
            (case mark_commit plugin handle_id (CDegraded reason) now entries of
               (entries', marked) \<Rightarrow> ((entries', s1), Inr marked)))"

section \<open>Reads\<close>

definition describe_custody :: "custody_entries \<Rightarrow> string \<Rightarrow> string \<Rightarrow> custody_record option" where
  "describe_custody entries plugin handle_id = hm_get entries (plugin, handle_id)"

definition list_active :: "custody_entries \<Rightarrow> custody_record list" where
  "list_active entries = map snd entries"

definition custody_len :: "custody_entries \<Rightarrow> nat" where
  "custody_len entries = length entries"

end
