(* ===== verification/Custody_Spec.thy ===== *)
theory Custody_Spec
  imports Custody
begin

text \<open>
  What the custody ledger relies on in its durable store (\<open>custody_rows\<close>), the write-through
  theorems for any such store, the in-memory store as an instance, and the properties: the
  durable rows are the ledger's records after every successful operation, a restart restores
  the ledger up to milliseconds, the take/report race is harmless in either order, and the
  window in which a concurrent failure mark is lost.
\<close>

section \<open>The store's contract\<close>

text \<open>What \<open>ON CONFLICT DO UPDATE\<close> keeps of the stored row: the start time always, shelf and
  custody type when the new row has none.\<close>

definition merge_custody :: "persisted_custody \<Rightarrow> persisted_custody \<Rightarrow> persisted_custody" where
  "merge_custody c old = c\<lparr>
     pu_shelf := (if pu_shelf c \<noteq> None then pu_shelf c else pu_shelf old),
     pu_custody_type := (if pu_custody_type c \<noteq> None then pu_custody_type c
                         else pu_custody_type old),
     pu_started_at_ms := pu_started_at_ms old\<rparr>"

type_synonym custody_row = "persisted_custody \<times> persisted_custody_state option"

definition row_key :: "custody_row \<Rightarrow> custody_key" where
  "row_key row = (pu_plugin (fst row), pu_handle_id (fst row))"

definition marked_row :: "string \<Rightarrow> string option \<Rightarrow> u64 \<Rightarrow> custody_row \<Rightarrow> custody_row" where
  "marked_row kind reason at_ms row =
     ((fst row)\<lparr>pu_state_kind := kind, pu_state_reason := reason,
                 pu_last_updated_at_ms := at_ms\<rparr>, snd row)"

locale custody_rows =
  fixes st :: "'s custody_store"
    and rows :: "'s \<Rightarrow> custody_key \<Rightarrow> custody_row option"
    and ok :: "'s \<Rightarrow> bool"
  assumes upsert_ok: "ok s \<Longrightarrow> ok (fst (st_upsert_custody st c s))"
    and upsert_rows: "ok s \<Longrightarrow> st_upsert_custody st c s = (s', Inr u) \<Longrightarrow>
      rows s' = (rows s)((pu_plugin c, pu_handle_id c) \<mapsto>
        (case rows s (pu_plugin c, pu_handle_id c) of
           None \<Rightarrow> (c, None) | Some (old, sn) \<Rightarrow> (merge_custody c old, sn)))"
    and state_ok: "ok s \<Longrightarrow> ok (fst (st_upsert_custody_state st v s))"
    and state_rows: "ok s \<Longrightarrow> st_upsert_custody_state st v s = (s', Inr u) \<Longrightarrow>
      rows s' = (rows s)((pv_plugin v, pv_handle_id v) :=
        map_option (\<lambda>row. (fst row, Some v)) (rows s (pv_plugin v, pv_handle_id v)))"
    and mark_ok: "ok s \<Longrightarrow> ok (fst (st_mark_custody_state st p h kind reason at_ms s))"
    and mark_rows: "ok s \<Longrightarrow> st_mark_custody_state st p h kind reason at_ms s = (s', Inr b) \<Longrightarrow>
      rows s' = (rows s)((p, h) := map_option (marked_row kind reason at_ms) (rows s (p, h)))"
    and delete_ok: "ok s \<Longrightarrow> ok (fst (st_delete_custody st p h s))"
    and delete_rows: "ok s \<Longrightarrow> st_delete_custody st p h s = (s', Inr b) \<Longrightarrow>
      rows s' = (rows s)((p, h) := None)"
    and load_rows: "ok s \<Longrightarrow> st_load_all_custodies st s = Inr rs \<Longrightarrow>
      distinct (map row_key rs) \<and> map_of (map (\<lambda>row. (row_key row, row)) rs) = rows s"

section \<open>The ledger as rows\<close>

definition rows_of :: "custody_record \<Rightarrow> custody_row" where
  "rows_of r =
     (\<lparr>pu_plugin = cu_plugin r, pu_handle_id = cu_handle_id r, pu_shelf = cu_shelf r,
       pu_custody_type = cu_custody_type r, pu_state_kind = state_kind_to_str (cu_state r),
       pu_state_reason = state_kind_reason (cu_state r),
       pu_started_at_ms = system_time_to_ms (cu_started_at r),
       pu_last_updated_at_ms = system_time_to_ms (cu_last_updated r)\<rparr>,
      map_option (\<lambda>sn. \<lparr>pv_plugin = cu_plugin r, pv_handle_id = cu_handle_id r,
          pv_payload = sn_payload sn, pv_health = health_to_str (sn_health sn),
          pv_reported_at_ms = system_time_to_ms (sn_reported_at sn)\<rparr>) (cu_last_state r))"

definition entries_keyed :: "custody_entries \<Rightarrow> bool" where
  "entries_keyed entries \<longleftrightarrow> hm_wf entries \<and>
     (\<forall>r k. hm_get entries k = Some r \<longrightarrow> k = (cu_plugin r, cu_handle_id r))"

definition durable_as :: "(custody_key \<Rightarrow> custody_row option) \<Rightarrow> custody_entries \<Rightarrow> bool" where
  "durable_as rs entries \<longleftrightarrow> entries_keyed entries \<and> rs = map_option rows_of \<circ> hm_get entries"

text \<open>What a record keeps across a restart: everything, with times cut to milliseconds.\<close>

definition ms_cut :: "systime \<Rightarrow> systime" where
  "ms_cut t = ms_to_system_time (system_time_to_ms t)"

definition record_ms :: "custody_record \<Rightarrow> custody_record" where
  "record_ms r = r\<lparr>cu_started_at := ms_cut (cu_started_at r),
     cu_last_updated := ms_cut (cu_last_updated r),
     cu_last_state := map_option (\<lambda>sn. sn\<lparr>sn_reported_at := ms_cut (sn_reported_at sn)\<rparr>)
                        (cu_last_state r)\<rparr>"

lemma health_roundtrip [simp]: "health_from_str (health_to_str h) = Some h"
  by (cases h) (simp_all add: health_from_str_def)

lemma state_roundtrip:
  "pu_state_kind c = state_kind_to_str k \<Longrightarrow> pu_state_reason c = state_kind_reason k
     \<Longrightarrow> state_from_row c = Inr k"
  by (cases k) (simp_all add: state_from_row_def)

lemma decode_rows_of:
  "custody_record_from_persisted (fst (rows_of r)) (snd (rows_of r)) = Inr (record_ms r)"
proof -
  have "state_from_row (fst (rows_of r)) = Inr (cu_state r)"
    by (rule state_roundtrip) (simp_all add: rows_of_def)
  then show ?thesis
    by (cases "cu_last_state r")
       (simp_all add: custody_record_from_persisted_def snapshot_from_row_def rows_of_def
          record_ms_def ms_cut_def)
qed

lemma row_key_rows_of [simp]: "row_key (rows_of r) = (cu_plugin r, cu_handle_id r)"
  by (simp add: row_key_def rows_of_def)

lemma map_option_upd:
  "(map_option f \<circ> m)(k \<mapsto> f v) = map_option f \<circ> (m(k \<mapsto> v))"
  by (simp add: fun_eq_iff)

lemma map_option_del: "(map_option f \<circ> m)(k := None) = map_option f \<circ> (m(k := None))"
  by (simp add: fun_eq_iff)

lemma entries_keyed_insert:
  "entries_keyed e \<Longrightarrow> k = (cu_plugin r, cu_handle_id r) \<Longrightarrow> entries_keyed (hm_insert k r e)"
  by (simp add: entries_keyed_def)

lemma entries_keyed_remove: "entries_keyed e \<Longrightarrow> entries_keyed (hm_remove k e)"
  by (simp add: entries_keyed_def)

lemma entries_keyedD: "entries_keyed e \<Longrightarrow> hm_get e (p, h) = Some r \<Longrightarrow> cu_plugin r = p \<and> cu_handle_id r = h"
  by (auto simp: entries_keyed_def)

text \<open>Inserting a record and its row keeps the two sides equal; so does removing both.\<close>

lemma durable_as_insert:
  assumes "durable_as rs e" and "k = (cu_plugin r, cu_handle_id r)" and "row = rows_of r"
  shows "durable_as (rs(k \<mapsto> row)) (hm_insert k r e)"
  using assms entries_keyed_insert [of e k r] map_option_upd [of rows_of "hm_get e" k r]
  unfolding durable_as_def by (simp only: hm_get_insert)

lemma durable_as_remove: "durable_as rs e \<Longrightarrow> durable_as (rs(k := None)) (hm_remove k e)"
  unfolding durable_as_def hm_get_remove map_option_del [symmetric]
  using entries_keyed_remove by blast

lemma durable_as_keyed: "durable_as rs e \<Longrightarrow> entries_keyed e"
  by (simp add: durable_as_def)

lemma durable_as_get: "durable_as rs e \<Longrightarrow> rs k = map_option rows_of (hm_get e k)"
  by (simp add: durable_as_def)

text \<open>The row an operation writes, merged by the store with the stored row, is the row of the
  record it commits.\<close>

lemmas record_custody_simps = record_custody_row_def record_custody_commit_def rows_of_def
  merge_custody_def Let_def

lemmas record_state_simps = record_state_row_def record_state_commit_def rows_of_def
  merge_custody_def Let_def

lemma record_custody_keys [simp]:
  "pu_plugin (record_custody_row e plugin shelf handle ty now) = plugin"
  "pu_handle_id (record_custody_row e plugin shelf handle ty now) = ch_id handle"
  by (simp_all add: record_custody_row_def Let_def)

lemma record_state_keys [simp]:
  "pu_plugin (record_state_row e plugin handle_id now) = plugin"
  "pu_handle_id (record_state_row e plugin handle_id now) = handle_id"
  by (simp_all add: record_state_row_def split: prod.split)

definition committed :: "custody_key \<Rightarrow> custody_row \<Rightarrow> custody_entries \<Rightarrow> custody_entries \<Rightarrow> bool" where
  "committed k row e e' \<longleftrightarrow>
     (\<exists>r. e' = hm_insert k r e \<and> row = rows_of r \<and> k = (cu_plugin r, cu_handle_id r))"

lemma committed_durable: "committed k row e e' \<Longrightarrow> durable_as rs e \<Longrightarrow> durable_as (rs(k \<mapsto> row)) e'"
  by (auto simp: committed_def intro: durable_as_insert)

lemma committedI:
  "e' = hm_insert k r e \<Longrightarrow> row = rows_of r \<Longrightarrow> k = (cu_plugin r, cu_handle_id r)
     \<Longrightarrow> committed k row e e'"
  by (auto simp: committed_def)

lemma record_custody_fresh:
  assumes "hm_get e (plugin, ch_id handle) = None"
  shows "committed (plugin, ch_id handle) (record_custody_row e plugin shelf handle ty now, None)
    e (record_custody_commit plugin shelf handle ty now e)"
  by (rule committedI [OF record_custody_commit_def]) (simp_all add: record_custody_simps assms)

lemma record_custody_known:
  assumes "hm_get e (plugin, ch_id handle) = Some old" and "cu_plugin old = plugin"
    and "cu_handle_id old = ch_id handle"
  shows "committed (plugin, ch_id handle)
    (merge_custody (record_custody_row e plugin shelf handle ty now) (fst (rows_of old)),
     snd (rows_of old)) e (record_custody_commit plugin shelf handle ty now e)"
  by (rule committedI [OF record_custody_commit_def]) (simp_all add: record_custody_simps assms)

definition state_row :: "string \<Rightarrow> string \<Rightarrow> 8 word list \<Rightarrow> health_status \<Rightarrow> systime \<Rightarrow> persisted_custody_state"
  where "state_row plugin handle_id payload health now =
    \<lparr>pv_plugin = plugin, pv_handle_id = handle_id, pv_payload = payload,
     pv_health = health_to_str health, pv_reported_at_ms = system_time_to_ms now\<rparr>"

lemma record_state_fresh:
  assumes "hm_get e (plugin, handle_id) = None"
  shows "committed (plugin, handle_id) (record_state_row e plugin handle_id now,
      Some (state_row plugin handle_id payload health now))
    e (record_state_commit plugin handle_id payload health now e)"
  by (rule committedI [OF record_state_commit_def [unfolded Let_def]])
     (simp_all add: record_state_simps state_row_def assms)

lemma record_state_known:
  assumes "hm_get e (plugin, handle_id) = Some old" and "cu_plugin old = plugin"
    and "cu_handle_id old = handle_id"
  shows "committed (plugin, handle_id)
    (merge_custody (record_state_row e plugin handle_id now) (fst (rows_of old)),
     Some (state_row plugin handle_id payload health now))
    e (record_state_commit plugin handle_id payload health now e)"
  by (rule committedI [OF record_state_commit_def [unfolded Let_def]])
     (simp_all add: record_state_simps state_row_def assms)

lemma mark_known:
  assumes "hm_get e (plugin, handle_id) = Some old" and "cu_plugin old = plugin"
    and "cu_handle_id old = handle_id"
  shows "committed (plugin, handle_id)
    (marked_row (state_kind_to_str k) (state_kind_reason k) (system_time_to_ms now) (rows_of old))
    e (fst (mark_commit plugin handle_id k now e))"
  by (rule committedI [where r = "old\<lparr>cu_state := k, cu_last_updated := now\<rparr>"])
     (simp_all add: mark_commit_def marked_row_def rows_of_def assms)

text \<open>Decoding, as a function on rows: the record a row of the ledger stands for.\<close>

definition row_decodes :: "custody_row \<Rightarrow> bool" where
  "row_decodes row \<longleftrightarrow> (\<exists>r. row = rows_of r)"

definition row_record :: "custody_row \<Rightarrow> custody_record" where
  "row_record row = projr (custody_record_from_persisted (fst row) (snd row))"

lemma row_record_rows_of [simp]: "row_record (rows_of r) = record_ms r"
  by (simp add: row_record_def decode_rows_of)

lemma fold_rehydrate:
  "(\<And>row. row \<in> set rs \<Longrightarrow> row_decodes row) \<Longrightarrow>
     hm_get (fold rehydrate_row rs m) =
       hm_get m ++ map_of (rev (map (\<lambda>row. (row_key row, row_record row)) rs))"
proof (induction rs arbitrary: m)
  case (Cons row rs)
  from Cons.prems [of row] obtain r where "row = rows_of r"
    unfolding row_decodes_def by auto
  then have "hm_get (rehydrate_row row m) = (hm_get m)(row_key row \<mapsto> row_record row)"
    by (simp add: rehydrate_row_def decode_rows_of row_key_def)
  with Cons show ?case by (simp add: map_add_def fun_eq_iff split: option.split)
qed simp

section \<open>Write-through over any store that keeps the contract\<close>

context custody_rows
begin

lemma upsert_fresh:
  assumes "ok s" and "durable_as (rows s) e" and "st_upsert_custody st c s = (s', Inr u)"
    and "hm_get e (pu_plugin c, pu_handle_id c) = None"
  shows "ok s' \<and> rows s' = (rows s)((pu_plugin c, pu_handle_id c) \<mapsto> (c, None))"
  using upsert_rows [OF assms(1,3)] durable_as_get [OF assms(2)] assms(4)
    upsert_ok [OF assms(1), of c] assms(3) by simp

lemma upsert_known:
  assumes "ok s" and "durable_as (rows s) e" and "st_upsert_custody st c s = (s', Inr u)"
    and "hm_get e (pu_plugin c, pu_handle_id c) = Some r"
  shows "ok s' \<and> rows s' = (rows s)((pu_plugin c, pu_handle_id c) \<mapsto>
    (merge_custody c (fst (rows_of r)), snd (rows_of r)))"
  using upsert_rows [OF assms(1,3)] durable_as_get [OF assms(2)] assms(4)
    upsert_ok [OF assms(1), of c] assms(3) by (simp add: case_prod_beta)

lemma record_custody_durable:
  assumes "ok s" and "durable_as (rows s) e"
    and "record_custody (Some st) plugin shelf handle ty now (e, s) = ((e', s'), Inr u)"
  shows "ok s' \<and> durable_as (rows s') e'"
proof -
  let ?c = "record_custody_row e plugin shelf handle ty now"
  obtain v where up: "st_upsert_custody st ?c s = (s', Inr v)"
    and e': "e' = record_custody_commit plugin shelf handle ty now e"
    using assms(3) by (auto simp: record_custody_def Let_def split: prod.splits sum.splits)
  show ?thesis
  proof (cases "hm_get e (plugin, ch_id handle)")
    case None
    with upsert_fresh [OF assms(1,2) up] show ?thesis
      unfolding e' by (simp add: committed_durable [OF record_custody_fresh assms(2)])
  next
    case (Some r)
    note key = entries_keyedD [OF durable_as_keyed [OF assms(2)] Some]
    note known = record_custody_known [OF Some conjunct1 [OF key] conjunct2 [OF key]]
    from Some upsert_known [OF assms(1,2) up] show ?thesis
      unfolding e' by (simp add: committed_durable [OF known assms(2)])
  qed
qed

lemma record_state_durable:
  assumes "ok s" and "durable_as (rows s) e"
    and "record_state (Some st) plugin handle_id payload health now (e, s) = ((e', s'), Inr u)"
  shows "ok s' \<and> durable_as (rows s') e'"
proof -
  let ?c = "record_state_row e plugin handle_id now"
  let ?v = "state_row plugin handle_id payload health now"
  obtain s1 x y where up: "st_upsert_custody st ?c s = (s1, Inr x)"
    and sn: "st_upsert_custody_state st ?v s1 = (s', Inr y)"
    and e': "e' = record_state_commit plugin handle_id payload health now e"
    using assms(3) by (auto simp: record_state_def record_state_write_def state_row_def
        split: prod.splits sum.splits)
  have ok': "ok s1 \<Longrightarrow> ok s'" using state_ok [of s1 ?v] sn by simp
  have key: "pv_plugin ?v = plugin" "pv_handle_id ?v = handle_id" by (simp_all add: state_row_def)
  show ?thesis
  proof (cases "hm_get e (plugin, handle_id)")
    case None
    with upsert_fresh [OF assms(1,2) up] state_rows [OF _ sn] ok' show ?thesis
      unfolding e' by (simp add: key committed_durable [OF record_state_fresh assms(2)])
  next
    case (Some r)
    note own = entries_keyedD [OF durable_as_keyed [OF assms(2)] Some]
    note known = record_state_known [OF Some conjunct1 [OF own] conjunct2 [OF own]]
    from Some upsert_known [OF assms(1,2) up] state_rows [OF _ sn] ok' show ?thesis
      unfolding e' by (simp add: key committed_durable [OF known assms(2)])
  qed
qed

lemma release_durable:
  assumes "ok s" and "durable_as (rows s) e"
    and "release_custody (Some st) plugin handle_id (e, s) = ((e', s'), Inr r)"
  shows "ok s' \<and> durable_as (rows s') e'"
proof -
  obtain b where "st_delete_custody st plugin handle_id s = (s', Inr b)"
    and "e' = hm_remove (plugin, handle_id) e"
    using assms(3) by (auto simp: release_custody_def split: prod.splits sum.splits)
  then show ?thesis
    using delete_rows [OF assms(1)] delete_ok [OF assms(1), of plugin handle_id]
      durable_as_remove [OF assms(2)] by simp
qed

lemma mark_durable:
  assumes "ok s" and "durable_as (rows s) e"
    and "st_mark_custody_state st plugin handle_id (state_kind_to_str k) (state_kind_reason k)
           (system_time_to_ms now) s = (s', Inr b)"
  shows "ok s' \<and> durable_as (rows s') (fst (mark_commit plugin handle_id k now e))"
proof -
  have ok': "ok s'" using mark_ok [OF assms(1)] assms(3) by (metis fst_conv)
  note get = durable_as_get [OF assms(2), of "(plugin, handle_id)"]
  show ?thesis
  proof (cases "hm_get e (plugin, handle_id)")
    case None
    with get mark_rows [OF assms(1,3)] have "rows s' = rows s" by (simp add: fun_upd_idem)
    with None assms(2) ok' show ?thesis by (simp add: mark_commit_def)
  next
    case (Some r)
    note own = entries_keyedD [OF durable_as_keyed [OF assms(2)] Some]
    note known = mark_known [OF Some conjunct1 [OF own] conjunct2 [OF own]]
    from Some get mark_rows [OF assms(1,3)] ok' show ?thesis
      by (simp add: committed_durable [OF known assms(2)])
  qed
qed

lemma mark_aborted_durable:
  assumes "ok s" and "durable_as (rows s) e"
    and "mark_aborted (Some st) plugin handle_id reason now (e, s) = ((e', s'), Inr b)"
  shows "ok s' \<and> durable_as (rows s') e'"
  using assms(3) mark_durable [OF assms(1,2), where k = "CAborted reason"]
  by (auto simp: mark_aborted_def split: prod.splits sum.splits) (metis fst_conv)+

lemma mark_degraded_durable:
  assumes "ok s" and "durable_as (rows s) e"
    and "mark_degraded (Some st) plugin handle_id reason now (e, s) = ((e', s'), Inr b)"
  shows "ok s' \<and> durable_as (rows s') e'"
  using assms(3) mark_durable [OF assms(1,2), where k = "CDegraded reason"]
  by (auto simp: mark_degraded_def split: prod.splits sum.splits) (metis fst_conv)+

text \<open>Rehydration puts back, for every durable row, the record that row decodes to.\<close>

lemma rehydrate_durable:
  assumes "ok s" and "durable_as (rows s) e" and "rehydrate_custodies st s e0 = (e', Inr u)"
  shows "hm_get e' = map_option record_ms \<circ> hm_get e"
proof -
  obtain rs where load: "st_load_all_custodies st s = Inr rs" and e': "e' = fold rehydrate_row rs []"
    using assms(3) by (auto simp: rehydrate_custodies_def split: sum.splits)
  let ?keyed = "map (\<lambda>row. (row_key row, row)) rs"
  have dist: "distinct (map row_key rs)" and mapped: "map_of ?keyed = rows s"
    using load_rows [OF assms(1) load] by auto
  have "row_decodes row" if "row \<in> set rs" for row
  proof -
    have "map_of ?keyed (row_key row) = Some row"
      using dist that by (simp add: map_of_eq_Some_iff comp_def)
    then have "map_option rows_of (hm_get e (row_key row)) = Some row"
      unfolding mapped durable_as_get [OF assms(2)] .
    then show ?thesis by (auto simp: row_decodes_def)
  qed
  then have "hm_get e' = map_of (rev (map (\<lambda>row. (row_key row, row_record row)) rs))"
    by (simp add: e' fold_rehydrate)
  also have "\<dots> = map_of (map (\<lambda>(k, row). (k, row_record row)) ?keyed)"
    using dist by (simp add: map_of_rev_distinct comp_def)
  also have "\<dots> = map_option row_record \<circ> rows s"
    unfolding map_of_map mapped ..
  also have "\<dots> = map_option record_ms \<circ> hm_get e"
    using assms(2) by (simp add: durable_as_def fun_eq_iff option.map_comp comp_def)
  finally show ?thesis .
qed

end

section \<open>The in-memory store\<close>

definition memory_custody_store :: "'v memory_state custody_store" where
  "memory_custody_store =
     \<lparr>st_upsert_custody = (\<lambda>c m. (upsert_custody c m, Inr ())),
      st_upsert_custody_state = (\<lambda>v m. case upsert_custody_state v m of
          Inl e \<Rightarrow> (m, Inl e) | Inr m' \<Rightarrow> (m', Inr ())),
      st_mark_custody_state = (\<lambda>p h kind reason at_ms m.
          let (m', b) = mark_custody_state p h kind reason at_ms m in (m', Inr b)),
      st_delete_custody = (\<lambda>p h m. let (m', b) = delete_custody p h m in (m', Inr b)),
      st_load_all_custodies = (\<lambda>m. Inr (load_all_custodies m))\<rparr>"

definition memory_rows :: "'v memory_state \<Rightarrow> custody_key \<Rightarrow> custody_row option" where
  "memory_rows m k = map_option (\<lambda>c. (c, hm_get (ms_custody_state m) k)) (hm_get (ms_custodies m) k)"

text \<open>Rows are stored under their own key, and every state row has its parent.\<close>

definition custody_tables_ok :: "'v memory_state \<Rightarrow> bool" where
  "custody_tables_ok m \<longleftrightarrow> hm_wf (ms_custodies m) \<and>
     dom (hm_get (ms_custody_state m)) \<subseteq> dom (hm_get (ms_custodies m)) \<and>
     (\<forall>c k. hm_get (ms_custodies m) k = Some c \<longrightarrow> k = (pu_plugin c, pu_handle_id c))"

lemma tables_own_key:
  "custody_tables_ok m \<Longrightarrow> hm_get (ms_custodies m) k = Some c \<Longrightarrow> (pu_plugin c, pu_handle_id c) = k"
  unfolding custody_tables_ok_def by metis

lemma memory_load_keys:
  assumes "custody_tables_ok m"
  shows "map row_key (load_all_custodies m) =
    sort_key (\<lambda>(p, h). [p, h]) (hm_keys (ms_custodies m))"
  unfolding load_all_custodies_def map_map
proof (rule map_idI)
  fix k assume "k \<in> set (sort_key (\<lambda>(p, h). [p, h]) (hm_keys (ms_custodies m)))"
  then obtain c where "hm_get (ms_custodies m) k = Some c" by auto
  then show "(row_key \<circ> (\<lambda>k. (the (hm_get (ms_custodies m) k), hm_get (ms_custody_state m) k))) k = k"
    using tables_own_key [OF assms] by (simp add: row_key_def)
qed

lemma memory_load_distinct:
  "custody_tables_ok m \<Longrightarrow> distinct (map row_key (load_all_custodies m))"
  unfolding memory_load_keys by (simp add: custody_tables_ok_def)

lemma memory_load_map:
  assumes "custody_tables_ok m"
  shows "map_of (map (\<lambda>row. (row_key row, row)) (load_all_custodies m)) = memory_rows m"
proof -
  let ?ks = "sort_key (\<lambda>(p, h). [p, h]) (hm_keys (ms_custodies m))"
  let ?row = "\<lambda>k. (the (hm_get (ms_custodies m) k), hm_get (ms_custody_state m) k)"
  have "map (\<lambda>row. (row_key row, row)) (load_all_custodies m) =
      zip (map row_key (load_all_custodies m)) (load_all_custodies m)"
    by (simp add: zip_map1 zip_same_conv_map)
  also have "\<dots> = map (\<lambda>k. (k, ?row k)) ?ks"
    unfolding memory_load_keys [OF assms]
    unfolding load_all_custodies_def by (simp add: zip_map2 zip_same_conv_map)
  finally have "map_of (map (\<lambda>row. (row_key row, row)) (load_all_custodies m)) =
      (Some \<circ> ?row) |` set ?ks"
    by (simp only: map_of_map_restrict)
  also have "\<dots> = memory_rows m"
    by (rule ext) (auto simp: restrict_map_def memory_rows_def)
  finally show ?thesis .
qed

lemma memory_upsert_ok: "custody_tables_ok m \<Longrightarrow> custody_tables_ok (upsert_custody c m)"
  unfolding custody_tables_ok_def upsert_custody_def Let_def
  by (auto split: option.split)

lemma memory_upsert_rows:
  assumes "custody_tables_ok m"
  shows "memory_rows (upsert_custody c m) = (memory_rows m)((pu_plugin c, pu_handle_id c) \<mapsto>
        (case memory_rows m (pu_plugin c, pu_handle_id c) of
           None \<Rightarrow> (c, None) | Some (old, sn) \<Rightarrow> (merge_custody c old, sn)))"
  using assms
  by (auto simp: memory_rows_def upsert_custody_def merge_custody_def custody_tables_ok_def
      Let_def fun_eq_iff split: option.split)

lemma memory_state_ok:
  "custody_tables_ok m \<Longrightarrow> upsert_custody_state v m = Inr m' \<Longrightarrow> custody_tables_ok m'"
  by (clarsimp simp: custody_tables_ok_def upsert_custody_state_def Let_def
      simp del: split_paired_All split_paired_Ex split: if_splits)

lemma memory_state_rows:
  "upsert_custody_state v m = Inr m' \<Longrightarrow>
     memory_rows m' = (memory_rows m)((pv_plugin v, pv_handle_id v) :=
        map_option (\<lambda>row. (fst row, Some v)) (memory_rows m (pv_plugin v, pv_handle_id v)))"
  by (auto simp: memory_rows_def upsert_custody_state_def Let_def fun_eq_iff split: if_splits)

lemma memory_mark_ok:
  "custody_tables_ok m \<Longrightarrow> custody_tables_ok (fst (mark_custody_state p h kind reason at_ms m))"
  by (auto simp: custody_tables_ok_def mark_custody_state_def split: option.split)

lemma memory_mark_rows:
  "memory_rows (fst (mark_custody_state p h kind reason at_ms m)) =
     (memory_rows m)((p, h) := map_option (marked_row kind reason at_ms) (memory_rows m (p, h)))"
  by (auto simp: memory_rows_def mark_custody_state_def marked_row_def fun_eq_iff split: option.split)

lemma memory_delete_ok: "custody_tables_ok m \<Longrightarrow> custody_tables_ok (fst (delete_custody p h m))"
  by (auto simp: custody_tables_ok_def delete_custody_def)

lemma memory_delete_rows:
  "memory_rows (fst (delete_custody p h m)) = (memory_rows m)((p, h) := None)"
  by (auto simp: memory_rows_def delete_custody_def fun_eq_iff)

interpretation mem_custody: custody_rows memory_custody_store memory_rows custody_tables_ok
proof
  fix s s' :: "'v memory_state" and c v p h kind reason at_ms u b rs
  let ?st = "memory_custody_store :: 'v memory_state custody_store"
  assume ok: "custody_tables_ok s"
  show "custody_tables_ok (fst (st_upsert_custody ?st c s))"
    using memory_upsert_ok [OF ok] by (simp add: memory_custody_store_def)
  show "st_upsert_custody ?st c s = (s', Inr u) \<Longrightarrow>
      memory_rows s' = (memory_rows s)((pu_plugin c, pu_handle_id c) \<mapsto>
        (case memory_rows s (pu_plugin c, pu_handle_id c) of
           None \<Rightarrow> (c, None) | Some (old, sn) \<Rightarrow> (merge_custody c old, sn)))"
    using memory_upsert_rows [OF ok] by (auto simp: memory_custody_store_def)
  show "custody_tables_ok (fst (st_upsert_custody_state ?st v s))"
    using memory_state_ok [OF ok] ok by (auto simp: memory_custody_store_def split: sum.split)
  show "st_upsert_custody_state ?st v s = (s', Inr u) \<Longrightarrow>
      memory_rows s' = (memory_rows s)((pv_plugin v, pv_handle_id v) :=
        map_option (\<lambda>row. (fst row, Some v)) (memory_rows s (pv_plugin v, pv_handle_id v)))"
    using memory_state_rows [of v s] by (auto simp: memory_custody_store_def split: sum.splits)
  show "custody_tables_ok (fst (st_mark_custody_state ?st p h kind reason at_ms s))"
    using memory_mark_ok [OF ok] by (simp add: memory_custody_store_def case_prod_beta)
  show "st_mark_custody_state ?st p h kind reason at_ms s = (s', Inr b) \<Longrightarrow>
      memory_rows s' = (memory_rows s)((p, h) :=
        map_option (marked_row kind reason at_ms) (memory_rows s (p, h)))"
    using memory_mark_rows [of p h kind reason at_ms s]
    by (auto simp: memory_custody_store_def case_prod_beta)
  show "custody_tables_ok (fst (st_delete_custody ?st p h s))"
    using memory_delete_ok [OF ok] by (simp add: memory_custody_store_def case_prod_beta)
  show "st_delete_custody ?st p h s = (s', Inr b) \<Longrightarrow> memory_rows s' = (memory_rows s)((p, h) := None)"
    using memory_delete_rows [of p h s] by (auto simp: memory_custody_store_def case_prod_beta)
  show "st_load_all_custodies ?st s = Inr rs \<Longrightarrow> distinct (map row_key rs) \<and>
      map_of (map (\<lambda>row. (row_key row, row)) rs) = memory_rows s"
    using memory_load_distinct [OF ok] memory_load_map [OF ok]
    by (auto simp: memory_custody_store_def)
qed

section \<open>Properties\<close>

text \<open>One ledger operation over the in-memory store, whatever it returns.\<close>

inductive custody_step ::
    "custody_entries \<times> 'v memory_state \<Rightarrow> custody_entries \<times> 'v memory_state \<Rightarrow> bool" where
  cs_record: "custody_step x (fst (record_custody (Some memory_custody_store) plugin shelf handle ty now x))"
| cs_state: "custody_step x (fst (record_state (Some memory_custody_store) plugin handle_id payload health now x))"
| cs_release: "custody_step x (fst (release_custody (Some memory_custody_store) plugin handle_id x))"
| cs_aborted: "custody_step x (fst (mark_aborted (Some memory_custody_store) plugin handle_id reason now x))"
| cs_degraded: "custody_step x (fst (mark_degraded (Some memory_custody_store) plugin handle_id reason now x))"

definition custody_inv :: "custody_entries \<times> 'v memory_state \<Rightarrow> bool" where
  "custody_inv x \<longleftrightarrow> custody_tables_ok (snd x) \<and> durable_as (memory_rows (snd x)) (fst x)"

text \<open>The in-memory store accepts every write the ledger makes: the parent row is there when the
  state row is written.\<close>

lemma memory_accepts:
  "\<exists>u. snd (record_custody (Some memory_custody_store) plugin shelf handle ty now x) = Inr u"
  "\<exists>u. snd (record_state (Some memory_custody_store) plugin handle_id payload health now x) = Inr u"
  "\<exists>u. snd (release_custody (Some memory_custody_store) plugin handle_id x) = Inr u"
  "\<exists>u. snd (mark_aborted (Some memory_custody_store) plugin handle_id reason now x) = Inr u"
  "\<exists>u. snd (mark_degraded (Some memory_custody_store) plugin handle_id reason now x) = Inr u"
proof -
  obtain e m where x: "x = (e, m)" by (cases x)
  show "\<exists>u. snd (record_custody (Some memory_custody_store) plugin shelf handle ty now x) = Inr u"
    by (simp add: x record_custody_def memory_custody_store_def Let_def)
  show "\<exists>u. snd (record_state (Some memory_custody_store) plugin handle_id payload health now x) = Inr u"
    by (simp add: x record_state_def record_state_write_def memory_custody_store_def
        upsert_custody_state_def upsert_custody_def Let_def)
  show "\<exists>u. snd (release_custody (Some memory_custody_store) plugin handle_id x) = Inr u"
    by (simp add: x release_custody_def memory_custody_store_def case_prod_beta)
  show "\<exists>u. snd (mark_aborted (Some memory_custody_store) plugin handle_id reason now x) = Inr u"
    by (simp add: x mark_aborted_def memory_custody_store_def case_prod_beta)
  show "\<exists>u. snd (mark_degraded (Some memory_custody_store) plugin handle_id reason now x) = Inr u"
    by (simp add: x mark_degraded_def memory_custody_store_def case_prod_beta)
qed

lemma result_pair: "\<exists>u. snd r = Inr u \<Longrightarrow> \<exists>e s u. r = ((e, s), Inr u)"
  by (metis prod.collapse)

lemma custody_step_inv: "custody_step x y \<Longrightarrow> custody_inv x \<Longrightarrow> custody_inv y"
proof (induction rule: custody_step.induct)
  case (cs_record x plugin shelf handle ty now)
  then show ?case
    using mem_custody.record_custody_durable [of "snd x" "fst x" plugin shelf handle ty now]
      result_pair [OF memory_accepts(1) [of plugin shelf handle ty now x]]
    by (auto simp: custody_inv_def)
next
  case (cs_state x plugin handle_id payload health now)
  then show ?case
    using mem_custody.record_state_durable [of "snd x" "fst x" plugin handle_id payload health now]
      result_pair [OF memory_accepts(2) [of plugin handle_id payload health now x]]
    by (auto simp: custody_inv_def)
next
  case (cs_release x plugin handle_id)
  then show ?case
    using mem_custody.release_durable [of "snd x" "fst x" plugin handle_id]
      result_pair [OF memory_accepts(3) [of plugin handle_id x]]
    by (auto simp: custody_inv_def)
next
  case (cs_aborted x plugin handle_id reason now)
  then show ?case
    using mem_custody.mark_aborted_durable [of "snd x" "fst x" plugin handle_id reason now]
      result_pair [OF memory_accepts(4) [of plugin handle_id reason now x]]
    by (auto simp: custody_inv_def)
next
  case (cs_degraded x plugin handle_id reason now)
  then show ?case
    using mem_custody.mark_degraded_durable [of "snd x" "fst x" plugin handle_id reason now]
      result_pair [OF memory_accepts(5) [of plugin handle_id reason now x]]
    by (auto simp: custody_inv_def)
qed

lemma custody_init: "custody_inv (new_custody_ledger, new_memory_state)"
  by (simp add: custody_inv_def custody_tables_ok_def durable_as_def entries_keyed_def
      new_custody_ledger_def new_memory_state_def memory_rows_def fun_eq_iff)

interpretation custody: invariant_system
  "\<lambda>x. x = (new_custody_ledger, new_memory_state)" custody_step custody_inv
  by unfold_locales (auto simp: custody_init custody_step_inv)

text \<open>(C14) Write-through of the custody ledger: after any sequence of ledger operations over the
  in-memory store, starting from an empty ledger, the durable rows are exactly the rows of the
  records in memory (custody, state report, lifecycle state, times in milliseconds), every state
  row has its custody row, and no operation is refused by the store.\<close>

theorem custody_write_through:
  assumes "custody_step\<^sup>*\<^sup>* (new_custody_ledger, new_memory_state) (e, m)"
  shows "(\<forall>p h. memory_rows m (p, h) = map_option rows_of (describe_custody e p h)) \<and>
    dom (hm_get (ms_custody_state m)) \<subseteq> dom (hm_get (ms_custodies m)) \<and>
    (\<exists>u. snd (record_state (Some memory_custody_store) p h payload health now (e, m)) = Inr u)"
  using custody.reachable_inv [OF refl assms] memory_accepts(2)
  by (simp add: custody_inv_def durable_as_def describe_custody_def custody_tables_ok_def)

definition warden_handle :: custody_handle where
  "warden_handle = \<lparr>ch_id = ''h1'', ch_started_at = 0\<rparr>"

definition one_custody :: "custody_entries \<times> unit memory_state" where
  "one_custody = fst (record_custody (Some memory_custody_store) ''w'' ''audio.output'' warden_handle
     ''playback'' 5000000 (new_custody_ledger, new_memory_state))"

lemma one_custody_reach: "custody_step\<^sup>*\<^sup>* (new_custody_ledger, new_memory_state) one_custody"
  unfolding one_custody_def by (rule r_into_rtranclp) (rule cs_record)

lemma custody_write_through_witness:
  "memory_rows (snd one_custody) (''w'', ''h1'') =
     map_option rows_of (describe_custody (fst one_custody) ''w'' ''h1'')
   \<and> describe_custody (fst one_custody) ''w'' ''h1'' \<noteq> None"
proof
  show "memory_rows (snd one_custody) (''w'', ''h1'') =
     map_option rows_of (describe_custody (fst one_custody) ''w'' ''h1'')"
    using custody_write_through [of "fst one_custody" "snd one_custody"] one_custody_reach by simp
  show "describe_custody (fst one_custody) ''w'' ''h1'' \<noteq> None" by code_simp
qed

text \<open>(C15) Restart of the custody ledger: rehydrating from the store after any sequence of ledger
  operations succeeds and gives back every record, and no other, with its times cut to
  milliseconds, whatever the ledger held before.\<close>

theorem custody_restart:
  assumes "custody_step\<^sup>*\<^sup>* (new_custody_ledger, new_memory_state) (e, m)"
  shows "\<exists>e'. rehydrate_custodies memory_custody_store m e0 = (e', Inr ()) \<and>
    (\<forall>p h. describe_custody e' p h = map_option record_ms (describe_custody e p h))"
proof -
  have inv: "custody_inv (e, m)" by (rule custody.reachable_inv [OF refl assms])
  obtain e' where e': "rehydrate_custodies memory_custody_store m e0 = (e', Inr ())"
    by (simp add: rehydrate_custodies_def memory_custody_store_def)
  with inv mem_custody.rehydrate_durable [of m e e0 e'] show ?thesis
    by (auto simp: custody_inv_def describe_custody_def)
qed

lemma custody_restart_witness:
  "\<exists>e'. rehydrate_custodies memory_custody_store (snd one_custody) [] = (e', Inr ()) \<and>
     (\<forall>p h. describe_custody e' p h = map_option record_ms (describe_custody (fst one_custody) p h))"
  by (rule custody_restart) (simp add: one_custody_reach)

lemma record_custody_commits:
  "record_custody store plugin shelf handle ty now (e, s) = ((e', s'), Inr u)
     \<Longrightarrow> e' = record_custody_commit plugin shelf handle ty now e"
  by (auto simp: record_custody_def Let_def split: prod.splits sum.splits)

lemma record_state_commits:
  "record_state store plugin handle_id payload health now (e, s) = ((e', s'), Inr u)
     \<Longrightarrow> e' = record_state_commit plugin handle_id payload health now e"
  by (auto simp: record_state_def split: prod.splits sum.splits)

text \<open>The take/report race: for a handle the ledger does not know, and with any store that
  accepts the writes, the engine's custody record and the warden's first state report may arrive
  in either order. Both orders end with the same complete record (shelf, custody type and report
  set, lifecycle active) whose start is the time of the first call and whose last update is the
  time of the second; only the report's own time stamp tells the orders apart.\<close>

theorem take_report_race:
  assumes "describe_custody e plugin (ch_id handle) = None"
    and "record_custody store plugin shelf handle ty t0 (e, s) = ((e1, s1), Inr ())"
    and "record_state store plugin (ch_id handle) payload health t1 (e1, s1) = ((e2, s2), Inr ())"
    and "record_state store plugin (ch_id handle) payload health t0 (e, s) = ((e3, s3), Inr ())"
    and "record_custody store plugin shelf handle ty t1 (e3, s3) = ((e4, s4), Inr ())"
  shows "describe_custody e2 plugin (ch_id handle) = Some
      \<lparr>cu_plugin = plugin, cu_handle_id = ch_id handle, cu_shelf = Some shelf,
       cu_custody_type = Some ty,
       cu_last_state = Some \<lparr>sn_payload = payload, sn_health = health, sn_reported_at = t1\<rparr>,
       cu_state = CActive, cu_started_at = t0, cu_last_updated = t1\<rparr>
    \<and> describe_custody e4 plugin (ch_id handle) = Some
      \<lparr>cu_plugin = plugin, cu_handle_id = ch_id handle, cu_shelf = Some shelf,
       cu_custody_type = Some ty,
       cu_last_state = Some \<lparr>sn_payload = payload, sn_health = health, sn_reported_at = t0\<rparr>,
       cu_state = CActive, cu_started_at = t0, cu_last_updated = t1\<rparr>"
  using assms(1) record_custody_commits [OF assms(2)] record_state_commits [OF assms(3)]
    record_state_commits [OF assms(4)] record_custody_commits [OF assms(5)]
  by (simp add: describe_custody_def record_custody_commit_def record_state_commit_def Let_def)

lemma take_report_race_witness:
  "\<exists>e3 s3 e4 s4. record_state (Some memory_custody_store) ''w'' ''h1'' [1] Healthy 5 ([], new_memory_state
       :: unit memory_state) = ((e3, s3), Inr ()) \<and>
     record_custody (Some memory_custody_store) ''w'' ''audio.output'' warden_handle ''playback'' 9 (e3, s3)
       = ((e4, s4), Inr ()) \<and>
     describe_custody e4 ''w'' ''h1'' = Some
      \<lparr>cu_plugin = ''w'', cu_handle_id = ''h1'', cu_shelf = Some ''audio.output'',
       cu_custody_type = Some ''playback'',
       cu_last_state = Some \<lparr>sn_payload = [1], sn_health = Healthy, sn_reported_at = 5\<rparr>,
       cu_state = CActive, cu_started_at = 5, cu_last_updated = 9\<rparr>"
proof -
  let ?st = "Some (memory_custody_store :: unit memory_state custody_store)"
  have id: "ch_id warden_handle = ''h1''" by (simp add: warden_handle_def)
  obtain e1 s1 where a: "record_custody ?st ''w'' ''audio.output'' warden_handle ''playback'' 5
      ([], new_memory_state) = ((e1, s1), Inr ())"
    using result_pair [OF memory_accepts(1)] by fastforce
  obtain e2 s2 where b: "record_state ?st ''w'' (ch_id warden_handle) [1] Healthy 9 (e1, s1)
      = ((e2, s2), Inr ())" using result_pair [OF memory_accepts(2)] by fastforce
  obtain e3 s3 where c: "record_state ?st ''w'' (ch_id warden_handle) [1] Healthy 5
      ([], new_memory_state) = ((e3, s3), Inr ())" using result_pair [OF memory_accepts(2)] by fastforce
  obtain e4 s4 where d: "record_custody ?st ''w'' ''audio.output'' warden_handle ''playback'' 9
      (e3, s3) = ((e4, s4), Inr ())" using result_pair [OF memory_accepts(1)] by fastforce
  have "describe_custody [] ''w'' (ch_id warden_handle) = None" by (simp add: describe_custody_def)
  from take_report_race [OF this a b c d] c d show ?thesis by (auto simp: id)
qed

text \<open>A store failure leaves the ledger alone: when any of the five mutating operations
  reports a persistence error, for any store, the records in memory are unchanged; and a ledger
  without persistence never reports one.\<close>

theorem custody_store_failure:
  "(record_custody store plugin shelf handle ty now (e, s) = ((e', s'), Inl err)
      \<longrightarrow> store \<noteq> None \<and> e' = e) \<and>
   (record_state store plugin handle_id payload health now (e, s) = ((e', s'), Inl err)
      \<longrightarrow> store \<noteq> None \<and> e' = e) \<and>
   (release_custody store plugin handle_id (e, s) = ((e', s'), Inl err)
      \<longrightarrow> store \<noteq> None \<and> e' = e) \<and>
   (mark_aborted store plugin handle_id reason now (e, s) = ((e', s'), Inl err)
      \<longrightarrow> store \<noteq> None \<and> e' = e) \<and>
   (mark_degraded store plugin handle_id reason now (e, s) = ((e', s'), Inl err)
      \<longrightarrow> store \<noteq> None \<and> e' = e)"
  by (auto simp: record_custody_def record_state_def record_state_write_def release_custody_def
      mark_aborted_def mark_degraded_def Let_def split: option.splits prod.splits sum.splits)

text \<open>A store that refuses every write.\<close>

definition broken_store :: "unit custody_store" where
  "broken_store = \<lparr>st_upsert_custody = (\<lambda>_ s. (s, Inl (Invalid ''io''))),
     st_upsert_custody_state = (\<lambda>_ s. (s, Inl (Invalid ''io''))),
     st_mark_custody_state = (\<lambda>_ _ _ _ _ s. (s, Inl (Invalid ''io''))),
     st_delete_custody = (\<lambda>_ _ s. (s, Inl (Invalid ''io''))),
     st_load_all_custodies = (\<lambda>_. Inl (Invalid ''io''))\<rparr>"

lemma custody_store_failure_witness:
  "\<exists>e' s'. release_custody (Some broken_store) ''w'' ''h1'' (fst one_custody, ()) =
      ((e', s'), Inl (Invalid ''io'')) \<and> e' = fst one_custody"
proof -
  obtain e' s' where r: "release_custody (Some broken_store) ''w'' ''h1'' (fst one_custody, ()) =
      ((e', s'), Inl (Invalid ''io''))"
    by (auto simp: release_custody_def broken_store_def)
  moreover have "e' = fst one_custody"
    using r custody_store_failure [where store = "Some broken_store" and e = "fst one_custody"
        and s = "()" and e' = e' and s' = s' and err = "Invalid ''io''" and plugin = "''w''"
        and handle_id = "''h1''"] by simp
  ultimately show ?thesis by blast
qed

text \<open>The schedule of two concurrent calls: the report reads, the router marks, the report writes
  and commits.\<close>

definition report_around_mark ::
    "string \<Rightarrow> string \<Rightarrow> 8 word list \<Rightarrow> health_status \<Rightarrow> string \<Rightarrow> systime \<Rightarrow> systime
       \<Rightarrow> custody_entries \<times> 'v memory_state \<Rightarrow> custody_entries \<times> 'v memory_state" where
  "report_around_mark plugin handle_id payload health reason t0 t1 x =
     (let row = record_state_row (fst x) plugin handle_id t0;
          (e1, m1) = fst (mark_aborted (Some memory_custody_store) plugin handle_id reason t1 x);
          m2 = fst (record_state_write (Some memory_custody_store) row payload health t0 m1)
      in (record_state_commit plugin handle_id payload health t0 e1, m2))"

lemma merge_marked: "merge_custody c (fst (marked_row kind reason at_ms row)) = merge_custody c (fst row)"
  by (simp add: merge_custody_def marked_row_def)

text \<open>What the schedule leaves in the store is what the report alone would have left.\<close>

lemma report_around_mark_durable:
  assumes inv: "custody_inv (e, m)" and get: "hm_get e (plugin, handle_id) = Some r"
    and run: "report_around_mark plugin handle_id payload health reason t0 t1 (e, m) = (e', m')"
  shows "custody_inv (record_state_commit plugin handle_id payload health t0 e, m')"
proof -
  let ?k = "(plugin, handle_id)" and ?st = "memory_custody_store :: 'a memory_state custody_store"
  let ?row = "record_state_row e plugin handle_id t0"
  let ?v = "state_row plugin handle_id payload health t0"
  have ok: "custody_tables_ok m" and dur: "durable_as (memory_rows m) e"
    using inv by (simp_all add: custody_inv_def)
  note own = entries_keyedD [OF durable_as_keyed [OF dur] get]
  define m1 where "m1 = fst (mark_custody_state plugin handle_id ''aborted'' (Some reason)
      (system_time_to_ms t1) m)"
  define m2 where "m2 = upsert_custody ?row m1"
  have rows1: "memory_rows m1 ?k = Some (marked_row ''aborted'' (Some reason) (system_time_to_ms t1)
      (rows_of r))" and rest1: "(memory_rows m1)(?k \<mapsto> y) = (memory_rows m)(?k \<mapsto> y)" for y
    by (simp_all add: m1_def memory_mark_rows durable_as_get [OF dur] get)
  have ok1: "custody_tables_ok m1" unfolding m1_def by (rule memory_mark_ok [OF ok])
  have ok2: "custody_tables_ok m2" unfolding m2_def by (rule memory_upsert_ok [OF ok1])
  have rows2: "memory_rows m2 = (memory_rows m)(?k \<mapsto>
      (merge_custody ?row (fst (rows_of r)), snd (rows_of r)))"
    using memory_upsert_rows [OF ok1, of ?row] rows1 rest1
    by (simp add: m2_def case_prod_beta merge_marked) (simp add: marked_row_def)
  have "m' = fst (record_state_write (Some memory_custody_store) ?row payload health t0 m1)"
    using run by (simp add: report_around_mark_def mark_aborted_def memory_custody_store_def
        m1_def Let_def case_prod_beta)
  moreover have "hm_get (ms_custodies m2) ?k \<noteq> None"
    using arg_cong [OF rows2, of "\<lambda>f. f ?k"] by (auto simp: memory_rows_def)
  then obtain m3 where "upsert_custody_state ?v m2 = Inr m3"
    by (auto simp: upsert_custody_state_def Let_def state_row_def)
  ultimately have "upsert_custody_state ?v m2 = Inr m'"
    by (simp add: record_state_write_def memory_custody_store_def m2_def state_row_def)
  then show ?thesis
    using committed_durable [OF record_state_known [OF get conjunct1 [OF own] conjunct2 [OF own]] dur]
    by (simp add: custody_inv_def memory_state_ok [OF ok2] memory_state_rows rows2 state_row_def)
qed

text \<open>The window in which a failure mark is lost. A warden's state report reads the mirror,
  then writes the parent row it built, then commits. If the router marks the custody aborted
  between the read and the write, the report's write puts the old lifecycle state back into the
  durable row: the ledger in memory says aborted, and a restart gives the custody back as active.\<close>

theorem aborted_mark_lost:
  assumes "custody_inv (e, m)" and "describe_custody e plugin handle_id = Some r"
    and "cu_state r = CActive"
    and "report_around_mark plugin handle_id payload health reason t0 t1 (e, m) = (e', m')"
    and "rehydrate_custodies memory_custody_store m' [] = (restarted, Inr u)"
  shows "map_option cu_state (describe_custody e' plugin handle_id) = Some (CAborted reason) \<and>
    map_option cu_state (describe_custody restarted plugin handle_id) = Some CActive"
proof
  from assms(2) have get: "hm_get e (plugin, handle_id) = Some r" by (simp add: describe_custody_def)
  show "map_option cu_state (describe_custody e' plugin handle_id) = Some (CAborted reason)"
    using assms(4) get
    by (auto simp: report_around_mark_def mark_aborted_def memory_custody_store_def mark_commit_def
        record_state_commit_def describe_custody_def Let_def case_prod_beta)
  have "hm_get restarted = map_option record_ms \<circ>
      hm_get (record_state_commit plugin handle_id payload health t0 e)"
    using report_around_mark_durable [OF assms(1) get assms(4)]
      mem_custody.rehydrate_durable [OF _ _ assms(5)] by (simp add: custody_inv_def)
  then show "map_option cu_state (describe_custody restarted plugin handle_id) = Some CActive"
    using get assms(3)
    by (simp add: describe_custody_def record_state_commit_def record_ms_def Let_def)
qed

lemma aborted_mark_lost_witness:
  "\<exists>e' m' restarted. report_around_mark ''w'' ''h1'' [1] Healthy ''timeout'' 8000000 9000000 one_custody
       = (e', m') \<and> rehydrate_custodies memory_custody_store m' [] = (restarted, Inr ()) \<and>
     map_option cu_state (describe_custody e' ''w'' ''h1'') = Some (CAborted ''timeout'') \<and>
     map_option cu_state (describe_custody restarted ''w'' ''h1'') = Some CActive"
proof -
  obtain e m where one: "one_custody = (e, m)" by (cases one_custody)
  obtain e' m' where run: "report_around_mark ''w'' ''h1'' [1] Healthy ''timeout'' 8000000 9000000 (e, m)
      = (e', m')" by fastforce
  obtain restarted where boot: "rehydrate_custodies memory_custody_store m' [] = (restarted, Inr ())"
    by (simp add: rehydrate_custodies_def memory_custody_store_def)
  have inv: "custody_inv (e, m)"
    using custody.reachable_inv [OF refl one_custody_reach] by (simp add: one)
  have "map_option cu_state (describe_custody (fst one_custody) ''w'' ''h1'') = Some CActive"
    by code_simp
  then obtain r where "describe_custody e ''w'' ''h1'' = Some r" "cu_state r = CActive"
    by (auto simp: one)
  from aborted_mark_lost [OF inv this run boot] run boot show ?thesis by (auto simp: one)
qed

end
