(* ===== verification/Catalogue_Rules.thy ===== *)
theory Catalogue_Rules
  imports Evo_Prelude
begin

text \<open>
  The catalogue (\<open>crates/evo/src/catalogue.rs\<close>): racks and shelves, subject types, relation
  predicates and reconciliation pairs, with the load-time validation and the three-tier load.

  The TOML parser and the file system are parameters: \<open>read path\<close> gives the text or an I/O
  error text, \<open>parse text\<close> the catalogue or a parse error text, \<open>mirror\<close> the result of writing the
  last-known-good copy. Default field values are the parser's business. A \<open>HashSet\<close> used only to
  detect repetitions is the list of what was seen.
\<close>

section \<open>Data\<close>

record shelf =
  sh_name :: string
  sh_shape :: u32
  sh_shape_supports :: "u32 list"
  sh_description :: string
  sh_required :: bool

record rack =
  rk_name :: string
  rk_family :: string
  rk_kinds :: "string list"
  rk_charter :: string
  rk_shelves :: "shelf list"

record subject_type_decl =
  sd_name :: string
  sd_description :: string

datatype type_constraint = Single string | Multiple "string list"

datatype cardinality = ExactlyOne | AtMostOne | AtLeastOne | Many

record relation_predicate =
  rp_predicate :: string
  rp_description :: string
  rp_source_type :: type_constraint
  rp_target_type :: type_constraint
  rp_source_cardinality :: cardinality
  rp_target_cardinality :: cardinality
  rp_inverse :: "string option"

record reconciliation_pair =
  rc_id :: string
  rc_composer_shelf :: string
  rc_warden_shelf :: string
  rc_trigger_variants :: "string list"
  rc_debounce_ms :: u32
  rc_applied_state_schema :: "string option"

record catalogue =
  ca_schema_version :: u32
  ca_racks :: "rack list"
  ca_subjects :: "subject_type_decl list"
  ca_relations :: "relation_predicate list"
  ca_reconciliation_pairs :: "reconciliation_pair list"

definition CATALOGUE_SCHEMA_MIN :: u32 where "CATALOGUE_SCHEMA_MIN = 1"

definition CATALOGUE_SCHEMA_MAX :: u32 where "CATALOGUE_SCHEMA_MAX = 1"

definition default_catalogue :: catalogue where
  "default_catalogue = \<lparr>ca_schema_version = CATALOGUE_SCHEMA_MIN, ca_racks = [], ca_subjects = [],
     ca_relations = [], ca_reconciliation_pairs = []\<rparr>"

definition accepts_shape :: "shelf \<Rightarrow> u32 \<Rightarrow> bool" where
  "accepts_shape s candidate \<longleftrightarrow> candidate = sh_shape s \<or> candidate \<in> set (sh_shape_supports s)"

fun type_accepts :: "type_constraint \<Rightarrow> string \<Rightarrow> bool" where
  "type_accepts (Single t) subject_type \<longleftrightarrow> t = ''*'' \<or> t = subject_type"
| "type_accepts (Multiple ts) subject_type \<longleftrightarrow> list_ex (\<lambda>t. t = subject_type) ts"

section \<open>Lookups\<close>

text \<open>\<open>split_once('.')\<close>: the text before and after the first dot.\<close>

fun split_once_dot :: "string \<Rightarrow> (string \<times> string) option" where
  "split_once_dot [] = None"
| "split_once_dot (c # cs) =
     (if c = CHR ''.'' then Some ([], cs)
      else map_option (\<lambda>(a, b). (c # a, b)) (split_once_dot cs))"

definition find_shelf :: "catalogue \<Rightarrow> string \<Rightarrow> shelf option" where
  "find_shelf c qualified_name =
     (case split_once_dot qualified_name of
        None \<Rightarrow> None
      | Some (rack_name, shelf_name) \<Rightarrow>
          (case List.find (\<lambda>r. rk_name r = rack_name) (ca_racks c) of
             None \<Rightarrow> None
           | Some r \<Rightarrow> List.find (\<lambda>s. sh_name s = shelf_name) (rk_shelves r)))"

definition find_predicate :: "catalogue \<Rightarrow> string \<Rightarrow> relation_predicate option" where
  "find_predicate c name = List.find (\<lambda>p. rp_predicate p = name) (ca_relations c)"

definition find_subject_type :: "catalogue \<Rightarrow> string \<Rightarrow> subject_type_decl option" where
  "find_subject_type c name = List.find (\<lambda>s. sd_name s = name) (ca_subjects c)"

section \<open>Validation\<close>

definition shelf_path :: "rack \<Rightarrow> shelf \<Rightarrow> string" where
  "shelf_path r s = rk_name r @ ''.'' @ sh_name s"

definition collect_qualified_shelves :: "catalogue \<Rightarrow> string hset" where
  "collect_qualified_shelves c =
     fold (\<lambda>r out. fold (\<lambda>s. hs_insert (shelf_path r s)) (rk_shelves r) out) (ca_racks c) []"

definition refuse :: "string \<Rightarrow> unit outcome" where
  "refuse msg = Err (Catalogue msg)"

definition validate_schema_version :: "catalogue \<Rightarrow> unit outcome" where
  "validate_schema_version c =
     (if ca_schema_version c < CATALOGUE_SCHEMA_MIN \<or> CATALOGUE_SCHEMA_MAX < ca_schema_version c
      then refuse (''catalogue schema_version '' @ show_nat (unat (ca_schema_version c)) @
        '' is out of range; this steward supports ['' @ show_nat (unat CATALOGUE_SCHEMA_MIN) @
        '', '' @ show_nat (unat CATALOGUE_SCHEMA_MAX) @ '']'')
      else Ok ())"

fun validate_supports :: "rack \<Rightarrow> shelf \<Rightarrow> u32 list \<Rightarrow> u32 list \<Rightarrow> unit outcome" where
  "validate_supports r s seen [] = Ok ()"
| "validate_supports r s seen (v # vs) =
     (if v \<in> set seen then refuse (''shelf '' @ shelf_path r s @
         '': shape_supports has duplicate entry '' @ show_nat (unat v))
      else validate_supports r s (v # seen) vs)"

fun validate_shelves :: "rack \<Rightarrow> string list \<Rightarrow> shelf list \<Rightarrow> unit outcome" where
  "validate_shelves r seen [] = Ok ()"
| "validate_shelves r seen (s # ss) =
     (if sh_name s = [] then refuse (''shelf with empty name in rack '' @ rk_name r)
      else if CHR ''.'' \<in> set (sh_name s) then
        refuse (''shelf name must not contain '' @ [CHR 0x27, CHR ''.'', CHR 0x27] @ '': '' @ shelf_path r s)
      else if sh_name s \<in> set seen then
        refuse (''duplicate shelf name '' @ sh_name s @ '' in rack '' @ rk_name r)
      else if sh_shape s \<in> set (sh_shape_supports s) then
        refuse (''shelf '' @ shelf_path r s @ '': shape_supports must not contain the current shape '' @
          show_nat (unat (sh_shape s)) @ ''; only OLDER shapes belong in this list'')
      else then_check (validate_supports r s [] (sh_shape_supports s))
             (validate_shelves r (sh_name s # seen) ss))"

fun validate_rack_list :: "string list \<Rightarrow> rack list \<Rightarrow> unit outcome" where
  "validate_rack_list seen [] = Ok ()"
| "validate_rack_list seen (r # rs) =
     (if rk_name r = [] then refuse ''rack with empty name''
      else if CHR ''.'' \<in> set (rk_name r) then
        refuse (''rack name must not contain '' @ [CHR 0x27, CHR ''.'', CHR 0x27] @ '': '' @ rk_name r)
      else if rk_charter r = [] then refuse (''rack '' @ rk_name r @ '' has empty charter'')
      else if rk_name r \<in> set seen then refuse (''duplicate rack name: '' @ rk_name r)
      else then_check (validate_shelves r [] (rk_shelves r))
             (validate_rack_list (rk_name r # seen) rs))"

definition validate_racks :: "catalogue \<Rightarrow> unit outcome" where
  "validate_racks c = validate_rack_list [] (ca_racks c)"

fun validate_subject_list :: "string list \<Rightarrow> subject_type_decl list \<Rightarrow> unit outcome" where
  "validate_subject_list seen [] = Ok ()"
| "validate_subject_list seen (d # ds) =
     (if sd_name d = [] then refuse ''subject type with empty name''
      else if CHR ''.'' \<in> set (sd_name d) then
        refuse (''subject type name must not contain '' @ [CHR 0x27, CHR ''.'', CHR 0x27] @ '': '' @ sd_name d)
      else if sd_name d = ''*'' then
        refuse (''subject type name '' @ [CHR 0x27, CHR ''*'', CHR 0x27] @
          '' is reserved (wildcard in predicate type constraints)'')
      else if sd_name d \<in> set seen then refuse (''duplicate subject type: '' @ sd_name d)
      else validate_subject_list (sd_name d # seen) ds)"

definition validate_subjects :: "catalogue \<Rightarrow> unit outcome" where
  "validate_subjects c = validate_subject_list [] (ca_subjects c)"

fun validate_relation_list :: "string list \<Rightarrow> relation_predicate list \<Rightarrow> unit outcome" where
  "validate_relation_list seen [] = Ok ()"
| "validate_relation_list seen (p # ps) =
     (if rp_predicate p = [] then refuse ''relation predicate with empty name''
      else if CHR ''.'' \<in> set (rp_predicate p) then
        refuse (''predicate name must not contain '' @ [CHR 0x27, CHR ''.'', CHR 0x27] @ '': '' @ rp_predicate p)
      else if rp_predicate p \<in> set seen then
        refuse (''duplicate relation predicate: '' @ rp_predicate p)
      else if rp_source_type p = Multiple [] then
        refuse (''predicate '' @ rp_predicate p @ '' has empty source_type list'')
      else if rp_target_type p = Multiple [] then
        refuse (''predicate '' @ rp_predicate p @ '' has empty target_type list'')
      else validate_relation_list (rp_predicate p # seen) ps)"

definition validate_relations :: "catalogue \<Rightarrow> unit outcome" where
  "validate_relations c = validate_relation_list [] (ca_relations c)"

fun constraint_names :: "type_constraint \<Rightarrow> string list" where
  "constraint_names (Single t) = [t]"
| "constraint_names (Multiple ts) = ts"

definition validate_type_reference ::
    "catalogue \<Rightarrow> relation_predicate \<Rightarrow> string \<Rightarrow> string \<Rightarrow> unit outcome" where
  "validate_type_reference c p label name =
     (if name = ''*'' then Ok ()
      else if find_subject_type c name = None then
        refuse (''predicate '' @ rp_predicate p @ '' '' @ label @
          '' references undeclared subject type: '' @ name)
      else Ok ())"

definition validate_relation_type_references :: "catalogue \<Rightarrow> unit outcome" where
  "validate_relation_type_references c =
     for_each (\<lambda>p. for_each (\<lambda>(label, con).
         for_each (validate_type_reference c p label) (constraint_names con))
       [(''source_type'', rp_source_type p), (''target_type'', rp_target_type p)]) (ca_relations c)"

definition validate_inverse :: "catalogue \<Rightarrow> relation_predicate \<Rightarrow> unit outcome" where
  "validate_inverse c p =
     (case rp_inverse p of
        None \<Rightarrow> Ok ()
      | Some inv_name \<Rightarrow>
     (case find_predicate c inv_name of
        None \<Rightarrow> refuse (''predicate '' @ rp_predicate p @ '' declares inverse '' @ inv_name @
                  '' but that predicate is not declared'')
      | Some rev_pred \<Rightarrow>
          if rp_source_type rev_pred \<noteq> rp_target_type p then
            refuse (''predicate '' @ rp_predicate p @ '' and its declared inverse '' @ inv_name @
              '' have mismatched types: '' @ inv_name @ [CHR 0x27] @ ''s source_type must equal '' @
              rp_predicate p @ [CHR 0x27] @ ''s target_type'')
          else if rp_target_type rev_pred \<noteq> rp_source_type p then
            refuse (''predicate '' @ rp_predicate p @ '' and its declared inverse '' @ inv_name @
              '' have mismatched types: '' @ inv_name @ [CHR 0x27] @ ''s target_type must equal '' @
              rp_predicate p @ [CHR 0x27] @ ''s source_type'')
          else (case rp_inverse rev_pred of
              Some back \<Rightarrow>
                if back = rp_predicate p then Ok ()
                else refuse (''predicate '' @ rp_predicate p @ '' declares inverse '' @ inv_name @
                  '', but '' @ inv_name @ [CHR 0x27] @ ''s own inverse is '' @ back @ '' (expected '' @
                  rp_predicate p @ '')'')
            | None \<Rightarrow> refuse (''predicate '' @ rp_predicate p @ '' declares inverse '' @ inv_name @
                  '', but '' @ inv_name @ '' does not declare its own inverse back to '' @
                  rp_predicate p))))"

definition validate_inverses :: "catalogue \<Rightarrow> unit outcome" where
  "validate_inverses c = for_each (validate_inverse c) (ca_relations c)"

fun validate_pair_list :: "string list \<Rightarrow> string list \<Rightarrow> reconciliation_pair list \<Rightarrow> unit outcome" where
  "validate_pair_list known seen [] = Ok ()"
| "validate_pair_list known seen (p # ps) =
     (if rc_id p = [] then refuse ''reconciliation pair with empty id''
      else if rc_id p \<in> set seen then refuse (''duplicate reconciliation pair id: '' @ rc_id p)
      else if rc_composer_shelf p \<notin> set known then
        refuse (''reconciliation pair '' @ rc_id p @ '': composer_shelf '' @ rc_composer_shelf p @
          '' is not declared in the catalogue'')
      else if rc_warden_shelf p \<notin> set known then
        refuse (''reconciliation pair '' @ rc_id p @ '': warden_shelf '' @ rc_warden_shelf p @
          '' is not declared in the catalogue'')
      else if rc_trigger_variants p = [] then
        refuse (''reconciliation pair '' @ rc_id p @ '': trigger_variants must not be empty'')
      else validate_pair_list known (rc_id p # seen) ps)"

definition validate_reconciliation_pairs :: "catalogue \<Rightarrow> unit outcome" where
  "validate_reconciliation_pairs c =
     validate_pair_list (collect_qualified_shelves c) [] (ca_reconciliation_pairs c)"

definition catalogue_validate :: "catalogue \<Rightarrow> unit outcome" where
  "catalogue_validate c =
     then_check (validate_schema_version c)
    (then_check (validate_racks c)
    (then_check (validate_subjects c)
    (then_check (validate_relations c)
    (then_check (validate_relation_type_references c)
    (then_check (validate_inverses c)
       (validate_reconciliation_pairs c))))))"

section \<open>Loading\<close>

datatype catalogue_source = Configured | Lkg | Builtin

record load_outcome =
  lo_catalogue :: catalogue
  lo_source :: catalogue_source
  lo_reason :: "string option"
  lo_mirror_error :: "string option"

definition from_toml :: "(string \<Rightarrow> string + catalogue) \<Rightarrow> string \<Rightarrow> catalogue outcome" where
  "from_toml parse input =
     (case parse input of
        Inl e \<Rightarrow> Err (Toml ''catalogue'' e)
      | Inr c \<Rightarrow>
     (case catalogue_validate c of
        Ok _ \<Rightarrow> Ok c
      | Err e \<Rightarrow> Err e
      | Panic m \<Rightarrow> Panic m))"

definition load_catalogue ::
    "(string \<Rightarrow> string + string) \<Rightarrow> (string \<Rightarrow> string + catalogue) \<Rightarrow> string \<Rightarrow> catalogue outcome" where
  "load_catalogue read parse path =
     (case read path of
        Inl e \<Rightarrow> Err (Io (''reading catalogue '' @ path) e)
      | Inr content \<Rightarrow>
     (case from_toml parse content of
        Err (Toml _ source) \<Rightarrow> Err (Toml path source)
      | other \<Rightarrow> other))"

fun display_error :: "steward_error \<Rightarrow> string" where
  "display_error (Catalogue m) = ''catalogue error: '' @ m"
| "display_error (Dispatch m) = ''dispatch error: '' @ m"
| "display_error (Io context source) = ''I/O error ('' @ context @ ''): '' @ source"
| "display_error (Toml context source) = ''TOML parse error ('' @ context @ ''): '' @ source"

definition load_with_fallback ::
    "(string \<Rightarrow> string + string) \<Rightarrow> (string \<Rightarrow> string + catalogue) \<Rightarrow> string option \<Rightarrow> string
       \<Rightarrow> string \<Rightarrow> string \<Rightarrow> load_outcome outcome" where
  "load_with_fallback read parse mirror builtin configured lkg =
     (case load_catalogue read parse configured of
        Panic m \<Rightarrow> Panic m
      | Ok c \<Rightarrow> Ok \<lparr>lo_catalogue = c, lo_source = Configured, lo_reason = None,
                   lo_mirror_error = mirror\<rparr>
      | Err configured_err \<Rightarrow>
     (case load_catalogue read parse lkg of
        Panic m \<Rightarrow> Panic m
      | Ok c \<Rightarrow> Ok \<lparr>lo_catalogue = c, lo_source = Lkg,
                   lo_reason = Some (''configured catalogue at '' @ configured @
                     '' failed to load: '' @ display_error configured_err),
                   lo_mirror_error = None\<rparr>
      | Err lkg_err \<Rightarrow>
     (case from_toml parse builtin of
        Ok c \<Rightarrow> Ok \<lparr>lo_catalogue = c, lo_source = Builtin,
                   lo_reason = Some (''configured catalogue at '' @ configured @
                     '' failed to load: '' @ display_error configured_err @ ''; LKG shadow at '' @
                     lkg @ '' failed: '' @ display_error lkg_err),
                   lo_mirror_error = None\<rparr>
      | _ \<Rightarrow> Panic ''built-in skeleton catalogue must parse (compile-time validated)'')))"

end
