(* ===== verification/Catalogue_Spec.thy ===== *)
theory Catalogue_Spec
  imports Catalogue_Rules
begin

text \<open>
  What validation promises: a catalogue passes exactly when it satisfies the declarative rules of
  \<open>catalogue_ok\<close>; in such a catalogue every lookup is unambiguous and inverses are symmetric; the
  three-tier load always ends with a validated catalogue.
\<close>

section \<open>The rules\<close>

definition plain_name :: "string \<Rightarrow> bool" where
  "plain_name n \<longleftrightarrow> n \<noteq> [] \<and> CHR ''.'' \<notin> set n"

definition shelf_ok :: "shelf \<Rightarrow> bool" where
  "shelf_ok s \<longleftrightarrow> plain_name (sh_name s) \<and> sh_shape s \<notin> set (sh_shape_supports s) \<and>
     distinct (sh_shape_supports s)"

definition rack_ok :: "rack \<Rightarrow> bool" where
  "rack_ok r \<longleftrightarrow> plain_name (rk_name r) \<and> rk_charter r \<noteq> [] \<and> distinct (map sh_name (rk_shelves r)) \<and>
     (\<forall>s \<in> set (rk_shelves r). shelf_ok s)"

definition declared_types :: "catalogue \<Rightarrow> string set" where
  "declared_types c = sd_name ` set (ca_subjects c)"

definition constraint_ok :: "catalogue \<Rightarrow> type_constraint \<Rightarrow> bool" where
  "constraint_ok c con \<longleftrightarrow> con \<noteq> Multiple [] \<and> set (constraint_names con) \<subseteq> insert ''*'' (declared_types c)"

definition inverse_ok :: "catalogue \<Rightarrow> relation_predicate \<Rightarrow> bool" where
  "inverse_ok c p \<longleftrightarrow> (\<forall>n. rp_inverse p = Some n \<longrightarrow>
     (\<exists>q \<in> set (ca_relations c). rp_predicate q = n \<and> rp_inverse q = Some (rp_predicate p) \<and>
        rp_source_type q = rp_target_type p \<and> rp_target_type q = rp_source_type p))"

definition shelf_paths :: "catalogue \<Rightarrow> string set" where
  "shelf_paths c = {shelf_path r s |r s. r \<in> set (ca_racks c) \<and> s \<in> set (rk_shelves r)}"

definition pair_ok :: "catalogue \<Rightarrow> reconciliation_pair \<Rightarrow> bool" where
  "pair_ok c p \<longleftrightarrow> rc_id p \<noteq> [] \<and> rc_composer_shelf p \<in> shelf_paths c \<and>
     rc_warden_shelf p \<in> shelf_paths c \<and> rc_trigger_variants p \<noteq> []"

definition catalogue_ok :: "catalogue \<Rightarrow> bool" where
  "catalogue_ok c \<longleftrightarrow> ca_schema_version c = 1 \<and>
     distinct (map rk_name (ca_racks c)) \<and> (\<forall>r \<in> set (ca_racks c). rack_ok r) \<and>
     distinct (map sd_name (ca_subjects c)) \<and>
     (\<forall>d \<in> set (ca_subjects c). plain_name (sd_name d) \<and> sd_name d \<noteq> ''*'') \<and>
     distinct (map rp_predicate (ca_relations c)) \<and>
     (\<forall>p \<in> set (ca_relations c). plain_name (rp_predicate p) \<and> constraint_ok c (rp_source_type p) \<and>
        constraint_ok c (rp_target_type p) \<and> inverse_ok c p) \<and>
     distinct (map rc_id (ca_reconciliation_pairs c)) \<and>
     (\<forall>p \<in> set (ca_reconciliation_pairs c). pair_ok c p)"

section \<open>Each check against its rule\<close>

lemma refuse_not_Ok [simp]: "refuse m \<noteq> Ok ()"
  by (simp add: refuse_def)

lemma find_None_iff_image: "List.find (\<lambda>x. f x = k) xs = None \<longleftrightarrow> k \<notin> f ` set xs"
  by (auto simp: find_None_iff)

lemma find_SomeD: "List.find P xs = Some x \<Longrightarrow> x \<in> set xs \<and> P x"
  by (metis find_Some_iff nth_mem)

lemma find_keyed:
  assumes "distinct (map f xs)"
  shows "List.find (\<lambda>x. f x = k) xs = Some x \<longleftrightarrow> x \<in> set xs \<and> f x = k"
  using assms by (induction xs) (auto simp: image_iff)

lemma supports_Ok:
  "validate_supports r s seen vs = Ok () \<longleftrightarrow> distinct vs \<and> set vs \<inter> set seen = {}"
  by (induction vs arbitrary: seen) auto

lemma shelves_Ok:
  "validate_shelves r seen ss = Ok () \<longleftrightarrow>
     distinct (map sh_name ss) \<and> sh_name ` set ss \<inter> set seen = {} \<and> (\<forall>s \<in> set ss. shelf_ok s)"
  by (induction ss arbitrary: seen) (auto simp: supports_Ok shelf_ok_def plain_name_def)

lemma racks_Ok:
  "validate_rack_list seen rs = Ok () \<longleftrightarrow>
     distinct (map rk_name rs) \<and> rk_name ` set rs \<inter> set seen = {} \<and> (\<forall>r \<in> set rs. rack_ok r)"
  by (induction rs arbitrary: seen) (auto simp: shelves_Ok rack_ok_def plain_name_def)

lemma subjects_Ok:
  "validate_subject_list seen ds = Ok () \<longleftrightarrow>
     distinct (map sd_name ds) \<and> sd_name ` set ds \<inter> set seen = {} \<and>
     (\<forall>d \<in> set ds. plain_name (sd_name d) \<and> sd_name d \<noteq> ''*'')"
  by (induction ds arbitrary: seen) (auto simp: plain_name_def)

lemma relations_Ok:
  "validate_relation_list seen ps = Ok () \<longleftrightarrow>
     distinct (map rp_predicate ps) \<and> rp_predicate ` set ps \<inter> set seen = {} \<and>
     (\<forall>p \<in> set ps. plain_name (rp_predicate p) \<and> rp_source_type p \<noteq> Multiple [] \<and>
        rp_target_type p \<noteq> Multiple [])"
  by (induction ps arbitrary: seen) (auto simp: plain_name_def)

lemma pairs_Ok:
  "validate_pair_list known seen ps = Ok () \<longleftrightarrow>
     distinct (map rc_id ps) \<and> rc_id ` set ps \<inter> set seen = {} \<and>
     (\<forall>p \<in> set ps. rc_id p \<noteq> [] \<and> rc_composer_shelf p \<in> set known \<and> rc_warden_shelf p \<in> set known \<and>
        rc_trigger_variants p \<noteq> [])"
  by (induction ps arbitrary: seen) auto

lemma type_reference_Ok:
  "validate_type_reference c p label n = Ok () \<longleftrightarrow> n \<in> insert ''*'' (declared_types c)"
  by (simp add: validate_type_reference_def find_subject_type_def find_None_iff_image
      declared_types_def)

lemma type_references_Ok:
  "validate_relation_type_references c = Ok () \<longleftrightarrow>
     (\<forall>p \<in> set (ca_relations c). set (constraint_names (rp_source_type p)) \<subseteq> insert ''*'' (declared_types c)
        \<and> set (constraint_names (rp_target_type p)) \<subseteq> insert ''*'' (declared_types c))"
  by (auto simp: validate_relation_type_references_def type_reference_Ok)

lemma inverse_Ok:
  assumes "distinct (map rp_predicate (ca_relations c))"
  shows "validate_inverse c p = Ok () \<longleftrightarrow> inverse_ok c p"
proof (cases "rp_inverse p")
  case None
  then show ?thesis by (simp add: validate_inverse_def inverse_ok_def)
next
  case (Some n)
  show ?thesis
  proof (cases "find_predicate c n")
    case None
    then have "\<forall>q \<in> set (ca_relations c). rp_predicate q \<noteq> n"
      by (auto simp: find_predicate_def find_None_iff)
    with Some None show ?thesis by (auto simp: validate_inverse_def inverse_ok_def)
  next
    case found: (Some q)
    then have q: "q \<in> set (ca_relations c)" "rp_predicate q = n"
      using find_SomeD [of "\<lambda>p. rp_predicate p = n" "ca_relations c" q]
      by (simp_all add: find_predicate_def)
    then have uniq: "\<And>q'. q' \<in> set (ca_relations c) \<Longrightarrow> rp_predicate q' = n \<Longrightarrow> q' = q"
      using assms by (auto simp: distinct_map dest: inj_onD)
    have "inverse_ok c p \<longleftrightarrow> rp_inverse q = Some (rp_predicate p) \<and>
        rp_source_type q = rp_target_type p \<and> rp_target_type q = rp_source_type p"
      unfolding inverse_ok_def Some using q uniq by blast
    with Some found show ?thesis by (simp add: validate_inverse_def split: option.split)
  qed
qed

lemma set_collect_shelves: "set (collect_qualified_shelves c) = shelf_paths c"
proof -
  have inner: "set (fold (\<lambda>s. hs_insert (shelf_path r s)) ss out) = shelf_path r ` set ss \<union> set out"
    for r ss out by (induction ss arbitrary: out) auto
  have "set (fold (\<lambda>r out. fold (\<lambda>s. hs_insert (shelf_path r s)) (rk_shelves r) out) rs out) =
      (\<Union>r \<in> set rs. shelf_path r ` set (rk_shelves r)) \<union> set out" for rs out
    by (induction rs arbitrary: out) (auto simp: inner)
  then show ?thesis by (auto simp: collect_qualified_shelves_def shelf_paths_def)
qed

lemma u32_between: "\<not> (x < (1 :: u32) \<or> 1 < x) \<longleftrightarrow> x = 1"
  using linorder_neq_iff [of x 1] by blast

lemma schema_Ok: "validate_schema_version c = Ok () \<longleftrightarrow> ca_schema_version c = 1"
  unfolding validate_schema_version_def CATALOGUE_SCHEMA_MIN_def CATALOGUE_SCHEMA_MAX_def
  using u32_between [of "ca_schema_version c"]
  by (metis refuse_not_Ok)

text \<open>Every failing check is a catalogue error.\<close>

definition catalogue_refusal :: "unit outcome \<Rightarrow> bool" where
  "catalogue_refusal r \<longleftrightarrow> r = Ok () \<or> (\<exists>m. r = Err (Catalogue m))"

lemma catalogue_refusal_simps [simp]:
  "catalogue_refusal (Ok ())" "catalogue_refusal (refuse m)"
  by (auto simp: catalogue_refusal_def refuse_def)

lemma catalogue_refusal_then [intro]:
  "catalogue_refusal a \<Longrightarrow> catalogue_refusal b \<Longrightarrow> catalogue_refusal (then_check a b)"
  by (auto simp: catalogue_refusal_def)

lemma catalogue_refusal_each [intro]:
  "(\<And>x. x \<in> set xs \<Longrightarrow> catalogue_refusal (f x)) \<Longrightarrow> catalogue_refusal (for_each f xs)"
  by (induction xs) auto

lemma loops_refusal:
  "catalogue_refusal (validate_supports r s seen4 vs)"
  "catalogue_refusal (validate_shelves r seen1 ss)"
  "catalogue_refusal (validate_rack_list seen2 rs)"
  "catalogue_refusal (validate_subject_list seen3 ds)"
  "catalogue_refusal (validate_relation_list seen5 ps)"
  "catalogue_refusal (validate_pair_list known seen6 qs)"
proof -
  show supports: "catalogue_refusal (validate_supports r s seen vs)" for r s seen vs
    by (induction vs arbitrary: seen) auto
  show shelves: "catalogue_refusal (validate_shelves r seen ss)" for r seen ss
    by (induction ss arbitrary: seen) (auto simp: supports)
  show "catalogue_refusal (validate_rack_list seen2 rs)"
    by (induction rs arbitrary: seen2) (auto simp: shelves)
  show "catalogue_refusal (validate_subject_list seen3 ds)"
    by (induction ds arbitrary: seen3) auto
  show "catalogue_refusal (validate_relation_list seen5 ps)"
    by (induction ps arbitrary: seen5) auto
  show "catalogue_refusal (validate_pair_list known seen6 qs)"
    by (induction qs arbitrary: seen6) auto
qed

lemma validate_refusal: "catalogue_refusal (catalogue_validate c)"
proof -
  have "catalogue_refusal (validate_schema_version c)" by (simp add: validate_schema_version_def)
  moreover have "catalogue_refusal (validate_type_reference c p label n)" for p label n
    by (simp add: validate_type_reference_def)
  then have "catalogue_refusal (validate_relation_type_references c)"
    unfolding validate_relation_type_references_def
    by (intro catalogue_refusal_each) (auto intro!: catalogue_refusal_then catalogue_refusal_each)
  moreover have "catalogue_refusal (validate_inverses c)"
    unfolding validate_inverses_def
    by (intro catalogue_refusal_each) (simp add: validate_inverse_def split: option.split)
  ultimately show ?thesis
    unfolding catalogue_validate_def validate_racks_def validate_subjects_def validate_relations_def
      validate_reconciliation_pairs_def
    by (intro catalogue_refusal_then loops_refusal)
qed

lemma validate_iff: "catalogue_validate c = Ok () \<longleftrightarrow> catalogue_ok c"
  by (auto simp: catalogue_validate_def schema_Ok validate_racks_def racks_Ok validate_subjects_def
      subjects_Ok validate_relations_def relations_Ok type_references_Ok validate_inverses_def
      inverse_Ok validate_reconciliation_pairs_def pairs_Ok set_collect_shelves catalogue_ok_def
      constraint_ok_def pair_ok_def)

section \<open>Lookups in a valid catalogue\<close>

lemma split_once_dot_append:
  "CHR ''.'' \<notin> set a \<Longrightarrow> split_once_dot (a @ ''.'' @ b) = Some (a, b)"
  by (induction a) auto

lemma split_once_dot_Some:
  "split_once_dot q = Some (a, b) \<Longrightarrow> q = a @ ''.'' @ b"
  by (induction q arbitrary: a) (auto split: if_splits)

lemma find_shelf_exact:
  assumes "catalogue_ok c"
  shows "find_shelf c q = Some s \<longleftrightarrow>
    (\<exists>r \<in> set (ca_racks c). s \<in> set (rk_shelves r) \<and> q = shelf_path r s)"
proof
  assume found: "find_shelf c q = Some s"
  then obtain a b r where q: "split_once_dot q = Some (a, b)"
    and r: "List.find (\<lambda>r. rk_name r = a) (ca_racks c) = Some r"
    and s: "List.find (\<lambda>s. sh_name s = b) (rk_shelves r) = Some s"
    by (auto simp: find_shelf_def split: option.splits)
  from find_SomeD [OF r] find_SomeD [OF s] split_once_dot_Some [OF q]
  show "\<exists>r \<in> set (ca_racks c). s \<in> set (rk_shelves r) \<and> q = shelf_path r s"
    by (auto simp: shelf_path_def)
next
  assume "\<exists>r \<in> set (ca_racks c). s \<in> set (rk_shelves r) \<and> q = shelf_path r s"
  then obtain r where r: "r \<in> set (ca_racks c)" and s: "s \<in> set (rk_shelves r)"
    and q: "q = shelf_path r s" by blast
  have racks: "distinct (map rk_name (ca_racks c))" and ok: "rack_ok r"
    using assms r by (auto simp: catalogue_ok_def)
  from ok have "split_once_dot q = Some (rk_name r, sh_name s)"
    by (simp add: q shelf_path_def rack_ok_def plain_name_def split_once_dot_append [simplified])
  moreover have "List.find (\<lambda>x. rk_name x = rk_name r) (ca_racks c) = Some r"
    using find_keyed [OF racks] r by simp
  moreover have "List.find (\<lambda>x. sh_name x = sh_name s) (rk_shelves r) = Some s"
    using find_keyed [of sh_name "rk_shelves r" "sh_name s" s] ok s by (simp add: rack_ok_def)
  ultimately show "find_shelf c q = Some s" by (simp add: find_shelf_def)
qed

lemma find_predicate_exact:
  "catalogue_ok c \<Longrightarrow> find_predicate c n = Some p \<longleftrightarrow> p \<in> set (ca_relations c) \<and> rp_predicate p = n"
  by (simp add: find_predicate_def catalogue_ok_def find_keyed)

section \<open>Properties\<close>

text \<open>(C16) Validation is exact: \<open>Catalogue::validate\<close> accepts a catalogue if and only if it obeys the
  rules (supported schema version; rack, shelf, subject-type and predicate names non-empty, without
  dots and unique in their scope; charters present; shape lists without repetition or the current
  shape; type constraints non-empty and over declared types or the wildcard; inverses symmetric with
  swapped types; reconciliation pairs over declared shelves), and every refusal is a catalogue
  error, never a panic.\<close>

theorem validate_exact:
  "(catalogue_validate c = Ok () \<longleftrightarrow> catalogue_ok c) \<and>
   (catalogue_validate c \<noteq> Ok () \<longleftrightarrow> (\<exists>m. catalogue_validate c = Err (Catalogue m)))"
  using validate_iff [of c] validate_refusal [of c] by (auto simp: catalogue_refusal_def)

text \<open>Lookups in a validated catalogue are exact: a qualified name finds a shelf exactly when it
  is the rack's name, a dot and the shelf's name, so the shelves of every reconciliation pair are
  found; a predicate name finds its one declaration; and the inverse of a predicate is declared,
  names it back, and accepts the two subject types the other way round.\<close>

theorem validated_lookups:
  assumes "catalogue_validate c = Ok ()"
  shows "(\<forall>q s. find_shelf c q = Some s \<longleftrightarrow>
            (\<exists>r \<in> set (ca_racks c). s \<in> set (rk_shelves r) \<and> q = shelf_path r s)) \<and>
    (\<forall>p \<in> set (ca_reconciliation_pairs c). find_shelf c (rc_composer_shelf p) \<noteq> None \<and>
        find_shelf c (rc_warden_shelf p) \<noteq> None) \<and>
    (\<forall>p n. find_predicate c n = Some p \<and> rp_inverse p \<noteq> None \<longrightarrow>
        (\<exists>q. find_predicate c (the (rp_inverse p)) = Some q \<and> rp_inverse q = Some n \<and>
          (\<forall>t. type_accepts (rp_source_type q) t = type_accepts (rp_target_type p) t \<and>
               type_accepts (rp_target_type q) t = type_accepts (rp_source_type p) t)))"
proof (intro conjI allI ballI)
  have ok: "catalogue_ok c" using assms by (simp add: validate_iff)
  show "find_shelf c q = Some s \<longleftrightarrow>
      (\<exists>r \<in> set (ca_racks c). s \<in> set (rk_shelves r) \<and> q = shelf_path r s)" for q s
    by (rule find_shelf_exact [OF ok])
  fix p
  have path: "q \<in> shelf_paths c \<Longrightarrow> find_shelf c q \<noteq> None" for q
    using find_shelf_exact [OF ok, of q] by (auto simp: shelf_paths_def)
  show "find_shelf c (rc_composer_shelf p) \<noteq> None" "find_shelf c (rc_warden_shelf p) \<noteq> None"
    if "p \<in> set (ca_reconciliation_pairs c)"
    using ok that path by (simp_all add: catalogue_ok_def pair_ok_def)
next
  fix p n
  have ok: "catalogue_ok c" using assms by (simp add: validate_iff)
  show "find_predicate c n = Some p \<and> rp_inverse p \<noteq> None \<longrightarrow>
        (\<exists>q. find_predicate c (the (rp_inverse p)) = Some q \<and> rp_inverse q = Some n \<and>
          (\<forall>t. type_accepts (rp_source_type q) t = type_accepts (rp_target_type p) t \<and>
               type_accepts (rp_target_type q) t = type_accepts (rp_source_type p) t))"
  proof
    assume p: "find_predicate c n = Some p \<and> rp_inverse p \<noteq> None"
    then have "p \<in> set (ca_relations c)" "rp_predicate p = n"
      using find_predicate_exact [OF ok] by auto
    with ok p obtain q where "q \<in> set (ca_relations c)" "rp_predicate q = the (rp_inverse p)"
        "rp_inverse q = Some n" "rp_source_type q = rp_target_type p"
        "rp_target_type q = rp_source_type p"
      by (fastforce simp: catalogue_ok_def inverse_ok_def)
    with find_predicate_exact [OF ok] show "\<exists>q. find_predicate c (the (rp_inverse p)) = Some q \<and>
        rp_inverse q = Some n \<and>
        (\<forall>t. type_accepts (rp_source_type q) t = type_accepts (rp_target_type p) t \<and>
             type_accepts (rp_target_type q) t = type_accepts (rp_source_type p) t)"
      by auto
  qed
qed

definition sample_catalogue :: catalogue where
  "sample_catalogue = default_catalogue\<lparr>
     ca_racks := [\<lparr>rk_name = ''audio'', rk_family = ''domain'', rk_kinds = [''producer''],
       rk_charter = ''sound'', rk_shelves = [\<lparr>sh_name = ''output'', sh_shape = 2,
         sh_shape_supports = [1], sh_description = [], sh_required = True\<rparr>]\<rparr>],
     ca_subjects := [\<lparr>sd_name = ''track'', sd_description = []\<rparr>,
                     \<lparr>sd_name = ''album'', sd_description = []\<rparr>],
     ca_relations := [\<lparr>rp_predicate = ''album_of'', rp_description = [],
         rp_source_type = Single ''track'', rp_target_type = Single ''album'',
         rp_source_cardinality = AtMostOne, rp_target_cardinality = Many,
         rp_inverse = Some ''tracks_of''\<rparr>,
       \<lparr>rp_predicate = ''tracks_of'', rp_description = [],
         rp_source_type = Single ''album'', rp_target_type = Single ''track'',
         rp_source_cardinality = Many, rp_target_cardinality = AtMostOne,
         rp_inverse = Some ''album_of''\<rparr>],
     ca_reconciliation_pairs := [\<lparr>rc_id = ''p'', rc_composer_shelf = ''audio.output'',
       rc_warden_shelf = ''audio.output'', rc_trigger_variants = [''x''], rc_debounce_ms = 100,
       rc_applied_state_schema = None\<rparr>]\<rparr>"

lemma sample_catalogue_valid: "catalogue_validate sample_catalogue = Ok ()"
  by code_simp

lemma validated_lookups_witness:
  "find_shelf sample_catalogue ''audio.output'' \<noteq> None \<and>
   (\<exists>q. find_predicate sample_catalogue ''tracks_of'' = Some q \<and> rp_inverse q = Some ''album_of'')"
proof -
  have "find_predicate sample_catalogue ''album_of'' = Some (hd (ca_relations sample_catalogue))"
    and "rp_inverse (hd (ca_relations sample_catalogue)) = Some ''tracks_of''"
    and "find_shelf sample_catalogue ''audio.output'' \<noteq> None" by code_simp+
  then show ?thesis using validated_lookups [OF sample_catalogue_valid] by fastforce
qed

text \<open>Loading always yields a validated catalogue: provided the built-in skeleton parses and
  validates, the three-tier load returns (it does not panic), the catalogue it returns passes
  validation, and it comes from the configured file, else the last-known-good copy, else the
  skeleton, with a reason whenever the configured file was not used.\<close>

theorem load_tiers:
  assumes "from_toml parse builtin = Ok skeleton"
  shows "\<exists>out. load_with_fallback read parse mirror builtin configured lkg = Ok out \<and>
    catalogue_validate (lo_catalogue out) = Ok () \<and>
    (lo_source out = Configured \<longleftrightarrow> (\<exists>c. load_catalogue read parse configured = Ok c)) \<and>
    (lo_source out = Builtin \<longleftrightarrow> \<not> (\<exists>c. load_catalogue read parse configured = Ok c) \<and>
       \<not> (\<exists>c. load_catalogue read parse lkg = Ok c)) \<and>
    (lo_source out = Builtin \<longrightarrow> lo_catalogue out = skeleton) \<and>
    (lo_reason out = None \<longleftrightarrow> lo_source out = Configured)"
proof -
  have valid: "from_toml parse t = Ok c \<Longrightarrow> catalogue_validate c = Ok ()" for t c
    by (auto simp: from_toml_def split: sum.splits outcome.splits)
  have no_panic: "from_toml parse t \<noteq> Panic m" for t m
    using validate_refusal by (auto simp: from_toml_def catalogue_refusal_def split: sum.splits outcome.splits)
       (metis outcome.distinct(3,5))
  have load_ok: "load_catalogue read parse f = Ok c \<Longrightarrow> catalogue_validate c = Ok ()" for f c
    using valid by (auto simp: load_catalogue_def split: sum.splits outcome.splits steward_error.splits)
  have load_no_panic: "load_catalogue read parse f \<noteq> Panic m" for f m
    using no_panic by (auto simp: load_catalogue_def split: sum.splits outcome.splits steward_error.splits)
  show ?thesis
    using assms load_ok load_no_panic valid
    by (auto simp: load_with_fallback_def split: outcome.split)
qed

lemma load_tiers_witness:
  "\<exists>out. load_with_fallback (\<lambda>_. Inl ''no such file'') (\<lambda>_. Inr sample_catalogue) None ''skeleton''
      ''/etc/evo/catalogue.toml'' ''/var/lib/evo/lkg.toml'' = Ok out \<and>
    lo_source out = Builtin \<and> lo_catalogue out = sample_catalogue"
proof -
  have "from_toml (\<lambda>_. Inr sample_catalogue) ''skeleton'' = Ok sample_catalogue"
    by (simp add: from_toml_def sample_catalogue_valid)
  from load_tiers [OF this, of "\<lambda>_. Inl ''no such file''" None "''/etc/evo/catalogue.toml''"
      "''/var/lib/evo/lkg.toml''"]
  show ?thesis by (auto simp: load_catalogue_def)
qed

definition star_list_catalogue :: catalogue where
  "star_list_catalogue = sample_catalogue\<lparr>ca_relations := [\<lparr>rp_predicate = ''near'',
     rp_description = [], rp_source_type = Multiple [''*''], rp_target_type = Multiple [''*''],
     rp_source_cardinality = Many, rp_target_cardinality = Many, rp_inverse = None\<rparr>]\<rparr>"

text \<open>A wildcard inside a list constraint is dead: validation lets the type list of a predicate
  contain the wildcard, but a list constraint accepts only the types it lists literally, and no
  subject type can be called \<open>*\<close>. The catalogue below is accepted, and no declared subject type
  satisfies its predicate.\<close>

theorem star_list_dead:
  "catalogue_validate star_list_catalogue = Ok () \<and>
   find_predicate star_list_catalogue ''near'' \<noteq> None \<and>
   list_all (\<lambda>d. \<not> type_accepts (rp_source_type (the (find_predicate star_list_catalogue ''near'')))
      (sd_name d)) (ca_subjects star_list_catalogue)"
  by code_simp

end
