(* ===== verification/Happenings.thy ===== *)
theory Happenings
  imports Custody Catalogue_Rules
begin

text \<open>
  The happening bus (\<open>crates/evo/src/happenings.rs\<close>): the events of the identity fabric, the
  counter that numbers them, the durable log they are written to and the two broadcast
  channels.

  \<open>happening\<close> has the variants the modelled code emits (custody, subject, relation, clock,
  appointment and watch events); the events of plugin reload, peers, groups and the user interface are
  not modelled. A broadcast channel is the list of everything sent on it; a receiver is a
  position in that list, so what it receives is the list from there on (a slow receiver that
  loses messages sees a gap, which the channel reports to it). Serialisation to JSON is the
  parameter \<open>ser\<close>, and the store is a record of functions, \<open>None\<close> for a bus without one.
\<close>

section \<open>Events\<close>

datatype cardinality_violation_side = SideSource | SideTarget

fun side_as_str :: "cardinality_violation_side \<Rightarrow> string" where
  "side_as_str SideSource = ''source''"
| "side_as_str SideTarget = ''target''"

datatype relation_forgotten_reason =
    ClaimsRetracted string | SubjectCascade string

datatype reassigned_claim_kind = KindAddressing | KindRelation

fun reassigned_as_str :: "reassigned_claim_kind \<Rightarrow> string" where
  "reassigned_as_str KindAddressing = ''addressing''"
| "reassigned_as_str KindRelation = ''relation''"

text \<open>The arguments are the fields of the variant in source order.\<close>

datatype 'v happening =
    H_CustodyTaken string string string string systime
  | H_CustodyReleased string string systime
  | H_CustodyStateReported string string health_status systime
  | H_CustodyAborted string string string string systime
  | H_CustodyDegraded string string string string systime
  | H_RelationCardinalityViolation string string string string cardinality_violation_side
      cardinality nat systime
  | H_SubjectForgotten string string string systime
  | H_SubjectStateChanged string string string "'v option" "'v option" systime
  | H_RelationForgotten string string string string relation_forgotten_reason systime
  | H_SubjectAddressingForcedRetract string string string string string "string option" systime
  | H_RelationClaimForcedRetract string string string string string "string option" systime
  | H_SubjectMerged string "string list" string "string option" systime
  | H_SubjectSplit string string "string list" split_relation_strategy "string option" systime
  | H_RelationSuppressed string string string string "string option" systime
  | H_RelationSuppressionReasonUpdated string string string string "string option"
      "string option" systime
  | H_RelationUnsuppressed string string string string systime
  | H_RelationSplitAmbiguous string string string string "string list" systime
  | H_RelationRewritten string string string string string systime
  | H_RelationCardinalityViolatedPostRewrite string string string cardinality_violation_side
      cardinality nat systime
  | H_ClaimReassigned string string reassigned_claim_kind string string "string option"
      "string option" "string option" "string option" systime
  | H_RelationClaimSuppressionCollapsed string string string string string
      suppression_record systime
  | H_SubjectConflictDetected string "external_addressing list" "string list" systime
  | H_ClockTrustChanged string string systime
  | H_ClockAdjusted int systime
  | H_AppointmentFired string string u64 string systime
  | H_AppointmentMissed string string u64 string systime
  | H_AppointmentCancelled string string string systime
  | H_WatchFired string string u64 string systime
  | H_WatchMissed string string u64 string systime
  | H_WatchCancelled string string string systime
  | H_WatchEvaluationThrottled string string u64 systime

fun happening_kind_str :: "'v happening \<Rightarrow> string" where
  "happening_kind_str (H_CustodyTaken _ _ _ _ _) = ''custody_taken''"
| "happening_kind_str (H_CustodyReleased _ _ _) = ''custody_released''"
| "happening_kind_str (H_CustodyStateReported _ _ _ _) = ''custody_state_reported''"
| "happening_kind_str (H_CustodyAborted _ _ _ _ _) = ''custody_aborted''"
| "happening_kind_str (H_CustodyDegraded _ _ _ _ _) = ''custody_degraded''"
| "happening_kind_str (H_RelationCardinalityViolation _ _ _ _ _ _ _ _) =
     ''relation_cardinality_violation''"
| "happening_kind_str (H_SubjectForgotten _ _ _ _) = ''subject_forgotten''"
| "happening_kind_str (H_SubjectStateChanged _ _ _ _ _ _) = ''subject_state_changed''"
| "happening_kind_str (H_RelationForgotten _ _ _ _ _ _) = ''relation_forgotten''"
| "happening_kind_str (H_SubjectAddressingForcedRetract _ _ _ _ _ _ _) =
     ''subject_addressing_forced_retract''"
| "happening_kind_str (H_RelationClaimForcedRetract _ _ _ _ _ _ _) =
     ''relation_claim_forced_retract''"
| "happening_kind_str (H_SubjectMerged _ _ _ _ _) = ''subject_merged''"
| "happening_kind_str (H_SubjectSplit _ _ _ _ _ _) = ''subject_split''"
| "happening_kind_str (H_RelationSuppressed _ _ _ _ _ _) = ''relation_suppressed''"
| "happening_kind_str (H_RelationSuppressionReasonUpdated _ _ _ _ _ _ _) =
     ''relation_suppression_reason_updated''"
| "happening_kind_str (H_RelationUnsuppressed _ _ _ _ _) = ''relation_unsuppressed''"
| "happening_kind_str (H_RelationSplitAmbiguous _ _ _ _ _ _) = ''relation_split_ambiguous''"
| "happening_kind_str (H_RelationRewritten _ _ _ _ _ _) = ''relation_rewritten''"
| "happening_kind_str (H_RelationCardinalityViolatedPostRewrite _ _ _ _ _ _ _) =
     ''relation_cardinality_violated_post_rewrite''"
| "happening_kind_str (H_ClaimReassigned _ _ _ _ _ _ _ _ _ _) = ''claim_reassigned''"
| "happening_kind_str (H_RelationClaimSuppressionCollapsed _ _ _ _ _ _ _) =
     ''relation_claim_suppression_collapsed''"
| "happening_kind_str (H_SubjectConflictDetected _ _ _ _) = ''subject_conflict_detected''"
| "happening_kind_str (H_ClockTrustChanged _ _ _) = ''clock_trust_changed''"
| "happening_kind_str (H_ClockAdjusted _ _) = ''clock_adjusted''"
| "happening_kind_str (H_AppointmentFired _ _ _ _ _) = ''appointment_fired''"
| "happening_kind_str (H_AppointmentMissed _ _ _ _ _) = ''appointment_missed''"
| "happening_kind_str (H_AppointmentCancelled _ _ _ _) = ''appointment_cancelled''"
| "happening_kind_str (H_WatchFired _ _ _ _ _) = ''watch_fired''"
| "happening_kind_str (H_WatchMissed _ _ _ _ _) = ''watch_missed''"
| "happening_kind_str (H_WatchCancelled _ _ _ _) = ''watch_cancelled''"
| "happening_kind_str (H_WatchEvaluationThrottled _ _ _ _) = ''watch_evaluation_throttled''"

fun primary_plugin :: "'v happening \<Rightarrow> string option" where
  "primary_plugin (H_CustodyTaken plugin _ _ _ _) = Some plugin"
| "primary_plugin (H_CustodyReleased plugin _ _) = Some plugin"
| "primary_plugin (H_CustodyStateReported plugin _ _ _) = Some plugin"
| "primary_plugin (H_CustodyAborted plugin _ _ _ _) = Some plugin"
| "primary_plugin (H_CustodyDegraded plugin _ _ _ _) = Some plugin"
| "primary_plugin (H_RelationCardinalityViolation plugin _ _ _ _ _ _ _) = Some plugin"
| "primary_plugin (H_SubjectForgotten plugin _ _ _) = Some plugin"
| "primary_plugin (H_SubjectStateChanged plugin _ _ _ _ _) = Some plugin"
| "primary_plugin (H_RelationForgotten plugin _ _ _ _ _) = Some plugin"
| "primary_plugin (H_SubjectConflictDetected plugin _ _ _) = Some plugin"
| "primary_plugin (H_SubjectAddressingForcedRetract _ target_plugin _ _ _ _ _) =
     Some target_plugin"
| "primary_plugin (H_RelationClaimForcedRetract _ target_plugin _ _ _ _ _) =
     Some target_plugin"
| "primary_plugin (H_SubjectMerged admin _ _ _ _) = Some admin"
| "primary_plugin (H_SubjectSplit admin _ _ _ _ _) = Some admin"
| "primary_plugin (H_RelationSuppressed admin _ _ _ _ _) = Some admin"
| "primary_plugin (H_RelationSuppressionReasonUpdated admin _ _ _ _ _ _) = Some admin"
| "primary_plugin (H_RelationUnsuppressed admin _ _ _ _) = Some admin"
| "primary_plugin (H_RelationSplitAmbiguous admin _ _ _ _ _) = Some admin"
| "primary_plugin (H_RelationRewritten admin _ _ _ _ _) = Some admin"
| "primary_plugin (H_RelationCardinalityViolatedPostRewrite admin _ _ _ _ _ _) = Some admin"
| "primary_plugin (H_ClaimReassigned admin _ _ _ _ _ _ _ _ _) = Some admin"
| "primary_plugin (H_RelationClaimSuppressionCollapsed admin _ _ _ _ _ _) = Some admin"
| "primary_plugin (H_ClockTrustChanged _ _ _) = None"
| "primary_plugin (H_ClockAdjusted _ _) = None"
| "primary_plugin (H_AppointmentFired _ _ _ _ _) = None"
| "primary_plugin (H_AppointmentMissed _ _ _ _ _) = None"
| "primary_plugin (H_AppointmentCancelled _ _ _ _) = None"
| "primary_plugin (H_WatchFired _ _ _ _ _) = None"
| "primary_plugin (H_WatchMissed _ _ _ _ _) = None"
| "primary_plugin (H_WatchCancelled _ _ _ _) = None"
| "primary_plugin (H_WatchEvaluationThrottled _ _ _ _) = None"

fun happening_shelf :: "'v happening \<Rightarrow> string option" where
  "happening_shelf (H_CustodyTaken _ _ shelf _ _) = Some shelf"
| "happening_shelf (H_CustodyAborted _ _ shelf _ _) = Some shelf"
| "happening_shelf (H_CustodyDegraded _ _ shelf _ _) = Some shelf"
| "happening_shelf _ = None"

fun affects_subject :: "'v happening \<Rightarrow> string \<Rightarrow> bool" where
  "affects_subject (H_SubjectForgotten _ i _ _) c = (i = c)"
| "affects_subject (H_SubjectStateChanged _ i _ _ _ _) c = (i = c)"
| "affects_subject (H_SubjectAddressingForcedRetract _ _ i _ _ _ _) c = (i = c)"
| "affects_subject (H_SubjectMerged _ sources new_id _ _) c = (new_id = c \<or> c \<in> set sources)"
| "affects_subject (H_SubjectSplit _ source new_ids _ _ _) c = (source = c \<or> c \<in> set new_ids)"
| "affects_subject (H_SubjectConflictDetected _ _ ids _) c = (c \<in> set ids)"
| "affects_subject (H_RelationForgotten _ s _ t _ _) c = (s = c \<or> t = c)"
| "affects_subject (H_RelationCardinalityViolation _ _ s t _ _ _ _) c = (s = c \<or> t = c)"
| "affects_subject (H_RelationClaimForcedRetract _ _ s _ t _ _) c = (s = c \<or> t = c)"
| "affects_subject (H_RelationSuppressed _ s _ t _ _) c = (s = c \<or> t = c)"
| "affects_subject (H_RelationUnsuppressed _ s _ t _) c = (s = c \<or> t = c)"
| "affects_subject (H_RelationSuppressionReasonUpdated _ s _ t _ _ _) c = (s = c \<or> t = c)"
| "affects_subject (H_RelationSplitAmbiguous _ s _ other candidates _) c =
     (s = c \<or> other = c \<or> c \<in> set candidates)"
| "affects_subject (H_RelationCardinalityViolatedPostRewrite _ i _ _ _ _ _) c = (i = c)"
| "affects_subject (H_RelationClaimSuppressionCollapsed _ s _ t _ _ _) c = (s = c \<or> t = c)"
| "affects_subject (H_RelationRewritten _ _ old_id new_id t _) c =
     (old_id = c \<or> new_id = c \<or> t = c)"
| "affects_subject (H_ClaimReassigned _ _ _ old_id new_id _ _ _ t _) c =
     (old_id = c \<or> new_id = c \<or> t = Some c)"
| "affects_subject (H_CustodyTaken _ _ _ _ _) c = False"
| "affects_subject (H_CustodyReleased _ _ _) c = False"
| "affects_subject (H_CustodyStateReported _ _ _ _) c = False"
| "affects_subject (H_CustodyAborted _ _ _ _ _) c = False"
| "affects_subject (H_CustodyDegraded _ _ _ _ _) c = False"
| "affects_subject (H_ClockTrustChanged _ _ _) c = False"
| "affects_subject (H_ClockAdjusted _ _) c = False"
| "affects_subject (H_AppointmentFired _ _ _ _ _) c = False"
| "affects_subject (H_AppointmentMissed _ _ _ _ _) c = False"
| "affects_subject (H_AppointmentCancelled _ _ _ _) c = False"
| "affects_subject (H_WatchFired _ _ _ _ _) c = False"
| "affects_subject (H_WatchMissed _ _ _ _ _) c = False"
| "affects_subject (H_WatchCancelled _ _ _ _) c = False"
| "affects_subject (H_WatchEvaluationThrottled _ _ _ _) c = False"

section \<open>Subscription filter\<close>

record happening_filter =
  hf_variants :: "string list"
  hf_plugins :: "string list"
  hf_shelves :: "string list"
  hf_subject_types :: "string list"
  hf_subject_types_deny :: "string list"

definition is_noop :: "happening_filter \<Rightarrow> bool" where
  "is_noop f \<longleftrightarrow> hf_variants f = [] \<and> hf_plugins f = [] \<and> hf_shelves f = [] \<and>
     hf_subject_types f = [] \<and> hf_subject_types_deny f = []"

definition optional_in :: "string option \<Rightarrow> string list \<Rightarrow> bool" where
  "optional_in x allowed \<longleftrightarrow> (case x of Some p \<Rightarrow> p \<in> set allowed | None \<Rightarrow> False)"

definition filter_accepts :: "happening_filter \<Rightarrow> 'v happening \<Rightarrow> bool" where
  "filter_accepts f h \<longleftrightarrow>
     (if hf_variants f \<noteq> [] \<and> happening_kind_str h \<notin> set (hf_variants f) then False
      else if hf_plugins f \<noteq> [] \<and> \<not> optional_in (primary_plugin h) (hf_plugins f) then False
      else if hf_shelves f \<noteq> [] \<and> \<not> optional_in (happening_shelf h) (hf_shelves f) then False
      else (case h of
              H_SubjectStateChanged _ _ subject_type _ _ _ \<Rightarrow>
                if hf_subject_types f \<noteq> [] \<and> subject_type \<notin> set (hf_subject_types f) then False
                else subject_type \<notin> set (hf_subject_types_deny f)
            | _ \<Rightarrow> True))"

section \<open>The bus\<close>

record 'v happening_envelope =
  he_seq :: u64
  he_happening :: "'v happening"

record 'v happening_bus =
  hb_tx :: "'v happening list"
  hb_tx_env :: "'v happening_envelope list"
  hb_next_seq :: u64
  hb_retention_window_secs :: u64

text \<open>The methods of the persistence trait the bus calls.\<close>

record ('s, 'j) happening_store =
  hp_record_happening :: "u64 \<Rightarrow> string \<Rightarrow> 'j \<Rightarrow> u64 \<Rightarrow> 's \<Rightarrow> 's \<times> (persistence_error + unit)"
  hp_record_happenings_batch ::
    "'j persisted_happening list \<Rightarrow> 's \<Rightarrow> 's \<times> (persistence_error + unit)"
  hp_load_max_happening_seq :: "'s \<Rightarrow> persistence_error + u64"

definition DEFAULT_RETENTION_WINDOW_SECS :: u64 where
  "DEFAULT_RETENTION_WINDOW_SECS = 30 * 60"

definition with_window :: "u64 \<Rightarrow> 'v happening_bus" where
  "with_window w = \<lparr>hb_tx = [], hb_tx_env = [], hb_next_seq = 1, hb_retention_window_secs = w\<rparr>"

definition new_bus :: "'v happening_bus" where
  "new_bus = with_window DEFAULT_RETENTION_WINDOW_SECS"

text \<open>\<open>saturating_add(1)\<close> and \<open>saturating_sub(1)\<close> on \<open>u64\<close>.\<close>

definition sat_succ :: "u64 \<Rightarrow> u64" where
  "sat_succ x = (if x = - 1 then x else x + 1)"

definition sat_pred :: "u64 \<Rightarrow> u64" where
  "sat_pred x = (if x = 0 then 0 else x - 1)"

definition with_persistence ::
    "('s, 'j) happening_store \<Rightarrow> u64 \<Rightarrow> 's \<Rightarrow> persistence_error + 'v happening_bus" where
  "with_persistence st w s =
     (case hp_load_max_happening_seq st s of
        Inl e \<Rightarrow> Inl e
      | Inr m \<Rightarrow> Inr ((with_window w)\<lparr>hb_next_seq := sat_succ m\<rparr>))"

text \<open>\<open>fetch_add\<close> wraps around; \<open>send\<close> on both channels.\<close>

definition mint_seqs :: "nat \<Rightarrow> 'v happening_bus \<Rightarrow> 'v happening_bus" where
  "mint_seqs n b = b\<lparr>hb_next_seq := hb_next_seq b + of_nat n\<rparr>"

definition broadcast :: "u64 \<Rightarrow> 'v happening \<Rightarrow> 'v happening_bus \<Rightarrow> 'v happening_bus" where
  "broadcast seq h b =
     b\<lparr>hb_tx_env := hb_tx_env b @ [\<lparr>he_seq = seq, he_happening = h\<rparr>], hb_tx := hb_tx b @ [h]\<rparr>"

definition emit :: "'v happening \<Rightarrow> 'v happening_bus \<Rightarrow> 'v happening_bus \<times> u64" where
  "emit h b = (let seq = hb_next_seq b in (broadcast seq h (mint_seqs 1 b), seq))"

definition emit_durable ::
    "('s, 'j) happening_store option \<Rightarrow> ('v happening \<Rightarrow> string + 'j) \<Rightarrow> systime
       \<Rightarrow> 'v happening \<Rightarrow> 'v happening_bus \<Rightarrow> 's
       \<Rightarrow> 'v happening_bus \<times> 's \<times> (persistence_error + u64)" where
  "emit_durable persistence ser now h b s =
     (case persistence of
        None \<Rightarrow> (fst (emit h b), s, Inr (snd (emit h b)))
      | Some st \<Rightarrow>
          let seq = hb_next_seq b;
              b1 = mint_seqs 1 b
          in case ser h of
               Inl e \<Rightarrow> (b1, s, Inl (Invalid (''serialising Happening for happenings_log: '' @ e)))
             | Inr payload \<Rightarrow>
                 (case hp_record_happening st seq (happening_kind_str h) payload
                         (system_time_to_ms now) s of
                    (s', Inl e) \<Rightarrow> (b1, s', Inl e)
                  | (s', Inr _) \<Rightarrow> (broadcast seq h b1, s', Inr seq)))"

fun batch_rows ::
    "('v happening \<Rightarrow> string + 'j) \<Rightarrow> u64 \<Rightarrow> u64 \<Rightarrow> 'v happening list
       \<Rightarrow> persistence_error + 'j persisted_happening list" where
  "batch_rows ser at_ms seq [] = Inr []"
| "batch_rows ser at_ms seq (h # hs) =
     (case ser h of
        Inl e \<Rightarrow> Inl (Invalid (''serialising Happening for happenings_log batch: '' @ e))
      | Inr payload \<Rightarrow>
          (case batch_rows ser at_ms (seq + 1) hs of
             Inl e \<Rightarrow> Inl e
           | Inr rows \<Rightarrow> Inr (\<lparr>ph_seq = seq, ph_kind = happening_kind_str h, ph_payload = payload,
                               ph_at_ms = at_ms\<rparr> # rows)))"

fun broadcast_all ::
    "u64 \<Rightarrow> 'v happening list \<Rightarrow> 'v happening_bus \<Rightarrow> 'v happening_bus \<times> u64 list" where
  "broadcast_all seq [] b = (b, [])"
| "broadcast_all seq (h # hs) b =
     (let (b', seqs) = broadcast_all (seq + 1) hs (broadcast seq h b) in (b', seq # seqs))"

fun emit_each ::
    "'v happening list \<Rightarrow> 'v happening_bus \<Rightarrow> 'v happening_bus \<times> u64 list" where
  "emit_each [] b = (b, [])"
| "emit_each (h # hs) b =
     (let (b1, seq) = emit h b; (b2, seqs) = emit_each hs b1 in (b2, seq # seqs))"

definition emit_durable_batch ::
    "('s, 'j) happening_store option \<Rightarrow> ('v happening \<Rightarrow> string + 'j) \<Rightarrow> systime
       \<Rightarrow> 'v happening list \<Rightarrow> 'v happening_bus \<Rightarrow> 's
       \<Rightarrow> 'v happening_bus \<times> 's \<times> (persistence_error + u64 list)" where
  "emit_durable_batch persistence ser now hs b s =
     (if hs = [] then (b, s, Inr [])
      else case persistence of
        None \<Rightarrow> (case emit_each hs b of (b', seqs) \<Rightarrow> (b', s, Inr seqs))
      | Some st \<Rightarrow>
          let start_seq = hb_next_seq b;
              b1 = mint_seqs (length hs) b
          in case batch_rows ser (system_time_to_ms now) start_seq hs of
               Inl e \<Rightarrow> (b1, s, Inl e)
             | Inr rows \<Rightarrow>
                 (case hp_record_happenings_batch st rows s of
                    (s', Inl e) \<Rightarrow> (b1, s', Inl e)
                  | (s', Inr _) \<Rightarrow>
                      (case broadcast_all start_seq hs b1 of (b', seqs) \<Rightarrow> (b', s', Inr seqs))))"

text \<open>The receiver is the position from which it reads the envelope channel.\<close>

definition subscribe_with_current_seq :: "'v happening_bus \<Rightarrow> nat \<times> u64" where
  "subscribe_with_current_seq b = (length (hb_tx_env b), sat_pred (hb_next_seq b))"

definition last_emitted_seq :: "'v happening_bus \<Rightarrow> u64" where
  "last_emitted_seq b = sat_pred (hb_next_seq b)"

text \<open>The in-memory store behind the trait.\<close>

definition memory_happening_store :: "('j memory_state, 'j) happening_store" where
  "memory_happening_store =
     \<lparr>hp_record_happening = (\<lambda>seq kind payload at_ms m.
        (record_happening seq kind payload at_ms m, Inr ())),
      hp_record_happenings_batch = (\<lambda>rows m. (record_happenings_batch rows m, Inr ())),
      hp_load_max_happening_seq = (\<lambda>m. Inr (load_max_happening_seq m))\<rparr>"

end
