(* ===== verification/Happening_Spec.thy ===== *)
theory Happening_Spec
  imports Happenings
begin

text \<open>
  What the happening bus promises its subscribers, for any interleaving of durable emits,
  transient emits and cursor-aware subscriptions: a step relation whose steps are the pieces of
  the emit paths between which other tasks run, its invariant by rule induction, and the
  sequential \<open>emit_durable_batch\<close> shown to be one of its runs.
\<close>

section \<open>The bus under concurrent emitters\<close>

text \<open>
  The stages between which other tasks run. A durable emit holds the lock from the minting of
  its numbers to its last broadcast; a transient emit takes no lock, so another task may run
  between its \<open>fetch_add\<close> and its \<open>send\<close>; a cursor-aware subscription takes the lock.
\<close>

datatype 'v lock_stage = Minted u64 "'v happening list" | Persisted u64 "'v happening list"

text \<open>The numbers whose row is written and whose broadcast is still to come.\<close>

fun unsent :: "'v lock_stage option \<Rightarrow> nat set" where
  "unsent None = {}"
| "unsent (Some (Minted s hs)) = {}"
| "unsent (Some (Persisted s hs)) = {unat s ..< unat s + length hs}"

text \<open>Ghost fields: \<open>br_count\<close> is the counter without wrap-around, \<open>br_plain\<close> the numbers sent
  by transient emits, a ticket is a subscriber's current number, receiver position and the
  length of the log when it subscribed, and \<open>br_lost\<close> are the numbers of emitters that were
  cancelled after their rows were written and before they had broadcast them.\<close>

record ('v, 'j) bus_run =
  br_bus :: "'v happening_bus"
  br_store :: "'j memory_state"
  br_lock :: "'v lock_stage option"
  br_transient :: "(u64 \<times> 'v happening) list"
  br_plain :: "u64 list"
  br_tickets :: "(u64 \<times> nat \<times> nat) list"
  br_count :: nat
  br_lost :: "nat set"

abbreviation br_log :: "('v, 'j) bus_run \<Rightarrow> 'j persisted_happening list" where
  "br_log r \<equiv> ms_happenings (br_store r)"

abbreviation br_env :: "('v, 'j) bus_run \<Rightarrow> 'v happening_envelope list" where
  "br_env r \<equiv> hb_tx_env (br_bus r)"

definition sent_durably :: "u64 list \<Rightarrow> 'v happening_envelope \<Rightarrow> bool" where
  "sent_durably plain e \<longleftrightarrow> he_seq e \<notin> set plain"

text \<open>A steward boots on a store whose log is in order and below the last number.\<close>

definition bus_boot :: "('v, 'j) bus_run \<Rightarrow> bool" where
  "bus_boot r \<longleftrightarrow>
     (\<exists>w. with_persistence memory_happening_store w (br_store r) = Inr (br_bus r)) \<and>
     sorted_wrt (<) (map ph_seq (br_log r)) \<and> load_max_happening_seq (br_store r) < - 1 \<and>
     br_lock r = None \<and> br_transient r = [] \<and> br_plain r = [] \<and> br_tickets r = [] \<and>
     br_count r = unat (hb_next_seq (br_bus r)) \<and> br_lost r = {}"

text \<open>The lock is dropped when a batch is refused by the serialiser or the store, when its last
  happening has been sent, and when the emitting task is cancelled; in the last case the rows
  already written and not yet sent are lost to the live channel.\<close>

inductive bus_step ::
    "('v happening \<Rightarrow> string + 'j) \<Rightarrow> ('v, 'j) bus_run \<Rightarrow> ('v, 'j) bus_run \<Rightarrow> bool"
  for ser where
  transient_mint: "bus_step ser r (r\<lparr>br_bus := mint_seqs 1 (br_bus r),
     br_transient := (hb_next_seq (br_bus r), h) # br_transient r, br_count := br_count r + 1\<rparr>)"
| transient_send: "(seq, h) \<in> set (br_transient r) \<Longrightarrow>
   bus_step ser r (r\<lparr>br_bus := broadcast seq h (br_bus r),
     br_transient := removeAll (seq, h) (br_transient r), br_plain := seq # br_plain r\<rparr>)"
| durable_mint: "br_lock r = None \<Longrightarrow>
   bus_step ser r (r\<lparr>br_bus := mint_seqs (length hs) (br_bus r),
     br_lock := Some (Minted (hb_next_seq (br_bus r)) hs), br_count := br_count r + length hs\<rparr>)"
| durable_persist: "br_lock r = Some (Minted start hs) \<Longrightarrow>
   batch_rows ser (system_time_to_ms now) start hs = Inr rows \<Longrightarrow>
   bus_step ser r (r\<lparr>br_store := record_happenings_batch rows (br_store r),
     br_lock := Some (Persisted start hs)\<rparr>)"
| durable_abandon: "br_lock r = Some stage \<Longrightarrow> bus_step ser r (r\<lparr>br_lock := None,
     br_lost := br_lost r \<union> unsent (Some stage)\<rparr>)"
| durable_send: "br_lock r = Some (Persisted seq (h # hs)) \<Longrightarrow>
   bus_step ser r (r\<lparr>br_bus := broadcast seq h (br_bus r),
     br_lock := Some (Persisted (seq + 1) hs)\<rparr>)"
| subscribe: "br_lock r = None \<Longrightarrow> subscribe_with_current_seq (br_bus r) = (pos, n) \<Longrightarrow>
   bus_step ser r (r\<lparr>br_tickets := (n, pos, length (br_log r)) # br_tickets r\<rparr>)"

section \<open>Numbers as naturals\<close>

lemma unat_add_small:
  "unat (x :: u64) + n < 2 ^ 64 \<Longrightarrow> unat (x + of_nat n) = unat x + n"
  by (simp add: unat_word_ariths unat_of_nat)

lemma unat_succ_small: "unat (x :: u64) + 1 < 2 ^ 64 \<Longrightarrow> unat (x + 1) = unat x + 1"
  using unat_add_small [of x 1] by simp

lemma batch_rows_shape:
  assumes "batch_rows ser at_ms start hs = Inr rows" "unat start + length hs < 2 ^ 64"
  shows "map (unat \<circ> ph_seq) rows = [unat start ..< unat start + length hs] \<and>
    list_all2 (\<lambda>h row. ph_kind row = happening_kind_str h \<and> ser h = Inr (ph_payload row)) hs rows"
  using assms
proof (induction hs arbitrary: start rows)
  case Nil
  then show ?case by simp
next
  case (Cons h hs)
  from Cons.prems obtain payload rest where p: "ser h = Inr payload"
    "batch_rows ser at_ms (start + 1) hs = Inr rest"
    "rows = \<lparr>ph_seq = start, ph_kind = happening_kind_str h, ph_payload = payload,
       ph_at_ms = at_ms\<rparr> # rest"
    by (auto split: sum.splits)
  have u: "unat (start + 1) = unat start + 1"
    using Cons.prems(2) by (intro unat_succ_small) simp
  with Cons.IH [OF p(2)] Cons.prems(2) p show ?case
    by (simp add: upt_rec [of "unat start"] Suc_le_eq)
qed

section \<open>The invariant\<close>

definition logged :: "('v happening \<Rightarrow> string + 'j) \<Rightarrow> 'j persisted_happening list \<Rightarrow> nat
    \<Rightarrow> 'v happening \<Rightarrow> bool" where
  "logged ser rows seq h \<longleftrightarrow> (\<exists>row \<in> set rows. unat (ph_seq row) = seq \<and>
     ph_kind row = happening_kind_str h \<and> ser h = Inr (ph_payload row))"

fun stage_range :: "'v lock_stage option \<Rightarrow> nat set" where
  "stage_range None = {}"
| "stage_range (Some (Minted s hs)) = {unat s ..< unat s + length hs}"
| "stage_range (Some (Persisted s hs)) = {unat s ..< unat s + length hs}"

abbreviation row_no :: "'j persisted_happening \<Rightarrow> nat" where
  "row_no row \<equiv> unat (ph_seq row)"

abbreviation env_no :: "'v happening_envelope \<Rightarrow> nat" where
  "env_no e \<equiv> unat (he_seq e)"

fun stage_ok :: "('v happening \<Rightarrow> string + 'j) \<Rightarrow> nat \<Rightarrow> 'j persisted_happening list
    \<Rightarrow> 'v happening_envelope list \<Rightarrow> 'v lock_stage option \<Rightarrow> bool" where
  "stage_ok ser c rows ds None = True"
| "stage_ok ser c rows ds (Some (Minted s hs)) =
     (unat s + length hs \<le> c \<and> (\<forall>row \<in> set rows. row_no row < unat s) \<and>
      (\<forall>e \<in> set ds. env_no e < unat s))"
| "stage_ok ser c rows ds (Some (Persisted s hs)) =
     (unat s + length hs \<le> c \<and> (\<forall>i < length hs. logged ser rows (unat s + i) (hs ! i)) \<and>
      (\<forall>e \<in> set ds. env_no e < unat s))"

text \<open>\<open>ds\<close> are the durable envelopes sent so far, \<open>fl\<close> the numbers taken by transient emits.\<close>

definition order_ok :: "('v happening \<Rightarrow> string + 'j) \<Rightarrow> nat \<Rightarrow> 'j persisted_happening list
    \<Rightarrow> 'v happening_envelope list \<Rightarrow> nat set \<Rightarrow> 'v lock_stage option \<Rightarrow> bool" where
  "order_ok ser c rows ds fl lk \<longleftrightarrow>
     0 < c \<and> sorted_wrt (<) (map row_no rows) \<and> (\<forall>row \<in> set rows. row_no row < c) \<and>
     sorted_wrt (<) (map env_no ds) \<and>
     (\<forall>e \<in> set ds. logged ser rows (env_no e) (he_happening e)) \<and>
     (\<forall>x \<in> fl. x < c \<and> x \<notin> row_no ` set rows \<and> x \<notin> stage_range lk) \<and>
     stage_ok ser c rows ds lk"

fun ticket_ok :: "nat \<Rightarrow> 'j persisted_happening list \<Rightarrow> 'v happening_envelope list \<Rightarrow> u64 list
    \<Rightarrow> 'v lock_stage option \<Rightarrow> u64 \<times> nat \<times> nat \<Rightarrow> bool" where
  "ticket_ok c rows env plain lk (n, pos, k) \<longleftrightarrow>
     unat n < c \<and> pos \<le> length env \<and> k \<le> length rows \<and>
     (\<forall>row \<in> set (take k rows). row_no row \<le> unat n) \<and>
     (\<forall>row \<in> set (drop k rows). unat n < row_no row) \<and>
     (\<forall>e \<in> set (filter (sent_durably plain) (take pos env)). env_no e \<le> unat n) \<and>
     (\<forall>e \<in> set (filter (sent_durably plain) (drop pos env)). unat n < env_no e) \<and>
     (\<forall>x \<in> stage_range lk. unat n < x)"

text \<open>A row written after the subscription has been delivered on the live channel, is about to
  be, or belongs to a cancelled emitter.\<close>

fun ticket_live :: "'j persisted_happening list \<Rightarrow> 'v happening_envelope list \<Rightarrow> u64 list
    \<Rightarrow> 'v lock_stage option \<Rightarrow> nat set \<Rightarrow> u64 \<times> nat \<times> nat \<Rightarrow> bool" where
  "ticket_live rows env plain lk lost (n, pos, k) \<longleftrightarrow>
     row_no ` set (drop k rows) \<subseteq>
       env_no ` set (filter (sent_durably plain) (drop pos env)) \<union> unsent lk \<union> lost"

definition br_flight :: "('v, 'j) bus_run \<Rightarrow> nat set" where
  "br_flight r = unat ` (fst ` set (br_transient r) \<union> set (br_plain r))"

definition bus_inv :: "('v happening \<Rightarrow> string + 'j) \<Rightarrow> ('v, 'j) bus_run \<Rightarrow> bool" where
  "bus_inv ser r \<longleftrightarrow> hb_next_seq (br_bus r) = of_nat (br_count r) \<and>
     (br_count r < 2 ^ 64 \<longrightarrow>
        order_ok ser (br_count r) (br_log r) (filter (sent_durably (br_plain r)) (br_env r))
          (br_flight r) (br_lock r) \<and>
        (\<forall>t \<in> set (br_tickets r).
           ticket_ok (br_count r) (br_log r) (br_env r) (br_plain r) (br_lock r) t \<and>
           ticket_live (br_log r) (br_env r) (br_plain r) (br_lock r) (br_lost r) t))"

lemma loggedI_batch:
  assumes "batch_rows ser at_ms start hs = Inr rows" "unat start + length hs < 2 ^ 64"
    "i < length hs"
  shows "logged ser (old @ rows) (unat start + i) (hs ! i)"
proof -
  from batch_rows_shape [OF assms(1,2)]
  have m: "map (unat \<circ> ph_seq) rows = [unat start ..< unat start + length hs]"
    and l: "list_all2 (\<lambda>h row. ph_kind row = happening_kind_str h \<and> ser h = Inr (ph_payload row)) hs rows"
    by auto
  have len: "length rows = length hs" using l by (simp add: list_all2_lengthD)
  have "row_no (rows ! i) = unat start + i"
    using arg_cong [OF m, of "\<lambda>xs. xs ! i"] assms(3) len by simp
  moreover have "rows ! i \<in> set (old @ rows)" using assms(3) len by simp
  ultimately show ?thesis
    using list_all2_nthD [OF l assms(3)] unfolding logged_def by metis
qed

lemma logged_append: "logged ser rows n h \<Longrightarrow> logged ser (rows @ news) n h"
  by (auto simp: logged_def)

lemma logged_in: "logged ser rows n h \<Longrightarrow> n \<in> row_no ` set rows"
  by (auto simp: logged_def)

lemma stage_range_below: "stage_ok ser c rows ds lk \<Longrightarrow> x \<in> stage_range lk \<Longrightarrow> x < c"
  by (cases lk rule: stage_range.cases) auto

lemma stage_ok_mono: "stage_ok ser c rows ds lk \<Longrightarrow> c \<le> c' \<Longrightarrow> stage_ok ser c' rows ds lk"
  by (cases lk rule: stage_range.cases) auto

section \<open>Each step\<close>

lemma order_transient_mint:
  "order_ok ser c rows ds fl lk \<Longrightarrow> order_ok ser (Suc c) rows ds (insert c fl) lk"
  unfolding order_ok_def
  by (auto intro: stage_ok_mono less_SucI dest: stage_range_below)

lemma ticket_mono:
  "ticket_ok c rows env plain lk t \<Longrightarrow> c \<le> c' \<Longrightarrow> ticket_ok c' rows env plain lk t"
  by (cases t) auto

lemma order_flight_subset:
  "order_ok ser c rows ds fl lk \<Longrightarrow> fl' \<subseteq> fl \<Longrightarrow> order_ok ser c rows ds fl' lk"
  unfolding order_ok_def by blast

text \<open>Declaring a transient number sent does not touch a durable envelope.\<close>

lemma plain_filter:
  assumes "order_ok ser c rows (filter (sent_durably plain) env) fl lk" "unat seq \<in> fl"
    "set xs \<subseteq> set env"
  shows "filter (sent_durably (seq # plain)) xs = filter (sent_durably plain) xs"
proof (rule filter_cong [OF refl])
  fix e assume "e \<in> set xs"
  with assms(3) have e: "e \<in> set env" by auto
  show "sent_durably (seq # plain) e = sent_durably plain e"
    using assms(1,2) e logged_in unfolding order_ok_def sent_durably_def by fastforce
qed

lemma order_transient_send:
  assumes "order_ok ser c rows (filter (sent_durably plain) env) fl lk" "unat seq \<in> fl"
    "he_seq e = seq"
  shows "order_ok ser c rows (filter (sent_durably (seq # plain)) (env @ [e])) fl lk"
  using assms plain_filter [OF assms(1,2) order_refl]
  by (simp add: sent_durably_def)

lemma ticket_transient_send:
  assumes "order_ok ser c rows (filter (sent_durably plain) env) fl lk" "unat seq \<in> fl"
    "he_seq e = seq" "ticket_ok c rows env plain lk t"
  shows "ticket_ok c rows (env @ [e]) (seq # plain) lk t"
proof -
  obtain n pos k where t: "t = (n, pos, k)" by (cases t)
  have "filter (sent_durably (seq # plain)) (take pos env) = filter (sent_durably plain) (take pos env)"
    "filter (sent_durably (seq # plain)) (drop pos env) = filter (sent_durably plain) (drop pos env)"
    by (rule plain_filter [OF assms(1,2)]; auto dest: in_set_takeD in_set_dropD)+
  with assms(3,4) show ?thesis unfolding t by (simp add: sent_durably_def)
qed

lemma live_transient_send:
  assumes "order_ok ser c rows (filter (sent_durably plain) env) fl lk" "unat seq \<in> fl"
    "he_seq e = seq" "ticket_live rows env plain lk lost t"
  shows "ticket_live rows (env @ [e]) (seq # plain) lk lost t"
proof -
  obtain n pos k where t: "t = (n, pos, k)" by (cases t)
  have "filter (sent_durably (seq # plain)) (drop pos env) = filter (sent_durably plain) (drop pos env)"
    by (rule plain_filter [OF assms(1,2)]; auto dest: in_set_dropD)
  with assms(3,4) show ?thesis unfolding t by (auto simp: sent_durably_def)
qed

lemma order_durable_mint:
  assumes "order_ok ser c rows ds fl None" "unat s = c"
  shows "order_ok ser (c + length hs) rows ds fl (Some (Minted s hs))"
proof -
  from assms(1) have "\<forall>e \<in> set ds. env_no e < c"
    unfolding order_ok_def using logged_in by fastforce
  with assms show ?thesis unfolding order_ok_def by force
qed

lemma ticket_durable_mint:
  "ticket_ok c rows env plain None t \<Longrightarrow> unat s = c \<Longrightarrow>
   ticket_ok (c + length hs) rows env plain (Some (Minted s hs)) t"
  by (cases t) auto

lemma order_durable_persist:
  assumes "order_ok ser c rows ds fl (Some (Minted s hs))" "c < 2 ^ 64"
    "batch_rows ser at_ms s hs = Inr news"
  shows "order_ok ser c (rows @ news) ds fl (Some (Persisted s hs))"
proof -
  have c: "unat s + length hs \<le> c" "\<forall>row \<in> set rows. row_no row < unat s"
    using assms(1) by (auto simp: order_ok_def)
  then have small: "unat s + length hs < 2 ^ 64" using assms(2) by simp
  from batch_rows_shape [OF assms(3) small]
  have m: "map row_no news = [unat s ..< unat s + length hs]" by (simp add: comp_def)
  have mset: "row_no ` set news = {unat s ..< unat s + length hs}"
    using arg_cong [OF m, of set] by simp
  have "\<forall>x \<in> set (map row_no rows). \<forall>y \<in> set (map row_no news). x < y"
    using c(2) unfolding m by auto
  then have "sorted_wrt (<) (map row_no (rows @ news))"
    using assms(1) by (simp add: order_ok_def sorted_wrt_append m)
  moreover have "row_no ` set news \<subseteq> {..< c}" using mset c(1) by auto
  then have "\<forall>row \<in> set news. row_no row < c" by blast
  moreover have "\<forall>i < length hs. logged ser (rows @ news) (unat s + i) (hs ! i)"
    using loggedI_batch [OF assms(3) small] by blast
  ultimately show ?thesis
    using assms(1) mset unfolding order_ok_def by (auto simp: image_Un intro: logged_append)
qed

lemma ticket_durable_persist:
  assumes "ticket_ok c rows env plain (Some (Minted s hs)) t" "c < 2 ^ 64"
    "unat s + length hs \<le> c" "batch_rows ser at_ms s hs = Inr news"
  shows "ticket_ok c (rows @ news) env plain (Some (Persisted s hs)) t"
proof -
  obtain n pos k where t: "t = (n, pos, k)" by (cases t)
  from batch_rows_shape [OF assms(4)] assms(2,3)
  have "map row_no news = [unat s ..< unat s + length hs]" by (simp add: comp_def)
  then have "row_no ` set news = {unat s ..< unat s + length hs}"
    by (metis set_map set_upt)
  with assms(1) show ?thesis unfolding t by auto
qed

lemma live_durable_persist:
  assumes "ticket_ok c rows env plain (Some (Minted s hs)) t" "c < 2 ^ 64"
    "unat s + length hs \<le> c" "batch_rows ser at_ms s hs = Inr news"
    "ticket_live rows env plain (Some (Minted s hs)) lost t"
  shows "ticket_live (rows @ news) env plain (Some (Persisted s hs)) lost t"
proof -
  obtain n pos k where t: "t = (n, pos, k)" by (cases t)
  from batch_rows_shape [OF assms(4)] assms(2,3)
  have "map row_no news = [unat s ..< unat s + length hs]" by (simp add: comp_def)
  then have "row_no ` set news = {unat s ..< unat s + length hs}"
    by (metis set_map set_upt)
  moreover have "drop k (rows @ news) = drop k rows @ news" using assms(1) by (simp add: t)
  ultimately show ?thesis using assms(5) unfolding t by (simp add: image_Un) blast
qed

lemma order_durable_abandon: "order_ok ser c rows ds fl lk \<Longrightarrow> order_ok ser c rows ds fl None"
  by (simp add: order_ok_def)

lemma ticket_durable_abandon:
  "ticket_ok c rows env plain lk t \<Longrightarrow> ticket_ok c rows env plain None t"
  by (cases t) auto


text \<open>A durable send: the envelope leaves with the number its row has.\<close>

lemma order_durable_send:
  assumes "order_ok ser c rows (filter (sent_durably plain) env) fl (Some (Persisted s (h # hs)))"
    "c < 2 ^ 64" "unat ` set plain \<subseteq> fl" "e = \<lparr>he_seq = s, he_happening = h\<rparr>"
  shows "order_ok ser c rows (filter (sent_durably plain) (env @ [e])) fl
           (Some (Persisted (s + 1) hs)) \<and> sent_durably plain e"
proof -
  have st: "unat s + length (h # hs) \<le> c"
    "\<forall>i < length (h # hs). logged ser rows (unat s + i) ((h # hs) ! i)"
    "\<forall>e \<in> set (filter (sent_durably plain) env). env_no e < unat s"
    using assms(1) by (auto simp: order_ok_def)
  have u: "unat (s + 1) = unat s + 1" using st(1) assms(2) by (intro unat_succ_small) simp
  have h: "logged ser rows (unat s) h" using st(2) by force
  have hs: "\<forall>i < length hs. logged ser rows (unat (s + 1) + i) (hs ! i)"
    using st(2) u by (metis Suc_eq_plus1 add.assoc add.commute length_Cons not_less_eq nth_Cons_Suc)
  have "unat s \<notin> fl" using assms(1) by (auto simp: order_ok_def)
  then have d: "sent_durably plain e" using assms(3,4) by (auto simp: sent_durably_def)
  have "sorted_wrt (<) (map env_no (filter (sent_durably plain) (env @ [e])))"
    using assms(1,4) st(3) d by (simp add: order_ok_def sorted_wrt_append)
  moreover have "stage_ok ser c rows (filter (sent_durably plain) (env @ [e])) (Some (Persisted (s + 1) hs))"
    using st hs u d assms(4) by auto
  ultimately show ?thesis
    using assms(1,4) h d u unfolding order_ok_def by auto
qed

lemma ticket_durable_send:
  assumes "ticket_ok c rows env plain (Some (Persisted s (h # hs))) t"
    "unat s + length (h # hs) \<le> c" "c < 2 ^ 64"
  shows "ticket_ok c rows (env @ [\<lparr>he_seq = s, he_happening = h\<rparr>]) plain
           (Some (Persisted (s + 1) hs)) t"
proof -
  obtain n pos k where t: "t = (n, pos, k)" by (cases t)
  have "unat (s + 1) = unat s + 1" using assms(2,3) by (intro unat_succ_small) simp
  with assms(1) show ?thesis unfolding t by auto
qed

lemma live_durable_send:
  assumes "ticket_ok c rows env plain (Some (Persisted s (h # hs))) t"
    "unat s + length (h # hs) \<le> c" "c < 2 ^ 64"
    "sent_durably plain \<lparr>he_seq = s, he_happening = h\<rparr>"
    "ticket_live rows env plain (Some (Persisted s (h # hs))) lost t"
  shows "ticket_live rows (env @ [\<lparr>he_seq = s, he_happening = h\<rparr>]) plain
           (Some (Persisted (s + 1) hs)) lost t"
proof -
  obtain n pos k where t: "t = (n, pos, k)" by (cases t)
  have u: "unat (s + 1) = unat s + 1" using assms(2,3) by (intro unat_succ_small) simp
  have "unsent (Some (Persisted s (h # hs))) =
      insert (unat s) (unsent (Some (Persisted (s + 1) hs)))"
    using u by (auto simp del: unat_1)
  moreover have "pos \<le> length env" using assms(1) by (simp add: t)
  ultimately show ?thesis
    using assms(4,5) unfolding t ticket_live.simps by auto
qed

lemma ticket_subscribe:
  assumes "order_ok ser c rows (filter (sent_durably plain) env) fl None" "c < 2 ^ 64"
    "nxt = of_nat c"
  shows "ticket_ok c rows env plain None (sat_pred nxt, length env, length rows)"
proof -
  have c: "unat nxt = c" "0 < c"
    using assms by (auto simp: unat_of_nat order_ok_def)
  then have n: "unat (sat_pred nxt) = c - 1"
    by (auto simp: sat_pred_def unat_minus_one)
  have "\<forall>e \<in> set (filter (sent_durably plain) env). env_no e < c"
    using assms(1) logged_in unfolding order_ok_def by fastforce
  with assms(1) c n show ?thesis by (fastforce simp: order_ok_def)
qed

lemma live_durable_mint:
  "ticket_live rows env plain None lost t \<Longrightarrow>
   ticket_live rows env plain (Some (Minted s hs)) lost t"
  by (cases t) simp

lemma live_durable_abandon:
  "ticket_live rows env plain lk lost t \<Longrightarrow>
   ticket_live rows env plain None (lost \<union> unsent lk) t"
  by (cases t) auto

lemma live_subscribe: "ticket_live rows env plain lk lost (n, pos, length rows)"
  by simp

lemma fold_max_ge: "(a :: u64) \<le> fold max xs a \<and> (\<forall>x \<in> set xs. x \<le> fold max xs a)"
  by (induction xs arbitrary: a) (auto, meson max.boundedE, meson max.boundedE)

lemma bus_boot_inv:
  assumes "bus_boot r"
  shows "bus_inv ser r"
proof -
  let ?m = "load_max_happening_seq (br_store r)"
  obtain w where "with_persistence memory_happening_store w (br_store r) = Inr (br_bus r)"
    using assms by (auto simp: bus_boot_def)
  then have b: "br_bus r = (with_window w)\<lparr>hb_next_seq := sat_succ ?m\<rparr>"
    by (simp add: with_persistence_def memory_happening_store_def)
  have lt: "?m < - 1" and cnt: "br_count r = unat (hb_next_seq (br_bus r))"
    using assms by (auto simp: bus_boot_def)
  have nx: "hb_next_seq (br_bus r) = ?m + 1" "br_env r = []"
    using lt unfolding b by (auto simp: sat_succ_def with_window_def)
  have "unat ?m < unat (- 1 :: u64)" using lt by (simp add: word_less_nat_alt)
  then have "unat ?m + 1 < 2 ^ 64" by (simp add: unsigned_minus_1_eq_mask mask_eq_exp_minus_1)
  then have c: "br_count r = unat ?m + 1" using cnt nx(1) by (simp add: unat_succ_small)
  have "\<forall>row \<in> set (br_log r). ph_seq row \<le> ?m"
    using fold_max_ge [of 0 "map ph_seq (br_log r)"] by (simp add: load_max_happening_seq_def)
  then have "\<forall>row \<in> set (br_log r). row_no row < br_count r"
    using c by (auto simp: word_le_nat_alt)
  moreover have "sorted_wrt (<) (map row_no (br_log r))"
    using assms by (simp add: bus_boot_def sorted_wrt_map word_less_nat_alt)
  ultimately show ?thesis
    using assms nx c unfolding bus_inv_def order_ok_def
    by (auto simp: bus_boot_def br_flight_def add.commute)
qed


lemma bus_invI:
  assumes "hb_next_seq (br_bus r) = of_nat (br_count r)"
    "order_ok ser (br_count r) (br_log r) (filter (sent_durably (br_plain r)) (br_env r))
       (br_flight r) (br_lock r)"
    "\<And>t. t \<in> set (br_tickets r) \<Longrightarrow>
       ticket_ok (br_count r) (br_log r) (br_env r) (br_plain r) (br_lock r) t"
    "\<And>t. t \<in> set (br_tickets r) \<Longrightarrow>
       ticket_live (br_log r) (br_env r) (br_plain r) (br_lock r) (br_lost r) t"
  shows "bus_inv ser r"
  using assms by (simp add: bus_inv_def)

lemma bus_invD:
  assumes "bus_inv ser r" "br_count r < 2 ^ 64"
  shows "unat (hb_next_seq (br_bus r)) = br_count r"
    "order_ok ser (br_count r) (br_log r) (filter (sent_durably (br_plain r)) (br_env r))
       (br_flight r) (br_lock r)"
    "t \<in> set (br_tickets r) \<Longrightarrow>
       ticket_ok (br_count r) (br_log r) (br_env r) (br_plain r) (br_lock r) t"
    "t \<in> set (br_tickets r) \<Longrightarrow>
       ticket_live (br_log r) (br_env r) (br_plain r) (br_lock r) (br_lost r) t"
  using assms by (auto simp: bus_inv_def unat_of_nat)

lemma bus_step_next:
  "bus_step ser r r' \<Longrightarrow> hb_next_seq (br_bus r) = of_nat (br_count r) \<Longrightarrow>
   hb_next_seq (br_bus r') = of_nat (br_count r')"
  by (cases rule: bus_step.cases) (auto simp: mint_seqs_def broadcast_def)

lemma bus_step_count: "bus_step ser r r' \<Longrightarrow> br_count r \<le> br_count r'"
  by (cases rule: bus_step.cases) auto

lemma bus_step_small:
  assumes "bus_step ser r r'" "bus_inv ser r" "br_count r < 2 ^ 64"
    and nxt: "hb_next_seq (br_bus r') = of_nat (br_count r')"
  shows "bus_inv ser r'"
  using assms(1)
proof (cases rule: bus_step.cases)
  case (transient_mint h)
  note inv = bus_invD [OF assms(2,3)]
  have fl: "br_flight r' = insert (br_count r) (br_flight r)"
    by (auto simp: transient_mint br_flight_def inv(1))
  show ?thesis
  proof (rule bus_invI [OF nxt])
    show "order_ok ser (br_count r') (br_log r')
      (filter (sent_durably (br_plain r')) (br_env r')) (br_flight r') (br_lock r')"
      using order_transient_mint [OF inv(2)] unfolding fl
      by (simp add: transient_mint mint_seqs_def)
    show "ticket_ok (br_count r') (br_log r') (br_env r') (br_plain r') (br_lock r') t"
      if "t \<in> set (br_tickets r')" for t
      using that ticket_mono [OF inv(3), of t "br_count r'"]
      by (simp add: transient_mint mint_seqs_def)
    show "ticket_live (br_log r') (br_env r') (br_plain r') (br_lock r') (br_lost r') t"
      if "t \<in> set (br_tickets r')" for t
      using that inv(4) [of t] by (simp add: transient_mint mint_seqs_def)
  qed
next
  case (transient_send seq h)
  note inv = bus_invD [OF assms(2,3)]
  have fl: "unat seq \<in> br_flight r" using transient_send(2) by (force simp: br_flight_def)
  have sub: "br_flight r' \<subseteq> br_flight r"
    using transient_send(2) unfolding transient_send(1) by (force simp: br_flight_def)
  show ?thesis
  proof (rule bus_invI [OF nxt])
    show "order_ok ser (br_count r') (br_log r')
      (filter (sent_durably (br_plain r')) (br_env r')) (br_flight r') (br_lock r')"
      using order_flight_subset [OF order_transient_send [OF inv(2) fl] sub]
      by (simp add: transient_send(1) broadcast_def)
    show "ticket_ok (br_count r') (br_log r') (br_env r') (br_plain r') (br_lock r') t"
      if "t \<in> set (br_tickets r')" for t
      using that ticket_transient_send [OF inv(2) fl _ inv(3)]
      by (simp add: transient_send(1) broadcast_def)
    show "ticket_live (br_log r') (br_env r') (br_plain r') (br_lock r') (br_lost r') t"
      if "t \<in> set (br_tickets r')" for t
      using that live_transient_send [OF inv(2) fl _ inv(4)]
      by (simp add: transient_send(1) broadcast_def)
  qed
next
  case (durable_mint hs)
  note inv = bus_invD [OF assms(2,3), unfolded durable_mint(2)]
  show ?thesis
    by (rule bus_invI [OF nxt];
        use inv order_durable_mint [OF inv(2,1)] ticket_durable_mint [OF inv(3,1)]
          live_durable_mint [OF inv(4)] in
          \<open>simp add: durable_mint(1) mint_seqs_def br_flight_def\<close>)
next
  case (durable_persist start hs now rows)
  note inv = bus_invD [OF assms(2,3), unfolded durable_persist(2)]
  have st: "unat start + length hs \<le> br_count r" using inv(2) by (simp add: order_ok_def)
  show ?thesis
    by (rule bus_invI [OF nxt];
        use order_durable_persist [OF inv(2) assms(3) durable_persist(3)]
          ticket_durable_persist [OF inv(3) assms(3) st durable_persist(3)]
          live_durable_persist [OF inv(3) assms(3) st durable_persist(3) inv(4)] in
          \<open>simp add: durable_persist(1) record_happenings_batch_def br_flight_def\<close>)
next
  case (durable_abandon stage)
  note inv = bus_invD [OF assms(2,3)]
  show ?thesis
    by (rule bus_invI [OF nxt];
        use order_durable_abandon [OF inv(2)] ticket_durable_abandon [OF inv(3)]
          live_durable_abandon [OF inv(4)] in
          \<open>simp add: durable_abandon br_flight_def\<close>)
next
  case (durable_send seq h hs)
  note inv = bus_invD [OF assms(2,3), unfolded durable_send(2)]
  have st: "unat seq + length (h # hs) \<le> br_count r" using inv(2) by (simp add: order_ok_def)
  have fl: "unat ` set (br_plain r) \<subseteq> br_flight r" by (auto simp: br_flight_def)
  note snt = order_durable_send [OF inv(2) assms(3) fl refl, THEN conjunct2]
  show ?thesis
    by (rule bus_invI [OF nxt];
        use order_durable_send [OF inv(2) assms(3) fl refl, THEN conjunct1]
          ticket_durable_send [OF inv(3) st assms(3)]
          live_durable_send [OF inv(3) st assms(3) snt inv(4)] in
          \<open>simp add: durable_send(1) broadcast_def br_flight_def\<close>)
next
  case (subscribe pos n)
  note inv = bus_invD [OF assms(2,3), unfolded subscribe(2)]
  have nx: "hb_next_seq (br_bus r) = of_nat (br_count r)" using assms(2) by (simp add: bus_inv_def)
  have new: "n = sat_pred (hb_next_seq (br_bus r))" "pos = length (br_env r)"
    using subscribe(3) by (auto simp: subscribe_with_current_seq_def)
  show ?thesis
    by (rule bus_invI [OF nxt];
        use inv(2,3,4) ticket_subscribe [OF inv(2) assms(3) nx] live_subscribe in
          \<open>auto simp: subscribe(1,2) new br_flight_def simp del: ticket_ok.simps ticket_live.simps\<close>)
qed

lemma bus_step_inv:
  assumes "bus_step ser r r'" "bus_inv ser r"
  shows "bus_inv ser r'"
proof (cases "br_count r < 2 ^ 64")
  case True
  show ?thesis
    by (rule bus_step_small [OF assms True bus_step_next [OF assms(1)]])
      (use assms(2) in \<open>simp add: bus_inv_def\<close>)
next
  case False
  then show ?thesis
    using assms bus_step_next bus_step_count [OF assms(1)] by (simp add: bus_inv_def)
qed

interpretation bus: invariant_system bus_boot "bus_step ser" "bus_inv ser" for ser
  by unfold_locales (auto intro: bus_boot_inv bus_step_inv)


section \<open>The durable emit is a run\<close>

definition idle_run :: "'v happening_bus \<Rightarrow> 'j memory_state \<Rightarrow> ('v, 'j) bus_run \<Rightarrow> nat \<Rightarrow> ('v, 'j) bus_run" where
  "idle_run b s r n = r\<lparr>br_bus := b, br_store := s, br_lock := None, br_count := br_count r + n\<rparr>"

text \<open>A batch with nothing written and unsent is dropped without loss.\<close>

lemma durable_release:
  assumes "br_lock r = Some stage" "unsent (Some stage) = {}"
  shows "bus_step ser r (r\<lparr>br_lock := None\<rparr>)"
proof -
  have "r\<lparr>br_lock := None, br_lost := br_lost r \<union> unsent (Some stage)\<rparr> = r\<lparr>br_lock := None\<rparr>"
    using assms(2) by (cases r) simp
  with durable_abandon [OF assms(1), of ser] show ?thesis by simp
qed

lemma broadcast_all_run:
  "br_lock r = Some (Persisted seq hs) \<Longrightarrow> broadcast_all seq hs (br_bus r) = (b, seqs) \<Longrightarrow>
   (bus_step ser)\<^sup>*\<^sup>* r (r\<lparr>br_bus := b, br_lock := None\<rparr>)"
proof (induction seq hs "br_bus r" arbitrary: r b seqs rule: broadcast_all.induct)
  case (1 seq)
  then show ?case using durable_release [of r "Persisted seq []" ser] by auto
next
  case (2 seq h hs)
  let ?r = "r\<lparr>br_bus := broadcast seq h (br_bus r), br_lock := Some (Persisted (seq + 1) hs)\<rparr>"
  from 2(3) obtain seqs' where "broadcast_all (seq + 1) hs (br_bus ?r) = (b, seqs')"
    by (auto split: prod.splits)
  then have "(bus_step ser)\<^sup>*\<^sup>* ?r (?r\<lparr>br_bus := b, br_lock := None\<rparr>)" by (intro 2(1)) simp_all
  moreover have "bus_step ser r ?r" by (rule durable_send [OF 2(2)])
  ultimately have "(bus_step ser)\<^sup>*\<^sup>* r (?r\<lparr>br_bus := b, br_lock := None\<rparr>)"
    by (rule converse_rtranclp_into_rtranclp [rotated])
  then show ?case by simp
qed

lemma emit_durable_batch_run:
  assumes "br_lock r = None"
    "emit_durable_batch (Some memory_happening_store) ser now hs (br_bus r) (br_store r) = (b, s, res)"
  shows "(bus_step ser)\<^sup>*\<^sup>* r (idle_run b s r (length hs))"
proof (cases "hs = []")
  case True
  with assms have "idle_run b s r (length hs) = r"
    by (cases r) (auto simp: emit_durable_batch_def idle_run_def)
  then show ?thesis by simp
next
  case False
  let ?m = "r\<lparr>br_bus := mint_seqs (length hs) (br_bus r),
     br_lock := Some (Minted (hb_next_seq (br_bus r)) hs), br_count := br_count r + length hs\<rparr>"
  have m: "bus_step ser r ?m" by (rule durable_mint [OF assms(1)])
  show ?thesis
  proof (cases "batch_rows ser (system_time_to_ms now) (hb_next_seq (br_bus r)) hs")
    case (Inl e)
    with assms(2) False have "b = mint_seqs (length hs) (br_bus r)" "s = br_store r"
      by (auto simp: emit_durable_batch_def)
    then have "idle_run b s r (length hs) = ?m\<lparr>br_lock := None\<rparr>"
      by (simp add: idle_run_def)
    moreover have "bus_step ser ?m (?m\<lparr>br_lock := None\<rparr>)" by (rule durable_release [OF _ unsent.simps(2)]) simp
    ultimately show ?thesis using m by (metis rtranclp.rtrancl_into_rtrancl r_into_rtranclp)
  next
    case (Inr rows)
    let ?p = "?m\<lparr>br_store := record_happenings_batch rows (br_store r),
       br_lock := Some (Persisted (hb_next_seq (br_bus r)) hs)\<rparr>"
    have p: "bus_step ser ?m ?p" using durable_persist [of ?m, OF _ Inr] by simp
    from assms(2) False Inr obtain seqs where
      "broadcast_all (hb_next_seq (br_bus r)) hs (br_bus ?p) = (b, seqs)"
      "s = record_happenings_batch rows (br_store r)"
      by (auto simp: emit_durable_batch_def memory_happening_store_def split: prod.splits)
    moreover from this have "(bus_step ser)\<^sup>*\<^sup>* ?p (?p\<lparr>br_bus := b, br_lock := None\<rparr>)"
      by (intro broadcast_all_run) simp_all
    moreover have "idle_run b s r (length hs) = ?p\<lparr>br_bus := b, br_lock := None\<rparr>"
      using calculation(2) by (cases r) (simp add: idle_run_def)
    ultimately show ?thesis using m p by (metis converse_rtranclp_into_rtranclp)
  qed
qed

lemma filter_split:
  assumes "\<forall>x \<in> set (take k xs). P x" "\<forall>x \<in> set (drop k xs). \<not> P x"
  shows "filter P xs = take k xs"
proof -
  have "filter P (take k xs @ drop k xs) = take k xs"
    using assms by (simp del: append_take_drop_id add: filter_empty_conv)
  then show ?thesis by simp
qed

lemma ticket_split:
  assumes "ticket_ok c rows env plain lk (n, pos, k)"
  shows "filter (\<lambda>row. ph_seq row \<le> n) rows = take k rows \<and>
    filter (\<lambda>e. n < he_seq e) (filter (sent_durably plain) env) =
      filter (sent_durably plain) (drop pos env)"
proof -
  have 1: "filter (\<lambda>row. ph_seq row \<le> n) rows = take k rows"
    using assms by (intro filter_split) (auto simp: word_le_nat_alt)
  have "filter (\<lambda>e. n < he_seq e) (filter (sent_durably plain) (take pos env)) = []"
    using assms by (auto simp: word_less_nat_alt filter_empty_conv)
  moreover have "filter (\<lambda>e. n < he_seq e) (filter (sent_durably plain) (drop pos env)) =
      filter (sent_durably plain) (drop pos env)"
    using assms by (intro filter_True) (simp add: word_less_nat_alt)
  ultimately have "filter (\<lambda>e. n < he_seq e) (filter (sent_durably plain) (take pos env @ drop pos env)) =
      filter (sent_durably plain) (drop pos env)"
    unfolding filter_append by simp
  then show ?thesis using 1 by simp
qed

section \<open>Properties\<close>

text \<open>With no emitter at work and none cancelled, the log after a subscription is the live
  stream.\<close>

lemma rows_are_live:
  assumes "order_ok ser c rows (filter (sent_durably plain) env) fl None"
    "ticket_ok c rows env plain None (n, pos, k)" "ticket_live rows env plain None {} (n, pos, k)"
  shows "map ph_seq (drop k rows) = map he_seq (filter (sent_durably plain) (drop pos env))"
proof -
  let ?live = "filter (sent_durably plain) (drop pos env)"
  have o: "sorted_wrt (<) (map row_no rows)"
    "sorted_wrt (<) (map env_no (filter (sent_durably plain) (take pos env @ drop pos env)))"
    using assms(1) by (simp_all add: order_ok_def)
  have "env_no e \<in> row_no ` set (drop k rows)" if e: "e \<in> set ?live" for e
  proof -
    from e have "e \<in> set (filter (sent_durably plain) env)" by (auto dest: in_set_dropD)
    then obtain row where r: "row \<in> set rows" "row_no row = env_no e"
      using assms(1) unfolding order_ok_def logged_def by blast
    have "unat n < env_no e" using assms(2) e by simp
    then have "row \<notin> set (take k rows)" using assms(2) r(2) by fastforce
    then have "row \<in> set (drop k rows)"
      using r(1) by (metis Un_iff append_take_drop_id set_append)
    with r(2) show ?thesis by force
  qed
  with assms(3) have "set (map row_no (drop k rows)) = set (map env_no ?live)" by auto
  moreover have "sorted_wrt (<) (map row_no (drop k rows))"
    using sorted_wrt_drop [OF o(1), of k] by (simp add: drop_map)
  moreover have "sorted_wrt (<) (map env_no ?live)"
    using o(2) unfolding filter_append map_append sorted_wrt_append by blast
  ultimately have "map row_no (drop k rows) = map env_no ?live"
    by (intro strict_sorted_equal) auto
  then have "map unat (map ph_seq (drop k rows)) = map unat (map he_seq ?live)"
    by (simp add: comp_def)
  then show ?thesis by (rule inj_map_eq_map [THEN iffD1, rotated]) (simp add: inj_def word_unat_eq_iff)
qed

lemma ticket_live_rows:
  assumes "ticket_ok c rows env plain lk (n, pos, k)" "ticket_live rows env plain lk lost (n, pos, k)"
    "row \<in> set rows" "n < ph_seq row"
  shows "ph_seq row \<in> he_seq ` set (filter (sent_durably plain) (drop pos env)) \<or>
    row_no row \<in> unsent lk \<or> row_no row \<in> lost"
proof -
  have "row \<notin> set (take k rows)" using assms(1,4) by (auto simp: word_less_nat_alt)
  then have "row \<in> set (drop k rows)"
    using assms(3) by (metis Un_iff append_take_drop_id set_append)
  with assms(2) show ?thesis by (fastforce simp: word_unat_eq_iff)
qed

section \<open>Properties\<close>

text \<open>(C17) Durable happenings under concurrent emitters and cursor-aware subscribers, from the
  boot of a steward on a log that is in order and below the last number, for as long as the
  counter has not wrapped, over channels that drop nothing: the log is strictly ordered by
  number; durable happenings reach the envelope channel in the order of their numbers and never
  before their row is in the log. For every subscription the rows up to the number it was given
  are exactly the rows that were in the log at that moment, the durable happenings it receives
  live are exactly those sent with a greater number, and every row with a greater number has
  been received live, is about to be sent by the emitter that holds the lock, or was written by
  an emitter cancelled before its broadcast; with no emitter at work and none cancelled the rows
  after the number and the live stream are the same sequence, so replay and live stream neither
  overlap nor leave a gap. The code's \<open>emit_durable_batch\<close> is such a run whatever it returns,
  and loses nothing.\<close>

theorem bus_replay_and_live:
  assumes "bus_boot r0" "(bus_step ser)\<^sup>*\<^sup>* r0 r" "br_count r < 2 ^ 64"
  shows "sorted_wrt (<) (map ph_seq (br_log r)) \<and>
    sorted_wrt (<) (map he_seq (filter (sent_durably (br_plain r)) (br_env r))) \<and>
    (\<forall>e \<in> set (filter (sent_durably (br_plain r)) (br_env r)). \<exists>row \<in> set (br_log r).
       ph_seq row = he_seq e \<and> ph_kind row = happening_kind_str (he_happening e) \<and>
       ser (he_happening e) = Inr (ph_payload row)) \<and>
    (\<forall>(n, pos, k) \<in> set (br_tickets r).
       filter (\<lambda>row. ph_seq row \<le> n) (br_log r) = take k (br_log r) \<and>
       filter (\<lambda>e. n < he_seq e) (filter (sent_durably (br_plain r)) (br_env r)) =
         filter (sent_durably (br_plain r)) (drop pos (br_env r)) \<and>
       (\<forall>row \<in> set (br_log r). n < ph_seq row \<longrightarrow>
          ph_seq row \<in> he_seq ` set (filter (sent_durably (br_plain r)) (drop pos (br_env r))) \<or>
          unat (ph_seq row) \<in> unsent (br_lock r) \<or> unat (ph_seq row) \<in> br_lost r) \<and>
       (br_lock r = None \<and> br_lost r = {} \<longrightarrow>
          map ph_seq (drop k (br_log r)) =
            map he_seq (filter (sent_durably (br_plain r)) (drop pos (br_env r))))) \<and>
    (\<forall>now hs b s res. br_lock r = None \<and>
       emit_durable_batch (Some memory_happening_store) ser now hs (br_bus r) (br_store r) =
         (b, s, res) \<longrightarrow>
       (bus_step ser)\<^sup>*\<^sup>* r (idle_run b s r (length hs)))"
proof -
  note inv = bus_invD [OF bus.reachable_inv [OF assms(1,2)] assms(3)]
  have srt: "sorted_wrt (<) (map ph_seq (br_log r))"
    "sorted_wrt (<) (map he_seq (filter (sent_durably (br_plain r)) (br_env r)))"
    using inv(2) by (simp_all add: order_ok_def sorted_wrt_map word_less_nat_alt)
  have rows: "\<exists>row \<in> set (br_log r).
       ph_seq row = he_seq e \<and> ph_kind row = happening_kind_str (he_happening e) \<and>
       ser (he_happening e) = Inr (ph_payload row)"
    if "e \<in> set (filter (sent_durably (br_plain r)) (br_env r))" for e
    using inv(2) that unfolding order_ok_def logged_def word_unat_eq_iff by blast
  have tick: "filter (\<lambda>row. ph_seq row \<le> n) (br_log r) = take k (br_log r) \<and>
       filter (\<lambda>e. n < he_seq e) (filter (sent_durably (br_plain r)) (br_env r)) =
         filter (sent_durably (br_plain r)) (drop pos (br_env r)) \<and>
       (\<forall>row \<in> set (br_log r). n < ph_seq row \<longrightarrow>
          ph_seq row \<in> he_seq ` set (filter (sent_durably (br_plain r)) (drop pos (br_env r))) \<or>
          unat (ph_seq row) \<in> unsent (br_lock r) \<or> unat (ph_seq row) \<in> br_lost r) \<and>
       (br_lock r = None \<and> br_lost r = {} \<longrightarrow>
          map ph_seq (drop k (br_log r)) =
            map he_seq (filter (sent_durably (br_plain r)) (drop pos (br_env r))))"
    if t: "(n, pos, k) \<in> set (br_tickets r)" for n pos k
    using ticket_split [OF inv(3) [OF t]] ticket_live_rows [OF inv(3) [OF t] inv(4) [OF t]]
      rows_are_live [of ser "br_count r" "br_log r" "br_plain r" "br_env r" "br_flight r" n pos k]
      inv(2) inv(3) [OF t] inv(4) [OF t] by auto
  show ?thesis using srt rows tick emit_durable_batch_run by blast
qed


text \<open>A steward that boots on an empty store, takes a subscription and emits one durable
  happening.\<close>

definition fresh_run :: "(unit, unit) bus_run" where
  "fresh_run = \<lparr>br_bus = new_bus, br_store = new_memory_state, br_lock = None,
     br_transient = [], br_plain = [], br_tickets = [], br_count = 1, br_lost = {}\<rparr>"

definition sample_happening :: "unit happening" where
  "sample_happening = H_CustodyReleased ''warden'' ''h1'' 0"

definition unit_ser :: "unit happening \<Rightarrow> string + unit" where
  "unit_ser _ = Inr ()"

definition subscribed_run :: "(unit, unit) bus_run" where
  "subscribed_run = fresh_run\<lparr>br_tickets := [(0, 0, 0)]\<rparr>"

definition emitted_run :: "(unit, unit) bus_run" where
  "emitted_run = idle_run
     (broadcast 1 sample_happening (mint_seqs 1 new_bus))
     (record_happening 1 ''custody_released'' () 0 new_memory_state) subscribed_run 1"

lemma fresh_run_boot: "bus_boot fresh_run"
proof -
  have "with_persistence memory_happening_store DEFAULT_RETENTION_WINDOW_SECS (br_store fresh_run) =
      Inr (br_bus fresh_run)"
    by (simp add: with_persistence_def memory_happening_store_def fresh_run_def new_bus_def
        with_window_def sat_succ_def load_max_happening_seq_def new_memory_state_def)
  then show ?thesis
    unfolding bus_boot_def
    by (auto simp: fresh_run_def new_bus_def with_window_def load_max_happening_seq_def
        new_memory_state_def word_gt_0)
qed

lemma fresh_run_subscribe: "bus_step unit_ser fresh_run subscribed_run"
proof -
  have "subscribe_with_current_seq (br_bus fresh_run) = (0, 0)"
    by (simp add: subscribe_with_current_seq_def fresh_run_def new_bus_def with_window_def
        sat_pred_def)
  from subscribe [OF _ this, of unit_ser] show ?thesis
    by (simp add: subscribed_run_def fresh_run_def new_memory_state_def)
qed

lemma subscribed_run_emit: "(bus_step unit_ser)\<^sup>*\<^sup>* subscribed_run emitted_run"
proof -
  have "emit_durable_batch (Some memory_happening_store) unit_ser 0 [sample_happening]
      (br_bus subscribed_run) (br_store subscribed_run) =
     (broadcast 1 sample_happening (mint_seqs 1 new_bus),
      record_happening 1 ''custody_released'' () 0 new_memory_state, Inr [1])"
    by (simp add: emit_durable_batch_def memory_happening_store_def unit_ser_def subscribed_run_def
        fresh_run_def new_bus_def with_window_def record_happenings_batch_def record_happening_def
        sample_happening_def system_time_to_ms_def)
  from emit_durable_batch_run [OF _ this] show ?thesis
    by (simp add: emitted_run_def subscribed_run_def fresh_run_def)
qed

theorem bus_replay_and_live_witness:
  "filter (\<lambda>row. ph_seq row \<le> 0) (br_log emitted_run) = [] \<and>
   map he_seq (filter (sent_durably []) (br_env emitted_run)) = [1] \<and>
   map ph_seq (br_log emitted_run) = [1]"
proof -
  have run: "(bus_step unit_ser)\<^sup>*\<^sup>* fresh_run emitted_run"
    using fresh_run_subscribe subscribed_run_emit by (rule converse_rtranclp_into_rtranclp)
  have f: "br_tickets emitted_run = [(0, 0, 0)]" "br_plain emitted_run = []"
    "br_count emitted_run = 2" "map he_seq (br_env emitted_run) = [1]"
    "br_lock emitted_run = None" "br_lost emitted_run = {}"
    by (simp_all add: emitted_run_def idle_run_def subscribed_run_def fresh_run_def
        broadcast_def mint_seqs_def new_bus_def with_window_def)
  have live: "filter (sent_durably []) (br_env emitted_run) = br_env emitted_run"
    by (simp add: sent_durably_def)
  from bus_replay_and_live [OF fresh_run_boot run] f show ?thesis
    by (simp add: live)
qed


text \<open>The number a subscription is given does not bound what a transient emit sends later:
  an emit that has taken its number when the subscription samples the counter, and sends
  afterwards, delivers to that subscriber an envelope whose number is not greater than the one
  it was given and that no log row carries.\<close>

theorem transient_overtakes_subscription:
  "\<exists>r n pos k e. (bus_step unit_ser)\<^sup>*\<^sup>* fresh_run r \<and> (n, pos, k) \<in> set (br_tickets r) \<and>
     e \<in> set (drop pos (br_env r)) \<and> he_seq e \<le> n \<and> he_seq e \<notin> ph_seq ` set (br_log r)"
proof -
  let ?h = sample_happening
  let ?a = "fresh_run\<lparr>br_bus := mint_seqs 1 new_bus, br_transient := [(1, ?h)], br_count := 2\<rparr>"
  let ?b = "?a\<lparr>br_tickets := [(1, 0, 0)]\<rparr>"
  let ?c = "?b\<lparr>br_bus := broadcast 1 ?h (mint_seqs 1 new_bus), br_transient := [], br_plain := [1]\<rparr>"
  have a: "bus_step unit_ser fresh_run ?a"
    using transient_mint [of unit_ser fresh_run ?h]
    by (simp add: fresh_run_def new_bus_def with_window_def numeral_2_eq_2)
  have "subscribe_with_current_seq (br_bus ?a) = (0, 1)"
    by (simp add: subscribe_with_current_seq_def new_bus_def with_window_def mint_seqs_def sat_pred_def)
  from subscribe [OF _ this, of unit_ser] have b: "bus_step unit_ser ?a ?b"
    by (simp add: fresh_run_def new_memory_state_def)
  have c: "bus_step unit_ser ?b ?c"
    using transient_send [of 1 ?h ?b unit_ser] by (simp add: fresh_run_def)
  from a b c have run: "(bus_step unit_ser)\<^sup>*\<^sup>* fresh_run ?c" by (meson converse_rtranclp_into_rtranclp rtranclp.rtrancl_refl)
  have e: "(1, 0, 0) \<in> set (br_tickets ?c)"
    "\<lparr>he_seq = 1, he_happening = ?h\<rparr> \<in> set (drop 0 (br_env ?c))"
    "1 \<notin> ph_seq ` set (br_log ?c)"
    by (simp_all add: broadcast_def mint_seqs_def fresh_run_def new_memory_state_def)
  show ?thesis
    by (rule exI [of _ ?c], rule exI [of _ 1], rule exI [of _ 0], rule exI [of _ 0],
        rule exI [of _ "\<lparr>he_seq = 1, he_happening = ?h\<rparr>"])
      (use run e in simp)
qed

end
