(* ===== verification/Admin.thy ===== *)
theory Admin
  imports Memory_Store
begin

text \<open>
  The admin ledger (\<open>crates/evo/src/admin.rs\<close>): the audit trail of administrator actions, with
  write-through to the durable \<open>admin_log\<close> and rehydration at boot.

  As for the custody ledger, the store is a record of functions and \<open>None\<close> is a ledger without
  persistence. The JSON payload of a row is built and read field by field as the code does.
\<close>

section \<open>Data\<close>

datatype admin_log_kind =
    AK_SubjectAddressingForcedRetract
  | AK_RelationClaimForcedRetract
  | AK_SubjectMerge
  | AK_SubjectSplit
  | AK_RelationSuppress
  | AK_RelationSuppressionReasonUpdated
  | AK_RelationUnsuppress
  | AK_SubjectTypeMigration

record admin_log_entry =
  ae_kind :: admin_log_kind
  ae_admin_plugin :: string
  ae_target_plugin :: "string option"
  ae_target_subject :: "string option"
  ae_target_addressing :: "external_addressing option"
  ae_target_relation :: "relation_key option"
  ae_additional_subjects :: "string list"
  ae_reason :: "string option"
  ae_prior_reason :: "string option"
  ae_at :: systime

record 's admin_store =
  ad_record_admin_entry :: "persisted_admin_entry \<Rightarrow> 's \<Rightarrow> 's \<times> (persistence_error + unit)"
  ad_load_all_admin_entries :: "'s \<Rightarrow> persistence_error + persisted_admin_entry list"

section \<open>Row encoding\<close>

fun kind_to_str :: "admin_log_kind \<Rightarrow> string" where
  "kind_to_str AK_SubjectAddressingForcedRetract = ''subject_addressing_forced_retract''"
| "kind_to_str AK_RelationClaimForcedRetract = ''relation_claim_forced_retract''"
| "kind_to_str AK_SubjectMerge = ''subject_merge''"
| "kind_to_str AK_SubjectSplit = ''subject_split''"
| "kind_to_str AK_RelationSuppress = ''relation_suppress''"
| "kind_to_str AK_RelationSuppressionReasonUpdated = ''relation_suppression_reason_updated''"
| "kind_to_str AK_RelationUnsuppress = ''relation_unsuppress''"
| "kind_to_str AK_SubjectTypeMigration = ''subject_type_migration''"

definition kind_from_str :: "string \<Rightarrow> admin_log_kind option" where
  "kind_from_str s =
     (if s = ''subject_addressing_forced_retract'' then Some AK_SubjectAddressingForcedRetract
      else if s = ''relation_claim_forced_retract'' then Some AK_RelationClaimForcedRetract
      else if s = ''subject_merge'' then Some AK_SubjectMerge
      else if s = ''subject_split'' then Some AK_SubjectSplit
      else if s = ''relation_suppress'' then Some AK_RelationSuppress
      else if s = ''relation_suppression_reason_updated'' then Some AK_RelationSuppressionReasonUpdated
      else if s = ''relation_unsuppress'' then Some AK_RelationUnsuppress
      else if s = ''subject_type_migration'' then Some AK_SubjectTypeMigration
      else None)"

text \<open>\<open>Value::get\<close>, \<open>Value::as_str\<close> and \<open>Value::as_array\<close>.\<close>

fun json_get :: "string \<Rightarrow> json \<Rightarrow> json option" where
  "json_get k (JObject m) = hm_get m k"
| "json_get k _ = None"

fun json_as_str :: "json \<Rightarrow> string option" where
  "json_as_str (JString s) = Some s"
| "json_as_str _ = None"

fun json_as_array :: "json \<Rightarrow> json list option" where
  "json_as_array (JArray xs) = Some xs"
| "json_as_array _ = None"

definition insert_some :: "string \<Rightarrow> json option \<Rightarrow> (string, json) hmap \<Rightarrow> (string, json) hmap" where
  "insert_some k v m = (case v of None \<Rightarrow> m | Some x \<Rightarrow> hm_insert k x m)"

definition admin_payload :: "admin_log_entry \<Rightarrow> (string, json) hmap" where
  "admin_payload entry =
     insert_some ''prior_reason'' (map_option JString (ae_prior_reason entry))
    (insert_some ''additional_subjects''
       (if ae_additional_subjects entry = [] then None
        else Some (JArray (map JString (ae_additional_subjects entry))))
    (insert_some ''target_relation''
       (map_option (\<lambda>rel. JObject [(''source_id'', JString (rk_source_id rel)),
          (''predicate'', JString (rk_predicate rel)), (''target_id'', JString (rk_target_id rel))])
         (ae_target_relation entry))
    (insert_some ''target_addressing''
       (map_option (\<lambda>a. JObject [(''scheme'', JString (ea_scheme a)),
          (''value'', JString (ea_value a))]) (ae_target_addressing entry))
    (insert_some ''target_subject'' (map_option JString (ae_target_subject entry)) []))))"

definition persisted_admin_entry_from :: "admin_log_entry \<Rightarrow> persisted_admin_entry" where
  "persisted_admin_entry_from entry =
     \<lparr>pe_admin_id = 0, pe_kind = kind_to_str (ae_kind entry),
      pe_admin_plugin = ae_admin_plugin entry, pe_target_claimant = ae_target_plugin entry,
      pe_payload = JObject (admin_payload entry),
      pe_asserted_at_ms = system_time_to_ms (ae_at entry), pe_reason = ae_reason entry,
      pe_reverses_admin_id = None\<rparr>"

definition json_str_field :: "string \<Rightarrow> json \<Rightarrow> string option" where
  "json_str_field k v = Option.bind (json_get k v) json_as_str"

definition addressing_of_json :: "json \<Rightarrow> external_addressing option" where
  "addressing_of_json v =
     Option.bind (json_str_field ''scheme'' v) (\<lambda>scheme.
     Option.bind (json_str_field ''value'' v) (\<lambda>value.
       Some \<lparr>ea_scheme = scheme, ea_value = value\<rparr>))"

definition relation_of_json :: "json \<Rightarrow> relation_key option" where
  "relation_of_json v =
     Option.bind (json_str_field ''source_id'' v) (\<lambda>source_id.
     Option.bind (json_str_field ''predicate'' v) (\<lambda>predicate.
     Option.bind (json_str_field ''target_id'' v) (\<lambda>target_id.
       Some (mk_key source_id predicate target_id))))"

definition admin_log_entry_from_persisted ::
    "persisted_admin_entry \<Rightarrow> string + admin_log_entry" where
  "admin_log_entry_from_persisted row =
     (case kind_from_str (pe_kind row) of
        None \<Rightarrow> Inl (''unknown admin_log kind \"'' @ pe_kind row @ ''\"'')
      | Some kind \<Rightarrow>
          (case pe_payload row of
             JObject payload \<Rightarrow> Inr
               \<lparr>ae_kind = kind, ae_admin_plugin = pe_admin_plugin row,
                ae_target_plugin = pe_target_claimant row,
                ae_target_subject = Option.bind (hm_get payload ''target_subject'') json_as_str,
                ae_target_addressing =
                  Option.bind (hm_get payload ''target_addressing'') addressing_of_json,
                ae_target_relation =
                  Option.bind (hm_get payload ''target_relation'') relation_of_json,
                ae_additional_subjects =
                  (case Option.bind (hm_get payload ''additional_subjects'') json_as_array of
                     None \<Rightarrow> []
                   | Some arr \<Rightarrow> List.map_filter json_as_str arr),
                ae_reason = pe_reason row,
                ae_prior_reason = Option.bind (hm_get payload ''prior_reason'') json_as_str,
                ae_at = ms_to_system_time (pe_asserted_at_ms row)\<rparr>
           | _ \<Rightarrow> Inl ''admin_log payload is not a JSON object''))"

section \<open>The ledger\<close>

definition new_admin_ledger :: "admin_log_entry list" where
  "new_admin_ledger = []"

fun decoded_rows :: "persisted_admin_entry list \<Rightarrow> admin_log_entry list" where
  "decoded_rows [] = []"
| "decoded_rows (row # rows) =
     (case admin_log_entry_from_persisted row of
        Inl _ \<Rightarrow> decoded_rows rows
      | Inr entry \<Rightarrow> entry # decoded_rows rows)"

definition rehydrate_admin ::
    "'s admin_store \<Rightarrow> 's \<Rightarrow> admin_log_entry list
       \<Rightarrow> admin_log_entry list \<times> (persistence_error + unit)" where
  "rehydrate_admin st s entries =
     (case ad_load_all_admin_entries st s of
        Inl e \<Rightarrow> (entries, Inl e)
      | Inr rows \<Rightarrow> (decoded_rows rows, Inr ()))"

definition admin_record ::
    "'s admin_store option \<Rightarrow> admin_log_entry \<Rightarrow> admin_log_entry list \<Rightarrow> 's
       \<Rightarrow> admin_log_entry list \<times> 's \<times> (persistence_error + unit)" where
  "admin_record persistence entry entries s =
     (case persistence of
        None \<Rightarrow> (entries @ [entry], s, Inr ())
      | Some st \<Rightarrow>
          (case ad_record_admin_entry st (persisted_admin_entry_from entry) s of
             (s', Inl e) \<Rightarrow> (entries, s', Inl e)
           | (s', Inr _) \<Rightarrow> (entries @ [entry], s', Inr ())))"

definition entries_by_admin_plugin ::
    "string \<Rightarrow> admin_log_entry list \<Rightarrow> admin_log_entry list" where
  "entries_by_admin_plugin name entries = filter (\<lambda>e. ae_admin_plugin e = name) entries"

definition admin_count :: "admin_log_entry list \<Rightarrow> nat" where
  "admin_count entries = length entries"

text \<open>The in-memory store behind the trait.\<close>

definition memory_admin_store :: "'v memory_state admin_store" where
  "memory_admin_store =
     \<lparr>ad_record_admin_entry = (\<lambda>entry m. (record_admin_entry entry m, Inr ())),
      ad_load_all_admin_entries = (\<lambda>m. Inr (load_all_admin_entries m))\<rparr>"

section \<open>Decoding\<close>

text \<open>What a restart makes of an entry: the time is cut to whole milliseconds.\<close>

definition admin_ms :: "admin_log_entry \<Rightarrow> admin_log_entry" where
  "admin_ms e = e\<lparr>ae_at := ms_to_system_time (system_time_to_ms (ae_at e))\<rparr>"

lemma kind_roundtrip [simp]: "kind_from_str (kind_to_str k) = Some k"
  by (cases k) (simp_all add: kind_from_str_def)

lemma map_filter_JString [simp]: "List.map_filter json_as_str (map JString xs) = xs"
  by (induction xs) (simp_all add: List.map_filter_simps)

lemma hm_get_insert_some:
  "hm_get (insert_some k v m) j = (if j = k \<and> v \<noteq> None then v else hm_get m j)"
  by (simp add: insert_some_def split: option.splits)

lemma addressing_json [simp]:
  "addressing_of_json (JObject [(''scheme'', JString (ea_scheme a)), (''value'', JString (ea_value a))]) =
     Some a"
  by (simp add: addressing_of_json_def json_str_field_def hm_get_def)

lemma relation_json [simp]:
  "relation_of_json (JObject [(''source_id'', JString (rk_source_id r)),
     (''predicate'', JString (rk_predicate r)), (''target_id'', JString (rk_target_id r))]) = Some r"
  by (simp add: relation_of_json_def json_str_field_def hm_get_def mk_key_def)

lemma admin_payload_get:
  "hm_get (admin_payload e) ''target_subject'' = map_option JString (ae_target_subject e)"
  "hm_get (admin_payload e) ''prior_reason'' = map_option JString (ae_prior_reason e)"
  "hm_get (admin_payload e) ''additional_subjects'' =
     (if ae_additional_subjects e = [] then None
      else Some (JArray (map JString (ae_additional_subjects e))))"
  "Option.bind (hm_get (admin_payload e) ''target_addressing'') addressing_of_json =
     ae_target_addressing e"
  "Option.bind (hm_get (admin_payload e) ''target_relation'') relation_of_json =
     ae_target_relation e"
  by (cases "ae_target_subject e"; cases "ae_prior_reason e"; cases "ae_target_addressing e";
      cases "ae_target_relation e"; simp add: admin_payload_def hm_get_insert_some)+

lemma admin_row_roundtrip:
  "admin_log_entry_from_persisted (persisted_admin_entry_from e\<lparr>pe_admin_id := i\<rparr>) = Inr (admin_ms e)"
  by (cases "ae_target_subject e"; cases "ae_prior_reason e")
    (simp_all add: admin_log_entry_from_persisted_def persisted_admin_entry_from_def
      admin_payload_get admin_ms_def)

lemma decoded_rows_append [simp]: "decoded_rows (xs @ ys) = decoded_rows xs @ decoded_rows ys"
  by (induction xs) (auto split: sum.splits)

section \<open>Properties\<close>

text \<open>Every entry of a list recorded in turn.\<close>

fun admin_record_all ::
    "'s admin_store option \<Rightarrow> admin_log_entry list \<Rightarrow> admin_log_entry list \<Rightarrow> 's
       \<Rightarrow> admin_log_entry list \<times> 's" where
  "admin_record_all persistence [] entries s = (entries, s)"
| "admin_record_all persistence (e # es) entries s =
     (case admin_record persistence e entries s of
        (entries', s', _) \<Rightarrow> admin_record_all persistence es entries' s')"

lemma admin_record_all_memory:
  assumes "admin_record_all (Some memory_admin_store) es entries m = (entries', m')"
  shows "entries' = entries @ es \<and>
    decoded_rows (ms_admin_log m') = decoded_rows (ms_admin_log m) @ map admin_ms es"
  using assms
proof (induction es arbitrary: entries m)
  case Nil
  then show ?case by simp
next
  case (Cons e es)
  from Cons.prems have "admin_record_all (Some memory_admin_store) es (entries @ [e])
      (record_admin_entry (persisted_admin_entry_from e) m) = (entries', m')"
    by (simp add: admin_record_def memory_admin_store_def)
  from Cons.IH [OF this] show ?case
    by (simp add: record_admin_entry_def Let_def admin_row_roundtrip)
qed

text \<open>(C18) The audit trail survives a restart: from a ledger whose durable log decodes to its
  entries, recording any list of entries appends them in order in memory, and rehydrating from
  the store gives back the whole trail with times cut to whole milliseconds and every other
  field (addressing, relation key, subject lists, reasons) unchanged. A row whose kind is
  unknown is skipped without disturbing the others.\<close>

theorem admin_restart:
  assumes "rehydrate_admin memory_admin_store m [] = (map admin_ms entries, Inr ())"
    and "admin_record_all (Some memory_admin_store) es entries m = (entries', m')"
    and "kind_from_str (pe_kind odd_row) = None"
  shows "entries' = entries @ es \<and>
    rehydrate_admin memory_admin_store m' stale = (map admin_ms entries', Inr ()) \<and>
    rehydrate_admin memory_admin_store (m'\<lparr>ms_admin_log := odd_row # ms_admin_log m'\<rparr>) stale =
      (map admin_ms entries', Inr ())"
proof -
  have "decoded_rows (ms_admin_log m) = map admin_ms entries"
    using assms(1) by (simp add: rehydrate_admin_def memory_admin_store_def load_all_admin_entries_def)
  moreover have "admin_log_entry_from_persisted odd_row = Inl (''unknown admin_log kind \"'' @ pe_kind odd_row @ ''\"'')"
    using assms(3) by (simp add: admin_log_entry_from_persisted_def)
  ultimately show ?thesis
    using admin_record_all_memory [OF assms(2)]
    by (simp add: rehydrate_admin_def memory_admin_store_def load_all_admin_entries_def)
qed

definition sample_entry :: admin_log_entry where
  "sample_entry = \<lparr>ae_kind = AK_SubjectMerge, ae_admin_plugin = ''admin'', ae_target_plugin = None,
     ae_target_subject = Some ''new'', ae_target_addressing = None, ae_target_relation = None,
     ae_additional_subjects = [''a'', ''b''], ae_reason = Some ''dup'', ae_prior_reason = None,
     ae_at = 1500000\<rparr>"

theorem admin_restart_witness:
  "rehydrate_admin memory_admin_store
     (snd (admin_record_all (Some memory_admin_store) [sample_entry] []
        (new_memory_state :: unit memory_state))) [] =
   ([sample_entry\<lparr>ae_at := 1000000\<rparr>], Inr ())"
proof -
  let ?res = "admin_record_all (Some memory_admin_store) [sample_entry] []
        (new_memory_state :: unit memory_state)"
  have 1: "rehydrate_admin memory_admin_store (new_memory_state :: unit memory_state) [] =
      (map admin_ms [], Inr ())"
    by (simp add: rehydrate_admin_def memory_admin_store_def load_all_admin_entries_def
        new_memory_state_def)
  have 2: "?res = (fst ?res, snd ?res)" by simp
  have 3: "kind_from_str (pe_kind (persisted_admin_entry_from sample_entry\<lparr>pe_kind := ''x''\<rparr>)) = None"
    by (simp add: kind_from_str_def)
  have ms: "admin_ms sample_entry = sample_entry\<lparr>ae_at := 1000000\<rparr>"
    by (simp add: admin_ms_def sample_entry_def system_time_to_ms_def ms_to_system_time_def)
  from admin_restart [OF 1 2 3, of "[]"] ms show ?thesis by simp
qed

end
