(* ===== verification/Wiring.thy ===== *)
theory Wiring
  imports Admin Happenings
begin

text \<open>
  The wiring layer (\<open>crates/evo/src/context.rs\<close>): the verbs a plugin or an administrator calls,
  which compose the subject registry, the relation graph, the durable store, the happening bus,
  the admin ledger and the conflict index (\<open>SubjectConflictIndex\<close> of \<open>projections.rs\<close>).

  \<open>steward\<close> is the shared state behind the handles. A verb is a function from a state to a state
  and a result; \<open>wbind\<close> is the \<open>?\<close> operator: it stops at the first refusal and keeps what was
  done before. \<open>wiring_env\<close> is what a call reads from outside: the clock and the UUID generator
  of its \<open>n\<close>-th call site (\<open>we_clk e n\<close> is a clock), JSON serialisation, which handles are
  attached, and \<open>we_fault e n\<close>, the error of the store call made at site \<open>n\<close> (\<open>None\<close> when it
  succeeds; a call that fails leaves the store as it was). \<open>sw_site\<close> counts the sites of the run.
\<close>

section \<open>State and results\<close>

datatype report_error =
    RInvalid string | TargetPluginUnknown string | MergeSelfTarget | MergeSourceUnknown string
  | MergeCrossType string string | MergeInternal string
  | SplitTargetNewIdIndexOutOfBounds nat nat | UnknownPredicate string | UnknownSubjectType string

datatype 'a wresult = Done 'a | Refused report_error | Panicked string

record conflict_index =
  ci_subject_to_conflicts :: "(string, int hset) hmap"
  ci_conflict_to_subjects :: "(int, string list) hmap"

record ('v, 'j) steward =
  sw_registry :: "'v registry_inner"
  sw_graph :: graph_inner
  sw_catalogue :: catalogue
  sw_plugins :: "string list"
  sw_bus :: "'v happening_bus"
  sw_ledger :: "admin_log_entry list"
  sw_conflicts :: conflict_index
  sw_store :: "'j memory_state"
  sw_site :: nat

record ('v, 'j) wiring_env =
  we_clk :: "nat \<Rightarrow> clock"
  we_uid :: "nat \<Rightarrow> uuids"
  we_state_json :: "'v \<Rightarrow> string option"
  we_happening_json :: "'v happening \<Rightarrow> string + 'j"
  we_fault :: "nat \<Rightarrow> persistence_error option"
  we_persistence :: bool
  we_conflict_index :: bool
  we_bus_durable :: bool
  we_ledger_durable :: bool

type_synonym ('v, 'j, 'a) verb = "('v, 'j) steward \<Rightarrow> ('v, 'j) steward \<times> 'a wresult"

definition wreturn :: "'a \<Rightarrow> ('v, 'j, 'a) verb" where
  "wreturn x s = (s, Done x)"

definition refused :: "report_error \<Rightarrow> ('v, 'j, 'a) verb" where
  "refused r s = (s, Refused r)"

definition wbind :: "('v, 'j, 'a) verb \<Rightarrow> ('a \<Rightarrow> ('v, 'j, 'b) verb) \<Rightarrow> ('v, 'j, 'b) verb" where
  "wbind m f s = (case m s of
      (s', Done x) \<Rightarrow> f x s'
    | (s', Refused r) \<Rightarrow> (s', Refused r)
    | (s', Panicked p) \<Rightarrow> (s', Panicked p))"

definition wget :: "(('v, 'j) steward \<Rightarrow> 'a) \<Rightarrow> ('v, 'j, 'a) verb" where
  "wget f s = (s, Done (f s))"

definition wput :: "(('v, 'j) steward \<Rightarrow> ('v, 'j) steward) \<Rightarrow> ('v, 'j, unit) verb" where
  "wput f s = (f s, Done ())"

fun wfor :: "'a list \<Rightarrow> ('a \<Rightarrow> ('v, 'j, unit) verb) \<Rightarrow> ('v, 'j, unit) verb" where
  "wfor [] f = wreturn ()"
| "wfor (x # xs) f = wbind (f x) (\<lambda>_. wfor xs f)"

definition guarded :: "bool \<Rightarrow> report_error \<Rightarrow> ('v, 'j, unit) verb" where
  "guarded ok r = (if ok then wreturn () else refused r)"

text \<open>\<open>ok_or_else\<close> followed by \<open>?\<close>.\<close>

definition require :: "report_error \<Rightarrow> 'a option \<Rightarrow> ('v, 'j, 'a) verb" where
  "require r x = (case x of None \<Rightarrow> refused r | Some y \<Rightarrow> wreturn y)"

text \<open>The next call site.\<close>

definition site :: "('v, 'j, nat) verb" where
  "site s = (s\<lparr>sw_site := Suc (sw_site s)\<rparr>, Done (sw_site s))"

definition now :: "('v, 'j) wiring_env \<Rightarrow> ('v, 'j, systime) verb" where
  "now e = wbind site (\<lambda>n. wreturn (we_clk e n 0))"

section \<open>Calls into the components\<close>

text \<open>A registry operation: the result of the component and its error text.\<close>

definition on_registry ::
    "(nat \<Rightarrow> 'v registry_inner \<Rightarrow> ('v registry_inner \<times> 'a) outcome) \<Rightarrow> (steward_error \<Rightarrow> report_error)
       \<Rightarrow> ('v, 'j, 'a) verb" where
  "on_registry f err = wbind site (\<lambda>n s. case f n (sw_registry s) of
      Ok (r, x) \<Rightarrow> (s\<lparr>sw_registry := r\<rparr>, Done x)
    | Err x \<Rightarrow> (s, Refused (err x))
    | Panic p \<Rightarrow> (s, Panicked p))"

definition on_graph ::
    "(nat \<Rightarrow> graph_inner \<Rightarrow> (graph_inner \<times> 'a) outcome) \<Rightarrow> (steward_error \<Rightarrow> report_error)
       \<Rightarrow> ('v, 'j, 'a) verb" where
  "on_graph f err = wbind site (\<lambda>n s. case f n (sw_graph s) of
      Ok (g, x) \<Rightarrow> (s\<lparr>sw_graph := g\<rparr>, Done x)
    | Err x \<Rightarrow> (s, Refused (err x))
    | Panic p \<Rightarrow> (s, Panicked p))"

text \<open>A store call: \<open>try_store\<close> gives the error to the caller, \<open>persist\<close> refuses with it and is
  skipped without a store handle.\<close>

definition try_store ::
    "('v, 'j) wiring_env \<Rightarrow> ('j memory_state \<Rightarrow> persistence_error + 'j memory_state \<times> 'a)
       \<Rightarrow> ('v, 'j, persistence_error + 'a) verb" where
  "try_store e f = wbind site (\<lambda>n s. case we_fault e n of
      Some err \<Rightarrow> (s, Done (Inl err))
    | None \<Rightarrow> (case f (sw_store s) of
        Inl err \<Rightarrow> (s, Done (Inl err))
      | Inr (m, x) \<Rightarrow> (s\<lparr>sw_store := m\<rparr>, Done (Inr x))))"

definition persist ::
    "('v, 'j) wiring_env \<Rightarrow> string \<Rightarrow> ('j memory_state \<Rightarrow> persistence_error + 'j memory_state)
       \<Rightarrow> ('v, 'j, unit) verb" where
  "persist e what f =
     (if we_persistence e then
        wbind (try_store e (\<lambda>m. map_sum id (\<lambda>m'. (m', ())) (f m))) (\<lambda>res. case res of
            Inl err \<Rightarrow> refused (RInvalid (what @ display_persistence_error err))
          | Inr _ \<Rightarrow> wreturn ())
      else wreturn ())"

text \<open>The store behind the bus and the ledger, with the fault of the site.\<close>

definition faulty_happening_store ::
    "persistence_error option \<Rightarrow> ('j memory_state, 'j) happening_store" where
  "faulty_happening_store fault = memory_happening_store\<lparr>
     hp_record_happening := (\<lambda>seq kind payload at_ms m. case fault of
        Some err \<Rightarrow> (m, Inl err)
      | None \<Rightarrow> hp_record_happening memory_happening_store seq kind payload at_ms m)\<rparr>"

definition faulty_admin_store ::
    "persistence_error option \<Rightarrow> 'j memory_state admin_store" where
  "faulty_admin_store fault = memory_admin_store\<lparr>
     ad_record_admin_entry := (\<lambda>entry m. case fault of
        Some err \<Rightarrow> (m, Inl err)
      | None \<Rightarrow> ad_record_admin_entry memory_admin_store entry m)\<rparr>"

definition emit_or_refuse :: "('v, 'j) wiring_env \<Rightarrow> 'v happening \<Rightarrow> ('v, 'j, unit) verb" where
  "emit_or_refuse e h = wbind site (\<lambda>n s.
     case emit_durable (if we_bus_durable e then Some (faulty_happening_store (we_fault e n)) else None)
            (we_happening_json e) (we_clk e n 0) h (sw_bus s) (sw_store s) of
       (b, m, Inl err) \<Rightarrow> (s\<lparr>sw_bus := b, sw_store := m\<rparr>,
          Refused (RInvalid (''persistence write failed: '' @ display_persistence_error err)))
     | (b, m, Inr _) \<Rightarrow> (s\<lparr>sw_bus := b, sw_store := m\<rparr>, Done ()))"

definition record_or_refuse :: "('v, 'j) wiring_env \<Rightarrow> admin_log_entry \<Rightarrow> ('v, 'j, unit) verb" where
  "record_or_refuse e entry = wbind site (\<lambda>n s.
     case admin_record (if we_ledger_durable e then Some (faulty_admin_store (we_fault e n)) else None)
            entry (sw_ledger s) (sw_store s) of
       (l, m, Inl err) \<Rightarrow> (s\<lparr>sw_ledger := l, sw_store := m\<rparr>,
          Refused (RInvalid (''admin ledger write failed: '' @ display_persistence_error err)))
     | (l, m, Inr _) \<Rightarrow> (s\<lparr>sw_ledger := l, sw_store := m\<rparr>, Done ()))"

section \<open>Conflict index\<close>

definition new_conflict_index :: conflict_index where
  "new_conflict_index = \<lparr>ci_subject_to_conflicts = [], ci_conflict_to_subjects = []\<rparr>"

definition conflict_record :: "int \<Rightarrow> string list \<Rightarrow> conflict_index \<Rightarrow> conflict_index" where
  "conflict_record conflict_id canonical_ids ix = \<lparr>
     ci_subject_to_conflicts =
       fold (\<lambda>i. index_add i conflict_id) canonical_ids (ci_subject_to_conflicts ix),
     ci_conflict_to_subjects = hm_insert conflict_id canonical_ids (ci_conflict_to_subjects ix)\<rparr>"

definition conflict_resolve :: "int \<Rightarrow> conflict_index \<Rightarrow> conflict_index" where
  "conflict_resolve conflict_id ix =
     (case hm_get (ci_conflict_to_subjects ix) conflict_id of
        None \<Rightarrow> ix
      | Some ids \<Rightarrow> \<lparr>
          ci_subject_to_conflicts =
            fold (\<lambda>i. index_del i conflict_id) ids (ci_subject_to_conflicts ix),
          ci_conflict_to_subjects = hm_remove conflict_id (ci_conflict_to_subjects ix)\<rparr>)"

definition conflicts_for :: "conflict_index \<Rightarrow> string \<Rightarrow> int list" where
  "conflicts_for ix canonical_id = sort (bucket (ci_subject_to_conflicts ix) canonical_id)"

text \<open>The scan after an operation that retires ids. Its own store errors are logged only.\<close>

definition live_count :: "'v registry_inner \<Rightarrow> string list \<Rightarrow> nat" where
  "live_count r ids = length (filter (\<lambda>i. describe r i \<noteq> None) ids)"

definition resolve_one ::
    "('v, 'j) wiring_env \<Rightarrow> string \<Rightarrow> u64 \<Rightarrow> pending_conflict \<Rightarrow> ('v, 'j, unit) verb" where
  "resolve_one e kind at_ms c =
     wbind (wget sw_registry) (\<lambda>r.
       if pf_canonical_ids c \<noteq> [] \<and> live_count r (pf_canonical_ids c) \<le> 1 then
         wbind (try_store e (\<lambda>m. Inr (mark_conflict_resolved (pf_id c) kind at_ms m, ())))
           (\<lambda>res. case res of
              Inl _ \<Rightarrow> wreturn ()
            | Inr _ \<Rightarrow> wput (\<lambda>s. s\<lparr>sw_conflicts := conflict_resolve (pf_id c) (sw_conflicts s)\<rparr>))
       else wreturn ())"

definition resolve_conflicts_after_admin_op ::
    "('v, 'j) wiring_env \<Rightarrow> string \<Rightarrow> u64 \<Rightarrow> ('v, 'j, unit) verb" where
  "resolve_conflicts_after_admin_op e kind at_ms =
     (if we_persistence e \<and> we_conflict_index e then
        wbind (try_store e (\<lambda>m. Inr (m, list_pending_conflicts m))) (\<lambda>res. case res of
            Inl _ \<Rightarrow> wreturn ()
          | Inr pending \<Rightarrow> wfor pending (resolve_one e kind at_ms))
      else wreturn ())"

section \<open>Subject announcer\<close>

definition SUBJECT_STATE_MAX_BYTES :: nat where
  "SUBJECT_STATE_MAX_BYTES = 512 * 1024"

text \<open>The size cap; a state that does not serialise has length \<open>usize::MAX\<close>.\<close>

definition check_state_size :: "('v, 'j) wiring_env \<Rightarrow> 'v option \<Rightarrow> ('v, 'j, unit) verb" where
  "check_state_size e state =
     (case state of
        None \<Rightarrow> wreturn ()
      | Some v \<Rightarrow>
          let state_len = (case we_state_json e v of None \<Rightarrow> 2 ^ 64 - 1 | Some t \<Rightarrow> length t)
          in guarded (state_len \<le> SUBJECT_STATE_MAX_BYTES)
               (RInvalid (''subject state payload '' @ show_nat state_len @ '' bytes exceeds cap of '' @
                  show_nat SUBJECT_STATE_MAX_BYTES @ '' bytes'')))"

fun persisted_claim_from_subject_claim :: "subject_claim \<Rightarrow> persisted_claim" where
  "persisted_claim_from_subject_claim (SC_Equivalent a b confidence reason) =
     PC_Equivalent a b confidence reason"
| "persisted_claim_from_subject_claim (SC_Distinct a b reason) = PC_Distinct a b reason"

fun announced_id :: "announce_outcome \<Rightarrow> string option" where
  "announced_id (Created i) = Some i"
| "announced_id (Updated i) = Some i"
| "announced_id (NoChange i) = Some i"
| "announced_id (Conflict _) = None"

definition persist_state ::
    "('v, 'j) wiring_env \<Rightarrow> string \<Rightarrow> 'v \<Rightarrow> u64 \<Rightarrow> ('v, 'j, unit) verb" where
  "persist_state e canonical_id state at_ms =
     (case we_state_json e state of
        Some state_json \<Rightarrow> persist e ''subject state persist failed: ''
          (\<lambda>m. Inr (record_subject_state canonical_id state_json at_ms m))
      | None \<Rightarrow> wreturn ())"

definition mirror_announce ::
    "('v, 'j) wiring_env \<Rightarrow> string \<Rightarrow> 'v subject_announcement \<Rightarrow> announce_outcome
       \<Rightarrow> ('v, 'j, unit) verb" where
  "mirror_announce e plugin_name ann outc =
     (case announced_id outc of
        None \<Rightarrow> wreturn ()
      | Some canonical_id \<Rightarrow>
          wbind (now e) (\<lambda>at.
            let at_ms = system_time_to_ms at
            in wbind (persist e ''subject announce persist failed: ''
                 (\<lambda>m. Inr (record_subject_announce canonical_id (an_subject_type ann)
                    (an_addressings ann) plugin_name
                    (map persisted_claim_from_subject_claim (an_claims ann)) at_ms m))) (\<lambda>_.
               case (an_state ann, state_target outc) of
                 (Some v, Some _) \<Rightarrow> persist_state e canonical_id v at_ms
               | _ \<Rightarrow> wreturn ())))"

definition surface_conflict ::
    "('v, 'j) wiring_env \<Rightarrow> string \<Rightarrow> external_addressing list \<Rightarrow> string list \<Rightarrow> ('v, 'j, unit) verb" where
  "surface_conflict e plugin_name addressings canonical_ids =
     wbind (now e) (\<lambda>at.
     wbind (emit_or_refuse e (H_SubjectConflictDetected plugin_name addressings canonical_ids at)) (\<lambda>_.
       if we_persistence e then
         wbind (try_store e (\<lambda>m. Inr (record_pending_conflict plugin_name addressings canonical_ids
                  (system_time_to_ms at) m))) (\<lambda>res. case res of
             Inl _ \<Rightarrow> wreturn ()
           | Inr conflict_id \<Rightarrow>
               if we_conflict_index e then
                 wput (\<lambda>s. s\<lparr>sw_conflicts := conflict_record conflict_id canonical_ids (sw_conflicts s)\<rparr>)
               else wreturn ())
       else wreturn ()))"

definition subject_announce ::
    "('v, 'j) wiring_env \<Rightarrow> string \<Rightarrow> 'v subject_announcement \<Rightarrow> ('v, 'j, unit) verb" where
  "subject_announce e plugin_name ann =
     wbind (check_state_size e (an_state ann)) (\<lambda>_.
     wbind (wget sw_catalogue) (\<lambda>cat.
     wbind (guarded (find_subject_type cat (an_subject_type ann) \<noteq> None)
              (UnknownSubjectType (an_subject_type ann))) (\<lambda>_.
     wbind (on_registry (\<lambda>n r. announce r ann plugin_name (we_uid e n) (we_clk e n))
              (\<lambda>err. RInvalid (''announce: '' @ display_error err))) (\<lambda>(_, outc).
     wbind (if we_persistence e then mirror_announce e plugin_name ann outc else wreturn ()) (\<lambda>_.
       case outc of
         Conflict ids \<Rightarrow> surface_conflict e plugin_name (an_addressings ann) ids
       | _ \<Rightarrow> wreturn ())))))"

text \<open>The per-edge part of a forget: the durable row, then the happening.\<close>

definition forget_edge ::
    "('v, 'j) wiring_env \<Rightarrow> string \<Rightarrow> string \<Rightarrow> systime \<Rightarrow> relation_key \<Rightarrow> ('v, 'j, unit) verb" where
  "forget_edge e plugin canonical_id at key =
     wbind (persist e ''relation forget persist failed: ''
              (\<lambda>m. Inr (fst (record_relation_forget (rk_source_id key) (rk_predicate key)
                             (rk_target_id key) m)))) (\<lambda>_.
       emit_or_refuse e (H_RelationForgotten plugin (rk_source_id key) (rk_predicate key)
         (rk_target_id key) (SubjectCascade canonical_id) at))"

definition cascade_forget ::
    "('v, 'j) wiring_env \<Rightarrow> string \<Rightarrow> string \<Rightarrow> systime \<Rightarrow> ('v, 'j, unit) verb" where
  "cascade_forget e plugin canonical_id at =
     wbind (on_graph (\<lambda>_ g. Ok (forget_all_touching g canonical_id)) (\<lambda>_. RInvalid [])) (\<lambda>removed.
       wfor removed (forget_edge e plugin canonical_id at))"

definition subject_retract ::
    "('v, 'j) wiring_env \<Rightarrow> string \<Rightarrow> external_addressing \<Rightarrow> string option \<Rightarrow> ('v, 'j, unit) verb" where
  "subject_retract e plugin_name addressing reason =
     wbind (wget (\<lambda>s. resolve (sw_registry s) addressing)) (\<lambda>pre.
     wbind (on_registry (\<lambda>n r. retract r addressing plugin_name reason (we_clk e n))
              (\<lambda>err. RInvalid (''retract: '' @ display_error err))) (\<lambda>outc.
       case outc of
         AddressingRemoved \<Rightarrow>
           (case pre of
              Some canonical_id \<Rightarrow>
                wbind (now e) (\<lambda>at. persist e ''subject retract persist failed: ''
                  (\<lambda>m. Inr (record_subject_retract canonical_id addressing plugin_name
                               (system_time_to_ms at) m)))
            | None \<Rightarrow> wreturn ())
       | SubjectForgotten canonical_id subject_type \<Rightarrow>
           wbind (now e) (\<lambda>at.
           wbind (persist e ''subject forget persist failed: ''
             (\<lambda>m. Inr (record_subject_forget canonical_id plugin_name None (system_time_to_ms at) m))) (\<lambda>_.
           wbind (persist e ''subject state forget persist failed: ''
             (\<lambda>m. Inr (forget_subject_state canonical_id m))) (\<lambda>_.
           wbind (emit_or_refuse e (H_SubjectForgotten plugin_name canonical_id subject_type at)) (\<lambda>_.
           wbind (cascade_forget e plugin_name canonical_id at) (\<lambda>_.
             resolve_conflicts_after_admin_op e ''forgotten'' (system_time_to_ms at))))))))"

definition update_state_inner ::
    "('v, 'j) wiring_env \<Rightarrow> string \<Rightarrow> external_addressing \<Rightarrow> 'v option \<Rightarrow> bool \<Rightarrow> ('v, 'j, unit) verb" where
  "update_state_inner e plugin_name addressing state persist_durable =
     wbind (check_state_size e state) (\<lambda>_.
     wbind (wget sw_registry) (\<lambda>r.
     wbind (require (RInvalid (''update_state: unknown addressing '' @ addressing_display addressing))
              (resolve r addressing)) (\<lambda>canonical_id.
     wbind (require (RInvalid (''update_state: subject '' @ canonical_id @
              '' disappeared between resolve and describe'')) (describe r canonical_id)) (\<lambda>record.
     wbind (guarded (\<exists>a \<in> set (sr_addressings record). ar_claimant a = plugin_name)
              (RInvalid (''update_state: plugin '' @ plugin_name @ '' has no claim on subject '' @
                 canonical_id))) (\<lambda>_.
     let prev_state = (case state_of r canonical_id of None \<Rightarrow> None | Some v \<Rightarrow> v)
     in wbind (on_registry (\<lambda>n r. update_state r canonical_id state (we_clk e n))
                 (\<lambda>err. RInvalid (''update_state: '' @ display_error err))) (\<lambda>_.
        wbind (if persist_durable \<and> we_persistence e then
                 wbind (now e) (\<lambda>at. case state of
                     None \<Rightarrow> persist e ''subject state forget persist failed: ''
                       (\<lambda>m. Inr (forget_subject_state canonical_id m))
                   | Some v \<Rightarrow> persist_state e canonical_id v (system_time_to_ms at))
               else wreturn ()) (\<lambda>_.
        wbind (now e) (\<lambda>at.
          emit_or_refuse e (H_SubjectStateChanged plugin_name canonical_id (sr_subject_type record)
            prev_state state at)))))))))"

section \<open>Relation announcer\<close>

fun cardinality_exceeded :: "cardinality \<Rightarrow> nat \<Rightarrow> bool" where
  "cardinality_exceeded AtMostOne n = (1 < n)"
| "cardinality_exceeded ExactlyOne n = (1 < n)"
| "cardinality_exceeded AtLeastOne n = False"
| "cardinality_exceeded Many n = False"

definition quoted :: "string \<Rightarrow> string" where
  "quoted x = ''\"'' @ x @ ''\"''"

definition persisted_relation_of ::
    "string \<Rightarrow> string \<Rightarrow> string \<Rightarrow> relation_record \<Rightarrow> persisted_relation" where
  "persisted_relation_of source_id predicate target_id record =
     \<lparr>pr_source_id = source_id, pr_predicate = predicate, pr_target_id = target_id,
      pr_created_at_ms = system_time_to_ms (rr_created_at record),
      pr_modified_at_ms = system_time_to_ms (rr_modified_at record),
      pr_suppressed_admin_plugin = map_option sp_admin_plugin (rr_suppression record),
      pr_suppressed_at_ms = map_option (\<lambda>x. system_time_to_ms (sp_suppressed_at x)) (rr_suppression record),
      pr_suppression_reason = Option.bind (rr_suppression record) sp_reason\<rparr>"

definition persisted_relation_claim_of ::
    "string \<Rightarrow> string \<Rightarrow> string \<Rightarrow> string \<Rightarrow> string option \<Rightarrow> relation_record
       \<Rightarrow> persisted_relation_claim" where
  "persisted_relation_claim_of source_id predicate target_id plugin_name reason record =
     \<lparr>pc_source_id = source_id, pc_predicate = predicate, pc_target_id = target_id,
      pc_claimant = plugin_name,
      pc_asserted_at_ms = (case List.find (\<lambda>c. rc_claimant c = plugin_name) (rr_claims record) of
          Some c \<Rightarrow> system_time_to_ms (rc_asserted_at c)
        | None \<Rightarrow> system_time_to_ms (rr_modified_at record)),
      pc_reason = reason\<rparr>"

definition warn_cardinality ::
    "('v, 'j) wiring_env \<Rightarrow> string \<Rightarrow> string \<Rightarrow> string \<Rightarrow> string \<Rightarrow> cardinality_violation_side
       \<Rightarrow> cardinality \<Rightarrow> (graph_inner \<Rightarrow> nat) \<Rightarrow> ('v, 'j, unit) verb" where
  "warn_cardinality e plugin_name predicate source_id target_id side declared count =
     wbind (wget (\<lambda>s. count (sw_graph s))) (\<lambda>n.
       if cardinality_exceeded declared n then
         wbind (now e) (\<lambda>at. emit_or_refuse e
           (H_RelationCardinalityViolation plugin_name predicate source_id target_id side declared n at))
       else wreturn ())"

record relation_assertion =
  ra_source :: external_addressing
  ra_predicate :: string
  ra_target :: external_addressing
  ra_reason :: "string option"

definition check_types ::
    "relation_predicate \<Rightarrow> relation_assertion \<Rightarrow> 'v registry_inner \<Rightarrow> string \<Rightarrow> string
       \<Rightarrow> ('v, 'j, unit) verb" where
  "check_types predicate a r source_id target_id =
     wbind (require (RInvalid (''assert: source '' @ source_id @ '' resolved but no record found''))
              (describe r source_id)) (\<lambda>source_record.
     wbind (require (RInvalid (''assert: target '' @ target_id @ '' resolved but no record found''))
              (describe r target_id)) (\<lambda>target_record.
     wbind (guarded (type_accepts (rp_source_type predicate) (sr_subject_type source_record))
              (RInvalid (''assert: source subject type '' @ quoted (sr_subject_type source_record) @
                 '' is not accepted by predicate '' @ quoted (ra_predicate a) @
                 '' source_type constraint''))) (\<lambda>_.
       guarded (type_accepts (rp_target_type predicate) (sr_subject_type target_record))
              (RInvalid (''assert: target subject type '' @ quoted (sr_subject_type target_record) @
                 '' is not accepted by predicate '' @ quoted (ra_predicate a) @
                 '' target_type constraint'')))))"

definition mirror_assert ::
    "('v, 'j) wiring_env \<Rightarrow> string \<Rightarrow> relation_assertion \<Rightarrow> string \<Rightarrow> string \<Rightarrow> assert_outcome
       \<Rightarrow> ('v, 'j, unit) verb" where
  "mirror_assert e plugin_name a source_id target_id outc =
     (if we_persistence e \<and> outc \<noteq> RelNoChange then
        wbind (wget (\<lambda>s. describe_relation (sw_graph s) source_id (ra_predicate a) target_id)) (\<lambda>rec.
        wbind (require (RInvalid ''post-assert relation describe missing'') rec) (\<lambda>record.
          persist e ''relation persist failed: '' (\<lambda>m. Inr (record_relation_assert
            (persisted_relation_of source_id (ra_predicate a) target_id record)
            (persisted_relation_claim_of source_id (ra_predicate a) target_id plugin_name
               (ra_reason a) record) m))))
      else wreturn ())"

definition relation_assert ::
    "('v, 'j) wiring_env \<Rightarrow> string \<Rightarrow> relation_assertion \<Rightarrow> ('v, 'j, unit) verb" where
  "relation_assert e plugin_name a =
     wbind (wget sw_catalogue) (\<lambda>cat.
     wbind (require (UnknownPredicate (ra_predicate a)) (find_predicate cat (ra_predicate a))) (\<lambda>predicate.
     wbind (wget sw_registry) (\<lambda>r.
     wbind (require (RInvalid (''assert: source addressing '' @ addressing_display (ra_source a) @
              '' is not registered'')) (resolve r (ra_source a))) (\<lambda>source_id.
     wbind (require (RInvalid (''assert: target addressing '' @ addressing_display (ra_target a) @
              '' is not registered'')) (resolve r (ra_target a))) (\<lambda>target_id.
     wbind (check_types predicate a r source_id target_id) (\<lambda>_.
     wbind (on_graph (\<lambda>n g. rel_assert g source_id (ra_predicate a) target_id plugin_name
                               (ra_reason a) (we_clk e n))
              (\<lambda>err. RInvalid (''assert: '' @ display_error err))) (\<lambda>outc.
     wbind (mirror_assert e plugin_name a source_id target_id outc) (\<lambda>_.
     wbind (warn_cardinality e plugin_name (ra_predicate a) source_id target_id SideSource
              (rp_source_cardinality predicate) (\<lambda>g. forward_count g source_id (ra_predicate a))) (\<lambda>_.
       warn_cardinality e plugin_name (ra_predicate a) source_id target_id SideTarget
              (rp_target_cardinality predicate) (\<lambda>g. inverse_count g target_id (ra_predicate a)))))))))))"

definition relation_retract ::
    "('v, 'j) wiring_env \<Rightarrow> string \<Rightarrow> relation_assertion \<Rightarrow> ('v, 'j, unit) verb" where
  "relation_retract e plugin_name a =
     wbind (wget sw_catalogue) (\<lambda>cat.
     wbind (guarded (find_predicate cat (ra_predicate a) \<noteq> None) (UnknownPredicate (ra_predicate a))) (\<lambda>_.
     wbind (wget sw_registry) (\<lambda>r.
     wbind (require (RInvalid (''retract: source addressing '' @ addressing_display (ra_source a) @
              '' is not registered'')) (resolve r (ra_source a))) (\<lambda>source_id.
     wbind (require (RInvalid (''retract: target addressing '' @ addressing_display (ra_target a) @
              '' is not registered'')) (resolve r (ra_target a))) (\<lambda>target_id.
     wbind (on_graph (\<lambda>n g. rel_retract g source_id (ra_predicate a) target_id plugin_name (we_clk e n))
              (\<lambda>err. RInvalid (''retract: '' @ display_error err))) (\<lambda>outc.
     wbind (if we_persistence e then
              wbind (now e) (\<lambda>at. persist e ''relation retract persist failed: ''
                (\<lambda>m. Inr (fst (record_relation_retract source_id (ra_predicate a) target_id plugin_name
                   (system_time_to_ms at) (outc = RelRelationForgotten) m))))
            else wreturn ()) (\<lambda>_.
       if outc = RelRelationForgotten then
         wbind (now e) (\<lambda>at. emit_or_refuse e (H_RelationForgotten plugin_name source_id
           (ra_predicate a) target_id (ClaimsRetracted plugin_name) at))
       else wreturn ())))))))"

section \<open>Subject administration\<close>

definition admin_entry ::
    "admin_log_kind \<Rightarrow> string \<Rightarrow> string option \<Rightarrow> string option \<Rightarrow> external_addressing option
       \<Rightarrow> relation_key option \<Rightarrow> string list \<Rightarrow> string option \<Rightarrow> string option \<Rightarrow> systime
       \<Rightarrow> admin_log_entry" where
  "admin_entry kind admin target_plugin subject addressing relation additional reason prior at =
     \<lparr>ae_kind = kind, ae_admin_plugin = admin, ae_target_plugin = target_plugin,
      ae_target_subject = subject, ae_target_addressing = addressing, ae_target_relation = relation,
      ae_additional_subjects = additional, ae_reason = reason, ae_prior_reason = prior, ae_at = at\<rparr>"

text \<open>The two guards of the forced retractions.\<close>

definition check_target ::
    "string \<Rightarrow> string \<Rightarrow> string \<Rightarrow> ('v, 'j, unit) verb" where
  "check_target what target_plugin admin_plugin =
     wbind (wget sw_plugins) (\<lambda>plugins.
     wbind (guarded (target_plugin \<in> set plugins) (TargetPluginUnknown target_plugin)) (\<lambda>_.
       guarded (target_plugin \<noteq> admin_plugin)
         (RInvalid (what @ '': admin plugin '' @ admin_plugin @
            '' may not target its own claims via the admin path''))))"

definition admin_forced_retract_addressing ::
    "('v, 'j) wiring_env \<Rightarrow> string \<Rightarrow> string \<Rightarrow> external_addressing \<Rightarrow> string option
       \<Rightarrow> ('v, 'j, unit) verb" where
  "admin_forced_retract_addressing e admin_plugin target_plugin addressing reason =
     wbind (check_target ''forced_retract_addressing'' target_plugin admin_plugin) (\<lambda>_.
     wbind (on_registry (\<lambda>n r. forced_retract_addressing r addressing target_plugin admin_plugin
                                 reason (we_clk e n))
              (\<lambda>err. RInvalid (''forced_retract_addressing: '' @ display_error err))) (\<lambda>outc.
       case outc of
         ForcedNotFound \<Rightarrow> wreturn ()
       | ForcedAddressingRemoved canonical_id \<Rightarrow>
           wbind (now e) (\<lambda>at.
           wbind (persist e ''subject retract persist failed: ''
             (\<lambda>m. Inr (record_subject_retract canonical_id addressing target_plugin
                          (system_time_to_ms at) m))) (\<lambda>_.
           wbind (emit_or_refuse e (H_SubjectAddressingForcedRetract admin_plugin target_plugin
             canonical_id (ea_scheme addressing) (ea_value addressing) reason at)) (\<lambda>_.
             record_or_refuse e (admin_entry AK_SubjectAddressingForcedRetract admin_plugin
               (Some target_plugin) (Some canonical_id) (Some addressing) None [] reason None at))))
       | ForcedSubjectForgotten canonical_id subject_type \<Rightarrow>
           wbind (now e) (\<lambda>at.
           wbind (persist e ''subject forget persist failed: ''
             (\<lambda>m. Inr (record_subject_forget canonical_id admin_plugin reason
                          (system_time_to_ms at) m))) (\<lambda>_.
           wbind (emit_or_refuse e (H_SubjectAddressingForcedRetract admin_plugin target_plugin
             canonical_id (ea_scheme addressing) (ea_value addressing) reason at)) (\<lambda>_.
           wbind (emit_or_refuse e (H_SubjectForgotten admin_plugin canonical_id subject_type at)) (\<lambda>_.
           wbind (cascade_forget e admin_plugin canonical_id at) (\<lambda>_.
           wbind (record_or_refuse e (admin_entry AK_SubjectAddressingForcedRetract admin_plugin
               (Some target_plugin) (Some canonical_id) (Some addressing) None [] reason None at)) (\<lambda>_.
             resolve_conflicts_after_admin_op e ''forgotten'' (system_time_to_ms at)))))))))"

text \<open>The bound re-evaluation after a merge or a split.\<close>

definition warn_side ::
    "('v, 'j) wiring_env \<Rightarrow> string \<Rightarrow> string \<Rightarrow> string \<Rightarrow> cardinality_violation_side \<Rightarrow> cardinality
       \<Rightarrow> (graph_inner \<Rightarrow> nat) \<Rightarrow> systime \<Rightarrow> ('v, 'j, unit) verb" where
  "warn_side e admin_plugin subject_id predicate side declared count at =
     (if declared = AtMostOne \<or> declared = ExactlyOne then
        wbind (wget (\<lambda>s. count (sw_graph s))) (\<lambda>n.
          if cardinality_exceeded declared n then
            emit_or_refuse e (H_RelationCardinalityViolatedPostRewrite admin_plugin subject_id
              predicate side declared n at)
          else wreturn ())
      else wreturn ())"

definition emit_post_rewrite_cardinality_violations ::
    "('v, 'j) wiring_env \<Rightarrow> string \<Rightarrow> string hset \<Rightarrow> ('v, 'j, unit) verb" where
  "emit_post_rewrite_cardinality_violations e admin_plugin affected =
     wbind (now e) (\<lambda>at.
     wbind (wget sw_catalogue) (\<lambda>cat.
       wfor (sort affected) (\<lambda>subject_id.
         wfor (ca_relations cat) (\<lambda>rule.
           wbind (warn_side e admin_plugin subject_id (rp_predicate rule) SideTarget
                    (rp_target_cardinality rule)
                    (\<lambda>g. inverse_count g subject_id (rp_predicate rule)) at) (\<lambda>_.
             warn_side e admin_plugin subject_id (rp_predicate rule) SideSource
                    (rp_source_cardinality rule)
                    (\<lambda>g. forward_count g subject_id (rp_predicate rule)) at)))))"

definition unchanged_endpoint :: "string \<Rightarrow> edge_rewrite \<Rightarrow> string" where
  "unchanged_endpoint old_id edge =
     (if rk_source_id (er_old_key edge) = old_id then rk_target_id (er_new_key edge)
      else rk_source_id (er_new_key edge))"

definition rewritten_endpoint :: "string \<Rightarrow> edge_rewrite \<Rightarrow> string" where
  "rewritten_endpoint old_id edge =
     (if rk_source_id (er_old_key edge) = old_id then rk_source_id (er_new_key edge)
      else rk_target_id (er_new_key edge))"

text \<open>The happenings of one rewritten edge: the edge itself, and one per claim it carried. A merge
  names the merged subject, a split the endpoint that was rewritten.\<close>

definition emit_rewritten ::
    "('v, 'j) wiring_env \<Rightarrow> string \<Rightarrow> systime \<Rightarrow> (edge_rewrite \<Rightarrow> string) \<Rightarrow> string \<times> edge_rewrite
       \<Rightarrow> ('v, 'j, unit) verb" where
  "emit_rewritten e admin_plugin at new_id_of = (\<lambda>(old_id, edge).
     emit_or_refuse e (H_RelationRewritten admin_plugin (rk_predicate (er_new_key edge)) old_id
       (new_id_of edge) (unchanged_endpoint old_id edge) at))"

definition emit_reassigned_claims ::
    "('v, 'j) wiring_env \<Rightarrow> string \<Rightarrow> systime \<Rightarrow> (edge_rewrite \<Rightarrow> string) \<Rightarrow> string \<times> edge_rewrite
       \<Rightarrow> ('v, 'j, unit) verb" where
  "emit_reassigned_claims e admin_plugin at new_id_of = (\<lambda>(old_id, edge).
     wfor (er_claims edge) (\<lambda>claim. emit_or_refuse e (H_ClaimReassigned admin_plugin
       (rc_claimant claim) KindRelation old_id (new_id_of edge) None None
       (Some (rk_predicate (er_new_key edge))) (Some (unchanged_endpoint old_id edge)) at)))"

definition emit_transfer ::
    "('v, 'j) wiring_env \<Rightarrow> string \<Rightarrow> systime \<Rightarrow> addressing_transfer \<Rightarrow> ('v, 'j, unit) verb" where
  "emit_transfer e admin_plugin at t =
     emit_or_refuse e (H_ClaimReassigned admin_plugin (at_claimant t) KindAddressing
       (at_old_subject_id t) (at_new_subject_id t) (Some (ea_scheme (at_addressing t)))
       (Some (ea_value (at_addressing t))) None None at)"

definition emit_collapse ::
    "('v, 'j) wiring_env \<Rightarrow> string \<Rightarrow> systime \<Rightarrow> suppression_collapse \<Rightarrow> ('v, 'j, unit) verb" where
  "emit_collapse e admin_plugin at c =
     wfor (sc_demoted_claimants c) (\<lambda>demoted. emit_or_refuse e
       (H_RelationClaimSuppressionCollapsed admin_plugin (rk_source_id (sc_surviving_key c))
         (rk_predicate (sc_surviving_key c)) (rk_target_id (sc_surviving_key c))
         (rc_claimant demoted) (sc_surviving_suppression c) at))"

definition check_merge_types ::
    "'v registry_inner \<Rightarrow> string \<Rightarrow> string \<Rightarrow> ('v, 'j, string option) verb" where
  "check_merge_types r a_id b_id =
     (case (describe r a_id, describe r b_id) of
        (Some rec_a, Some rec_b) \<Rightarrow>
          wbind (guarded (sr_subject_type rec_a = sr_subject_type rec_b)
                   (MergeCrossType (sr_subject_type rec_a) (sr_subject_type rec_b))) (\<lambda>_.
            wreturn (Some (sr_subject_type rec_a)))
      | _ \<Rightarrow> wreturn None)"

definition merge_cascade ::
    "('v, 'j) wiring_env \<Rightarrow> string \<Rightarrow> systime \<Rightarrow> string \<Rightarrow> (string \<times> rewrite_subject_outcome) list
       \<Rightarrow> addressing_transfer list \<Rightarrow> ('v, 'j, unit) verb" where
  "merge_cascade e admin_plugin at new_id outcomes transfers =
     (let edges = concat (map (\<lambda>(old_id, outc). map (Pair old_id) (rso_rewrites outc)) outcomes);
          affected = fold hs_insert (map (\<lambda>(old_id, edge). unchanged_endpoint old_id edge) edges)
                       [new_id]
      in wbind (wfor edges (emit_rewritten e admin_plugin at (\<lambda>_. new_id))) (\<lambda>_.
         wbind (emit_post_rewrite_cardinality_violations e admin_plugin affected) (\<lambda>_.
         wbind (wfor (concat (map (\<lambda>(_, outc). rso_suppression_collapses outc) outcomes))
                  (emit_collapse e admin_plugin at)) (\<lambda>_.
         wbind (wfor edges (emit_reassigned_claims e admin_plugin at (\<lambda>_. new_id))) (\<lambda>_.
           wfor transfers (emit_transfer e admin_plugin at))))))"

definition admin_merge ::
    "('v, 'j) wiring_env \<Rightarrow> string \<Rightarrow> external_addressing \<Rightarrow> external_addressing \<Rightarrow> string option
       \<Rightarrow> ('v, 'j, unit) verb" where
  "admin_merge e admin_plugin target_a target_b reason =
     wbind (wget sw_registry) (\<lambda>r.
     wbind (require (MergeSourceUnknown (addressing_display target_a)) (resolve r target_a)) (\<lambda>a_id.
     wbind (require (MergeSourceUnknown (addressing_display target_b)) (resolve r target_b)) (\<lambda>b_id.
     wbind (guarded (a_id \<noteq> b_id) MergeSelfTarget) (\<lambda>_.
     wbind (check_merge_types r a_id b_id) (\<lambda>subject_type.
     wbind (on_registry (\<lambda>n r. merge_aliases r a_id b_id admin_plugin reason (we_uid e n) (we_clk e n))
              (\<lambda>err. MergeInternal (display_error err))) (\<lambda>merged.
     wbind (case subject_type of
              None \<Rightarrow> wreturn ()
            | Some ty \<Rightarrow> wbind (now e) (\<lambda>at. persist e ''subject merge persist failed: ''
                (\<lambda>m. Inr (record_subject_merge a_id b_id (mo_new_id merged) ty admin_plugin reason
                             (system_time_to_ms at) m)))) (\<lambda>_.
     wbind (now e) (\<lambda>at.
     wbind (emit_or_refuse e (H_SubjectMerged admin_plugin [a_id, b_id] (mo_new_id merged) reason at)) (\<lambda>_.
     wbind (on_graph (\<lambda>n g. rewrite_subject_to g a_id (mo_new_id merged) (we_clk e n))
              (\<lambda>err. MergeInternal (''graph rewrite (source_a): '' @ display_error err))) (\<lambda>rewrite_a.
     wbind (on_graph (\<lambda>n g. rewrite_subject_to g b_id (mo_new_id merged) (we_clk e n))
              (\<lambda>err. MergeInternal (''graph rewrite (source_b): '' @ display_error err))) (\<lambda>rewrite_b.
     wbind (merge_cascade e admin_plugin at (mo_new_id merged)
              [(a_id, rewrite_a), (b_id, rewrite_b)] (mo_addressing_transfers merged)) (\<lambda>_.
     wbind (record_or_refuse e (admin_entry AK_SubjectMerge admin_plugin None
              (Some (mo_new_id merged)) None None [a_id, b_id] reason None at)) (\<lambda>_.
       resolve_conflicts_after_admin_op e ''merged'' (system_time_to_ms at))))))))))))))"

record explicit_relation_assignment =
  ex_source :: external_addressing
  ex_predicate :: string
  ex_target :: external_addressing
  ex_target_new_id_index :: nat

text \<open>Assignments are resolved before the split; those that do not resolve are dropped.\<close>

definition pre_resolve ::
    "'v registry_inner \<Rightarrow> explicit_relation_assignment list
       \<Rightarrow> (nat \<times> (string \<Rightarrow> resolved_split_assignment)) list" where
  "pre_resolve r assignments = List.map_filter (\<lambda>a.
     Option.bind (resolve r (ex_source a)) (\<lambda>s.
     Option.bind (resolve r (ex_target a)) (\<lambda>t.
       Some (ex_target_new_id_index a, \<lambda>new_id. \<lparr>sa_source_id = s, sa_predicate = ex_predicate a,
         sa_target_id = t, sa_target_new_id = new_id\<rparr>)))) assignments"

definition emit_ambiguous ::
    "('v, 'j) wiring_env \<Rightarrow> string \<Rightarrow> systime \<Rightarrow> ambiguous_edge \<Rightarrow> ('v, 'j, unit) verb" where
  "emit_ambiguous e admin_plugin at edge =
     emit_or_refuse e (H_RelationSplitAmbiguous admin_plugin (ae_source_subject edge)
       (ae_predicate edge) (ae_other_endpoint_id edge) (ae_candidate_new_ids edge) at)"

definition split_cascade ::
    "('v, 'j) wiring_env \<Rightarrow> string \<Rightarrow> systime \<Rightarrow> string \<Rightarrow> string list \<Rightarrow> split_relations_outcome
       \<Rightarrow> addressing_transfer list \<Rightarrow> ('v, 'j, unit) verb" where
  "split_cascade e admin_plugin at source_id new_ids outc transfers =
     (let edges = map (Pair source_id) (sro_rewrites outc);
          affected = fold hs_insert (map (\<lambda>(old_id, edge). unchanged_endpoint old_id edge) edges)
                       (fold hs_insert new_ids [])
      in wbind (wfor edges (emit_rewritten e admin_plugin at (rewritten_endpoint source_id))) (\<lambda>_.
         wbind (wfor (sro_ambiguous outc) (emit_ambiguous e admin_plugin at)) (\<lambda>_.
         wbind (emit_post_rewrite_cardinality_violations e admin_plugin affected) (\<lambda>_.
         wbind (wfor edges (emit_reassigned_claims e admin_plugin at (rewritten_endpoint source_id))) (\<lambda>_.
           wfor transfers (emit_transfer e admin_plugin at))))))"

definition assignments_for ::
    "string list \<Rightarrow> (nat \<times> (string \<Rightarrow> resolved_split_assignment)) list
       \<Rightarrow> ('v, 'j, resolved_split_assignment list) verb" where
  "assignments_for new_ids pre s =
     (if \<forall>(idx, _) \<in> set pre. idx < length new_ids
      then (s, Done (map (\<lambda>(idx, mk). mk (new_ids ! idx)) pre))
      else (s, Panicked ''index out of bounds''))"

definition admin_split ::
    "('v, 'j) wiring_env \<Rightarrow> string \<Rightarrow> external_addressing \<Rightarrow> external_addressing list list
       \<Rightarrow> split_relation_strategy \<Rightarrow> explicit_relation_assignment list \<Rightarrow> string option
       \<Rightarrow> ('v, 'j, unit) verb" where
  "admin_split e admin_plugin source groups strategy assignments reason =
     wbind (wget sw_registry) (\<lambda>r.
     wbind (require (RInvalid (''split: source addressing '' @ addressing_display source @
              '' is not registered'')) (resolve r source)) (\<lambda>source_id.
     wbind (case List.find (\<lambda>a. length groups \<le> ex_target_new_id_index a) assignments of
              Some bogus \<Rightarrow> refused (SplitTargetNewIdIndexOutOfBounds (ex_target_new_id_index bogus)
                              (length groups))
            | None \<Rightarrow> wreturn ()) (\<lambda>_.
     let pre = pre_resolve r assignments;
         subject_type = map_option sr_subject_type (describe r source_id)
     in wbind (on_registry (\<lambda>n r. split_subject r source_id groups admin_plugin reason
                              (we_uid e n) (we_clk e n))
                 (\<lambda>err. RInvalid (''split: '' @ display_error err))) (\<lambda>split_out.
        wbind (case subject_type of
                 None \<Rightarrow> wreturn ()
               | Some ty \<Rightarrow> wbind (now e) (\<lambda>at. persist e ''subject split persist failed: ''
                   (record_subject_split source_id (so_new_ids split_out) ty groups admin_plugin
                      reason (system_time_to_ms at)))) (\<lambda>_.
        wbind (assignments_for (so_new_ids split_out) pre) (\<lambda>resolved.
        wbind (now e) (\<lambda>at.
        wbind (emit_or_refuse e (H_SubjectSplit admin_plugin source_id (so_new_ids split_out)
                 strategy reason at)) (\<lambda>_.
        wbind (on_graph (\<lambda>n g. split_relations g source_id (so_new_ids split_out) strategy
                                 resolved (we_clk e n))
                 (\<lambda>err. RInvalid (''split graph: '' @ display_error err))) (\<lambda>outc.
        wbind (split_cascade e admin_plugin at source_id (so_new_ids split_out) outc
                 (so_addressing_transfers split_out)) (\<lambda>_.
        wbind (record_or_refuse e (admin_entry AK_SubjectSplit admin_plugin None (Some source_id)
                 None None (so_new_ids split_out) reason None at)) (\<lambda>_.
          resolve_conflicts_after_admin_op e ''split'' (system_time_to_ms at))))))))))))"

section \<open>Relation administration\<close>

text \<open>Addressings that do not resolve make the verb a silent no-op.\<close>

definition with_endpoints ::
    "external_addressing \<Rightarrow> external_addressing \<Rightarrow> (string \<Rightarrow> string \<Rightarrow> ('v, 'j, unit) verb)
       \<Rightarrow> ('v, 'j, unit) verb" where
  "with_endpoints source target f =
     wbind (wget sw_registry) (\<lambda>r. case resolve r source of
         None \<Rightarrow> wreturn ()
       | Some source_id \<Rightarrow> (case resolve r target of
           None \<Rightarrow> wreturn ()
         | Some target_id \<Rightarrow> f source_id target_id))"

definition admin_forced_retract_claim ::
    "('v, 'j) wiring_env \<Rightarrow> string \<Rightarrow> string \<Rightarrow> external_addressing \<Rightarrow> string \<Rightarrow> external_addressing
       \<Rightarrow> string option \<Rightarrow> ('v, 'j, unit) verb" where
  "admin_forced_retract_claim e admin_plugin target_plugin source predicate target reason =
     wbind (check_target ''forced_retract_claim'' target_plugin admin_plugin) (\<lambda>_.
     with_endpoints source target (\<lambda>source_id target_id.
     wbind (on_graph (\<lambda>n g. forced_retract_claim g source_id predicate target_id target_plugin
                              (we_clk e n))
              (\<lambda>err. RInvalid (''forced_retract_claim: '' @ display_error err))) (\<lambda>outc.
       if outc = FrcNotFound then wreturn ()
       else
         wbind (now e) (\<lambda>at.
         wbind (persist e ''relation retract persist failed: ''
           (\<lambda>m. Inr (fst (record_relation_retract source_id predicate target_id target_plugin
              (system_time_to_ms at) (outc = FrcRelationForgotten) m)))) (\<lambda>_.
         wbind (emit_or_refuse e (H_RelationClaimForcedRetract admin_plugin target_plugin source_id
                  predicate target_id reason at)) (\<lambda>_.
         wbind (if outc = FrcRelationForgotten then
                  emit_or_refuse e (H_RelationForgotten admin_plugin source_id predicate target_id
                    (ClaimsRetracted admin_plugin) at)
                else wreturn ()) (\<lambda>_.
           record_or_refuse e (admin_entry AK_RelationClaimForcedRetract admin_plugin
             (Some target_plugin) None None (Some (mk_key source_id predicate target_id)) []
             reason None at))))))))"

definition admin_suppress ::
    "('v, 'j) wiring_env \<Rightarrow> string \<Rightarrow> external_addressing \<Rightarrow> string \<Rightarrow> external_addressing
       \<Rightarrow> string option \<Rightarrow> ('v, 'j, unit) verb" where
  "admin_suppress e admin_plugin source predicate target reason =
     with_endpoints source target (\<lambda>source_id target_id.
     wbind (on_graph (\<lambda>n g. suppress g source_id predicate target_id admin_plugin reason (we_clk e n))
              (\<lambda>err. RInvalid (''suppress: '' @ display_error err))) (\<lambda>outc.
       case outc of
         AlreadySuppressed \<Rightarrow> wreturn ()
       | SuppressNotFound \<Rightarrow> wreturn ()
       | NewlySuppressed \<Rightarrow>
           wbind (now e) (\<lambda>at.
           wbind (persist e ''relation suppress persist failed: ''
             (\<lambda>m. Inr (fst (record_relation_suppress source_id predicate target_id admin_plugin
                (system_time_to_ms at) reason (system_time_to_ms at) m)))) (\<lambda>_.
           wbind (emit_or_refuse e (H_RelationSuppressed admin_plugin source_id predicate target_id
                    reason at)) (\<lambda>_.
             record_or_refuse e (admin_entry AK_RelationSuppress admin_plugin None None None
               (Some (mk_key source_id predicate target_id)) [] reason None at))))
       | ReasonUpdated old_reason new_reason \<Rightarrow>
           wbind (now e) (\<lambda>at.
           wbind (persist e ''relation suppress reason persist failed: ''
             (\<lambda>m. Inr (fst (record_relation_suppress source_id predicate target_id admin_plugin
                (system_time_to_ms at) new_reason (system_time_to_ms at) m)))) (\<lambda>_.
           wbind (emit_or_refuse e (H_RelationSuppressionReasonUpdated admin_plugin source_id
                    predicate target_id old_reason new_reason at)) (\<lambda>_.
             record_or_refuse e (admin_entry AK_RelationSuppressionReasonUpdated admin_plugin None
               None None (Some (mk_key source_id predicate target_id)) [] new_reason old_reason
               at))))))"

definition admin_unsuppress ::
    "('v, 'j) wiring_env \<Rightarrow> string \<Rightarrow> external_addressing \<Rightarrow> string \<Rightarrow> external_addressing
       \<Rightarrow> ('v, 'j, unit) verb" where
  "admin_unsuppress e admin_plugin source predicate target =
     with_endpoints source target (\<lambda>source_id target_id.
     wbind (on_graph (\<lambda>n g. unsuppress g source_id predicate target_id (we_clk e n))
              (\<lambda>err. RInvalid (''unsuppress: '' @ display_error err))) (\<lambda>outc.
       if outc = Unsuppressed then
         wbind (now e) (\<lambda>at.
         wbind (persist e ''relation unsuppress persist failed: ''
           (\<lambda>m. Inr (fst (record_relation_unsuppress source_id predicate target_id
              (system_time_to_ms at) m)))) (\<lambda>_.
         wbind (emit_or_refuse e (H_RelationUnsuppressed admin_plugin source_id predicate target_id at)) (\<lambda>_.
           record_or_refuse e (admin_entry AK_RelationUnsuppress admin_plugin None None None
             (Some (mk_key source_id predicate target_id)) [] None None at))))
       else wreturn ()))"

section \<open>Subject querier\<close>

record sdk_subject_record =
  sk_id :: string
  sk_subject_type :: string
  sk_addressings :: "(external_addressing \<times> string \<times> u64) list"
  sk_created_at_ms :: u64
  sk_modified_at_ms :: u64

datatype subject_query_result =
    QFound sdk_subject_record
  | QAliased "alias_record list" "sdk_subject_record option"
  | QNotFound

definition project_subject_record :: "subject_record \<Rightarrow> sdk_subject_record" where
  "project_subject_record record =
     \<lparr>sk_id = sr_id record, sk_subject_type = sr_subject_type record,
      sk_addressings = map (\<lambda>a. (ar_addressing a, ar_claimant a, system_time_to_ms (ar_added_at a)))
        (sr_addressings record),
      sk_created_at_ms = system_time_to_ms (sr_created_at record),
      sk_modified_at_ms = system_time_to_ms (sr_modified_at record)\<rparr>"

definition query_describe_alias :: "'v registry_inner \<Rightarrow> string \<Rightarrow> alias_record option" where
  "query_describe_alias r subject_id = (if subject_id = [] then None else describe_alias r subject_id)"

definition MAX_ALIAS_CHAIN_DEPTH :: nat where "MAX_ALIAS_CHAIN_DEPTH = 16"

function alias_loop ::
    "'v registry_inner \<Rightarrow> string \<Rightarrow> alias_record list \<Rightarrow> nat \<Rightarrow> subject_query_result" where
  "alias_loop r current_id chain depth =
     (case describe r current_id of
        Some record \<Rightarrow>
          if chain = [] then QFound (project_subject_record record)
          else QAliased chain (Some (project_subject_record record))
      | None \<Rightarrow>
     (case describe_alias r current_id of
        Some alias_record \<Rightarrow>
          let chain' = chain @ [alias_record]
          in if al_kind alias_record = AliasSplit \<or> length (al_new_ids alias_record) \<noteq> 1
             then QAliased chain' None
             else if MAX_ALIAS_CHAIN_DEPTH \<le> depth + 1 then QAliased chain' None
             else alias_loop r (hd (al_new_ids alias_record)) chain' (depth + 1)
      | None \<Rightarrow> if chain = [] then QNotFound else QAliased chain None))"
  by pat_completeness auto
termination
  by (relation "measure (\<lambda>(r, current_id, chain, depth). MAX_ALIAS_CHAIN_DEPTH - depth)") auto

declare alias_loop.simps [simp del]

definition describe_subject_with_aliases ::
    "'v registry_inner \<Rightarrow> string \<Rightarrow> subject_query_result" where
  "describe_subject_with_aliases r subject_id =
     (if subject_id = [] then QNotFound else alias_loop r subject_id [] 0)"

end
