(* ===== verification/Rehydrate.thy ===== *)
theory Rehydrate
  imports Wiring
begin

text \<open>
  Boot-time reconstruction: \<open>SubjectRegistry::rehydrate_from\<close> and \<open>rehydrate_states_from\<close>
  (\<open>crates/evo/src/subjects.rs\<close>) and \<open>RelationGraph::rehydrate_from\<close>
  (\<open>crates/evo/src/relations.rs\<close>). The store is a record of the loaders they call, with the
  memory store as an instance; \<open>serde_json::from_str\<close> is the parameter \<open>decode\<close>.
\<close>

section \<open>Reports and stores\<close>

record rehydrate_report =
  rh_live_subjects_loaded :: nat
  rh_live_addressings_loaded :: nat
  rh_forgotten_subjects_seen :: nat
  rh_merged_aliases_loaded :: nat
  rh_split_aliases_loaded :: nat
  rh_tombstone_aliases_loaded :: nat
  rh_type_migrated_aliases_loaded :: nat

definition default_report :: rehydrate_report where
  "default_report = \<lparr>rh_live_subjects_loaded = 0, rh_live_addressings_loaded = 0,
     rh_forgotten_subjects_seen = 0, rh_merged_aliases_loaded = 0, rh_split_aliases_loaded = 0,
     rh_tombstone_aliases_loaded = 0, rh_type_migrated_aliases_loaded = 0\<rparr>"

record rehydrate_states_report =
  rt_loaded :: nat
  rt_skipped_orphan :: nat
  rt_skipped_oversize :: nat
  rt_skipped_decode_error :: nat

record 's boot_store =
  bs_load_all_subjects :: "'s \<Rightarrow> persistence_error + persisted_subject list"
  bs_load_all_aliases :: "'s \<Rightarrow> persistence_error + persisted_alias list"
  bs_load_all_subject_states :: "'s \<Rightarrow> persistence_error + persisted_subject_state list"
  bs_load_all_relations ::
    "'s \<Rightarrow> persistence_error + (persisted_relation \<times> persisted_relation_claim list) list"

definition memory_boot_store :: "'j memory_state boot_store" where
  "memory_boot_store = \<lparr>bs_load_all_subjects = Inr \<circ> load_all_subjects,
     bs_load_all_aliases = Inr \<circ> load_all_aliases,
     bs_load_all_subject_states = Inr \<circ> load_all_subject_states,
     bs_load_all_relations = Inr \<circ> load_all_relations\<rparr>"

section \<open>Subjects and aliases\<close>

definition row_addressing :: "persisted_addressing \<Rightarrow> external_addressing" where
  "row_addressing pa = \<lparr>ea_scheme = pa_scheme pa, ea_value = pa_value pa\<rparr>"

definition row_record :: "persisted_addressing \<Rightarrow> addressing_record" where
  "row_record pa = \<lparr>ar_addressing = row_addressing pa, ar_claimant = pa_claimant pa,
     ar_added_at = ms_to_system_time (pa_asserted_at_ms pa)\<rparr>"

definition load_subject ::
    "persisted_subject \<Rightarrow> 'v registry_inner \<times> rehydrate_report
       \<Rightarrow> 'v registry_inner \<times> rehydrate_report" where
  "load_subject ps acc = (let (r, report) = acc in
     if ps_forgotten_at_ms ps \<noteq> None then
       (r, report\<lparr>rh_forgotten_subjects_seen := rh_forgotten_subjects_seen report + 1\<rparr>)
     else
       (r\<lparr>ri_addressings := fold (\<lambda>pa. hm_insert (row_addressing pa) (ps_id ps)) (ps_addressings ps)
                               (ri_addressings r),
          ri_subjects := hm_insert (ps_id ps)
            \<lparr>sr_id = ps_id ps, sr_subject_type = ps_subject_type ps,
             sr_addressings = map row_record (ps_addressings ps),
             sr_created_at = ms_to_system_time (ps_created_at_ms ps),
             sr_modified_at = ms_to_system_time (ps_modified_at_ms ps)\<rparr> (ri_subjects r)\<rparr>,
        report\<lparr>rh_live_addressings_loaded := rh_live_addressings_loaded report + length (ps_addressings ps),
               rh_live_subjects_loaded := rh_live_subjects_loaded report + 1\<rparr>))"

definition group_aliases :: "persisted_alias list \<Rightarrow> (string, persisted_alias list) hmap" where
  "group_aliases rows = fold (\<lambda>pa grouped. hm_insert (pl_old_id pa)
     ((case hm_get grouped (pl_old_id pa) of None \<Rightarrow> [] | Some xs \<Rightarrow> xs) @ [pa]) grouped) rows []"

fun count_alias :: "alias_kind \<Rightarrow> rehydrate_report \<Rightarrow> rehydrate_report" where
  "count_alias AliasMerged report =
     report\<lparr>rh_merged_aliases_loaded := rh_merged_aliases_loaded report + 1\<rparr>"
| "count_alias AliasSplit report =
     report\<lparr>rh_split_aliases_loaded := rh_split_aliases_loaded report + 1\<rparr>"
| "count_alias AliasTombstone report =
     report\<lparr>rh_tombstone_aliases_loaded := rh_tombstone_aliases_loaded report + 1\<rparr>"
| "count_alias AliasTypeMigrated report =
     report\<lparr>rh_type_migrated_aliases_loaded := rh_type_migrated_aliases_loaded report + 1\<rparr>"

definition grouped_alias :: "string \<Rightarrow> persisted_alias list \<Rightarrow> alias_record" where
  "grouped_alias old_id rows = \<lparr>al_old_id = old_id,
     al_new_ids = (if pl_kind (rows ! 0) = AliasTombstone then [] else map pl_new_id rows),
     al_kind = pl_kind (rows ! 0), al_recorded_at_ms = pl_recorded_at_ms (rows ! 0),
     al_admin_plugin = pl_admin_plugin (rows ! 0), al_reason = pl_reason (rows ! 0)\<rparr>"

definition load_alias ::
    "string \<times> persisted_alias list \<Rightarrow> 'v registry_inner \<times> rehydrate_report
       \<Rightarrow> 'v registry_inner \<times> rehydrate_report" where
  "load_alias entry acc = (let (old_id, rows) = entry; (r, report) = acc; al = grouped_alias old_id rows
     in (r\<lparr>ri_aliases := hm_insert old_id al (ri_aliases r)\<rparr>, count_alias (al_kind al) report))"

definition rehydrate_from ::
    "'s boot_store \<Rightarrow> 's \<Rightarrow> 'v registry_inner \<Rightarrow> ('v registry_inner \<times> rehydrate_report) outcome" where
  "rehydrate_from store st r =
     (let counts = (length (ri_subjects r), length (ri_addressings r), length (ri_aliases r))
      in if counts \<noteq> (0, 0, 0) then
        Err (Dispatch (''rehydrate_from refuses to merge into a non-empty registry (subjects='' @
          show_nat (fst counts) @ '', addressings='' @ show_nat (fst (snd counts)) @ '', aliases='' @
          show_nat (snd (snd counts)) @ '')''))
      else case bs_load_all_subjects store st of
        Inl e \<Rightarrow> Err (Dispatch (''rehydrate_from: load_all_subjects failed: '' @ display_persistence_error e))
      | Inr subjects \<Rightarrow> (case bs_load_all_aliases store st of
          Inl e \<Rightarrow> Err (Dispatch (''rehydrate_from: load_all_aliases failed: '' @ display_persistence_error e))
        | Inr aliases \<Rightarrow>
            Ok (fold load_alias (group_aliases aliases) (fold load_subject subjects (r, default_report)))))"

section \<open>States\<close>

definition load_state ::
    "(string \<Rightarrow> string + 'v option) \<Rightarrow> persisted_subject_state
       \<Rightarrow> 'v registry_inner \<times> rehydrate_states_report \<Rightarrow> 'v registry_inner \<times> rehydrate_states_report" where
  "load_state decode row acc = (let (r, report) = acc in
     if \<not> hm_contains (ri_subjects r) (pt_subject_id row) then
       (r, report\<lparr>rt_skipped_orphan := rt_skipped_orphan report + 1\<rparr>)
     else if SUBJECT_STATE_MAX_BYTES < length (pt_state_json row) then
       (r, report\<lparr>rt_skipped_oversize := rt_skipped_oversize report + 1\<rparr>)
     else case decode (pt_state_json row) of
       Inr v \<Rightarrow> (r\<lparr>ri_states := hm_insert (pt_subject_id row) v (ri_states r)\<rparr>,
                 report\<lparr>rt_loaded := rt_loaded report + 1\<rparr>)
     | Inl _ \<Rightarrow> (r, report\<lparr>rt_skipped_decode_error := rt_skipped_decode_error report + 1\<rparr>))"

definition rehydrate_states_from ::
    "'s boot_store \<Rightarrow> (string \<Rightarrow> string + 'v option) \<Rightarrow> 's \<Rightarrow> 'v registry_inner
       \<Rightarrow> ('v registry_inner \<times> rehydrate_states_report) outcome" where
  "rehydrate_states_from store decode st r =
     (case bs_load_all_subject_states store st of
        Inl e \<Rightarrow> Err (Dispatch (''rehydrate_states_from: load_all_subject_states failed: '' @
                     display_persistence_error e))
      | Inr rows \<Rightarrow> Ok (fold (load_state decode) rows
          (r, \<lparr>rt_loaded = 0, rt_skipped_orphan = 0, rt_skipped_oversize = 0, rt_skipped_decode_error = 0\<rparr>)))"

section \<open>Relations\<close>

definition row_suppression :: "persisted_relation \<Rightarrow> suppression_record option" where
  "row_suppression rel = (case (pr_suppressed_admin_plugin rel, pr_suppressed_at_ms rel) of
      (Some admin_plugin, Some at_ms) \<Rightarrow>
        Some \<lparr>sp_admin_plugin = admin_plugin, sp_suppressed_at = ms_to_system_time at_ms,
              sp_reason = pr_suppression_reason rel\<rparr>
    | _ \<Rightarrow> None)"

definition row_relation :: "persisted_relation \<Rightarrow> persisted_relation_claim list \<Rightarrow> relation_record" where
  "row_relation rel claims =
     \<lparr>rr_key = mk_key (pr_source_id rel) (pr_predicate rel) (pr_target_id rel),
      rr_created_at = ms_to_system_time (pr_created_at_ms rel),
      rr_modified_at = ms_to_system_time (pr_modified_at_ms rel),
      rr_claims = map (\<lambda>c. \<lparr>rc_claimant = pc_claimant c,
        rc_asserted_at = ms_to_system_time (pc_asserted_at_ms c), rc_reason = pc_reason c\<rparr>) claims,
      rr_suppression = row_suppression rel\<rparr>"

definition load_relation ::
    "persisted_relation \<times> persisted_relation_claim list \<Rightarrow> graph_inner \<Rightarrow> graph_inner" where
  "load_relation row g = (let (rel, claims) = row; record = row_relation rel claims;
     g1 = (if rr_suppression record = None then index_key (rr_key record) g else g)
     in g1\<lparr>gi_relations := hm_insert (rr_key record) record (gi_relations g1)\<rparr>)"

text \<open>The graph is replaced, whatever it held.\<close>

definition rehydrate_graph ::
    "'s boot_store \<Rightarrow> 's \<Rightarrow> graph_inner \<Rightarrow> persistence_error + graph_inner" where
  "rehydrate_graph store st g =
     (case bs_load_all_relations store st of
        Inl e \<Rightarrow> Inl e
      | Inr rows \<Rightarrow> Inr (fold load_relation rows new_graph))"

end
