(* ===== verification/Wiring_Laws.thy ===== *)
theory Wiring_Laws
  imports Wiring Subject_Laws Relation_Spec
begin

text \<open>
  Reasoning about the verbs of the wiring layer: weakest preconditions with one postcondition
  for a verb that completes and one for a verb that refuses (a panic satisfies neither), the
  notion of a verb that is \<open>silent\<close> for a part of the state, and the effect of each registry
  operation on the types of subjects.
\<close>

named_theorems wps \<open>weakest preconditions, as rewrite rules\<close>
named_theorems silent \<open>verbs that always complete and leave a view of the state alone\<close>

section \<open>Weakest preconditions\<close>

definition wp ::
    "('v, 'j, 'a) verb \<Rightarrow> ('a \<Rightarrow> ('v, 'j) steward \<Rightarrow> bool)
       \<Rightarrow> (report_error \<Rightarrow> ('v, 'j) steward \<Rightarrow> bool) \<Rightarrow> ('v, 'j) steward \<Rightarrow> bool" where
  "wp m Q E s = (case m s of
      (s', Done x) \<Rightarrow> Q x s' | (s', Refused r) \<Rightarrow> E r s' | (s', Panicked _) \<Rightarrow> False)"

lemma wp_wbind [wps]: "wp (wbind m f) Q E s = wp m (\<lambda>x. wp (f x) Q E) E s"
  by (simp add: wp_def wbind_def split: prod.splits wresult.splits)

lemma wp_wreturn [wps]: "wp (wreturn x) Q E s = Q x s"
  by (simp add: wp_def wreturn_def)

lemma wp_refused [wps]: "wp (refused r) Q E s = E r s"
  by (simp add: wp_def refused_def)

lemma wp_wget [wps]: "wp (wget g) Q E s = Q (g s) s"
  by (simp add: wp_def wget_def)

lemma wp_wput [wps]: "wp (wput g) Q E s = Q () (g s)"
  by (simp add: wp_def wput_def)

lemma wp_site [wps]: "wp site Q E s = Q (sw_site s) (s\<lparr>sw_site := Suc (sw_site s)\<rparr>)"
  by (simp add: wp_def site_def)

lemma wp_guarded [wps]: "wp (guarded b r) Q E s = (if b then Q () s else E r s)"
  by (simp add: guarded_def wps)

lemma wp_require [wps]:
  "wp (require r x) Q E s = (case x of None \<Rightarrow> E r s | Some y \<Rightarrow> Q y s)"
  by (simp add: require_def wps split: option.splits)

lemma wp_now [wps]:
  "wp (now e) Q E s = Q (we_clk e (sw_site s) 0) (s\<lparr>sw_site := Suc (sw_site s)\<rparr>)"
  by (simp add: now_def wps)

lemma wp_on_registry [wps]:
  "wp (on_registry f err) Q E s =
     (let s' = s\<lparr>sw_site := Suc (sw_site s)\<rparr> in case f (sw_site s) (sw_registry s) of
        Ok (r, x) \<Rightarrow> Q x (s'\<lparr>sw_registry := r\<rparr>) | Err x \<Rightarrow> E (err x) s' | Panic _ \<Rightarrow> False)"
  by (simp add: on_registry_def wps, simp add: wp_def Let_def split: outcome.splits prod.splits)

lemma wp_on_graph [wps]:
  "wp (on_graph f err) Q E s =
     (let s' = s\<lparr>sw_site := Suc (sw_site s)\<rparr> in case f (sw_site s) (sw_graph s) of
        Ok (g, x) \<Rightarrow> Q x (s'\<lparr>sw_graph := g\<rparr>) | Err x \<Rightarrow> E (err x) s' | Panic _ \<Rightarrow> False)"
  by (simp add: on_graph_def wps, simp add: wp_def Let_def split: outcome.splits prod.splits)

lemma wp_mono:
  "wp m Q E s \<Longrightarrow> (\<And>x s'. Q x s' \<Longrightarrow> Q' x s') \<Longrightarrow> (\<And>r s'. E r s' \<Longrightarrow> E' r s') \<Longrightarrow> wp m Q' E' s"
  by (auto simp: wp_def split: prod.splits wresult.splits)

section \<open>Silent verbs\<close>

definition silent :: "(('v, 'j) steward \<Rightarrow> 'b) \<Rightarrow> ('v, 'j, 'a) verb \<Rightarrow> bool" where
  "silent V m \<longleftrightarrow> (\<forall>s. \<exists>s' x. m s = (s', Done x) \<and> V s' = V s)"

lemma silentD: "silent V m \<Longrightarrow> \<exists>s' x. m s = (s', Done x) \<and> V s' = V s"
  by (simp add: silent_def)

lemma wp_silent:
  assumes "silent V m" "\<And>x s'. V s' = V s \<Longrightarrow> Q x s'"
  shows "wp m Q E s"
  using silentD [OF assms(1), of s] assms(2) by (auto simp: wp_def)

lemma silent_wbind [silent]:
  assumes "silent V m" "\<And>x. silent V (f x)"
  shows "silent V (wbind m f)"
  unfolding silent_def
proof
  fix s
  obtain s1 x where 1: "m s = (s1, Done x)" "V s1 = V s" using silentD [OF assms(1)] by blast
  obtain s2 y where 2: "f x s1 = (s2, Done y)" "V s2 = V s1" using silentD [OF assms(2)] by blast
  show "\<exists>s' x. wbind m f s = (s', Done x) \<and> V s' = V s"
    using 1 2 by (simp add: wbind_def)
qed

lemma silent_return [silent]: "silent V (wreturn x)"
  by (simp add: silent_def wreturn_def)

lemma silent_get [silent]: "silent V (wget g)"
  by (simp add: silent_def wget_def)

lemma silent_for [silent]: "(\<And>x. x \<in> set xs \<Longrightarrow> silent V (f x)) \<Longrightarrow> silent V (wfor xs f)"
  by (induction xs) (auto intro!: silent)

lemma silent_if [silent]: "silent V m \<Longrightarrow> silent V m' \<Longrightarrow> silent V (if b then m else m')"
  by simp

lemma silent_weaken:
  assumes "silent V m" "\<And>s s'. V s' = V s \<Longrightarrow> W s' = W s"
  shows "silent W m"
  using assms unfolding silent_def by meson

text \<open>No store call fails and every happening serialises.\<close>

definition quiet :: "('v, 'j) wiring_env \<Rightarrow> bool" where
  "quiet e \<longleftrightarrow> (\<forall>n. we_fault e n = None) \<and> (\<forall>h. \<exists>j. we_happening_json e h = Inr j)"

lemma quietD: "quiet e \<Longrightarrow> we_fault e n = None" "quiet e \<Longrightarrow> \<exists>j. we_happening_json e h = Inr j"
  by (auto simp: quiet_def)

text \<open>Everything but the bus, the ledger, their logs and the site counter.\<close>

definition settled :: "'j memory_state \<Rightarrow> 'j memory_state" where
  "settled m = m\<lparr>ms_happenings := [], ms_admin_log := [], ms_next_admin_id := 0\<rparr>"

definition outer_view :: "('v, 'j) steward \<Rightarrow> 'v registry_inner \<times> graph_inner \<times> catalogue \<times>
    string list \<times> conflict_index \<times> 'j memory_state" where
  "outer_view s = (sw_registry s, sw_graph s, sw_catalogue s, sw_plugins s, sw_conflicts s,
     settled (sw_store s))"

text \<open>The part the identity invariant speaks of.\<close>

definition core :: "('v, 'j) steward \<Rightarrow> 'v registry_inner \<times> graph_inner \<times> catalogue \<times>
    string list" where
  "core s = (sw_registry s, sw_graph s, sw_catalogue s, sw_plugins s)"

lemma core_site [simp]: "core (s\<lparr>sw_site := n\<rparr>) = core s"
  by (simp add: core_def)

lemma outer_site [simp]: "outer_view (s\<lparr>sw_site := n\<rparr>) = outer_view s"
  by (simp add: outer_view_def)

lemma outer_core: "outer_view s' = outer_view s \<Longrightarrow> core s' = core s"
  by (simp add: outer_view_def core_def)

lemma silent_core: "silent outer_view m \<Longrightarrow> silent core m"
  by (rule silent_weaken [OF _ outer_core])

lemma silent_site [silent]:
  "(\<And>s n. V (s\<lparr>sw_site := n\<rparr>) = V s) \<Longrightarrow> silent V site"
  by (auto simp: silent_def site_def)

lemma silent_now [silent]:
  "(\<And>s n. V (s\<lparr>sw_site := n\<rparr>) = V s) \<Longrightarrow> silent V (now e)"
  by (auto simp: silent_def site_def now_def wbind_def wreturn_def)

lemma emit_quiet:
  assumes "quiet e"
  shows "\<exists>b hs n. emit_or_refuse e h s =
    (s\<lparr>sw_bus := b, sw_store := (sw_store s)\<lparr>ms_happenings := hs\<rparr>, sw_site := n\<rparr>, Done ()) \<and>
    hb_tx b = hb_tx (sw_bus s) @ [h]"
proof -
  obtain j where j: "we_happening_json e h = Inr j" using quietD(2) [OF assms] by blast
  have f: "we_fault e n = None" for n using quietD(1) [OF assms] .
  show ?thesis
    by (rule exI [of _ "broadcast (hb_next_seq (sw_bus s)) h (mint_seqs 1 (sw_bus s))"],
        rule exI [of _ "if we_bus_durable e then ms_happenings (record_happening (hb_next_seq (sw_bus s))
          (happening_kind_str h) j (system_time_to_ms (we_clk e (sw_site s) 0)) (sw_store s))
          else ms_happenings (sw_store s)"], rule exI [of _ "Suc (sw_site s)"])
      (simp add: emit_or_refuse_def wbind_def site_def emit_durable_def j f
        faulty_happening_store_def memory_happening_store_def emit_def Let_def record_happening_def
        broadcast_def mint_seqs_def)
qed

lemma silent_emit [silent]: "quiet e \<Longrightarrow> silent outer_view (emit_or_refuse e h)"
  unfolding silent_def using emit_quiet [of e h]
  by (fastforce simp: outer_view_def settled_def)

lemma record_quiet:
  assumes "quiet e"
  shows "\<exists>s'. record_or_refuse e entry s = (s', Done ()) \<and> outer_view s' = outer_view s \<and>
    sw_bus s' = sw_bus s \<and> sw_ledger s' = sw_ledger s @ [entry]"
  using quietD(1) [OF assms]
  by (cases "we_ledger_durable e")
    (auto simp: record_or_refuse_def wbind_def site_def admin_record_def faulty_admin_store_def
      memory_admin_store_def record_admin_entry_def Let_def outer_view_def settled_def)

lemma silent_record [silent]: "quiet e \<Longrightarrow> silent outer_view (record_or_refuse e entry)"
  unfolding silent_def using record_quiet [of e entry] by blast

lemma wp_try_store:
  assumes "quiet e"
  shows "wp (try_store e f) Q E s = (let s' = s\<lparr>sw_site := Suc (sw_site s)\<rparr> in
     case f (sw_store s) of Inl err \<Rightarrow> Q (Inl err) s' | Inr (m, x) \<Rightarrow> Q (Inr x) (s'\<lparr>sw_store := m\<rparr>))"
  using quietD(1) [OF assms]
  by (simp add: try_store_def wps, simp add: wp_def Let_def split: sum.splits prod.splits)

lemma wp_persist:
  assumes "quiet e"
  shows "wp (persist e what f) Q E s =
     (if we_persistence e then
        let s' = s\<lparr>sw_site := Suc (sw_site s)\<rparr> in case f (sw_store s) of
          Inl err \<Rightarrow> E (RInvalid (what @ display_persistence_error err)) s'
        | Inr m \<Rightarrow> Q () (s'\<lparr>sw_store := m\<rparr>)
      else Q () s)"
  by (simp add: persist_def wps wp_try_store [OF assms] Let_def split: sum.splits)

lemma core_store [simp]: "core (s\<lparr>sw_store := m\<rparr>) = core s"
  by (simp add: core_def)

lemma core_conflicts [simp]: "core (s\<lparr>sw_conflicts := m\<rparr>) = core s"
  by (simp add: core_def)

lemma silentI_wp:
  assumes "\<And>s. wp m (\<lambda>_ s'. V s' = V s) (\<lambda>_ _. False) s"
  shows "silent V m"
  unfolding silent_def
proof
  fix s
  obtain s' res where m: "m s = (s', res)" by fastforce
  with assms [of s] show "\<exists>s' x. m s = (s', Done x) \<and> V s' = V s"
    by (cases res) (auto simp: wp_def)
qed

lemma silent_persist [silent]:
  fixes e :: "('a, 'b) wiring_env"
  assumes "quiet e" "\<And>m. \<exists>m'. f m = Inr m'"
  shows "silent core (persist e what f)"
proof (rule silentI_wp)
  fix s :: "('a, 'b) steward"
  obtain m' where "f (sw_store s) = Inr m'" using assms(2) by blast
  then show "wp (persist e what f) (\<lambda>_ s'. core s' = core s) (\<lambda>_ _. False) s"
    by (simp add: wp_persist [OF assms(1)] Let_def)
qed

lemma silent_resolve [silent]:
  assumes "quiet e"
  shows "silent core (resolve_conflicts_after_admin_op e kind at_ms)"
proof -
  have one: "silent core (resolve_one e kind at_ms c)" for c
    by (rule silentI_wp) (simp add: resolve_one_def wps wp_try_store [OF assms] Let_def)
  have all: "silent core (wfor cs (resolve_one e kind at_ms))" for cs
    by (intro silent one)
  show ?thesis
    by (rule silentI_wp)
      (auto simp: resolve_conflicts_after_admin_op_def wps wp_try_store [OF assms] Let_def
        intro!: wp_silent [OF all])
qed

section \<open>Types of subjects\<close>

definition type_of :: "'v registry_inner \<Rightarrow> string \<Rightarrow> string option" where
  "type_of r i = map_option sr_subject_type (describe r i)"

lemma type_of_upd:
  "hm_get (ri_subjects r') = hm_get (ri_subjects r) \<Longrightarrow> type_of r' = type_of r"
  by (simp add: type_of_def describe_def fun_eq_iff)

lemma announce_types:
  assumes "reg_inv r" "fresh_ids r uid 1" "announce r ann c uid clk = Ok (r', upd, out)"
  shows "type_of r \<subseteq>\<^sub>m type_of r' \<and> dom (type_of r') \<subseteq> insert (uid 0) (dom (type_of r))"
proof -
  let ?r1 = "record_announced_claims r (an_claims ann) c (clk 0)"
  obtain r2 where cl: "announce_classify r ?r1 ann c (uid 0) (clk 0) = (r2, out)"
    and r': "r' = fst (announce_state r2 (an_state ann) out (clk 1))"
    using announce_OkE [OF assms(3)] by metis
  have new: "hm_get (ri_subjects r) (uid 0) = None"
    using assms(2) by (auto simp: fresh_ids_def known_ids_def)
  have "type_of r \<subseteq>\<^sub>m type_of r2 \<and> dom (type_of r2) \<subseteq> insert (uid 0) (dom (type_of r))"
  proof (rule classify_cases [of r ?r1 ann c "uid 0" "clk 0"])
    assume "announce_classify r ?r1 ann c (uid 0) (clk 0) =
        (announce_create ?r1 ann c (uid 0) (clk 0), Created (uid 0))"
    with cl new show ?thesis
      by (auto simp: announce_create_def Let_def map_le_def type_of_def describe_def
          record_announced_claims_def split: if_splits)
  next
    fix j
    assume "announce_classify r ?r1 ann c (uid 0) (clk 0) =
        (announce_join ?r1 j (announce_unresolved r (an_addressings ann)) c (clk 0), Updated j)"
    with cl show ?thesis
      by (auto simp: announce_join_def Let_def map_le_def type_of_def describe_def
          record_announced_claims_def split: if_splits option.splits)
  next
    fix j assume "announce_classify r ?r1 ann c (uid 0) (clk 0) = (?r1, NoChange j)"
    with cl show ?thesis
      by (auto simp: map_le_def type_of_def describe_def record_announced_claims_def)
  next
    fix ids
    assume "announce_classify r ?r1 ann c (uid 0) (clk 0) =
        (announce_conflict ?r1 (an_addressings ann) ids c (clk 0), Conflict ids)"
    with cl show ?thesis
      by (auto simp: announce_conflict_def map_le_def type_of_def describe_def
          record_announced_claims_def)
  qed
  moreover have "type_of r' = type_of r2" using r' by (intro type_of_upd) simp
  ultimately show ?thesis by simp
qed

lemma update_state_types:
  "update_state r i st clk = Ok (r', upd) \<Longrightarrow> type_of r' = type_of r"
  by (auto simp: update_state_def type_of_def describe_def fun_eq_iff split: option.splits if_splits)

lemma retracted_types:
  assumes "reg_inv r" "owned_claim r a c i rec idx"
  shows "type_of (retracted r a plugin reason clk i rec idx) =
    (if sr_addressings (without_claim rec idx (clk 0)) = [] then (type_of r)(i := None) else type_of r)"
proof -
  have "hm_get (ri_subjects r) i = Some rec" using assms(2) by (simp add: owned_claim_def)
  then show ?thesis
    using retracted_maps(2) [OF assms, of plugin reason clk]
    by (auto simp: type_of_def describe_def fun_eq_iff without_claim_def)
qed

lemma merged_types:
  assumes "hm_get (ri_subjects r) a = Some ra"
  shows "type_of (merged_registry r a b ra rb ap reason n t) =
    (type_of r)(a := None, b := None, n := type_of r a)"
  using assms
  by (auto simp: type_of_def describe_def fun_eq_iff merged_registry_def merged_record_def)

lemma split_types:
  assumes "hm_get (ri_subjects r) src = Some rec" "fresh_ids r uid (length groups)"
    "split_check rec groups = None"
  shows "type_of (split_registry r src rec (zip (map uid [0..<length groups]) groups) ap reason t) =
    (\<lambda>j. if j = src then None else if j \<in> uid ` {0..<length groups} then type_of r src else type_of r j)"
proof -
  let ?zs = "zip (map uid [0..<length groups]) groups"
  have d: "distinct (map fst ?zs)" using split_zip_facts(1) [OF assms(3,2)] .
  have dom: "dom (map_of ?zs) = uid ` {0..<length groups}"
    by (simp add: dom_map_of_conv_image_fst del: set_map flip: list.set_map) (simp only: set_map set_upt)
  note m = split_registry_maps(1) [OF assms(2,3), of src ap reason t]
  show ?thesis
  proof
    fix j
    show "type_of (split_registry r src rec ?zs ap reason t) j =
      (if j = src then None else if j \<in> uid ` {0..<length groups} then type_of r src else type_of r j)"
    proof (cases "map_of ?zs j")
      case None
      then have j: "j \<notin> uid ` {0..<length groups}" using dom by blast
      show ?thesis unfolding type_of_def describe_def m None by (simp only: j if_False) simp
    next
      case (Some g)
      then have j: "j \<in> uid ` {0..<length groups}" using dom by blast
      show ?thesis unfolding type_of_def describe_def m Some
        by (simp only: j if_True) (simp add: assms(1) group_record_def)
    qed
  qed
qed

end
