(* ===== verification/Durable_Image.thy ===== *)
theory Durable_Image
  imports "HOL-Library.Multiset" Rehydrate Wiring_Laws Subject_Spec
begin

text \<open>
  The durable image of the subject registry: what the subject and alias rows of the store hold when
  every verb of the registry is mirrored by the store operation its wiring calls, and that the
  boot-time rehydration rebuilds the registry from them.
\<close>

section \<open>The durable image of a registry\<close>

definition row_view :: "memory_subject \<Rightarrow> string \<times> external_addressing list" where
  "row_view sub = (mb_subject_type sub, map row_addressing (mb_addressings sub))"

definition rec_view :: "subject_record \<Rightarrow> string \<times> external_addressing list" where
  "rec_view rec = (sr_subject_type rec, map ar_addressing (sr_addressings rec))"

definition alias_rows :: "persisted_alias list \<Rightarrow> string \<Rightarrow> persisted_alias list" where
  "alias_rows rows i = filter (\<lambda>p. pl_old_id p = i) rows"

definition alias_image :: "alias_record \<Rightarrow> persisted_alias list \<Rightarrow> bool" where
  "alias_image al rows \<longleftrightarrow> rows \<noteq> [] \<and> (\<forall>p \<in> set rows. pl_kind p = al_kind al) \<and>
     al_new_ids al = (if al_kind al = AliasTombstone then [] else map pl_new_id rows)"

definition subjects_image ::
    "(string \<rightharpoonup> subject_record) \<Rightarrow> (string, memory_subject) hmap \<Rightarrow> bool" where
  "subjects_image S subs \<longleftrightarrow> hm_wf subs \<and>
     (\<forall>i. map_option row_view (hm_get subs i) = map_option rec_view (S i)) \<and>
     (\<forall>i sub. hm_get subs i = Some sub \<longrightarrow> mb_forgotten_at_ms sub = None)"

definition aliases_image ::
    "(string \<rightharpoonup> alias_record) \<Rightarrow> persisted_alias list \<Rightarrow> int \<Rightarrow> bool" where
  "aliases_image A rows next_id \<longleftrightarrow>
     (\<forall>i. A i = None \<longrightarrow> alias_rows rows i = []) \<and>
     (\<forall>i al. A i = Some al \<longrightarrow> alias_image al (alias_rows rows i)) \<and>
     sorted (map pl_alias_id rows) \<and> (\<forall>p \<in> set rows. pl_alias_id p \<le> next_id)"

definition mirrored :: "'v registry_inner \<Rightarrow> 'j memory_state \<Rightarrow> bool" where
  "mirrored r m \<longleftrightarrow> subjects_image (hm_get (ri_subjects r)) (ms_subjects m) \<and>
     aliases_image (hm_get (ri_aliases r)) (ms_aliases m) (ms_next_alias_id m)"

lemma row_addressing_eq: "row_addressing pa = a \<longleftrightarrow> same_addressing a pa"
  by (cases a) (auto simp: row_addressing_def same_addressing_def)

lemma same_addressing_row: "same_addressing a = (\<lambda>pa. row_addressing pa = a)"
  by (simp add: fun_eq_iff row_addressing_eq)

lemma row_addressing_upd [simp]:
  "row_addressing (pa\<lparr>pa_asserted_at_ms := t\<rparr>) = row_addressing pa"
  "row_addressing (pa\<lparr>pa_claimant := c\<rparr>) = row_addressing pa"
  by (simp_all add: row_addressing_def)

lemma map_row_moved [simp]:
  "map (row_addressing \<circ> (\<lambda>p. p\<lparr>pa_asserted_at_ms := t\<rparr>)) rows = map row_addressing rows"
  by (simp add: comp_def)

lemma row_view_moved [simp]: "row_view (moved_subject ty t rows) = (ty, map row_addressing rows)"
  by (simp add: row_view_def moved_subject_def)

lemma moved_forgotten [simp]: "mb_forgotten_at_ms (moved_subject ty t rows) = None"
  by (simp add: moved_subject_def)

lemma subjects_image_put:
  assumes "subjects_image S subs" "row_view sub = rec_view rec" "mb_forgotten_at_ms sub = None"
  shows "subjects_image (S(i \<mapsto> rec)) (hm_insert i sub subs)"
  using assms by (auto simp: subjects_image_def)

lemma subjects_image_del:
  assumes "subjects_image S subs"
  shows "subjects_image (S(i := None)) (hm_remove i subs)"
  using assms by (auto simp: subjects_image_def)

lemma subjects_image_get:
  assumes "subjects_image S subs" "S i = Some rec"
  obtains sub where "hm_get subs i = Some sub" "row_view sub = rec_view rec" "mb_forgotten_at_ms sub = None"
proof -
  have "map_option row_view (hm_get subs i) = Some (rec_view rec)"
    using assms by (simp add: subjects_image_def)
  then obtain sub where "hm_get subs i = Some sub" "row_view sub = rec_view rec" by auto
  with assms(1) that show ?thesis unfolding subjects_image_def by blast
qed

lemma subjects_image_None: "subjects_image S subs \<Longrightarrow> S i = None \<Longrightarrow> hm_get subs i = None"
  unfolding subjects_image_def by (metis option.map_disc_iff)

subsection \<open>Announce\<close>

lemma upsert_rows:
  "map row_addressing (upsert_addressing c t a rows) =
     (if a \<in> row_addressing ` set rows then map row_addressing rows else map row_addressing rows @ [a])"
  by (induction rows) (auto simp: row_addressing_eq [symmetric], simp add: row_addressing_def)

lemma fold_upsert_rows:
  "distinct as \<Longrightarrow> map row_addressing (fold (upsert_addressing c t) as rows) =
     map row_addressing rows @ filter (\<lambda>a. a \<notin> row_addressing ` set rows) as"
proof (induction as arbitrary: rows)
  case (Cons a as)
  have im: "row_addressing ` set (upsert_addressing c t a rows) = insert a (row_addressing ` set rows)"
    using arg_cong [OF upsert_rows [of c t a rows], of set] by (auto split: if_splits)
  have "filter (\<lambda>x. x \<notin> insert a (row_addressing ` set rows)) as =
      filter (\<lambda>x. x \<notin> row_addressing ` set rows) as"
    using Cons.prems by (intro filter_cong) auto
  with Cons im show ?case by (simp add: upsert_rows)
qed simp

text \<open>An upsert gives the row to the announcing plugin, whoever held it.\<close>

lemma upsert_claimant:
  assumes "distinct (map row_addressing rows)" "pa \<in> set (upsert_addressing c t a rows)"
  shows "if row_addressing pa = a then pa_claimant pa = c else pa \<in> set rows"
  using assms
  by (induction rows) (auto simp: row_addressing_eq [symmetric] row_addressing_def image_iff split: if_splits)

lemma fold_upsert_claimant:
  assumes "distinct (map row_addressing rows)" "pa \<in> set (fold (upsert_addressing c t) as rows)"
    "row_addressing pa \<in> set as"
  shows "pa_claimant pa = c"
  using assms(2,3)
proof (induction as arbitrary: pa rule: rev_induct)
  case (snoc a as)
  have "distinct (map row_addressing (fold (upsert_addressing c t) xs rows))" for xs
    by (induction xs rule: rev_induct) (use assms(1) in \<open>auto simp: upsert_rows\<close>)
  from upsert_claimant [OF this, of pa c t a as] snoc show ?case by (auto split: if_splits)
qed simp

lemma fold_log_claim [simp]:
  "ms_subjects (fold (\<lambda>c. log_claim (kind_str c) p t) cs m) = ms_subjects m"
  "ms_aliases (fold (\<lambda>c. log_claim (kind_str c) p t) cs m) = ms_aliases m"
  "ms_next_alias_id (fold (\<lambda>c. log_claim (kind_str c) p t) cs m) = ms_next_alias_id m"
  by (induction cs arbitrary: m) (simp_all add: log_claim_def)

lemma record_subject_announce_rows:
  "ms_aliases (record_subject_announce i ty as c cs t m) = ms_aliases m"
  "ms_next_alias_id (record_subject_announce i ty as c cs t m) = ms_next_alias_id m"
  by (simp_all add: record_subject_announce_def Let_def log_claim_def)

lemma announced_row:
  assumes im: "subjects_image S subs" and d: "distinct as"
    and rec: "\<And>rec. S i = Some rec \<Longrightarrow> rec_view rec' =
       (sr_subject_type rec, map ar_addressing (sr_addressings rec) @ filter (\<lambda>a. a \<notin> addrs_of rec) as)"
    and new: "S i = None \<Longrightarrow> rec_view rec' = (ty, as)" and subs: "ms_subjects m = subs"
  shows "subjects_image (S(i \<mapsto> rec')) (ms_subjects (record_subject_announce i ty as c cs t m))"
proof -
  let ?e = "case hm_get subs i of Some s \<Rightarrow> s
    | None \<Rightarrow> \<lparr>mb_subject_type = ty, mb_created_at_ms = t, mb_modified_at_ms = t,
        mb_forgotten_at_ms = None, mb_addressings = []\<rparr>"
  let ?e' = "?e\<lparr>mb_modified_at_ms := t, mb_forgotten_at_ms := None,
    mb_addressings := fold (upsert_addressing c t) as (mb_addressings ?e)\<rparr>"
  have "row_view ?e' = rec_view rec'"
  proof (cases "S i")
    case None
    then show ?thesis using subjects_image_None [OF im None] new d
      by (simp add: row_view_def fold_upsert_rows)
  next
    case (Some r0)
    obtain sub where sub: "hm_get subs i = Some sub" "row_view sub = rec_view r0"
      by (rule subjects_image_get [OF im Some])
    then have "map row_addressing (mb_addressings sub) = map ar_addressing (sr_addressings r0)"
      by (simp add: row_view_def rec_view_def)
    moreover from this have "row_addressing ` set (mb_addressings sub) = addrs_of r0"
      by (metis list.set_map)
    ultimately show ?thesis using sub rec [OF Some] d
      by (simp add: row_view_def fold_upsert_rows) (simp add: rec_view_def)
  qed
  then have "subjects_image (S(i \<mapsto> rec')) (hm_insert i ?e' subs)"
    by (intro subjects_image_put [OF im]) simp_all
  then show ?thesis by (simp add: record_subject_announce_def Let_def subs log_claim_def)
qed

definition claimed_by :: "string \<Rightarrow> 'v subject_announcement \<Rightarrow> memory_subject \<Rightarrow> bool" where
  "claimed_by c ann row \<longleftrightarrow> (\<forall>pa \<in> set (mb_addressings row).
     row_addressing pa \<in> set (an_addressings ann) \<longrightarrow> pa_claimant pa = c)"

lemma announced_row_claimed:
  assumes inv: "reg_inv r" and mir: "mirrored r m" and i: "resolve r a = Some i"
  shows "\<exists>row. hm_get (ms_subjects (record_subject_announce i ty (an_addressings ann) c cs t m)) i = Some row \<and>
    claimed_by c ann row"
proof -
  obtain rec where rec: "hm_get (ri_subjects r) i = Some rec"
    using inv i by (auto simp: reg_inv_def coherent_def resolve_def)
  have im: "subjects_image (hm_get (ri_subjects r)) (ms_subjects m)" using mir by (simp add: mirrored_def)
  obtain sub where sub: "hm_get (ms_subjects m) i = Some sub" "row_view sub = rec_view rec"
    by (rule subjects_image_get [OF im rec])
  have "wf_record i rec" using inv rec by (auto simp: reg_inv_def coherent_def)
  then have "distinct (map row_addressing (mb_addressings sub))"
    using sub(2) by (simp add: row_view_def rec_view_def wf_record_def)
  from fold_upsert_claimant [OF this, of _ c t "an_addressings ann"] sub(1) show ?thesis
    by (auto simp: record_subject_announce_def Let_def log_claim_def claimed_by_def)
qed

lemma announce_mirrored:
  assumes inv: "reg_inv r" and fresh: "fresh_ids r uid 1" and d: "distinct (an_addressings ann)"
    and ok: "announce r ann c uid clk = Ok (r', upd, out)" and id: "announced_id out = Some i"
    and mir: "mirrored r m"
  shows "mirrored r' (record_subject_announce i (an_subject_type ann) (an_addressings ann) c cs t m)"
proof -
  let ?as = "an_addressings ann" and ?S = "hm_get (ri_subjects r)"
  let ?r1 = "record_announced_claims r (an_claims ann) c (clk 0)"
  obtain r2 where cl: "announce_classify r ?r1 ann c (uid 0) (clk 0) = (r2, out)"
    and r': "r' = fst (announce_state r2 (an_state ann) out (clk 1))"
    using announce_OkE [OF ok] by metis
  have co: "coherent ?S (hm_get (ri_addressings r))" using inv by (simp add: reg_inv_def)
  have im: "subjects_image ?S (ms_subjects m)" using mir by (simp add: mirrored_def)
  have unres: "announce_unresolved r ?as = filter (\<lambda>a. a \<notin> addrs_of rec) ?as"
    if "?S j = Some rec" "\<forall>a \<in> set ?as. hm_get (ri_addressings r) a \<in> {None, Some j}" for j rec
  proof -
    have "hm_get (ri_addressings r) a = Some j \<longleftrightarrow> a \<in> addrs_of rec" for a
      using co that(1) unfolding coherent_def by simp
    then have "hm_get (ri_addressings r) a = None \<longleftrightarrow> a \<notin> addrs_of rec" if "a \<in> set ?as" for a
      using that \<open>\<forall>a \<in> set ?as. _\<close> by (metis empty_iff insert_iff option.distinct(1))
    then show ?thesis unfolding announce_unresolved_def by (intro filter_cong) auto
  qed
  have "subjects_image (hm_get (ri_subjects r2))
      (ms_subjects (record_subject_announce i (an_subject_type ann) ?as c cs t m))"
  proof (rule classify_cases [of r ?r1 ann c "uid 0" "clk 0"])
    assume "announce_classify r ?r1 ann c (uid 0) (clk 0) =
        (announce_create ?r1 ann c (uid 0) (clk 0), Created (uid 0))"
    then have r2: "r2 = announce_create ?r1 ann c (uid 0) (clk 0)" and i: "i = uid 0"
      using cl id by auto
    have none: "?S (uid 0) = None" using fresh by (auto simp: fresh_ids_def known_ids_def)
    have S2: "hm_get (ri_subjects r2) = ?S(uid 0 \<mapsto>
        \<lparr>sr_id = uid 0, sr_subject_type = an_subject_type ann,
         sr_addressings = map (new_addressing_record c (clk 0)) ?as, sr_created_at = clk 0,
         sr_modified_at = clk 0\<rparr>)"
      by (simp add: r2 announce_create_def Let_def)
    show ?thesis unfolding S2 i
      by (rule announced_row [OF im d]) (use none in \<open>simp_all add: rec_view_def comp_def\<close>)
  next
    fix j
    assume *: "announce_classify r ?r1 ann c (uid 0) (clk 0) =
        (announce_join ?r1 j (announce_unresolved r ?as) c (clk 0), Updated j)"
      "\<exists>a \<in> set ?as. hm_get (ri_addressings r) a = Some j"
      "\<forall>a \<in> set ?as. hm_get (ri_addressings r) a \<in> {None, Some j}"
    then obtain rec where rec: "?S j = Some rec" using co by (auto simp: coherent_def)
    have r2: "r2 = announce_join ?r1 j (announce_unresolved r ?as) c (clk 0)" and i: "i = j"
      using cl id *(1) by auto
    have S2: "hm_get (ri_subjects r2) = ?S(j \<mapsto> rec\<lparr>sr_addressings := sr_addressings rec @
        map (new_addressing_record c (clk 0)) (filter (\<lambda>a. a \<notin> addrs_of rec) ?as),
        sr_modified_at := clk 0\<rparr>)"
      using rec by (simp add: r2 announce_join_def Let_def unres [OF rec *(3)])
    show ?thesis unfolding S2 i
      by (rule announced_row [OF im d]) (use rec in \<open>simp_all add: rec_view_def comp_def\<close>)
  next
    fix j
    assume *: "announce_classify r ?r1 ann c (uid 0) (clk 0) = (?r1, NoChange j)"
      "\<exists>a \<in> set ?as. hm_get (ri_addressings r) a = Some j"
      "\<forall>a \<in> set ?as. hm_get (ri_addressings r) a = Some j"
    then obtain rec where rec: "?S j = Some rec" using co by (auto simp: coherent_def)
    have "filter (\<lambda>a. a \<notin> addrs_of rec) ?as = []"
      using co rec *(3) by (auto simp: coherent_def filter_empty_conv)
    note none = this
    have r2: "r2 = ?r1" and i: "i = j" using cl id *(1) by auto
    have S2: "hm_get (ri_subjects r2) = ?S(j \<mapsto> rec)"
      using rec by (simp add: r2 fun_upd_idem)
    show ?thesis unfolding S2 i
      by (rule announced_row [OF im d]) (use rec none in \<open>simp_all add: rec_view_def\<close>)
  next
    fix ids
    assume "announce_classify r ?r1 ann c (uid 0) (clk 0) =
        (announce_conflict ?r1 ?as ids c (clk 0), Conflict ids)"
    with cl id show ?thesis by auto
  qed
  then show ?thesis
    using mir announce_aliases [OF ok] r' by (simp add: mirrored_def record_subject_announce_rows)
qed

lemma announce_conflict_mirrored:
  assumes ok: "announce r ann c uid clk = Ok (r', upd, out)" and id: "announced_id out = None"
  shows "ri_subjects r' = ri_subjects r \<and> ri_aliases r' = ri_aliases r"
proof -
  obtain r2 where cl: "announce_classify r (record_announced_claims r (an_claims ann) c (clk 0)) ann c
      (uid 0) (clk 0) = (r2, out)" and r': "r' = fst (announce_state r2 (an_state ann) out (clk 1))"
    using announce_OkE [OF ok] by metis
  from cl id show ?thesis
    by (auto simp: r' announce_classify_def announce_conflict_def Let_def split: list.splits if_splits)
qed

subsection \<open>Alias rows\<close>

lemma push_alias_subjects [simp]: "ms_subjects (push_alias i n k t p rs m) = ms_subjects m"
  by (simp add: push_alias_def)

lemma log_claim_rows [simp]:
  "ms_subjects (log_claim k p t m) = ms_subjects m" "ms_aliases (log_claim k p t m) = ms_aliases m"
  "ms_next_alias_id (log_claim k p t m) = ms_next_alias_id m"
  by (simp_all add: log_claim_def)

lemma fold_push_alias_subjects [simp]:
  "ms_subjects (fold (\<lambda>n. push_alias i n k t p rs) ns m) = ms_subjects m"
  by (induction ns arbitrary: m) simp_all

lemma fold_push_alias:
  obtains new where "ms_aliases (fold (\<lambda>n. push_alias i n k t p rs) ns m) = ms_aliases m @ new"
    "map pl_new_id new = ns" "\<forall>x \<in> set new. pl_old_id x = i \<and> pl_kind x = k"
    "\<forall>x \<in> set new. ms_next_alias_id m < pl_alias_id x"
    "\<forall>x \<in> set new. pl_alias_id x \<le> ms_next_alias_id (fold (\<lambda>n. push_alias i n k t p rs) ns m)"
    "sorted (map pl_alias_id new)"
    "ms_next_alias_id m \<le> ms_next_alias_id (fold (\<lambda>n. push_alias i n k t p rs) ns m)"
proof (induction ns arbitrary: m thesis)
  case (Cons n ns)
  let ?m1 = "push_alias i n k t p rs m"
  let ?x = "\<lparr>pl_alias_id = ms_next_alias_id m + 1, pl_old_id = i, pl_new_id = n, pl_kind = k,
     pl_recorded_at_ms = t, pl_admin_plugin = p, pl_reason = rs\<rparr>"
  have m1: "ms_aliases ?m1 = ms_aliases m @ [?x]" "ms_next_alias_id ?m1 = ms_next_alias_id m + 1"
    by (simp_all add: push_alias_def)
  obtain new where new:
    "ms_aliases (fold (\<lambda>n. push_alias i n k t p rs) ns ?m1) = ms_aliases ?m1 @ new"
    "map pl_new_id new = ns" "\<forall>x \<in> set new. pl_old_id x = i \<and> pl_kind x = k"
    "\<forall>x \<in> set new. ms_next_alias_id ?m1 < pl_alias_id x"
    "\<forall>x \<in> set new. pl_alias_id x \<le> ms_next_alias_id (fold (\<lambda>n. push_alias i n k t p rs) ns ?m1)"
    "sorted (map pl_alias_id new)"
    "ms_next_alias_id ?m1 \<le> ms_next_alias_id (fold (\<lambda>n. push_alias i n k t p rs) ns ?m1)"
    by (rule Cons.IH)
  show ?case
    by (rule Cons.prems [of "?x # new"]) (use new m1 in \<open>fastforce+\<close>)
qed simp

lemma aliases_image_add:
  assumes im: "aliases_image A rows n" and none: "A i = None"
    and new: "new \<noteq> []" "\<forall>x \<in> set new. pl_old_id x = i \<and> pl_kind x = al_kind al"
      "\<forall>x \<in> set new. n < pl_alias_id x" "\<forall>x \<in> set new. pl_alias_id x \<le> n'"
      "sorted (map pl_alias_id new)" "n \<le> n'"
    and ids: "al_new_ids al = (if al_kind al = AliasTombstone then [] else map pl_new_id new)"
  shows "aliases_image (A(i \<mapsto> al)) (rows @ new) n'"
proof -
  have mine: "alias_rows new i = new" using new(2) by (simp add: alias_rows_def)
  have others: "alias_rows new j = []" if "j \<noteq> i" for j
    using new(2) that by (auto simp: alias_rows_def filter_empty_conv)
  have app: "alias_rows (rows @ new) j = alias_rows rows j @ alias_rows new j" for j
    by (simp add: alias_rows_def)
  have empty: "alias_rows rows i = []"
    using im none by (simp add: aliases_image_def)
  have "alias_image al new" using new(1,2) ids by (simp add: alias_image_def)
  moreover have "sorted (map pl_alias_id (rows @ new))"
    using im new(3,5) by (fastforce simp: aliases_image_def sorted_append)
  ultimately show ?thesis
    using im new(4,6) by (auto simp: aliases_image_def app mine others empty)
qed

lemma aliases_image_push:
  assumes im: "aliases_image A (ms_aliases m) (ms_next_alias_id m)" and none: "A i = None"
    and ns: "ns \<noteq> []" "al_new_ids al = (if al_kind al = AliasTombstone then [] else ns)"
    and m': "m' = fold (\<lambda>n. push_alias i n (al_kind al) t p rs) ns m"
  shows "aliases_image (A(i \<mapsto> al)) (ms_aliases m') (ms_next_alias_id m')"
proof -
  obtain new where new: "ms_aliases m' = ms_aliases m @ new" "map pl_new_id new = ns"
    "\<forall>x \<in> set new. pl_old_id x = i \<and> pl_kind x = al_kind al"
    "\<forall>x \<in> set new. ms_next_alias_id m < pl_alias_id x"
    "\<forall>x \<in> set new. pl_alias_id x \<le> ms_next_alias_id m'" "sorted (map pl_alias_id new)"
    "ms_next_alias_id m \<le> ms_next_alias_id m'"
    unfolding m' by (rule fold_push_alias)
  show ?thesis unfolding new(1)
    by (rule aliases_image_add [OF im none _ new(3-7)]) (use new(2) ns in auto)
qed

subsection \<open>Retractions\<close>

lemma retracted_view:
  assumes "map row_addressing rows = map ar_addressing xs"
  shows "map row_addressing (filter (\<lambda>p. \<not> same_addressing a p) rows) =
     map ar_addressing (filter (\<lambda>x. ar_addressing x \<noteq> a) xs)"
proof -
  have "map row_addressing (filter (\<lambda>p. \<not> same_addressing a p) rows) =
      filter (\<lambda>b. b \<noteq> a) (map row_addressing rows)"
    by (simp add: filter_map comp_def row_addressing_eq)
  also have "\<dots> = map ar_addressing (filter (\<lambda>x. ar_addressing x \<noteq> a) xs)"
    by (simp add: assms filter_map comp_def)
  finally show ?thesis .
qed

lemma retracted_mirrored:
  assumes inv: "reg_inv r" and own: "owned_claim r a c i rec idx" and mir: "mirrored r m"
    and m': "m' = (if sr_addressings (without_claim rec idx (clk 0)) = []
       then record_subject_forget i p rs t m else record_subject_retract i a c t m)"
  shows "mirrored (retracted r a plugin reason clk i rec idx) m'"
proof -
  let ?rec' = "without_claim rec idx (clk 0)" and ?S = "hm_get (ri_subjects r)"
  have S: "?S i = Some rec"
    and pos: "position (\<lambda>x. ar_addressing x = a \<and> ar_claimant x = c) (sr_addressings rec) = Some idx"
    using own by (simp_all add: owned_claim_def)
  have "coherent ?S (hm_get (ri_addressings r))" using inv by (simp add: reg_inv_def)
  note wf = coherent_wf [OF this S]
  have none: "hm_get (ri_aliases r) i = None" using inv S by (auto simp: reg_inv_def)
  have im: "subjects_image ?S (ms_subjects m)"
    and al: "aliases_image (hm_get (ri_aliases r)) (ms_aliases m) (ms_next_alias_id m)"
    using mir by (simp_all add: mirrored_def)
  note maps = retracted_maps [OF inv own, where clk = clk and plugin = plugin and reason = reason]
  show ?thesis
  proof (cases "sr_addressings ?rec' = []")
    case True
    have "m' = log_claim ''subject_forgotten'' p t (fold (\<lambda>n. push_alias i n AliasTombstone t p rs) [[]]
        (m\<lparr>ms_subjects := hm_remove i (ms_subjects m)\<rparr>))"
      using True by (simp add: m' record_subject_forget_def)
    moreover have "aliases_image ((hm_get (ri_aliases r))(i \<mapsto>
        retired_alias i [] AliasTombstone (clk 1) plugin reason))
        (ms_aliases m') (ms_next_alias_id m')" if "m' = log_claim ''subject_forgotten'' p t m1"
        "m1 = fold (\<lambda>n. push_alias i n AliasTombstone t p rs) [[]]
           (m\<lparr>ms_subjects := hm_remove i (ms_subjects m)\<rparr>)" for m1
      using aliases_image_push [where A = "hm_get (ri_aliases r)" and i = i and ns = "[[]]"
          and al = "retired_alias i [] AliasTombstone (clk 1) plugin reason" and m' = m1 and t = t and p = p and rs = rs
          and m = "m\<lparr>ms_subjects := hm_remove i (ms_subjects m)\<rparr>"] al none that
      by (simp add: retired_alias_def)
    ultimately show ?thesis using subjects_image_del [OF im, of i] True
      by (simp add: mirrored_def maps)
  next
    case False
    obtain sub where sub: "hm_get (ms_subjects m) i = Some sub" "row_view sub = rec_view rec"
      "mb_forgotten_at_ms sub = None"
      by (rule subjects_image_get [OF im S])
    let ?sub' = "sub\<lparr>mb_addressings := filter (\<lambda>p. \<not> same_addressing a p) (mb_addressings sub),
      mb_modified_at_ms := t\<rparr>"
    have "row_view ?sub' = rec_view ?rec'"
      using sub(2) retracted_view [of "mb_addressings sub" "sr_addressings rec" a]
      by (simp add: row_view_def rec_view_def addressings_without [OF wf pos])
         (simp add: without_claim_def)
    then have "subjects_image (?S(i \<mapsto> ?rec')) (hm_insert i ?sub' (ms_subjects m))"
      by (rule subjects_image_put [OF im]) (simp add: sub(3))
    with al False show ?thesis
      by (simp add: mirrored_def maps m' record_subject_retract_def sub(1))
  qed
qed

subsection \<open>Merge and split\<close>

lemma drained_view:
  assumes "subjects_image S (ms_subjects m)" "S i = Some rec"
  shows "map row_addressing (drained i m) = map ar_addressing (sr_addressings rec)"
  by (rule subjects_image_get [OF assms]) (simp add: drained_def row_view_def rec_view_def)

lemma merged_mirrored:
  assumes inv: "reg_inv r" and mir: "mirrored r m" and S: "a \<noteq> b" "hm_get (ri_subjects r) a = Some ra"
    "hm_get (ri_subjects r) b = Some rb"
  shows "mirrored (merged_registry r a b ra rb ap reason n clk0)
     (record_subject_merge a b n (sr_subject_type ra) p rs t m)"
proof -
  let ?S = "hm_get (ri_subjects r)" and ?A = "hm_get (ri_aliases r)"
  have im: "subjects_image ?S (ms_subjects m)"
    and al: "aliases_image ?A (ms_aliases m) (ms_next_alias_id m)"
    using mir by (simp_all add: mirrored_def)
  have none: "?A a = None" "?A b = None" using inv S by (auto simp: reg_inv_def)
  let ?m1 = "m\<lparr>ms_subjects := hm_remove a (ms_subjects m)\<rparr>"
  let ?row = "moved_subject (sr_subject_type ra) t (drained a m @ drained b ?m1)"
  let ?m3 = "m\<lparr>ms_subjects := hm_insert n ?row (hm_remove b (hm_remove a (ms_subjects m)))\<rparr>"
  let ?push = "\<lambda>i. push_alias i n AliasMerged t p rs"
  let ?ra = "retired_alias a [n] AliasMerged clk0 ap reason"
  let ?rb = "retired_alias b [n] AliasMerged clk0 ap reason"
  have im1: "subjects_image (?S(a := None)) (ms_subjects ?m1)"
    using subjects_image_del [OF im] by simp
  have "row_view ?row = rec_view (merged_record ra rb n clk0)"
    using drained_view [OF im S(2)] drained_view [OF im1, of b rb] S
    by (simp add: rec_view_def merged_record_def)
  then have subj: "subjects_image (?S(a := None, b := None, n \<mapsto> merged_record ra rb n clk0))
      (ms_subjects ?m3)"
    using subjects_image_put [OF subjects_image_del [OF im1, of b]] by simp
  have a1: "aliases_image (?A(a \<mapsto> ?ra)) (ms_aliases (?push a ?m3)) (ms_next_alias_id (?push a ?m3))"
    by (rule aliases_image_push [where ns = "[n]" and m = ?m3])
       (use al none in \<open>simp_all add: retired_alias_def\<close>)
  have "aliases_image (?A(a \<mapsto> ?ra, b \<mapsto> ?rb)) (ms_aliases (?push b (?push a ?m3)))
      (ms_next_alias_id (?push b (?push a ?m3)))"
    by (rule aliases_image_push [where ns = "[n]", OF a1])
       (use none S(1) in \<open>simp_all add: retired_alias_def\<close>)
  moreover have "record_subject_merge a b n (sr_subject_type ra) p rs t m =
      log_claim ''subject_merge'' p t (?push b (?push a ?m3))"
    by (simp add: record_subject_merge_def Let_def)
  ultimately show ?thesis using subj
    by (simp add: mirrored_def merged_registry_def)
qed

lemma mset_swap_remove: "i < length xs \<Longrightarrow> mset xs = add_mset (xs ! i) (mset (swap_remove i xs))"
proof -
  assume i: "i < length xs"
  then obtain ys y where xs: "xs = ys @ [y]" by (cases xs rule: rev_cases) auto
  with i show ?thesis
    by (cases "i = length ys") (auto simp: swap_remove_def mset_update nth_append)
qed

lemma swap_remove_rows:
  assumes "i < length xs" "distinct (map f xs)"
  shows "distinct (map f (swap_remove i xs))" "f ` set (swap_remove i xs) = f ` set xs - {f (xs ! i)}"
proof -
  have m: "mset (map f xs) = mset (map f (xs ! i # swap_remove i xs))"
    using mset_swap_remove [OF assms(1)] by simp
  have "distinct (map f (xs ! i # swap_remove i xs))"
    using assms(2) mset_eq_imp_distinct_iff [OF m] by blast
  moreover have "f ` set xs = f ` set (xs ! i # swap_remove i xs)"
    using mset_eq_setD [OF m] by (simp only: list.set_map)
  ultimately show "distinct (map f (swap_remove i xs))"
    "f ` set (swap_remove i xs) = f ` set xs - {f (xs ! i)}"
    by auto
qed

lemma take_group_rows:
  assumes "distinct (map row_addressing rows)" "distinct g" "set g \<subseteq> row_addressing ` set rows"
    "take_group g rows = (mine, left)"
  shows "map row_addressing mine = g \<and> distinct (map row_addressing left) \<and>
     row_addressing ` set left = row_addressing ` set rows - set g"
  using assms
proof (induction g arbitrary: rows mine)
  case (Cons a g)
  from Cons.prems(3) obtain i where i: "position (same_addressing a) rows = Some i"
    by (cases "position (same_addressing a) rows")
       (auto simp: position_None row_addressing_eq [symmetric])
  then have at: "i < length rows" "row_addressing (rows ! i) = a"
    using position_SomeD [OF i] by (auto simp: row_addressing_eq)
  note sr = swap_remove_rows [OF at(1) Cons.prems(1)]
  obtain mine' where tg: "take_group g (swap_remove i rows) = (mine', left)" "mine = rows ! i # mine'"
    using Cons.prems(4) i by (auto simp: Let_def split: prod.splits)
  have "set g \<subseteq> row_addressing ` set (swap_remove i rows)"
    using sr(2) at(2) Cons.prems(2,3) by auto
  from Cons.IH [OF sr(1) _ this tg(1)] Cons.prems(2) show ?case
    using sr(2) at(2) tg(2) by auto
qed simp

text \<open>The groups the store places are the groups the registry places.\<close>

lemma place_groups_image:
  assumes "subjects_image (hm_get R) subs" "distinct (map row_addressing rows)"
    "distinct (concat (map snd zs))" "set (concat (map snd zs)) \<subseteq> row_addressing ` set rows"
    "\<forall>z \<in> set zs. set (snd z) \<subseteq> addrs_of rec"
  shows "subjects_image
     (hm_get (fold (\<lambda>z. hm_insert (fst z) (group_record rec t (fst z) (snd z))) zs R))
     (place_groups (sr_subject_type rec) t' (map prod.swap zs) rows subs)"
  using assms
proof (induction zs arbitrary: R rows subs)
  case (Cons z zs)
  obtain n g where z: "z = (n, g)" by fastforce
  obtain mine left where tg: "take_group g rows = (mine, left)" by fastforce
  have g: "distinct g" "set g \<subseteq> row_addressing ` set rows" using Cons.prems(3,4) z by auto
  have t: "map row_addressing mine = g" "distinct (map row_addressing left)"
    "row_addressing ` set left = row_addressing ` set rows - set g"
    using take_group_rows [OF Cons.prems(2) g tg] by blast+
  have "rec_view (group_record rec t n g) = (sr_subject_type rec, g)"
    using group_records_addr [of g rec] Cons.prems(5) z by (simp add: rec_view_def group_record_def)
  then have put: "subjects_image (hm_get (hm_insert n (group_record rec t n g) R))
      (hm_insert n (moved_subject (sr_subject_type rec) t' mine) subs)"
    using subjects_image_put [OF Cons.prems(1)] t(1) by simp
  have "set (concat (map snd zs)) \<subseteq> row_addressing ` set left"
    using Cons.prems(3,4) z t(3) by auto
  from Cons.IH [OF put t(2) _ this] Cons.prems(3,5) show ?case by (simp add: z tg)
qed simp

lemma split_mirrored:
  fixes uid :: uuids
  assumes inv: "reg_inv r" and mir: "mirrored r m" and fresh: "fresh_ids r uid (length groups)"
    and S: "hm_get (ri_subjects r) src = Some rec" and chk: "split_check rec groups = None"
  defines "ids \<equiv> map uid [0..<length groups]"
  defines "zs \<equiv> zip ids groups"
  obtains m' where "record_subject_split src ids (sr_subject_type rec) groups p rs t m = Inr m'"
    "mirrored (split_registry r src rec zs ap reason clk0) m'"
proof -
  let ?A = "hm_get (ri_aliases r)" and ?R = "hm_remove src (ri_subjects r)"
  let ?m1 = "m\<lparr>ms_subjects := place_groups (sr_subject_type rec) t (zip groups ids)
    (drained src m) (hm_remove src (ms_subjects m))\<rparr>"
  let ?m2 = "fold (\<lambda>n. push_alias src n AliasSplit t p rs) ids ?m1"
  have im: "subjects_image (hm_get (ri_subjects r)) (ms_subjects m)"
    and al: "aliases_image ?A (ms_aliases m) (ms_next_alias_id m)"
    using mir by (simp_all add: mirrored_def)
  have none: "?A src = None" using inv S by (auto simp: reg_inv_def)
  note z = split_zip_facts [OF chk fresh, folded ids_def, folded zs_def]
  have ids: "map fst zs = ids" "ids \<noteq> []" "length ids = length groups"
    using z(6) by (auto simp: zs_def ids_def)
  have swap: "map prod.swap zs = zip groups ids"
    by (simp add: zs_def zip_commute [of groups] case_prod_beta prod.swap_def)
  have nsrc: "map_of zs src = None"
    using z(2) S by (auto simp: map_of_eq_None_iff known_ids_def)
  have rows: "map row_addressing (drained src m) = map ar_addressing (sr_addressings rec)"
    by (rule drained_view [OF im S])
  have "coherent (hm_get (ri_subjects r)) (hm_get (ri_addressings r))"
    using inv by (simp add: reg_inv_def)
  from coherent_wf [OF this S] have d: "distinct (map row_addressing (drained src m))"
    by (simp add: rows wf_record_def)
  have addrs: "row_addressing ` set (drained src m) = addrs_of rec"
    using arg_cong [OF rows, of set] by (simp only: list.set_map)
  have cover: "\<forall>x \<in> set zs. set (snd x) \<subseteq> addrs_of rec"
    unfolding z(5) [symmetric] by (simp only: set_concat set_map) blast
  have "subjects_image (hm_get ?R) (hm_remove src (ms_subjects m))"
    using subjects_image_del [OF im] by simp
  from place_groups_image [OF this d z(4) _ cover, where t = clk0 and t' = t]
  have "subjects_image (hm_get (fold (\<lambda>x. hm_insert (fst x) (group_record rec clk0 (fst x) (snd x)))
      zs ?R)) (ms_subjects ?m1)"
    by (simp add: swap z(5) addrs del: set_concat)
  moreover have "hm_get (fold (\<lambda>x. hm_insert (fst x) (group_record rec clk0 (fst x) (snd x))) zs ?R) =
      hm_get (ri_subjects (split_registry r src rec zs ap reason clk0))"
    using nsrc by (auto simp: fun_eq_iff split_registry_def fold_insert_records [OF z(1)] split: option.split)
  moreover have "aliases_image (?A(src \<mapsto> retired_alias src ids AliasSplit clk0 ap reason))
      (ms_aliases ?m2) (ms_next_alias_id ?m2)"
    by (rule aliases_image_push [where ns = ids and m = ?m1 and t = t and p = p and rs = rs])
       (use al none ids in \<open>simp_all add: retired_alias_def\<close>)
  ultimately have "mirrored (split_registry r src rec zs ap reason clk0)
      (log_claim ''subject_split'' p t ?m2)"
    by (simp add: mirrored_def split_registry_def ids(1))
  moreover have "record_subject_split src ids (sr_subject_type rec) groups p rs t m =
      Inr (log_claim ''subject_split'' p t ?m2)"
    using ids by (simp add: record_subject_split_def)
  ultimately show ?thesis by (rule that [rotated])
qed

section \<open>Boot\<close>

definition row_subject :: "persisted_subject \<Rightarrow> subject_record" where
  "row_subject ps = \<lparr>sr_id = ps_id ps, sr_subject_type = ps_subject_type ps,
     sr_addressings = map row_record (ps_addressings ps),
     sr_created_at = ms_to_system_time (ps_created_at_ms ps),
     sr_modified_at = ms_to_system_time (ps_modified_at_ms ps)\<rparr>"

definition row_addrs :: "persisted_subject \<Rightarrow> external_addressing set" where
  "row_addrs ps = row_addressing ` set (ps_addressings ps)"

lemma addrs_of_row_subject [simp]: "addrs_of (row_subject ps) = row_addrs ps"
  by (simp add: row_subject_def row_addrs_def row_record_def image_image)

lemma load_subject_live:
  "ps_forgotten_at_ms ps = None \<Longrightarrow> load_subject ps (r, rep) =
     (r\<lparr>ri_addressings := fold (\<lambda>a. hm_insert a (ps_id ps)) (map row_addressing (ps_addressings ps))
                               (ri_addressings r),
        ri_subjects := hm_insert (ps_id ps) (row_subject ps) (ri_subjects r)\<rparr>,
      rep\<lparr>rh_live_addressings_loaded := rh_live_addressings_loaded rep + length (ps_addressings ps),
          rh_live_subjects_loaded := rh_live_subjects_loaded rep + 1\<rparr>)"
  by (simp add: load_subject_def row_subject_def fold_map comp_def)

lemma load_subjects:
  fixes r :: "'v registry_inner"
  assumes "\<forall>ps \<in> set rows. ps_forgotten_at_ms ps = None"
    "fold load_subject rows (empty_registry_inner, default_report) = (r, rep)"
  shows "hm_get (ri_subjects r) = map_of (rev (map (\<lambda>ps. (ps_id ps, row_subject ps)) rows)) \<and>
     hm_get (ri_addressings r) = (\<lambda>a. map_option ps_id (find (\<lambda>ps. a \<in> row_addrs ps) (rev rows))) \<and>
     hm_wf (ri_subjects r) \<and> hm_wf (ri_addressings r) \<and> ri_aliases r = [] \<and> ri_states r = [] \<and>
     ri_claims r = [] \<and> rh_live_subjects_loaded rep = length rows \<and> rh_forgotten_subjects_seen rep = 0"
  using assms
proof (induction rows arbitrary: r rep rule: rev_induct)
  case (snoc ps rows)
  obtain r1 :: "'v registry_inner" and rep1
    where 1: "fold load_subject rows (empty_registry_inner, default_report) = (r1, rep1)"
    by fastforce
  have live: "ps_forgotten_at_ms ps = None" using snoc.prems(1) by simp
  show ?case
    using snoc.IH [OF _ 1] snoc.prems
    by (auto simp: 1 load_subject_live [OF live] fun_eq_iff row_addrs_def)
qed (auto simp: empty_registry_inner_def default_report_def)

subsection \<open>Aliases\<close>

lemma group_aliases_get:
  "hm_wf (group_aliases rows) \<and>
   hm_get (group_aliases rows) i = (if alias_rows rows i = [] then None else Some (alias_rows rows i))"
  by (induction rows arbitrary: i rule: rev_induct)
     (auto simp: group_aliases_def alias_rows_def split: option.split)

lemma load_aliases:
  assumes "fold load_alias es (r0, rep0) = (r, rep)" "distinct (map fst es)" "ri_aliases r0 = []"
  shows "hm_get (ri_aliases r) i = map_option (grouped_alias i) (map_of es i) \<and> hm_wf (ri_aliases r) \<and>
     ri_subjects r = ri_subjects r0 \<and> ri_addressings r = ri_addressings r0 \<and>
     ri_states r = ri_states r0 \<and> ri_claims r = ri_claims r0 \<and>
     rh_live_subjects_loaded rep = rh_live_subjects_loaded rep0 \<and>
     rh_forgotten_subjects_seen rep = rh_forgotten_subjects_seen rep0"
  using assms
proof (induction es arbitrary: r rep i rule: rev_induct)
  case (snoc e es)
  obtain r1 rep1 where 1: "fold load_alias es (r0, rep0) = (r1, rep1)" by fastforce
  obtain k rows where e: "e = (k, rows)" by fastforce
  have d: "distinct (map fst es)" "map_of es k = None"
    using snoc.prems(2) e by (auto simp: map_of_eq_None_iff)
  have rep: "rh_live_subjects_loaded (count_alias x y) = rh_live_subjects_loaded y \<and>
      rh_forgotten_subjects_seen (count_alias x y) = rh_forgotten_subjects_seen y" for x y
    by (cases x) auto
  have "r = r1\<lparr>ri_aliases := hm_insert k (grouped_alias k rows) (ri_aliases r1)\<rparr>"
    "rep = count_alias (al_kind (grouped_alias k rows)) rep1"
    using snoc.prems(1) by (simp_all add: 1 e) (simp_all add: load_alias_def Let_def)
  then show ?case
    using snoc.IH [OF 1 d(1) snoc.prems(3)] d(2) rep
    by (auto simp: e map_add_def split: option.split)
qed simp

lemma grouped_alias_view:
  assumes "alias_image al rows"
  shows "al_kind (grouped_alias i rows) = al_kind al" "al_new_ids (grouped_alias i rows) = al_new_ids al"
    "al_old_id (grouped_alias i rows) = i"
proof -
  have "rows ! 0 \<in> set rows" using assms by (simp add: alias_image_def)
  then show "al_kind (grouped_alias i rows) = al_kind al"
    "al_new_ids (grouped_alias i rows) = al_new_ids al" "al_old_id (grouped_alias i rows) = i"
    using assms by (auto simp: alias_image_def grouped_alias_def)
qed

subsection \<open>The registry after a restart\<close>

definition persisted_row :: "string \<Rightarrow> memory_subject \<Rightarrow> persisted_subject" where
  "persisted_row i s = \<lparr>ps_id = i, ps_subject_type = mb_subject_type s,
     ps_created_at_ms = mb_created_at_ms s, ps_modified_at_ms = mb_modified_at_ms s,
     ps_forgotten_at_ms = mb_forgotten_at_ms s, ps_addressings = mb_addressings s\<rparr>"

lemma load_all_subjects_rows:
  assumes "hm_wf (ms_subjects m)"
  shows "set (load_all_subjects m) = {persisted_row i s |i s. hm_get (ms_subjects m) i = Some s}"
    "distinct (map ps_id (load_all_subjects m))" "length (load_all_subjects m) = length (ms_subjects m)"
proof -
  have eq: "load_all_subjects m = sort_key ps_created_at_ms (map (\<lambda>(i, s). persisted_row i s) (ms_subjects m))"
    by (simp add: load_all_subjects_def persisted_row_def)
  show "set (load_all_subjects m) = {persisted_row i s |i s. hm_get (ms_subjects m) i = Some s}"
    by (force simp: eq hm_mem_iff [OF assms])
  have "mset (map ps_id (load_all_subjects m)) = mset (map fst (ms_subjects m))"
    by (simp add: eq multiset.map_comp comp_def case_prod_beta persisted_row_def)
  moreover have "distinct (map fst (ms_subjects m))" using assms by (simp add: hm_wf_def)
  ultimately show "distinct (map ps_id (load_all_subjects m))" using mset_eq_imp_distinct_iff by blast
  show "length (load_all_subjects m) = length (ms_subjects m)" by (simp add: eq)
qed

lemma rec_view_row [simp]: "rec_view (row_subject (persisted_row i s)) = row_view s"
  by (simp add: rec_view_def row_view_def row_subject_def persisted_row_def comp_def row_record_def)

lemma rec_view_addrs: "rec_view x = rec_view y \<Longrightarrow> addrs_of x = addrs_of y"
  by (metis list.set_map prod.inject rec_view_def)

lemma ps_id_row [simp]: "ps_id (persisted_row i s) = i"
  by (simp add: persisted_row_def)

lemma option_eqI: "(\<And>j. x = Some j \<longleftrightarrow> y = Some j) \<Longrightarrow> x = y"
  by (metis not_None_eq)

lemma coherent_view:
  assumes co: "coherent S A" and view: "\<And>i. map_option rec_view (S' i) = map_option rec_view (S i)"
    and ids: "\<And>i rec. S' i = Some rec \<Longrightarrow> sr_id rec = i"
  shows "coherent S' A"
proof -
  have S': "\<exists>rec. S i = Some rec \<and> rec_view rec = rec_view rec'" if "S' i = Some rec'" for i rec'
    using view [of i] that by (cases "S i") auto
  have S: "\<exists>rec'. S' i = Some rec' \<and> rec_view rec' = rec_view rec" if "S i = Some rec" for i rec
    using view [of i] that by (cases "S' i") auto
  have "wf_record i rec'" if "S' i = Some rec'" for i rec'
    using S' [OF that] ids [OF that] coherent_wf [OF co] by (fastforce simp: wf_record_def rec_view_def)
  moreover have "A a = Some i \<longleftrightarrow> (\<exists>rec. S' i = Some rec \<and> a \<in> addrs_of rec)" for a i
    using coherent_iff [OF co, of a i] S' S rec_view_addrs by metis
  ultimately show ?thesis by (simp add: coherent_def)
qed

lemma booted_subjects:
  fixes r' :: "'v registry_inner"
  assumes im: "subjects_image (hm_get (ri_subjects r)) (ms_subjects m)"
    and co: "coherent (hm_get (ri_subjects r)) (hm_get (ri_addressings r))"
    and boot: "fold load_subject (load_all_subjects m) (empty_registry_inner, default_report) = (r', rep)"
  shows "map_option rec_view (hm_get (ri_subjects r') i) = map_option rec_view (hm_get (ri_subjects r) i)"
    "hm_get (ri_addressings r') = hm_get (ri_addressings r)"
    "coherent (hm_get (ri_subjects r')) (hm_get (ri_addressings r'))"
    "hm_wf (ri_subjects r') \<and> hm_wf (ri_addressings r') \<and> ri_aliases r' = [] \<and> ri_states r' = [] \<and>
     rh_live_subjects_loaded rep = length (ms_subjects m) \<and> rh_forgotten_subjects_seen rep = 0"
    "hm_get (ri_subjects r') i =
       map_option (\<lambda>sub. row_subject (persisted_row i sub)) (hm_get (ms_subjects m) i)"
proof -
  let ?rows = "load_all_subjects m" and ?subs = "ms_subjects m"
  have wf: "hm_wf ?subs" and live: "\<And>i s. hm_get ?subs i = Some s \<Longrightarrow> mb_forgotten_at_ms s = None"
    and view: "\<And>i. map_option row_view (hm_get ?subs i) = map_option rec_view (hm_get (ri_subjects r) i)"
    using im by (auto simp: subjects_image_def)
  note rows = load_all_subjects_rows [OF wf]
  have "\<forall>ps \<in> set ?rows. ps_forgotten_at_ms ps = None"
    using live unfolding rows(1) by (auto simp: persisted_row_def)
  note load = load_subjects [OF this boot]
  have d: "distinct (map fst (map (\<lambda>ps. (ps_id ps, row_subject ps)) ?rows))"
    using rows(2) by (simp add: comp_def)
  have S': "hm_get (ri_subjects r') j = Some rec \<longleftrightarrow>
      (\<exists>s. hm_get ?subs j = Some s \<and> rec = row_subject (persisted_row j s))" for j rec
  proof -
    have "hm_get (ri_subjects r') j = Some rec \<longleftrightarrow> (j, rec) \<in> (\<lambda>ps. (ps_id ps, row_subject ps)) ` set ?rows"
      using map_of_eq_Some_iff [OF d] load by (simp add: map_of_rev_distinct [OF d])
    then show ?thesis unfolding rows(1) by force
  qed
  show v: "map_option rec_view (hm_get (ri_subjects r') i) =
      map_option rec_view (hm_get (ri_subjects r) i)" for i
  proof (cases "hm_get ?subs i")
    case None
    then show ?thesis using S' [of i] by (simp flip: view) (metis option.exhaust)
  next
    case (Some s)
    then have "hm_get (ri_subjects r') i = Some (row_subject (persisted_row i s))" using S' by blast
    with Some show ?thesis by (simp flip: view)
  qed
  have "coherent (hm_get (ri_subjects r')) (hm_get (ri_addressings r))"
    by (rule coherent_view [OF co v]) (use S' in \<open>auto simp: row_subject_def\<close>)
  note own = coherent_iff [OF this]
  have found: "hm_get (ri_addressings r) a = Some j" if "hm_get (ri_addressings r') a = Some j" for a j
  proof -
    from that load obtain ps where ps: "find (\<lambda>ps. a \<in> row_addrs ps) (rev ?rows) = Some ps" "ps_id ps = j"
      by auto
    have "ps \<in> set (rev ?rows)" "a \<in> row_addrs ps"
      using ps(1) unfolding find_Some_iff by (metis nth_mem)+
    with ps(2) have "ps \<in> set ?rows" "a \<in> row_addrs ps" "ps_id ps = j" by simp_all
    then show ?thesis unfolding rows(1) own using S' by force
  qed
  show eq: "hm_get (ri_addressings r') = hm_get (ri_addressings r)"
  proof (intro ext option_eqI)
    fix a j
    have "hm_get (ri_addressings r') a \<noteq> None" if "hm_get (ri_addressings r) a = Some j"
    proof -
      from that obtain rec where "hm_get (ri_subjects r') j = Some rec" "a \<in> addrs_of rec"
        unfolding own by blast
      with S' obtain s where s: "hm_get ?subs j = Some s" "a \<in> row_addrs (persisted_row j s)"
        by (metis addrs_of_row_subject)
      then have "persisted_row j s \<in> set ?rows" unfolding rows(1) by blast
      with s(2) load show ?thesis by (auto simp: find_None_iff)
    qed
    with found show "hm_get (ri_addressings r') a = Some j \<longleftrightarrow> hm_get (ri_addressings r) a = Some j"
      by fastforce
  qed
  show "coherent (hm_get (ri_subjects r')) (hm_get (ri_addressings r'))"
    unfolding eq by fact
  show "hm_wf (ri_subjects r') \<and> hm_wf (ri_addressings r') \<and> ri_aliases r' = [] \<and> ri_states r' = [] \<and>
     rh_live_subjects_loaded rep = length (ms_subjects m) \<and> rh_forgotten_subjects_seen rep = 0"
    using load rows(3) by simp
  show "hm_get (ri_subjects r') i =
      map_option (\<lambda>sub. row_subject (persisted_row i sub)) (hm_get (ms_subjects m) i)"
    by (rule option_eqI) (use S' in auto)
qed

text \<open>What a restart keeps of an alias: its kind and where it leads.\<close>

definition alias_view :: "alias_record \<Rightarrow> alias_kind \<times> string list" where
  "alias_view al = (al_kind al, al_new_ids al)"

theorem rehydrate_mirrored:
  fixes r :: "'v registry_inner"
  assumes inv: "reg_inv r" and mir: "mirrored r m"
  obtains r' :: "'v registry_inner" and rep
  where "rehydrate_from memory_boot_store m empty_registry_inner = Ok (r', rep)"
    "reg_inv r'" "resolve r' = resolve r"
    "\<And>i. map_option rec_view (describe r' i) = map_option rec_view (describe r i)"
    "\<And>i. map_option alias_view (describe_alias r' i) = map_option alias_view (describe_alias r i)"
    "rh_live_subjects_loaded rep = length (ri_subjects r)" "rh_forgotten_subjects_seen rep = 0"
    "\<And>i. describe r' i = map_option (\<lambda>sub. row_subject (persisted_row i sub)) (hm_get (ms_subjects m) i)"
proof -
  have im: "subjects_image (hm_get (ri_subjects r)) (ms_subjects m)"
    and al: "aliases_image (hm_get (ri_aliases r)) (ms_aliases m) (ms_next_alias_id m)"
    using mir by (simp_all add: mirrored_def)
  have co: "coherent (hm_get (ri_subjects r)) (hm_get (ri_addressings r))" using inv by (simp add: reg_inv_def)
  obtain r1 :: "'v registry_inner" and rep1 where
    1: "fold load_subject (load_all_subjects m) (empty_registry_inner, default_report) = (r1, rep1)"
    by fastforce
  obtain r' :: "'v registry_inner" and rep where
    2: "fold load_alias (group_aliases (load_all_aliases m)) (r1, rep1) = (r', rep)" by fastforce
  note s = booted_subjects [OF im co 1]
  have "load_all_aliases m = ms_aliases m"
    using al by (simp add: load_all_aliases_def aliases_image_def sort_key_id_if_sorted)
  note two = 2 [unfolded this]
  have g: "hm_wf (group_aliases (ms_aliases m))" using group_aliases_get by blast
  then have d: "distinct (map fst (group_aliases (ms_aliases m)))" by (simp add: hm_wf_def)
  have "hm_get (group_aliases (ms_aliases m)) = map_of (group_aliases (ms_aliases m))"
    by (simp add: hm_get_def fun_eq_iff)
  note a = load_aliases [OF two d, folded this]
  have A': "hm_get (ri_aliases r') i = map_option (\<lambda>_. grouped_alias i (alias_rows (ms_aliases m) i))
      (hm_get (ri_aliases r) i)" for i
    using a [of i] s(4) al group_aliases_get [of "ms_aliases m" i]
    by (cases "hm_get (ri_aliases r) i") (auto simp: aliases_image_def alias_image_def)
  have img: "alias_image al' (alias_rows (ms_aliases m) i)" if "hm_get (ri_aliases r) i = Some al'" for i al'
    using al that by (simp add: aliases_image_def)
  have av: "map_option alias_view (describe_alias r' i) = map_option alias_view (describe_alias r i)" for i
    using img [of i] by (cases "hm_get (ri_aliases r) i") (auto simp: read_maps A' alias_view_def grouped_alias_view)
  have sub: "hm_get (ri_subjects r') = hm_get (ri_subjects r1)"
    "hm_get (ri_addressings r') = hm_get (ri_addressings r)"
    using a [of "[]"] s(2,4) by simp_all
  have dom: "hm_get (ri_subjects r') i = None \<longleftrightarrow> hm_get (ri_subjects r) i = None" for i
    using s(1) [of i] sub(1) by (metis option.map_disc_iff)
  have "wf_alias i x" if "hm_get (ri_aliases r') i = Some x" for i x
    using that inv img grouped_alias_view unfolding A' reg_inv_def wf_alias_def by fastforce
  then have "reg_inv r'"
    using a [of "[]"] s(2,3,4) inv dom A' by (auto simp: reg_inv_def)
  moreover have "length (ms_subjects m) = length (ri_subjects r)"
  proof -
    have "dom (hm_get (ms_subjects m)) = dom (hm_get (ri_subjects r))"
    proof (rule set_eqI)
      fix i
      have "map_option row_view (hm_get (ms_subjects m) i) = map_option rec_view (hm_get (ri_subjects r) i)"
        using im by (simp add: subjects_image_def)
      then show "i \<in> dom (hm_get (ms_subjects m)) \<longleftrightarrow> i \<in> dom (hm_get (ri_subjects r))"
        by (metis domIff option.map_disc_iff)
    qed
    moreover have "hm_wf (ms_subjects m)" "hm_wf (ri_subjects r)"
      using im inv by (simp_all add: subjects_image_def reg_inv_def)
    ultimately show ?thesis by (simp add: hm_len)
  qed
  moreover have "rehydrate_from memory_boot_store m (empty_registry_inner :: 'v registry_inner) = Ok (r', rep)"
    using 1 2 by (simp add: rehydrate_from_def memory_boot_store_def empty_registry_inner_def)
  ultimately show ?thesis
    using a [of "[]"] s sub av by (intro that [of r' rep]) (auto simp: read_maps)
qed

end
