(* ===== verification/Wiring_Spec.thy ===== *)
theory Wiring_Spec
  imports Wiring_Laws
begin

text \<open>
  The invariant that spans the registry, the graph and the catalogue, kept by every verb of the
  wiring layer when no store call fails; runs of verbs as a step relation; and a sample steward
  the witnesses of the following theories evaluate.
\<close>

section \<open>The identity invariant\<close>

text \<open>A relation conforms when both its ends are live subjects of types its predicate accepts.\<close>

definition conforms :: "catalogue \<Rightarrow> (string \<rightharpoonup> string) \<Rightarrow> relation_key \<Rightarrow> bool" where
  "conforms c ty k \<longleftrightarrow> (\<exists>p st tt. find_predicate c (rk_predicate k) = Some p \<and>
     ty (rk_source_id k) = Some st \<and> ty (rk_target_id k) = Some tt \<and>
     type_accepts (rp_source_type p) st \<and> type_accepts (rp_target_type p) tt)"

definition steward_ok :: "'v registry_inner \<Rightarrow> graph_inner \<Rightarrow> catalogue \<Rightarrow> bool" where
  "steward_ok r g c \<longleftrightarrow> reg_inv r \<and> graph_inv g \<and> [] \<notin> dom (type_of r) \<and>
     (\<forall>k \<in> dom (hm_get (gi_relations g)). conforms c (type_of r) k)"

definition steward_inv :: "('v, 'j) steward \<Rightarrow> bool" where
  "steward_inv s \<longleftrightarrow> steward_ok (sw_registry s) (sw_graph s) (sw_catalogue s)"

lemma steward_inv_core: "core s' = core s \<Longrightarrow> steward_inv s' = steward_inv s"
  by (simp add: core_def steward_inv_def)

lemma steward_inv_site [simp]: "steward_inv (s\<lparr>sw_site := n\<rparr>) = steward_inv s"
  by (simp add: steward_inv_def)

text \<open>What the UUID generator of the call is relied on for.\<close>

definition fresh_env :: "('v, 'j) wiring_env \<Rightarrow> 'v registry_inner \<Rightarrow> bool" where
  "fresh_env e r \<longleftrightarrow> (\<forall>n k. fresh_ids r (we_uid e n) k) \<and> (\<forall>n i. we_uid e n i \<noteq> [])"

lemma fresh_envD: "fresh_env e r \<Longrightarrow> fresh_ids r (we_uid e n) k" "fresh_env e r \<Longrightarrow> we_uid e n i \<noteq> []"
  by (auto simp: fresh_env_def)

lemma conforms_mono: "conforms c ty k \<Longrightarrow> ty \<subseteq>\<^sub>m ty' \<Longrightarrow> conforms c ty' k"
  by (force simp: conforms_def map_le_def dom_def)

subsection \<open>Silent pieces\<close>

lemma silent_emit_core [silent]: "quiet e \<Longrightarrow> silent core (emit_or_refuse e h)"
  by (intro silent_core silent)

lemma silent_record_core [silent]: "quiet e \<Longrightarrow> silent core (record_or_refuse e entry)"
  by (intro silent_core silent)

lemma silent_put [silent]: "(\<And>s. V (g s) = V s) \<Longrightarrow> silent V (wput g)"
  by (simp add: silent_def wput_def)

lemma silent_try_store [silent]: "quiet e \<Longrightarrow> silent core (try_store e f)"
  by (rule silentI_wp) (simp add: wp_try_store Let_def split: sum.splits prod.splits)

lemma silent_case_option [silent]:
  "silent V a \<Longrightarrow> (\<And>x. silent V (b x)) \<Longrightarrow> silent V (case m of None \<Rightarrow> a | Some x \<Rightarrow> b x)"
  by (cases m) auto

lemma silent_case_sum [silent]:
  "(\<And>x. silent V (a x)) \<Longrightarrow> (\<And>x. silent V (b x)) \<Longrightarrow>
   silent V (case m of Inl x \<Rightarrow> a x | Inr x \<Rightarrow> b x)"
  by (cases m) auto

lemma silent_persist_state [silent]: "quiet e \<Longrightarrow> silent core (persist_state e i v t)"
  unfolding persist_state_def by (intro silent) auto

lemma silent_mirror_announce [silent]: "quiet e \<Longrightarrow> silent core (mirror_announce e p ann out)"
  unfolding mirror_announce_def Let_def prod.case by (intro silent) auto

lemma silent_surface_conflict [silent]: "quiet e \<Longrightarrow> silent core (surface_conflict e p as ids)"
  unfolding surface_conflict_def by (intro silent) auto

lemma silent_forget_edge [silent]: "quiet e \<Longrightarrow> silent core (forget_edge e p i t k)"
  unfolding forget_edge_def by (intro silent) auto

lemma silent_warn_cardinality [silent]: "quiet e \<Longrightarrow> silent core (warn_cardinality e p q s t sd d f)"
  unfolding warn_cardinality_def by (intro silent) auto

lemma silent_warn_side [silent]: "quiet e \<Longrightarrow> silent core (warn_side e ap i p sd d f t)"
  unfolding warn_side_def by (intro silent) auto

lemma silent_post_rewrite [silent]:
  "quiet e \<Longrightarrow> silent core (emit_post_rewrite_cardinality_violations e ap aff)"
  unfolding emit_post_rewrite_cardinality_violations_def by (intro silent) auto

lemma silent_rewritten [silent]: "quiet e \<Longrightarrow> silent core (emit_rewritten e ap t f x)"
  by (cases x) (simp add: emit_rewritten_def silent)

lemma silent_reassigned [silent]: "quiet e \<Longrightarrow> silent core (emit_reassigned_claims e ap t f x)"
  by (cases x) (simp add: emit_reassigned_claims_def silent)

lemma silent_transfer [silent]: "quiet e \<Longrightarrow> silent core (emit_transfer e ap t x)"
  by (simp add: emit_transfer_def silent)

lemma silent_collapse [silent]: "quiet e \<Longrightarrow> silent core (emit_collapse e ap t x)"
  by (simp add: emit_collapse_def silent)

lemma silent_ambiguous [silent]: "quiet e \<Longrightarrow> silent core (emit_ambiguous e ap t x)"
  by (simp add: emit_ambiguous_def silent)

lemma silent_merge_cascade [silent]:
  assumes "quiet e" shows "silent core (merge_cascade e ap t n outs ts)"
  unfolding merge_cascade_def Let_def by (intro silent assms)

lemma silent_split_cascade [silent]:
  assumes "quiet e" shows "silent core (split_cascade e ap t i ns out ts)"
  unfolding split_cascade_def Let_def by (intro silent assms)

text \<open>After its last change of registry and graph a verb keeps the invariant.\<close>

lemma wp_keep:
  assumes "silent core m" "steward_inv s"
  shows "wp m (\<lambda>_. steward_inv) E s"
  by (rule wp_silent [OF assms(1)]) (use steward_inv_core assms(2) in blast)

section \<open>The invariant under a change of the registry or the graph\<close>

lemma steward_ok_same_types:
  "steward_ok r g c \<Longrightarrow> reg_inv r' \<Longrightarrow> type_of r' = type_of r \<Longrightarrow> steward_ok r' g c"
  by (simp add: steward_ok_def)

lemma steward_ok_forget:
  assumes "steward_ok r g c" "reg_inv r'" "type_of r' = (type_of r)(i := None)"
  shows "steward_ok r' (fst (forget_all_touching g i)) c"
  using assms forget_all_touching_inv [of g i]
  by (auto simp: steward_ok_def forget_all_touching_get conforms_def touches_def dom_def)

lemma steward_ok_graph:
  assumes "steward_ok r g c" "graph_inv g'"
    "dom (hm_get (gi_relations g')) \<subseteq> dom (hm_get (gi_relations g)) \<union> {k. conforms c (type_of r) k}"
  shows "steward_ok r g' c"
  using assms by (fastforce simp: steward_ok_def)

lemma conforms_moved:
  assumes "conforms c ty k" "rk_predicate k' = rk_predicate k"
    "ty' (rk_source_id k') = ty (rk_source_id k)" "ty' (rk_target_id k') = ty (rk_target_id k)"
  shows "conforms c ty' k'"
  using assms by (auto simp: conforms_def)

lemma conforms_ends:
  "conforms c ty k \<Longrightarrow> rk_source_id k \<in> dom ty \<and> rk_target_id k \<in> dom ty"
  by (auto simp: conforms_def)

lemma steward_ok_merge:
  assumes ok: "steward_ok r g c" and r': "reg_inv r'" "type_of r' = (type_of r)(a := None, b := None, n := type_of r a)"
    and ab: "a \<in> dom (type_of r)" "type_of r b = type_of r a" "a \<noteq> b"
    and n: "n \<notin> dom (type_of r)" "n \<noteq> []"
  obtains g1 o1 g2 o2 where "rewrite_subject_to g a n clk = Ok (g1, o1)"
    "rewrite_subject_to g1 b n clk' = Ok (g2, o2)" "steward_ok r' g2 c"
proof -
  have g: "graph_inv g" and ne: "a \<noteq> []" "b \<noteq> []" "a \<noteq> n" "b \<noteq> n"
    using ok ab n by (auto simp: steward_ok_def dom_def)
  obtain g1 o1 where 1: "rewrite_subject_to g a n clk = Ok (g1, o1)" "graph_inv g1" "rewritten a n g g1"
    using rewrite_law [OF g ne(1) n(2) ne(3)] by metis
  obtain g2 o2 where 2: "rewrite_subject_to g1 b n clk' = Ok (g2, o2)" "graph_inv g2" "rewritten b n g1 g2"
    using rewrite_law [OF 1(2) ne(2) n(2) ne(4)] by metis
  have dom: "dom (hm_get (gi_relations g2)) =
      subst_key b n ` subst_key a n ` dom (hm_get (gi_relations g))"
    using 1(3) 2(3) by (simp add: rewritten_def)
  have "conforms c (type_of r') (subst_key b n (subst_key a n k))"
    if "k \<in> dom (hm_get (gi_relations g))" for k
  proof -
    have k: "conforms c (type_of r) k" using ok that by (auto simp: steward_ok_def)
    with conforms_ends [OF k] n ab r'(2) show ?thesis
      by (intro conforms_moved [OF k]) (auto simp: subst_key_def)
  qed
  then have "steward_ok r' g2 c"
    unfolding steward_ok_def dom using r' 2(2) ok n by (auto simp: steward_ok_def)
  with 1 2 that show ?thesis by blast
qed

lemma steward_ok_split:
  assumes ok: "steward_ok r g c" and r': "reg_inv r'"
      "type_of r' = (\<lambda>j. if j = src then None else if j \<in> set ns then type_of r src else type_of r j)"
    and src: "src \<in> dom (type_of r)" and ns: "set ns \<inter> dom (type_of r) = {}" "ns \<noteq> []" "[] \<notin> set ns"
    and asg: "sa_target_new_id ` set assignments \<subseteq> set ns"
  obtains g' out where "split_relations g src ns strategy assignments clk = Ok (g', out)"
    "steward_ok r' g' c"
proof -
  have g: "graph_inv g" and ne: "src \<noteq> []" using ok src by (auto simp: steward_ok_def)
  have dst: "split_destinations ns assignments = set ns" using asg by (auto simp: split_destinations_def)
  have new: "src \<notin> split_destinations ns assignments" using src ns dst by auto
  let ?to = "assigned_new_ids strategy ns assignments"
  obtain g' out where s: "split_relations g src ns strategy assignments clk = Ok (g', out)"
      "graph_inv g'" "distributed src ?to g g'"
    using split_law [OF g ne ns(2) new] by metis
  have "conforms c (type_of r') j" if j: "j \<in> dom (hm_get (gi_relations g'))" for j
  proof -
    have nt: "\<not> touches src j" using s(3) j by (auto simp: distributed_def)
    show ?thesis
    proof (cases "\<exists>k. touches src k \<and> hm_get (gi_relations g) k \<noteq> None \<and> (\<exists>n \<in> set (?to k). subst_key src n k = j)")
      case True
      then obtain k n where k: "touches src k" "k \<in> dom (hm_get (gi_relations g))" "n \<in> set (?to k)" "j = subst_key src n k"
        by blast
      have n: "n \<in> set ns" using assigned_sub [OF ns(2)] k(3) dst by blast
      have ck: "conforms c (type_of r) k" using ok k(2) by (auto simp: steward_ok_def)
      show ?thesis using n src ns conforms_ends [OF ck] nt
        by (intro conforms_moved [OF ck]) (auto simp: k(4) r'(2) subst_key_def touches_def)
    next
      case False
      have "claimants (hm_get (gi_relations g')) j \<noteq> {}"
        using j graph_inv_wf [OF s(2)] by (fastforce simp: claimants_def wf_relation_def)
      then have "claimants (hm_get (gi_relations g)) j \<noteq> {} \<or>
          (\<exists>k. touches src k \<and> (\<exists>n \<in> set (?to k). subst_key src n k = j) \<and> claimants (hm_get (gi_relations g)) k \<noteq> {})"
        using s(3) nt unfolding distributed_def by fastforce
      with False have "j \<in> dom (hm_get (gi_relations g))"
        by (fastforce simp: claimants_def split: option.splits)
      then have cj: "conforms c (type_of r) j" using ok by (auto simp: steward_ok_def)
      show ?thesis using ns conforms_ends [OF cj] nt
        by (intro conforms_moved [OF cj]) (auto simp: r'(2) touches_def)
    qed
  qed
  then have "steward_ok r' g' c" using r' s(2) ok ns(3) src by (auto simp: steward_ok_def dom_def split: if_splits)
  with s that show ?thesis by blast
qed

section \<open>The verbs keep the invariant\<close>

named_theorems keep \<open>introduction rules for weakest preconditions\<close>

lemma keep_bind [keep]: "wp m (\<lambda>x. wp (f x) Q E) E s \<Longrightarrow> wp (wbind m f) Q E s"
  by (simp add: wps)

lemma keep_get [keep]: "Q (g s) s \<Longrightarrow> wp (wget g) Q E s"
  by (simp add: wps)

lemma keep_return [keep]: "Q x s \<Longrightarrow> wp (wreturn x) Q E s"
  by (simp add: wps)

lemma keep_guarded [keep]: "(b \<Longrightarrow> Q () s) \<Longrightarrow> E r s \<Longrightarrow> wp (guarded b r) Q E s"
  by (simp add: wps)

lemma keep_require [keep]: "(\<And>y. x = Some y \<Longrightarrow> Q y s) \<Longrightarrow> E r s \<Longrightarrow> wp (require r x) Q E s"
  by (simp add: wps split: option.split)

lemma keep_state_size [keep]: "Q () s \<Longrightarrow> (\<And>r. E r s) \<Longrightarrow> wp (check_state_size e st) Q E s"
  by (simp add: check_state_size_def Let_def wps split: option.split)

lemma keep_registry:
  assumes "\<And>m. f (sw_site s) (sw_registry s) \<noteq> Panic m"
    "\<And>r x. f (sw_site s) (sw_registry s) = Ok (r, x) \<Longrightarrow>
       Q x (s\<lparr>sw_site := Suc (sw_site s), sw_registry := r\<rparr>)"
    "\<And>r. E r (s\<lparr>sw_site := Suc (sw_site s)\<rparr>)"
  shows "wp (on_registry f err) Q E s"
  using assms by (simp add: wps Let_def split: outcome.splits)

lemma keep_graph:
  assumes "\<And>m. f (sw_site s) (sw_graph s) \<noteq> Panic m"
    "\<And>g x. f (sw_site s) (sw_graph s) = Ok (g, x) \<Longrightarrow>
       Q x (s\<lparr>sw_site := Suc (sw_site s), sw_graph := g\<rparr>)"
    "\<And>r. E r (s\<lparr>sw_site := Suc (sw_site s)\<rparr>)"
  shows "wp (on_graph f err) Q E s"
  using assms by (simp add: wps Let_def split: outcome.splits)

lemma keep_then_silent:
  assumes "silent core m" "\<And>x. silent core (f x)" "steward_inv s"
  shows "wp m (\<lambda>x. wp (f x) (\<lambda>_. steward_inv) E) E s"
  using wp_keep [OF silent_wbind [OF assms(1,2)] assms(3)] by (simp add: wps)

abbreviation keeps :: "('v, 'j, 'a) verb \<Rightarrow> ('v, 'j) steward \<Rightarrow> bool" where
  "keeps m s \<equiv> wp m (\<lambda>_. steward_inv) (\<lambda>_. steward_inv) s"

subsection \<open>Subject announcer\<close>

lemma announce_ok:
  assumes "steward_ok r g c" "fresh_ids r uid 1" "uid 0 \<noteq> []" "distinct (an_addressings ann)"
    "announce r ann p uid clk = Ok (r', x)"
  shows "steward_ok r' g c"
proof -
  obtain upd out where x: "announce r ann p uid clk = Ok (r', upd, out)" using assms(5) by (cases x) auto
  have "reg_inv r" using assms(1) by (simp add: steward_ok_def)
  from announce_types [OF this assms(2) x] announce_inv [OF this assms(4,2) x] assms(1,3)
  show ?thesis by (auto simp: steward_ok_def intro: conforms_mono)
qed

lemma announce_no_panic: "announce r ann p uid clk \<noteq> Panic m"
  by (simp add: announce_def split: if_splits prod.splits)

lemma subject_announce_inv:
  assumes "quiet e" "fresh_env e (sw_registry s)" "distinct (an_addressings ann)" "steward_inv s"
  shows "keeps (subject_announce e p ann) s"
  unfolding subject_announce_def
proof (intro keep keep_registry announce_no_panic)
  fix r x
  assume ok: "announce (sw_registry s) ann p (we_uid e (sw_site s)) (we_clk e (sw_site s)) = Ok (r, x)"
  let ?s = "s\<lparr>sw_site := Suc (sw_site s), sw_registry := r\<rparr>"
  have "steward_inv ?s"
    using announce_ok [OF _ _ _ assms(3) ok] assms(2,4) by (auto simp: steward_inv_def fresh_env_def)
  moreover obtain upd out where "x = (upd, out)" by fastforce
  ultimately show "wp (case x of (_, out) \<Rightarrow>
      wbind (if we_persistence e then mirror_announce e p ann out else wreturn ()) (\<lambda>_.
        case out of Conflict ids \<Rightarrow> surface_conflict e p (an_addressings ann) ids
          | _ \<Rightarrow> wreturn ())) (\<lambda>_. steward_inv) (\<lambda>_. steward_inv) ?s"
    by (cases out) (use assms(1) in \<open>auto intro!: wp_keep silent\<close>)
qed (use assms in auto)

lemma retracted_ok:
  assumes ok: "steward_ok r g c" and own: "owned_claim r a p i rec idx"
  shows "if sr_addressings (without_claim rec idx (clk 0)) = []
    then steward_ok (retracted r a q reason clk i rec idx) (fst (forget_all_touching g i)) c
    else steward_ok (retracted r a q reason clk i rec idx) g c"
proof -
  have inv: "reg_inv r" using ok by (simp add: steward_ok_def)
  show ?thesis
    using steward_ok_forget [OF ok retracted_inv [OF inv own]]
      steward_ok_same_types [OF ok retracted_inv [OF inv own]] retracted_types [OF inv own, of q reason clk]
    by simp
qed

text \<open>The graph half of a forget, after silent steps that kept the core.\<close>

lemma cascade_keeps:
  assumes q: "quiet e"
    and ok: "steward_ok (sw_registry s) (fst (forget_all_touching (sw_graph s) i)) (sw_catalogue s)"
    and m: "\<And>x. silent core (f x)"
  shows "wp (cascade_forget e p i at) (\<lambda>x. wp (f x) (\<lambda>_. steward_inv) E) E s"
proof -
  obtain g' removed where f: "forget_all_touching (sw_graph s) i = (g', removed)" by fastforce
  let ?s = "s\<lparr>sw_site := Suc (sw_site s), sw_graph := g'\<rparr>"
  have "steward_inv ?s" using ok f by (simp add: steward_inv_def)
  then have "wp (wfor removed (forget_edge e p i at)) (\<lambda>x. wp (f x) (\<lambda>_. steward_inv) E) E ?s"
    by (intro keep_then_silent silent q m)
  with f show ?thesis by (simp add: cascade_forget_def wps)
qed

lemma core_upd:
  "core (s\<lparr>sw_site := n, sw_registry := r\<rparr>) = (r, sw_graph s, sw_catalogue s, sw_plugins s)"
  "core (s\<lparr>sw_site := n, sw_graph := g\<rparr>) = (sw_registry s, g, sw_catalogue s, sw_plugins s)"
  by (simp_all add: core_def)

lemma keep_emit:
  "quiet e \<Longrightarrow> (\<And>x s'. core s' = core s \<Longrightarrow> Q x s') \<Longrightarrow> wp (emit_or_refuse e h) Q E s"
  by (rule wp_silent [OF silent_emit_core])

lemma keep_record:
  "quiet e \<Longrightarrow> (\<And>x s'. core s' = core s \<Longrightarrow> Q x s') \<Longrightarrow> wp (record_or_refuse e h) Q E s"
  by (rule wp_silent [OF silent_record_core])

lemma keep_persist:
  "quiet e \<Longrightarrow> (\<And>m. \<exists>m'. f m = Inr m') \<Longrightarrow> (\<And>x s'. core s' = core s \<Longrightarrow> Q x s') \<Longrightarrow>
   wp (persist e what f) Q E s"
  by (rule wp_silent [OF silent_persist])

lemmas keep_steps = keep_emit keep_record keep_persist cascade_keeps

lemma subject_retract_inv:
  assumes q: "quiet e" and inv: "steward_inv s"
  shows "keeps (subject_retract e p a reason) s"
proof -
  let ?r = "sw_registry s" and ?clk = "we_clk e (sw_site s)"
  have ok: "steward_ok ?r (sw_graph s) (sw_catalogue s)" using inv by (simp add: steward_inv_def)
  show ?thesis
  proof (rule retract_cases [of ?r a p reason ?clk])
    fix i rec idx
    assume own: "owned_claim ?r a p i rec idx"
      "retract ?r a p reason ?clk = Ok (retracted ?r a p reason ?clk i rec idx,
         if sr_addressings (without_claim rec idx (?clk 0)) = []
         then SubjectForgotten i (sr_subject_type rec) else AddressingRemoved)"
    note eff = retracted_ok [OF ok own(1), where clk = ?clk and q = p and reason = reason]
    show ?thesis
    proof (cases "sr_addressings (without_claim rec idx (?clk 0)) = []")
      case False
      with eff q show ?thesis
        by (auto simp: subject_retract_def wps own(2) steward_inv_def intro!: wp_keep silent split: option.split)
    next
      case True
      with eff q show ?thesis
        by (auto simp: subject_retract_def wps own(2) core_def intro!: keep_steps silent)
    qed
  qed (use inv in \<open>simp add: subject_retract_def wps\<close>)
qed

lemma admin_forced_retract_addressing_inv:
  assumes q: "quiet e" and inv: "steward_inv s"
  shows "keeps (admin_forced_retract_addressing e ap tp a reason) s"
proof -
  let ?r = "sw_registry s" and ?clk = "we_clk e (sw_site s)"
  have ok: "steward_ok ?r (sw_graph s) (sw_catalogue s)" using inv by (simp add: steward_inv_def)
  show ?thesis
  proof (rule forced_retract_cases [of ?r a tp ap reason ?clk])
    fix i rec idx
    assume own: "owned_claim ?r a tp i rec idx"
      "forced_retract_addressing ?r a tp ap reason ?clk = Ok (retracted ?r a ap reason ?clk i rec idx,
         if sr_addressings (without_claim rec idx (?clk 0)) = []
         then ForcedSubjectForgotten i (sr_subject_type rec) else ForcedAddressingRemoved i)"
    note eff = retracted_ok [OF ok own(1), where clk = ?clk and q = ap and reason = reason]
    show ?thesis
    proof (cases "sr_addressings (without_claim rec idx (?clk 0)) = []")
      case False
      with eff q inv show ?thesis
        by (auto simp: admin_forced_retract_addressing_def check_target_def wps own(2) steward_inv_def
            intro!: keep_then_silent silent)
    next
      case True
      with eff q inv show ?thesis
        by (auto simp: admin_forced_retract_addressing_def check_target_def wps own(2) core_def
            intro!: keep_steps silent)
    qed
  qed (use inv in \<open>simp add: admin_forced_retract_addressing_def check_target_def wps\<close>)
qed

lemma update_state_inner_inv:
  assumes q: "quiet e" and inv: "steward_inv s"
  shows "keeps (update_state_inner e p a st dur) s"
  unfolding update_state_inner_def Let_def
proof (intro keep keep_registry)
  fix i rec
  show "update_state (sw_registry s) i st (we_clk e (sw_site s)) \<noteq> Panic m" for m
    by (simp add: update_state_def split: option.splits)
next
  fix i rec r x
  assume u: "update_state (sw_registry s) i st (we_clk e (sw_site s)) = Ok (r, x)"
  have ok: "steward_ok r (sw_graph s) (sw_catalogue s)"
  proof (rule steward_ok_same_types)
    show "steward_ok (sw_registry s) (sw_graph s) (sw_catalogue s)" using inv by (simp add: steward_inv_def)
    then have "reg_inv (sw_registry s)" by (simp add: steward_ok_def)
    then show "reg_inv r" using u by (cases x) (rule update_state_inv)
    show "type_of r = type_of (sw_registry s)" by (rule update_state_types [OF u])
  qed
  show "wp (if dur \<and> we_persistence e then
           wbind (now e) (\<lambda>at. case st of
               None \<Rightarrow> persist e ''subject state forget persist failed: ''
                 (\<lambda>m. Inr (forget_subject_state i m))
             | Some v \<Rightarrow> persist_state e i v (system_time_to_ms at))
         else wreturn ()) (\<lambda>x. wp (wbind (now e) (\<lambda>at.
          emit_or_refuse e (H_SubjectStateChanged p i (sr_subject_type rec)
            (case state_of (sw_registry s) i of None \<Rightarrow> None | Some v \<Rightarrow> v) st at)))
          (\<lambda>_. steward_inv) (\<lambda>_. steward_inv)) (\<lambda>_. steward_inv)
       (s\<lparr>sw_site := Suc (sw_site s), sw_registry := r\<rparr>)"
    using ok q by (intro keep_then_silent silent) (auto simp: steward_inv_def)
qed (use assms in auto)

subsection \<open>Relation announcer and administration\<close>

lemma rel_assert_dom:
  "rel_assert g s p t c reason clk = Ok (g', out) \<Longrightarrow>
   dom (hm_get (gi_relations g')) \<subseteq> insert (mk_key s p t) (dom (hm_get (gi_relations g)))"
  by (auto simp: rel_assert_def Let_def split: if_splits option.splits)

lemma drop_rel_claim_dom:
  "drop_rel_claim g k rec idx tm = (g', b) \<Longrightarrow> hm_get (gi_relations g) k = Some rec \<Longrightarrow>
   dom (hm_get (gi_relations g')) \<subseteq> dom (hm_get (gi_relations g))"
  by (auto simp: drop_rel_claim_def Let_def split: if_splits)

lemma rel_retract_dom:
  "rel_retract g s p t c clk = Ok (g', out) \<Longrightarrow>
   dom (hm_get (gi_relations g')) \<subseteq> dom (hm_get (gi_relations g))"
  by (auto simp: rel_retract_def Let_def simp del: mk_key_eq split: option.splits prod.splits if_splits
      dest: drop_rel_claim_dom)

lemma forced_retract_claim_dom:
  "forced_retract_claim g s p t c clk = Ok (g', out) \<Longrightarrow>
   dom (hm_get (gi_relations g')) \<subseteq> dom (hm_get (gi_relations g))"
  by (auto simp: forced_retract_claim_def Let_def simp del: mk_key_eq split: option.splits prod.splits if_splits
      dest: drop_rel_claim_dom)

lemma suppress_dom:
  "suppress g s p t ap reason clk = Ok (g', out) \<Longrightarrow>
   dom (hm_get (gi_relations g')) = dom (hm_get (gi_relations g))"
  by (auto simp: suppress_def Let_def simp del: mk_key_eq split: option.splits if_splits)

lemma unsuppress_dom:
  "unsuppress g s p t clk = Ok (g', out) \<Longrightarrow>
   dom (hm_get (gi_relations g')) = dom (hm_get (gi_relations g))"
  by (auto simp: unsuppress_def Let_def simp del: mk_key_eq split: option.splits if_splits)

lemma graph_no_panic [simp]:
  "rel_assert g s p t c reason clk \<noteq> Panic m" "rel_retract g s p t c clk \<noteq> Panic m"
  "forced_retract_claim g s p t c clk \<noteq> Panic m"
  by (auto simp: rel_assert_def rel_retract_def forced_retract_claim_def Let_def
      split: option.splits prod.splits if_splits)

lemma suppress_no_panic [simp]:
  "suppress g s p t ap reason clk \<noteq> Panic m" "unsuppress g s p t clk \<noteq> Panic m"
  using suppress_total [of g s p t ap reason clk] unsuppress_total [of g s p t clk] by auto

text \<open>A graph operation that adds conforming relations at most keeps the invariant.\<close>

lemma keep_on_graph:
  assumes "steward_inv s" "\<And>m. f (sw_site s) (sw_graph s) \<noteq> Panic m"
    "\<And>g x. f (sw_site s) (sw_graph s) = Ok (g, x) \<Longrightarrow> graph_inv g \<and>
       dom (hm_get (gi_relations g)) \<subseteq> dom (hm_get (gi_relations (sw_graph s))) \<union>
         {k. conforms (sw_catalogue s) (type_of (sw_registry s)) k}"
    "\<And>x s'. steward_inv s' \<Longrightarrow> Q x s'"
  shows "wp (on_graph f err) Q (\<lambda>_. steward_inv) s"
proof (rule keep_graph)
  fix g x assume "f (sw_site s) (sw_graph s) = Ok (g, x)"
  from assms(3) [OF this] have "steward_ok (sw_registry s) g (sw_catalogue s)"
    using assms(1) steward_ok_graph [of "sw_registry s" "sw_graph s" "sw_catalogue s" g]
    by (simp add: steward_inv_def)
  then show "Q x (s\<lparr>sw_site := Suc (sw_site s), sw_graph := g\<rparr>)"
    by (intro assms(4)) (simp add: steward_inv_def)
qed (use assms in auto)

lemma steward_graph_inv: "steward_inv s \<Longrightarrow> graph_inv (sw_graph s)"
  by (simp add: steward_inv_def steward_ok_def)

lemma keep_mirror_assert:
  assumes "quiet e" "steward_inv s" "\<And>x s'. steward_inv s' \<Longrightarrow> Q x s'"
  shows "wp (mirror_assert e p a si ti out) Q (\<lambda>_. steward_inv) s"
proof -
  have "wp (persist e w (\<lambda>m. Inr (f m))) Q (\<lambda>_. steward_inv) s" for w f
    using assms(1,2) by (intro keep_persist) (auto intro!: assms(3) intro: steward_inv_core [THEN iffD2])
  with assms show ?thesis by (auto simp: mirror_assert_def wps split: option.split)
qed

lemma keep_types:
  assumes "\<And>x y. describe r si = Some x \<Longrightarrow> describe r ti = Some y \<Longrightarrow>
      type_accepts (rp_source_type p) (sr_subject_type x) \<Longrightarrow>
      type_accepts (rp_target_type p) (sr_subject_type y) \<Longrightarrow> Q () s" "\<And>r. E r s"
  shows "wp (check_types p a r si ti) Q E s"
  using assms by (auto simp: check_types_def wps split: option.split)

lemma relation_assert_inv:
  assumes q: "quiet e" and inv: "steward_inv s"
  shows "keeps (relation_assert e p a) s"
  unfolding relation_assert_def
proof (intro keep keep_types keep_on_graph inv graph_no_panic keep_mirror_assert q)
  fix pr si ti x y g out
  assume *: "find_predicate (sw_catalogue s) (ra_predicate a) = Some pr"
    "describe (sw_registry s) si = Some x" "describe (sw_registry s) ti = Some y"
    "type_accepts (rp_source_type pr) (sr_subject_type x)"
    "type_accepts (rp_target_type pr) (sr_subject_type y)"
    and ok: "rel_assert (sw_graph s) si (ra_predicate a) ti p (ra_reason a) (we_clk e (sw_site s)) = Ok (g, out)"
  from * have "conforms (sw_catalogue s) (type_of (sw_registry s)) (mk_key si (ra_predicate a) ti)"
    by (auto simp: conforms_def type_of_def)
  with rel_assert_dom [OF ok] rel_assert_inv [OF steward_graph_inv [OF inv] ok]
  show "graph_inv g \<and> dom (hm_get (gi_relations g)) \<subseteq> dom (hm_get (gi_relations (sw_graph s))) \<union>
         {k. conforms (sw_catalogue s) (type_of (sw_registry s)) k}" by auto
qed (use q in \<open>auto intro!: keep_then_silent silent\<close>)

lemma relation_retract_inv:
  assumes q: "quiet e" and inv: "steward_inv s"
  shows "keeps (relation_retract e p a) s"
  unfolding relation_retract_def
proof (intro keep keep_on_graph inv graph_no_panic)
  fix si ti g out
  assume ok: "rel_retract (sw_graph s) si (ra_predicate a) ti p (we_clk e (sw_site s)) = Ok (g, out)"
  from rel_retract_dom [OF this] rel_retract_inv [OF steward_graph_inv [OF inv] ok]
  show "graph_inv g \<and> dom (hm_get (gi_relations g)) \<subseteq> dom (hm_get (gi_relations (sw_graph s))) \<union>
         {k. conforms (sw_catalogue s) (type_of (sw_registry s)) k}" by auto
qed (use q inv in \<open>auto intro!: keep_then_silent silent\<close>)

lemma keep_endpoints:
  "(\<And>i j. wp (f i j) Q E s) \<Longrightarrow> Q () s \<Longrightarrow> wp (with_endpoints a b f) Q E s"
  by (simp add: with_endpoints_def wps split: option.split)

lemma keep_target: "Q () s \<Longrightarrow> (\<And>r. E r s) \<Longrightarrow> wp (check_target w t p) Q E s"
  by (simp add: check_target_def wps)

lemma admin_forced_retract_claim_inv:
  assumes q: "quiet e" and inv: "steward_inv s"
  shows "keeps (admin_forced_retract_claim e ap tp src p tgt reason) s"
  unfolding admin_forced_retract_claim_def
proof (intro keep_bind keep_target keep_endpoints keep_on_graph inv graph_no_panic)
  fix si ti g out
  assume ok: "forced_retract_claim (sw_graph s) si p ti tp (we_clk e (sw_site s)) = Ok (g, out)"
  from forced_retract_claim_dom [OF this] forced_retract_claim_inv [OF steward_graph_inv [OF inv] ok]
  show "graph_inv g \<and> dom (hm_get (gi_relations g)) \<subseteq> dom (hm_get (gi_relations (sw_graph s))) \<union>
         {k. conforms (sw_catalogue s) (type_of (sw_registry s)) k}" by auto
qed (use q inv in \<open>auto intro!: wp_keep silent\<close>)

lemma admin_suppress_inv:
  assumes q: "quiet e" and inv: "steward_inv s"
  shows "keeps (admin_suppress e ap src p tgt reason) s"
  unfolding admin_suppress_def
proof (intro keep_bind keep_endpoints keep_on_graph inv suppress_no_panic)
  fix si ti g out
  assume ok: "suppress (sw_graph s) si p ti ap reason (we_clk e (sw_site s)) = Ok (g, out)"
  from suppress_dom [OF this] suppress_inv [OF steward_graph_inv [OF inv] ok]
  show "graph_inv g \<and> dom (hm_get (gi_relations g)) \<subseteq> dom (hm_get (gi_relations (sw_graph s))) \<union>
         {k. conforms (sw_catalogue s) (type_of (sw_registry s)) k}" by auto
qed (use q inv in \<open>auto intro!: wp_keep silent split: suppress_outcome.split\<close>)

lemma admin_unsuppress_inv:
  assumes q: "quiet e" and inv: "steward_inv s"
  shows "keeps (admin_unsuppress e ap src p tgt) s"
  unfolding admin_unsuppress_def
proof (intro keep_bind keep_endpoints keep_on_graph inv suppress_no_panic)
  fix si ti g out
  assume ok: "unsuppress (sw_graph s) si p ti (we_clk e (sw_site s)) = Ok (g, out)"
  from unsuppress_dom [OF this] unsuppress_inv [OF steward_graph_inv [OF inv] ok]
  show "graph_inv g \<and> dom (hm_get (gi_relations g)) \<subseteq> dom (hm_get (gi_relations (sw_graph s))) \<union>
         {k. conforms (sw_catalogue s) (type_of (sw_registry s)) k}" by auto
qed (use q inv in \<open>auto intro!: wp_keep silent\<close>)

subsection \<open>Subject administration\<close>

lemma resolved_live:
  assumes "reg_inv r" "resolve r a = Some i"
  obtains rec where "hm_get (ri_subjects r) i = Some rec" "describe r i = Some rec"
  using assms by (auto simp: reg_inv_def coherent_def resolve_def describe_def)

lemma fresh_new: "fresh_env e r \<Longrightarrow> hm_get (ri_subjects r) (we_uid e n i) = None"
proof -
  assume "fresh_env e r"
  then have "fresh_ids r (we_uid e n) (Suc i)" by (simp add: fresh_env_def)
  then show ?thesis by (auto simp: fresh_ids_def known_ids_def)
qed

text \<open>The two rewrites of a merge, once the registry has merged.\<close>

lemma keep_now: "(\<And>x s'. core s' = core s \<Longrightarrow> Q x s') \<Longrightarrow> wp (now e) Q E s"
  by (simp add: wps)

lemma merge_graph_keeps:
  fixes s :: "('v, 'j) steward"
  assumes ok: "steward_ok r (sw_graph s) (sw_catalogue s)" and r': "reg_inv (sw_registry s)"
      "type_of (sw_registry s) = (type_of r)(a := None, b := None, n := type_of r a)"
    and ab: "a \<in> dom (type_of r)" "type_of r b = type_of r a" "a \<noteq> b"
    and n: "n \<notin> dom (type_of r)" "n \<noteq> []"
    and m: "\<And>x y. silent core (f x y :: ('v, 'j, 'c) verb)"
  shows "wp (wbind (on_graph (\<lambda>k g. rewrite_subject_to g a n (clk k)) err)
    (\<lambda>x. wbind (on_graph (\<lambda>k g. rewrite_subject_to g b n (clk k)) err') (f x))) (\<lambda>_. steward_inv) E s"
proof -
  obtain g1 o1 g2 o2 where g: "rewrite_subject_to (sw_graph s) a n (clk (sw_site s)) = Ok (g1, o1)"
    "rewrite_subject_to g1 b n (clk (Suc (sw_site s))) = Ok (g2, o2)"
    "steward_ok (sw_registry s) g2 (sw_catalogue s)"
    by (rule steward_ok_merge [OF ok r' ab n])
  then show ?thesis
    by (auto simp: wps Let_def steward_inv_def intro!: wp_keep m)
qed

lemma admin_merge_inv:
  assumes q: "quiet e" and fresh: "fresh_env e (sw_registry s)" and inv: "steward_inv s"
  shows "keeps (admin_merge e ap ta tb reason) s"
proof (cases "\<exists>a b. resolve (sw_registry s) ta = Some a \<and> resolve (sw_registry s) tb = Some b \<and> a \<noteq> b")
  case False
  then show ?thesis using inv by (auto simp: admin_merge_def wps split: option.splits)
next
  case True
  let ?r = "sw_registry s" and ?n = "we_uid e (sw_site s) 0" and ?clk = "we_clk e (sw_site s)"
  obtain a b where a: "resolve ?r ta = Some a" and b: "resolve ?r tb = Some b" and ab: "a \<noteq> b"
    using True by blast
  have ok: "steward_ok ?r (sw_graph s) (sw_catalogue s)" and ri: "reg_inv ?r"
    using inv by (auto simp: steward_inv_def steward_ok_def)
  obtain ra where ra: "hm_get (ri_subjects ?r) a = Some ra" "describe ?r a = Some ra"
    using resolved_live [OF ri a] .
  obtain rb where rb: "hm_get (ri_subjects ?r) b = Some rb" "describe ?r b = Some rb"
    using resolved_live [OF ri b] .
  show ?thesis
  proof (cases "sr_subject_type ra = sr_subject_type rb")
    case False
    then show ?thesis using a b ab ra rb inv by (simp add: admin_merge_def check_merge_types_def wps)
  next
    case ty: True
    let ?r' = "merged_registry ?r a b ra rb ap reason ?n (?clk 0)"
    have m: "merge_aliases ?r a b ap reason (we_uid e (sw_site s)) ?clk = Ok (?r',
         \<lparr>mo_new_id = ?n,
          mo_addressing_transfers = transfers_of a ?n (sr_addressings ra) @
                                    transfers_of b ?n (sr_addressings rb)\<rparr>)"
      using merge_cases [OF ri, of a b ap reason "we_uid e (sw_site s)" ?clk] ra rb ab ty by fastforce
    have r': "reg_inv ?r'" using merge_inv [OF ri _ m] fresh by (simp add: fresh_env_def)
    have facts: "a \<in> dom (type_of ?r)" "type_of ?r b = type_of ?r a" "?n \<notin> dom (type_of ?r)" "?n \<noteq> []"
      using ra rb ty fresh_new [OF fresh] fresh by (auto simp: type_of_def describe_def fresh_env_def)
    note tail = merge_graph_keeps [OF _ _ _ facts(1,2) ab facts(3,4)]
    show ?thesis
      by (simp add: admin_merge_def check_merge_types_def wps a b ab ra rb ty m,
          (rule tail keep_persist [OF q] keep_emit [OF q] keep_now keep_bind exI refl)+)
        (auto simp: core_def r' merged_types [OF ra(1)] ok intro!: silent q)
  qed
qed

lemma split_graph_keeps:
  fixes s :: "('v, 'j) steward"
  assumes ok: "steward_ok r (sw_graph s) (sw_catalogue s)" and r': "reg_inv (sw_registry s)"
      "type_of (sw_registry s) = (\<lambda>j. if j = src then None
         else if j \<in> set ns then type_of r src else type_of r j)"
    and src: "src \<in> dom (type_of r)" and ns: "set ns \<inter> dom (type_of r) = {}" "ns \<noteq> []" "[] \<notin> set ns"
    and asg: "sa_target_new_id ` set assignments \<subseteq> set ns"
    and m: "\<And>x. silent core (f x :: ('v, 'j, 'c) verb)"
  shows "wp (wbind (on_graph (\<lambda>k g. split_relations g src ns strategy assignments (clk k)) err) f)
    (\<lambda>_. steward_inv) E s"
proof -
  obtain g out where g: "split_relations (sw_graph s) src ns strategy assignments (clk (sw_site s)) = Ok (g, out)"
    "steward_ok (sw_registry s) g (sw_catalogue s)"
    by (rule steward_ok_split [OF ok r' src ns asg])
  then show ?thesis
    by (auto simp: wps Let_def steward_inv_def intro!: wp_keep m)
qed

lemma keep_split_store:
  assumes "quiet e" "ns \<noteq> []" "length ns = length groups" "\<And>x s'. core s' = core s \<Longrightarrow> Q x s'"
  shows "wp (persist e w (record_subject_split i ns ty groups ap reason t)) Q E s"
  using assms by (intro keep_persist) (auto simp: record_subject_split_def Let_def)

lemma keep_assignments:
  assumes "\<And>as. sa_target_new_id ` set as \<subseteq> set ns \<Longrightarrow> Q as s"
    "\<And>i mk. (i, mk) \<in> set pre \<Longrightarrow> i < length ns"
    "\<And>i mk n. (i, mk) \<in> set pre \<Longrightarrow> sa_target_new_id (mk n) = n"
  shows "wp (assignments_for ns pre) Q E s"
proof -
  have "sa_target_new_id ` set (map (\<lambda>(idx, mk). mk (ns ! idx)) pre) \<subseteq> set ns"
    using assms(2,3) by fastforce
  with assms show ?thesis by (fastforce simp: assignments_for_def wp_def)
qed

lemma pre_resolve_facts:
  assumes "List.find (\<lambda>a. k \<le> ex_target_new_id_index a) as = None" "(i, mk) \<in> set (pre_resolve r as)"
  shows "i < k" "sa_target_new_id (mk n) = n"
  using assms
  by (auto simp: pre_resolve_def find_None_iff List.map_filter_def bind_eq_Some_conv not_le)

lemma admin_split_inv:
  assumes q: "quiet e" and fresh: "fresh_env e (sw_registry s)" and inv: "steward_inv s"
  shows "keeps (admin_split e ap src groups strategy as reason) s"
proof (cases "(\<exists>i. resolve (sw_registry s) src = Some i) \<and>
    List.find (\<lambda>a. length groups \<le> ex_target_new_id_index a) as = None")
  case False
  then show ?thesis using inv by (auto simp: admin_split_def wps split: option.splits)
next
  case True
  let ?r = "sw_registry s" and ?uid = "we_uid e (sw_site s)" and ?clk = "we_clk e (sw_site s)"
  let ?zs = "zip (map ?uid [0..<length groups]) groups"
  obtain i where i: "resolve ?r src = Some i"
    and bound: "List.find (\<lambda>a. length groups \<le> ex_target_new_id_index a) as = None"
    using True by blast
  have ok: "steward_ok ?r (sw_graph s) (sw_catalogue s)" and ri: "reg_inv ?r"
    using inv by (auto simp: steward_inv_def steward_ok_def)
  show ?thesis
  proof (rule split_cases [OF ri, of i groups ap reason ?uid ?clk])
    fix rec
    assume rec: "hm_get (ri_subjects ?r) i = Some rec" and chk: "split_check rec groups = None"
      and sp: "split_subject ?r i groups ap reason ?uid ?clk = Ok
         (split_registry ?r i rec ?zs ap reason (?clk 0),
          \<lparr>so_new_ids = map fst ?zs, so_addressing_transfers =
             concat (map (\<lambda>z. transfers_of i (fst z) (group_records rec (snd z))) ?zs)\<rparr>)"
    let ?ns = "map ?uid [0..<length groups]"
    have len: "2 \<le> length groups" using chk by (auto simp: split_check_None)
    have fr: "fresh_ids ?r ?uid (length groups)" using fresh by (simp add: fresh_env_def)
    have r': "reg_inv (split_registry ?r i rec ?zs ap reason (?clk 0))" using split_inv [OF ri fr sp] .
    have ty: "type_of (split_registry ?r i rec ?zs ap reason (?clk 0)) = (\<lambda>j. if j = i then None
         else if j \<in> set ?ns then type_of ?r i else type_of ?r j)"
      unfolding split_types [OF rec fr chk] by (simp only: set_map set_upt)
    have facts: "i \<in> dom (type_of ?r)" "set ?ns \<inter> dom (type_of ?r) = {}" "?ns \<noteq> []" "[] \<notin> set ?ns"
      using rec fresh_new [OF fresh] fresh len
      by (auto simp: type_of_def describe_def fresh_env_def) metis
    have d: "describe ?r i = Some rec" "length ?ns = length groups" using rec by (simp_all add: describe_def)
    show ?thesis
      apply (simp add: admin_split_def wps Let_def i bound sp d(1))
      apply (rule keep_split_store [OF q facts(3) d(2)] split_graph_keeps [OF _ _ _ facts] keep_emit [OF q]
          keep_now keep_assignments keep_bind)+
      apply (auto simp: core_def r' ty ok intro!: silent q dest: pre_resolve_facts [OF bound])
      done
  qed (use i bound inv in \<open>simp add: admin_split_def wps Let_def\<close>)
qed

section \<open>Calls\<close>

datatype 'v call =
    CallAnnounce string "'v subject_announcement"
  | CallRetract string external_addressing "string option"
  | CallUpdateState string external_addressing "'v option" bool
  | CallAssert string relation_assertion
  | CallRetractRelation string relation_assertion
  | CallForcedRetract string string external_addressing "string option"
  | CallMerge string external_addressing external_addressing "string option"
  | CallSplit string external_addressing "external_addressing list list" split_relation_strategy
      "explicit_relation_assignment list" "string option"
  | CallForcedRetractClaim string string external_addressing string external_addressing "string option"
  | CallSuppress string external_addressing string external_addressing "string option"
  | CallUnsuppress string external_addressing string external_addressing

fun run_call :: "('v, 'j) wiring_env \<Rightarrow> 'v call \<Rightarrow> ('v, 'j, unit) verb" where
  "run_call e (CallAnnounce p ann) = subject_announce e p ann"
| "run_call e (CallRetract p a reason) = subject_retract e p a reason"
| "run_call e (CallUpdateState p a st durable) = update_state_inner e p a st durable"
| "run_call e (CallAssert p a) = relation_assert e p a"
| "run_call e (CallRetractRelation p a) = relation_retract e p a"
| "run_call e (CallForcedRetract ap tp a reason) = admin_forced_retract_addressing e ap tp a reason"
| "run_call e (CallMerge ap a b reason) = admin_merge e ap a b reason"
| "run_call e (CallSplit ap a groups strategy assignments reason) =
     admin_split e ap a groups strategy assignments reason"
| "run_call e (CallForcedRetractClaim ap tp s p t reason) =
     admin_forced_retract_claim e ap tp s p t reason"
| "run_call e (CallSuppress ap s p t reason) = admin_suppress e ap s p t reason"
| "run_call e (CallUnsuppress ap s p t) = admin_unsuppress e ap s p t"

text \<open>No announcement lists an addressing twice.\<close>

fun call_ok :: "'v call \<Rightarrow> bool" where
  "call_ok (CallAnnounce p ann) = distinct (an_addressings ann)"
| "call_ok _ = True"

inductive wiring_step :: "('v, 'j) steward \<Rightarrow> ('v, 'j) steward \<Rightarrow> bool" where
  call: "quiet e \<Longrightarrow> fresh_env e (sw_registry s) \<Longrightarrow> call_ok c \<Longrightarrow> run_call e c s = (s', res) \<Longrightarrow>
    wiring_step s s'"

definition booted :: "('v, 'j) steward \<Rightarrow> bool" where
  "booted s \<longleftrightarrow> sw_registry s = empty_registry_inner \<and> sw_graph s = new_graph"

lemmas verb_invs = subject_announce_inv subject_retract_inv update_state_inner_inv relation_assert_inv
  relation_retract_inv admin_forced_retract_addressing_inv admin_merge_inv admin_split_inv
  admin_forced_retract_claim_inv admin_suppress_inv admin_unsuppress_inv

lemma call_keeps:
  assumes "quiet e" "fresh_env e (sw_registry s)" "call_ok c" "steward_inv s"
  shows "keeps (run_call e c) s"
  using assms by (cases c) (auto intro: verb_invs)

lemma wp_run:
  assumes "wp m (\<lambda>_. P) (\<lambda>_. P) s" "m s = (s', res)"
  shows "P s' \<and> (\<forall>x. res \<noteq> Panicked x)"
  using assms by (auto simp: wp_def split: wresult.splits)

lemma wiring_step_inv: "wiring_step s s' \<Longrightarrow> steward_inv s \<Longrightarrow> steward_inv s'"
  by (induction rule: wiring_step.induct) (blast dest: wp_run [OF call_keeps])

lemma booted_inv: "booted s \<Longrightarrow> steward_inv s"
  by (auto simp: booted_def steward_inv_def steward_ok_def type_of_def describe_def
      empty_registry_inner_def new_graph_def intro: new_graph_inv [unfolded new_graph_def]
      reg_inv_empty [unfolded empty_registry_inner_def])

interpretation wiring: invariant_system booted wiring_step steward_inv
  by unfold_locales (fact booted_inv, fact wiring_step_inv)

section \<open>A sample steward\<close>

text \<open>Two subject types, one predicate, two subjects of the types it accepts and the relation
  between them.\<close>

definition sample_catalogue :: catalogue where
  "sample_catalogue = \<lparr>ca_schema_version = 1, ca_racks = [],
     ca_subjects = [\<lparr>sd_name = ''track'', sd_description = []\<rparr>, \<lparr>sd_name = ''album'', sd_description = []\<rparr>],
     ca_relations = [\<lparr>rp_predicate = ''album_of'', rp_description = [], rp_source_type = Single ''track'',
        rp_target_type = Single ''album'', rp_source_cardinality = AtMostOne,
        rp_target_cardinality = Many, rp_inverse = None\<rparr>],
     ca_reconciliation_pairs = []\<rparr>"

definition fresh_steward :: "(unit, unit) steward" where
  "fresh_steward = \<lparr>sw_registry = empty_registry_inner, sw_graph = new_graph,
     sw_catalogue = sample_catalogue, sw_plugins = [''p'', ''admin''], sw_bus = new_bus,
     sw_ledger = [], sw_conflicts = new_conflict_index, sw_store = new_memory_state, sw_site = 0\<rparr>"

text \<open>Ids longer than \<open>n\<close> characters.\<close>

definition sample_env :: "nat \<Rightarrow> (unit, unit) wiring_env" where
  "sample_env n = \<lparr>we_clk = (\<lambda>_ _. 0), we_uid = (\<lambda>_ i. replicate (Suc (n + i)) (CHR ''x'')),
     we_state_json = (\<lambda>_. Some []), we_happening_json = (\<lambda>_. Inr ()), we_fault = (\<lambda>_. None),
     we_persistence = True, we_conflict_index = True, we_bus_durable = True,
     we_ledger_durable = True\<rparr>"

definition track_a :: external_addressing where "track_a = \<lparr>ea_scheme = ''t'', ea_value = ''1''\<rparr>"
definition album_a :: external_addressing where "album_a = \<lparr>ea_scheme = ''a'', ea_value = ''1''\<rparr>"

definition announce_one :: "string \<Rightarrow> external_addressing \<Rightarrow> unit call" where
  "announce_one ty a = CallAnnounce ''p'' \<lparr>an_subject_type = ty, an_addressings = [a], an_claims = [],
     an_state = None, an_announced_at = 0\<rparr>"

definition album_of :: relation_assertion where
  "album_of = \<lparr>ra_source = track_a, ra_predicate = ''album_of'', ra_target = album_a, ra_reason = None\<rparr>"

definition steward_1 :: "(unit, unit) steward" where
  "steward_1 = fst (run_call (sample_env 0) (announce_one ''track'' track_a) fresh_steward)"

definition steward_2 :: "(unit, unit) steward" where
  "steward_2 = fst (run_call (sample_env 1) (announce_one ''album'' album_a) steward_1)"

definition steward_3 :: "(unit, unit) steward" where
  "steward_3 = fst (run_call (sample_env 2) (CallAssert ''p'' album_of) steward_2)"

lemma sample_quiet: "quiet (sample_env n)"
  by (simp add: quiet_def sample_env_def)

lemma sample_fresh:
  assumes "\<And>i. i \<in> known_ids r \<Longrightarrow> length i \<le> n"
  shows "fresh_env (sample_env n) r"
proof -
  have "replicate (Suc (n + j)) (CHR ''x'') \<notin> known_ids r" for j using assms by force
  then show ?thesis
    by (auto simp: fresh_env_def fresh_ids_def sample_env_def distinct_map inj_on_def
        simp del: replicate.simps)
qed

lemma sample_relation: "map fst (gi_relations (sw_graph steward_3)) = [mk_key ''x'' ''album_of'' ''xx'']"
  by code_simp

lemma sample_ids:
  "map fst (ri_subjects (sw_registry steward_1)) = [''x''] \<and> ri_aliases (sw_registry steward_1) = []"
  "map fst (ri_subjects (sw_registry steward_2)) = [''x'', ''xx''] \<and> ri_aliases (sw_registry steward_2) = []"
  by code_simp+

end
