(* ===== verification/Wiring_Frame.thy ===== *)
theory Wiring_Frame
  imports Wiring_Spec
begin

text \<open>
  Frames: views of the steward that a verb leaves alone, whatever it returns. The locale
  \<open>row_view\<close> collects what every verb of the wiring layer does besides its own component: it
  counts sites, emits, records, resolves conflicts and warns. A view that ignores the bus, the
  ledger and the conflict index is preserved by all of that.
\<close>

section \<open>Views no verb of a kind changes\<close>

named_theorems preserved \<open>verbs that leave a view of the state alone, whatever they return\<close>

definition preserves :: "(('v, 'j) steward \<Rightarrow> 'b) \<Rightarrow> ('v, 'j, 'a) verb \<Rightarrow> bool" where
  "preserves V m \<longleftrightarrow> (\<forall>s. V (fst (m s)) = V s)"

lemma preservesD: "preserves V m \<Longrightarrow> m s = (s', res) \<Longrightarrow> V s' = V s"
  unfolding preserves_def by (metis fst_conv)

lemma preserves_wbind [preserved]:
  "preserves V m \<Longrightarrow> (\<And>x. preserves V (f x)) \<Longrightarrow> preserves V (wbind m f)"
  by (auto simp: preserves_def wbind_def split: prod.splits wresult.splits) (metis fst_conv)+

lemma preserves_basic [preserved]:
  "preserves V (wreturn x)" "preserves V (refused r)" "preserves V (wget g)"
  "preserves V (guarded b r)" "preserves V (require r y)"
  by (auto simp: preserves_def wreturn_def refused_def wget_def guarded_def require_def
      split: option.splits)

lemma preserves_for [preserved]: "(\<And>x. preserves V (f x)) \<Longrightarrow> preserves V (wfor xs f)"
  by (induction xs) (auto intro: preserved)

lemma preserves_cases [preserved]:
  "preserves V a \<Longrightarrow> preserves V b \<Longrightarrow> preserves V (if c then a else b)"
  "preserves V a \<Longrightarrow> (\<And>x. preserves V (f x)) \<Longrightarrow> preserves V (case y of None \<Rightarrow> a | Some x \<Rightarrow> f x)"
  "(\<And>x. preserves V (g x)) \<Longrightarrow> (\<And>x. preserves V (h x)) \<Longrightarrow>
     preserves V (case z of Inl x \<Rightarrow> g x | Inr x \<Rightarrow> h x)"
  by (auto split: option.split sum.split)

section \<open>Views of some rows of the store\<close>

locale row_view =
  fixes V :: "('v, 'j) steward \<Rightarrow> 'b" and W :: "'j memory_state \<Rightarrow> 'c"
  assumes V_site: "V (s\<lparr>sw_site := n\<rparr>) = V s"
    and V_graph: "V (s\<lparr>sw_graph := g\<rparr>) = V s"
    and V_bus: "V (s\<lparr>sw_bus := b\<rparr>) = V s"
    and V_ledger: "V (s\<lparr>sw_ledger := l\<rparr>) = V s"
    and V_conflicts: "V (s\<lparr>sw_conflicts := c\<rparr>) = V s"
    and V_store: "W m = W (sw_store s) \<Longrightarrow> V (s\<lparr>sw_store := m\<rparr>) = V s"
    and W_happenings: "W (m\<lparr>ms_happenings := hs\<rparr>) = W m"
    and W_admin: "W (m\<lparr>ms_next_admin_id := k, ms_admin_log := es\<rparr>) = W m"
    and W_pending: "W (m\<lparr>ms_pending_conflicts := cs\<rparr>) = W m"
    and W_conflict_id: "W (m\<lparr>ms_next_conflict_id := i\<rparr>) = W m"
begin

lemmas frame = V_site V_graph V_bus V_ledger V_conflicts V_store W_happenings W_admin W_pending W_conflict_id

lemma view_calls [preserved]:
  "preserves V site" "preserves V (now e)" "preserves V (on_graph f err)"
  "preserves V (assignments_for ids pre)"
  by (auto simp: frame preserves_def site_def now_def wbind_def on_graph_def wreturn_def assignments_for_def
      split: outcome.splits prod.splits)

lemma view_conflicts [preserved]: "preserves V (wput (\<lambda>s. s\<lparr>sw_conflicts := f s\<rparr>))"
  by (simp add: preserves_def wput_def V_conflicts)

lemma view_try_store [preserved]:
  "(\<And>m m' x. f m = Inr (m', x) \<Longrightarrow> W m' = W m) \<Longrightarrow> preserves V (try_store e f)"
  by (auto simp: frame preserves_def try_store_def wbind_def site_def split: option.splits sum.splits prod.splits)

lemma view_persist [preserved]:
  "(\<And>m m'. f m = Inr m' \<Longrightarrow> W m' = W m) \<Longrightarrow> preserves V (persist e w f)"
  unfolding persist_def by (intro preserved) (auto simp: map_sum_def split: sum.splits)

lemma view_emit [preserved]: "preserves V (emit_or_refuse e h)"
  by (auto simp: frame preserves_def emit_or_refuse_def wbind_def site_def
      emit_durable_def faulty_happening_store_def memory_happening_store_def emit_def Let_def
      record_happening_def split: option.splits sum.splits prod.splits if_splits)

lemma view_record [preserved]: "preserves V (record_or_refuse e entry)"
  by (auto simp: frame preserves_def record_or_refuse_def wbind_def site_def
      admin_record_def faulty_admin_store_def memory_admin_store_def record_admin_entry_def Let_def
      split: option.splits sum.splits prod.splits if_splits)

lemma view_resolve [preserved]: "preserves V (resolve_conflicts_after_admin_op e kind at_ms)"
proof -
  have "preserves V (resolve_one e kind at_ms c)" for c
    unfolding resolve_one_def
    by (intro preserved) (auto simp: mark_conflict_resolved_def W_pending)
  then show ?thesis
    unfolding resolve_conflicts_after_admin_op_def by (intro preserved) auto
qed

lemma view_surface [preserved]: "preserves V (surface_conflict e p as ids)"
proof -
  have "W (fst (record_pending_conflict p as ids t m)) = W m" for t m
    by (simp add: frame record_pending_conflict_def Let_def)
  then show ?thesis
    unfolding surface_conflict_def by (intro preserved) (auto, metis fst_conv)
qed

lemma view_emits [preserved]:
  "preserves V (emit_rewritten e ap t f x)"
  "preserves V (emit_reassigned_claims e ap t f x)"
  "preserves V (emit_transfer e ap t y)"
  "preserves V (emit_collapse e ap t c)"
  "preserves V (emit_ambiguous e ap t d)"
  "preserves V (warn_side e ap i p sd decl count t)"
  "preserves V (warn_cardinality e p q i j sd decl count)"
  by (auto simp: emit_rewritten_def emit_reassigned_claims_def emit_transfer_def emit_collapse_def
      emit_ambiguous_def warn_side_def warn_cardinality_def intro!: preserved split: prod.split)

lemma view_cascades [preserved]:
  "preserves V (emit_post_rewrite_cardinality_violations e ap aff)"
  "preserves V (merge_cascade e ap t n outs ts)"
  "preserves V (split_cascade e ap t i ns out ts)"
  by (auto simp: emit_post_rewrite_cardinality_violations_def merge_cascade_def split_cascade_def
      Let_def intro!: preserved)

lemma view_merge_types [preserved]: "preserves V (check_merge_types r a b)"
  unfolding check_merge_types_def by (auto intro!: preserved split: option.split)

end

end
