(* ===== verification/Wiring_Cascade.thy ===== *)
theory Wiring_Cascade
  imports Wiring_Frame
begin

text \<open>
  Properties of the wiring layer that span its components: the identity invariant over every run
  of verbs, what a failing store leaves behind, the happenings and durable effects of the forget
  cascade, and what a merge writes.
\<close>

section \<open>The identity invariant\<close>

lemma step_fst:
  "quiet e \<Longrightarrow> fresh_env e (sw_registry s) \<Longrightarrow> call_ok c \<Longrightarrow> wiring_step s (fst (run_call e c s))"
  by (rule wiring_step.call [where res = "snd (run_call e c s)"]) auto

lemma known_in: "i \<in> known_ids r \<Longrightarrow> i \<in> set (map fst (ri_subjects r)) \<union> set (map fst (ri_aliases r))"
  using set_hm_keys [of "ri_subjects r"] set_hm_keys [of "ri_aliases r"]
  by (simp add: known_ids_def hm_keys_def del: set_map)

lemma sample_fresh_ids:
  assumes "map fst (ri_subjects r) = ids \<and> ri_aliases r = []" "\<forall>i \<in> set ids. length i \<le> n"
  shows "fresh_env (sample_env n) r"
  by (rule sample_fresh, drule known_in) (use assms in simp)

lemma sample_steps:
  "wiring_step fresh_steward steward_1" "wiring_step steward_1 steward_2"
  "wiring_step steward_2 steward_3"
proof -
  have 0: "map fst (ri_subjects (sw_registry fresh_steward)) = [] \<and> ri_aliases (sw_registry fresh_steward) = []"
    by (simp add: fresh_steward_def empty_registry_inner_def)
  have f: "fresh_env (sample_env 0) (sw_registry fresh_steward)"
    "fresh_env (sample_env 1) (sw_registry steward_1)" "fresh_env (sample_env 2) (sw_registry steward_2)"
    by (rule sample_fresh_ids [OF 0] sample_fresh_ids [OF sample_ids(1)]
        sample_fresh_ids [OF sample_ids(2)], simp)+
  show "wiring_step fresh_steward steward_1"
    unfolding steward_1_def by (rule step_fst [OF sample_quiet f(1)]) (simp add: announce_one_def)
  show "wiring_step steward_1 steward_2"
    unfolding steward_2_def by (rule step_fst [OF sample_quiet f(2)]) (simp add: announce_one_def)
  show "wiring_step steward_2 steward_3"
    unfolding steward_3_def by (rule step_fst [OF sample_quiet f(3)]) simp
qed

lemma sample_run: "wiring_step\<^sup>*\<^sup>* fresh_steward steward_3"
  by (meson sample_steps rtranclp.rtrancl_into_rtrancl rtranclp.rtrancl_refl)

lemma sample_booted: "booted fresh_steward"
  by (simp add: booted_def fresh_steward_def)

text \<open>(C19) In every state reached from an empty steward by verbs of plugins and administrators served
  one at a time, with no store failure and no announcement that lists an addressing twice, the
  relation graph has no dangling and no ill-typed edge: both ends of
  every stored relation are live subjects, its predicate is declared in the catalogue, and the
  predicate accepts the types of both ends. No verb called in such a state panics, whatever it
  returns. All three conditions matter: \<open>Wiring_Races\<close> runs verbs at the same time, the section
  on store failures below drops the second, and \<open>Subject_Spec\<close> the third.\<close>

theorem graph_conforms:
  assumes "booted s0" "wiring_step\<^sup>*\<^sup>* s0 s"
  shows "(\<forall>k rec. hm_get (gi_relations (sw_graph s)) k = Some rec \<longrightarrow>
      (\<exists>p src tgt. find_predicate (sw_catalogue s) (rk_predicate k) = Some p \<and>
         describe (sw_registry s) (rk_source_id k) = Some src \<and>
         describe (sw_registry s) (rk_target_id k) = Some tgt \<and>
         type_accepts (rp_source_type p) (sr_subject_type src) \<and>
         type_accepts (rp_target_type p) (sr_subject_type tgt))) \<and>
    (\<forall>e c s' m. quiet e \<and> fresh_env e (sw_registry s) \<and> call_ok c \<longrightarrow>
       run_call e c s \<noteq> (s', Panicked m))"
proof -
  have inv: "steward_inv s" using assms by (rule wiring.reachable_inv)
  have "run_call e c s \<noteq> (s', Panicked m)"
    if "quiet e" "fresh_env e (sw_registry s)" "call_ok c" for e c s' m
    using wp_run [OF call_keeps [OF that inv]] by blast
  moreover have "\<exists>p src tgt. find_predicate (sw_catalogue s) (rk_predicate k) = Some p \<and>
         describe (sw_registry s) (rk_source_id k) = Some src \<and>
         describe (sw_registry s) (rk_target_id k) = Some tgt \<and>
         type_accepts (rp_source_type p) (sr_subject_type src) \<and>
         type_accepts (rp_target_type p) (sr_subject_type tgt)"
    if "hm_get (gi_relations (sw_graph s)) k = Some rec" for k rec
  proof -
    have "conforms (sw_catalogue s) (type_of (sw_registry s)) k"
      using inv that by (auto simp: steward_inv_def steward_ok_def)
    then show ?thesis by (auto simp: conforms_def type_of_def)
  qed
  ultimately show ?thesis by blast
qed

theorem graph_conforms_witness:
  "\<exists>src. describe (sw_registry steward_3) ''x'' = Some src"
proof -
  let ?k = "mk_key ''x'' ''album_of'' ''xx''"
  have "?k \<in> set (hm_keys (gi_relations (sw_graph steward_3)))"
    using sample_relation by (simp add: hm_keys_def)
  then obtain rec where "hm_get (gi_relations (sw_graph steward_3)) ?k = Some rec" by auto
  with conjunct1 [OF graph_conforms [OF sample_booted sample_run], rule_format, of ?k rec]
  show ?thesis by auto
qed

section \<open>Store failures\<close>

definition failing_env :: "(unit, unit) wiring_env" where
  "failing_env = (sample_env 2)\<lparr>we_fault := (\<lambda>_. Some (Invalid ''closed''))\<rparr>"


section \<open>The forget cascade\<close>

text \<open>What a subscriber and a restart see of a state, beside registry and graph.\<close>

definition traffic where
  "traffic s = (core s, hb_tx (sw_bus s), ms_subjects (sw_store s), ms_subject_states (sw_store s),
     ms_relations (sw_store s))"

lemma wp_emit_traffic:
  assumes "quiet e" "\<And>s'. traffic s' = (core s, hb_tx (sw_bus s) @ [h], ms_subjects (sw_store s),
      ms_subject_states (sw_store s), ms_relations (sw_store s)) \<Longrightarrow> Q () s'"
  shows "wp (emit_or_refuse e h) Q E s"
  using emit_quiet [OF assms(1), of h s] assms(2) by (auto simp: wp_def traffic_def core_def)

lemma silent_resolve_traffic:
  assumes "quiet e"
  shows "silent traffic (resolve_conflicts_after_admin_op e kind at_ms)"
proof -
  have one: "silent traffic (resolve_one e kind at_ms c)" for c
    by (rule silentI_wp) (simp add: resolve_one_def wps wp_try_store [OF assms] Let_def traffic_def
        mark_conflict_resolved_def core_def)
  have all: "silent traffic (wfor cs (resolve_one e kind at_ms))" for cs by (intro silent one)
  show ?thesis
    by (rule silentI_wp)
      (auto simp: resolve_conflicts_after_admin_op_def wps wp_try_store [OF assms] Let_def traffic_def
        core_def intro!: wp_silent [OF all])
qed

definition key_triple :: "relation_key \<Rightarrow> triple" where
  "key_triple k = (rk_source_id k, rk_predicate k, rk_target_id k)"

abbreviation edge_forgotten :: "string \<Rightarrow> string \<Rightarrow> systime \<Rightarrow> relation_key \<Rightarrow> 'v happening" where
  "edge_forgotten p i t k \<equiv> H_RelationForgotten p (rk_source_id k) (rk_predicate k) (rk_target_id k)
     (SubjectCascade i) t"

lemma wp_forget_edge:
  assumes q: "quiet e" and Q: "\<And>s'. traffic s' = (core s, hb_tx (sw_bus s) @ [edge_forgotten p i t k],
      ms_subjects (sw_store s), ms_subject_states (sw_store s),
      if we_persistence e then hm_remove (key_triple k) (ms_relations (sw_store s))
      else ms_relations (sw_store s)) \<Longrightarrow> Q () s'"
  shows "wp (forget_edge e p i t k) Q E s"
  by (cases "we_persistence e"; simp add: wps forget_edge_def wp_persist [OF q] Let_def;
      rule wp_emit_traffic [OF q]; rule Q)
    (auto simp: core_def record_relation_forget_def forget_claimants_def key_triple_def)

lemma wp_forget_edges:
  assumes q: "quiet e" and Q: "\<And>s'. traffic s' = (core s, hb_tx (sw_bus s) @ map (edge_forgotten p i t) ks,
      ms_subjects (sw_store s), ms_subject_states (sw_store s),
      if we_persistence e then fold (\<lambda>k. hm_remove (key_triple k)) ks (ms_relations (sw_store s))
      else ms_relations (sw_store s)) \<Longrightarrow> Q () s'"
  shows "wp (wfor ks (forget_edge e p i t)) Q E s"
  using Q
proof (induction ks arbitrary: s)
  case (Cons k ks)
  show ?case
    unfolding wfor.simps
    by (rule keep_bind, rule wp_forget_edge [OF q], rule Cons.IH, rule Cons.prems)
      (auto simp: traffic_def split: if_splits)
qed (simp add: wps traffic_def)

lemma hm_get_fold_remove:
  "hm_get (fold (\<lambda>k. hm_remove (f k)) ks m) = (\<lambda>x. if x \<in> f ` set ks then None else hm_get m x)"
  by (induction ks arbitrary: m) (auto simp: fun_eq_iff)

text \<open>(C20) While no store call fails and no other verb runs in between, a retraction that forgets a
  subject completes, and cascades: the graph loses exactly the
  relations that mention the subject, the bus carries \<open>SubjectForgotten\<close> first and then one
  \<open>RelationForgotten\<close> for each of them, all with one time stamp and naming the subject as the
  cause, and the store has lost the rows of the subject, of its state and of these relations.\<close>

theorem retract_cascade:
  fixes s :: "('v, 'j) steward"
  assumes "quiet e"
    "retract (sw_registry s) a p reason (we_clk e (sw_site s)) = Ok (r', SubjectForgotten i ty)"
  shows "\<exists>s' t. subject_retract e p a reason s = (s', Done ()) \<and> sw_registry s' = r' \<and>
    hm_get (gi_relations (sw_graph s')) =
      (\<lambda>k. if touches i k then None else hm_get (gi_relations (sw_graph s)) k) \<and>
    hb_tx (sw_bus s') = hb_tx (sw_bus s) @ H_SubjectForgotten p i ty t #
      map (\<lambda>k. H_RelationForgotten p (rk_source_id k) (rk_predicate k) (rk_target_id k)
        (SubjectCascade i) t) (keys_touching (sw_graph s) i) \<and>
    (we_persistence e \<longrightarrow> hm_get (ms_subjects (sw_store s')) i = None \<and>
       hm_get (ms_subject_states (sw_store s')) i = None \<and>
       (\<forall>k. touches i k \<and> hm_get (gi_relations (sw_graph s)) k \<noteq> None \<longrightarrow>
          hm_get (ms_relations (sw_store s')) (rk_source_id k, rk_predicate k, rk_target_id k) = None))"
    (is "\<exists>s' t. _ \<and> ?P s' t")
proof -
  let ?t = "we_clk e (Suc (sw_site s)) 0"
  have key: "(rk_source_id k, rk_predicate k, rk_target_id k) = key_triple k" for k
    by (simp add: key_triple_def)
  have "wp (subject_retract e p a reason) (\<lambda>_ s'. ?P s' ?t) (\<lambda>_ _. False) s"
    by (cases "we_persistence e"; simp add: subject_retract_def wps assms(2) cascade_forget_def
          forget_all_touching_def wp_persist [OF assms(1)] Let_def key;
        rule wp_emit_traffic [OF assms(1)]; simp add: wps Let_def;
        rule wp_forget_edges [OF assms(1)]; rule wp_silent [OF silent_resolve_traffic [OF assms(1)]])
      (auto simp: traffic_def core_def fold_remove_get hm_get_fold_remove record_subject_forget_def
        log_claim_def push_alias_def forget_subject_state_def fun_eq_iff)
  then show ?thesis by (auto simp: wp_def split: prod.splits wresult.splits) 
qed

theorem retract_cascade_witness:
  "\<exists>s' t. subject_retract (sample_env 2) ''p'' track_a None steward_3 = (s', Done ()) \<and>
     hb_tx (sw_bus s') = [H_SubjectForgotten ''p'' ''x'' ''track'' t,
       H_RelationForgotten ''p'' ''x'' ''album_of'' ''xx'' (SubjectCascade ''x'') t]"
proof -
  have r: "case retract (sw_registry steward_3) track_a ''p'' None (we_clk (sample_env 2) (sw_site steward_3)) of
      Ok (_, out) \<Rightarrow> out = SubjectForgotten ''x'' ''track'' | _ \<Rightarrow> False"
    and h: "hb_tx (sw_bus steward_3) = [] \<and> keys_touching (sw_graph steward_3) ''x'' = [mk_key ''x'' ''album_of'' ''xx'']"
    by code_simp+
  then obtain r' where "retract (sw_registry steward_3) track_a ''p'' None
      (we_clk (sample_env 2) (sw_site steward_3)) = Ok (r', SubjectForgotten ''x'' ''track'')"
    by (auto split: outcome.splits)
  from retract_cascade [OF sample_quiet this] h show ?thesis by fastforce
qed

section \<open>The durable relation rows\<close>

definition relation_rows where
  "relation_rows m = (ms_relations m, ms_relation_claimants m)"

definition durable_relations where
  "durable_relations s = relation_rows (sw_store s)"

interpretation relations: row_view durable_relations relation_rows
  by unfold_locales (simp_all add: durable_relations_def relation_rows_def)

lemma relations_registry [preserved]: "preserves durable_relations (on_registry f err)"
  by (auto simp: preserves_def durable_relations_def site_def wbind_def on_registry_def
      split: outcome.splits prod.splits)

lemma relation_rows_aliases [simp]:
  "relation_rows (fold (\<lambda>new_id. push_alias x new_id k t ap reason) ns m) = relation_rows m"
  by (induction ns arbitrary: m) (auto simp: relation_rows_def push_alias_def)

lemma relation_rows_frame [simp]:
  "relation_rows (log_claim k c t m) = relation_rows m"
  "relation_rows (m\<lparr>ms_subjects := subs\<rparr>) = relation_rows m"
  by (simp_all add: relation_rows_def log_claim_def)

lemma relation_rows_merge [simp]:
  "relation_rows (record_subject_merge a b n ty ap reason t m) = relation_rows m"
  by (simp add: relation_rows_def record_subject_merge_def Let_def log_claim_def push_alias_def)

lemma relation_rows_split:
  "record_subject_split i ns ty groups ap reason t m = Inr m' \<Longrightarrow> relation_rows m' = relation_rows m"
  by (auto simp: record_subject_split_def Let_def split: if_splits)

lemma relations_merge: "preserves durable_relations (admin_merge e ap ta tb reason)"
  unfolding admin_merge_def by (intro preserved) auto

lemma relations_split: "preserves durable_relations (admin_split e ap src groups strategy as reason)"
  unfolding admin_split_def Let_def by (intro preserved relation_rows_split)

section \<open>Merges and splits are not mirrored in the relation rows\<close>

definition track_b :: external_addressing where "track_b = \<lparr>ea_scheme = ''t'', ea_value = ''2''\<rparr>"

definition steward_4 :: "(unit, unit) steward" where
  "steward_4 = fst (run_call (sample_env 2) (announce_one ''track'' track_b) steward_3)"

definition steward_5 :: "(unit, unit) steward" where
  "steward_5 = fst (run_call (sample_env 3) (CallMerge ''admin'' track_a track_b None) steward_4)"

text \<open>(C23) No merge and no split writes a durable relation row, whether the call completes or not:
  the rows a restart loads are the ones from before, although the graph in memory was rewritten.
  A concrete run: two tracks, the first related to an album, are merged; the graph relates the
  merged subject to the album, and the only relation row still names the retired track, which has
  no subject row any more.\<close>

theorem merge_split_not_durable:
  "(\<forall>e ap ta tb reason s s' res. admin_merge e ap ta tb reason s = (s', res) \<longrightarrow>
      load_all_relations (sw_store s') = load_all_relations (sw_store s)) \<and>
   (\<forall>e ap src groups strategy as reason s s' res.
      admin_split e ap src groups strategy as reason s = (s', res) \<longrightarrow>
      load_all_relations (sw_store s') = load_all_relations (sw_store s)) \<and>
   map fst (gi_relations (sw_graph steward_5)) = [mk_key ''xxxx'' ''album_of'' ''xx''] \<and>
   map fst (ms_relations (sw_store steward_5)) = [(''x'', ''album_of'', ''xx'')] \<and>
   hm_get (ms_subjects (sw_store steward_5)) ''x'' = None"
proof (intro conjI allI impI)
  have load: "load_all_relations (sw_store s') = load_all_relations (sw_store s)"
    if "durable_relations s' = durable_relations s" for s s' :: "('x, 'y) steward"
    using that by (simp add: load_all_relations_def durable_relations_def relation_rows_def)
  show "load_all_relations (sw_store s') = load_all_relations (sw_store s)"
    if "admin_merge e ap ta tb reason s = (s', res)" for e ap ta tb reason and s s' :: "('a, 'b) steward" and res
    using preservesD [OF relations_merge that] load by blast
  show "load_all_relations (sw_store s') = load_all_relations (sw_store s)"
    if "admin_split e ap src groups strategy as reason s = (s', res)"
    for e ap src groups strategy as reason and s s' :: "('c, 'd) steward" and res
    using preservesD [OF relations_split that] load by blast
qed code_simp+

theorem merge_split_not_durable_witness:
  "load_all_relations (sw_store (fst (admin_merge (sample_env 3) ''admin'' track_a track_b None steward_4)))
     = load_all_relations (sw_store steward_4) \<and>
   ms_relations (sw_store steward_4) \<noteq> [] \<and>
   map fst (gi_relations (sw_graph steward_5)) = [mk_key ''xxxx'' ''album_of'' ''xx'']"
proof (intro conjI)
  show "load_all_relations (sw_store (fst (admin_merge (sample_env 3) ''admin'' track_a track_b None steward_4)))
     = load_all_relations (sw_store steward_4)"
    by (rule conjunct1 [OF merge_split_not_durable, rule_format, OF prod.collapse [symmetric]])
  show "ms_relations (sw_store steward_4) \<noteq> []"
    by code_simp
  show "map fst (gi_relations (sw_graph steward_5)) = [mk_key ''xxxx'' ''album_of'' ''xx'']"
    using merge_split_not_durable by blast
qed

end
