(* ===== verification/Restart.thy ===== *)
theory Restart
  imports Durable_Image Wiring_Cascade
begin

text \<open>
  Restart: every verb of the wiring layer keeps the subject and alias rows of the store the image
  of the registry, whether it completes, refuses or panics, so that a boot from the store gives
  the registry back.
\<close>

section \<open>Partial correctness of verbs\<close>

text \<open>\<open>Q\<close> where the verb completes, \<open>E\<close> where it refuses or panics.\<close>

definition ends ::
    "('v, 'j, 'a) verb \<Rightarrow> ('a \<Rightarrow> ('v, 'j) steward \<Rightarrow> bool) \<Rightarrow> (('v, 'j) steward \<Rightarrow> bool)
       \<Rightarrow> ('v, 'j) steward \<Rightarrow> bool" where
  "ends m Q E s = (case m s of (s', Done x) \<Rightarrow> Q x s' | (s', _) \<Rightarrow> E s')"

lemma ends_bind: "ends (wbind m f) Q E s = ends m (\<lambda>x. ends (f x) Q E) E s"
  by (simp add: ends_def wbind_def split: prod.splits wresult.splits)

lemma ends_basic:
  "ends (wreturn x) Q E s = Q x s" "ends (refused r) Q E s = E s" "ends (wget g) Q4 E s = Q4 (g s) s"
  "ends (guarded b r) Q1 E s = (if b then Q1 () s else E s)"
  "ends (require r y) Q2 E s = (case y of None \<Rightarrow> E s | Some v \<Rightarrow> Q2 v s)"
  "ends (now e) Q3 E s = Q3 (we_clk e (sw_site s) 0) (s\<lparr>sw_site := Suc (sw_site s)\<rparr>)"
  by (simp_all add: ends_def wreturn_def refused_def wget_def guarded_def require_def now_def wbind_def
      site_def split: option.splits)

lemma ends_registry:
  "ends (on_registry f err) Q E s =
     (let s' = s\<lparr>sw_site := Suc (sw_site s)\<rparr> in case f (sw_site s) (sw_registry s) of
        Ok (r, x) \<Rightarrow> Q x (s'\<lparr>sw_registry := r\<rparr>) | _ \<Rightarrow> E s')"
  by (simp add: on_registry_def ends_def wbind_def site_def Let_def split: outcome.splits prod.splits)

lemma ends_persist:
  assumes "quiet e"
  shows "ends (persist e what f) Q E s =
     (if we_persistence e then
        let s' = s\<lparr>sw_site := Suc (sw_site s)\<rparr> in case f (sw_store s) of
          Inl err \<Rightarrow> E s' | Inr m \<Rightarrow> Q () (s'\<lparr>sw_store := m\<rparr>)
      else Q () s)"
  using quietD(1) [OF assms]
  by (simp add: persist_def try_store_def ends_def wbind_def wreturn_def refused_def site_def Let_def
      map_sum_def split: sum.splits)

lemmas endings = ends_bind ends_basic ends_registry ends_persist

lemma ends_mono:
  "ends m Q E s \<Longrightarrow> (\<And>x s'. Q x s' \<Longrightarrow> Q' x s') \<Longrightarrow> (\<And>s'. E s' \<Longrightarrow> E' s') \<Longrightarrow> ends m Q' E' s"
  by (auto simp: ends_def split: prod.splits wresult.splits)

lemma ends_run: "ends m (\<lambda>_. P) P s \<Longrightarrow> m s = (s', res) \<Longrightarrow> P s'"
  by (auto simp: ends_def split: wresult.splits)

lemma ends_preserved:
  assumes "preserves V m" "\<And>x s'. V s' = V s \<Longrightarrow> Q x s'" "\<And>s'. V s' = V s \<Longrightarrow> E s'"
  shows "ends m Q E s"
proof -
  obtain s' res where m: "m s = (s', res)" by fastforce
  from preservesD [OF assms(1) m] assms(2,3) m show ?thesis
    by (cases res) (simp_all add: ends_def)
qed

section \<open>The identity rows\<close>

definition identity_rows where
  "identity_rows m = (ms_subjects m, ms_aliases m, ms_next_alias_id m)"

definition identity_view where
  "identity_view s = (ri_subjects (sw_registry s), ri_aliases (sw_registry s), identity_rows (sw_store s))"

interpretation identity: row_view identity_view identity_rows
  by unfold_locales (simp_all add: identity_view_def identity_rows_def)

definition durable_identity :: "('v, 'j) steward \<Rightarrow> bool" where
  "durable_identity s \<longleftrightarrow> mirrored (sw_registry s) (sw_store s)"

lemma durable_view: "identity_view s' = identity_view s \<Longrightarrow> durable_identity s' = durable_identity s"
  by (simp add: durable_identity_def mirrored_def identity_view_def identity_rows_def)

abbreviation keeps_identity :: "('v, 'j, 'a) verb \<Rightarrow> ('v, 'j) steward \<Rightarrow> bool" where
  "keeps_identity m s \<equiv> ends m (\<lambda>_. durable_identity) durable_identity s"

lemma ends_tail:
  assumes "preserves identity_view m" "durable_identity s"
    "\<And>x s'. durable_identity s' \<Longrightarrow> Q x s'"
  shows "ends m Q durable_identity s"
  by (rule ends_preserved [OF assms(1)]) (use assms(2,3) durable_view in blast)+

lemma identity_rows_other [simp]:
  "identity_rows (record_subject_state i v t m) = identity_rows m"
  "identity_rows (forget_subject_state i m) = identity_rows m"
  by (simp_all add: identity_rows_def record_subject_state_def forget_subject_state_def)

lemma mirrored_forget_state [simp]: "mirrored r (forget_subject_state i m) = mirrored r m"
  by (simp add: mirrored_def forget_subject_state_def)

lemma identity_persist_state [preserved]: "preserves identity_view (persist_state e i v t)"
  unfolding persist_state_def by (intro preserved) auto

subsection \<open>Announcer\<close>

lemma subject_announce_durable:
  assumes q: "quiet e" "we_persistence e" and fresh: "fresh_env e (sw_registry s)"
    and d: "distinct (an_addressings ann)" and inv: "reg_inv (sw_registry s)" and dur: "durable_identity s"
  shows "keeps_identity (subject_announce e p ann) s"
proof -
  let ?r = "sw_registry s" and ?n = "sw_site s"
  have mir: "mirrored ?r (sw_store s)" using dur by (simp add: durable_identity_def)
  have main: "ends (wbind (mirror_announce e p ann outc) (\<lambda>_. case outc of
         Conflict ids \<Rightarrow> surface_conflict e p (an_addressings ann) ids | _ \<Rightarrow> wreturn ()))
       (\<lambda>_. durable_identity) durable_identity (s\<lparr>sw_site := n', sw_registry := r'\<rparr>)"
    if ok: "announce ?r ann p (we_uid e ?n) (we_clk e ?n) = Ok (r', upd, outc)" for r' upd outc n'
  proof (cases "announced_id outc")
    case None
    with announce_conflict_mirrored [OF ok] mir
    have "durable_identity (s\<lparr>sw_site := n', sw_registry := r'\<rparr>)"
      by (simp add: durable_identity_def mirrored_def)
    then show ?thesis using None
      by (cases outc) (auto simp: mirror_announce_def endings intro!: ends_tail preserved)
  next
    case (Some i)
    have "fresh_ids ?r (we_uid e ?n) 1" by (rule fresh_envD(1) [OF fresh])
    from announce_mirrored [OF inv this d ok Some mir]
    show ?thesis using Some q
      by (cases outc) (auto simp: mirror_announce_def endings Let_def durable_identity_def
          intro!: ends_tail preserved split: option.split)
  qed
  show ?thesis
    using dur q main by (auto simp: subject_announce_def endings Let_def check_state_size_def durable_identity_def
        split: option.split outcome.split)
qed

subsection \<open>Retractions\<close>

lemma identity_forget_edge [preserved]: "preserves identity_view (forget_edge e p i t k)"
  unfolding forget_edge_def
  by (intro preserved) (auto simp: identity_rows_def record_relation_forget_def forget_claimants_def Let_def)

lemma identity_cascade [preserved]: "preserves identity_view (cascade_forget e p i t)"
  unfolding cascade_forget_def by (intro preserved)

lemma subject_retract_durable:
  assumes q: "quiet e" "we_persistence e" and inv: "reg_inv (sw_registry s)" and dur: "durable_identity s"
  shows "keeps_identity (subject_retract e p a reason) s"
proof -
  let ?r = "sw_registry s" and ?clk = "we_clk e (sw_site s)"
  have mir: "mirrored ?r (sw_store s)" using dur by (simp add: durable_identity_def)
  show ?thesis
  proof (rule retract_cases [of ?r a p reason ?clk])
    fix i rec idx
    assume own: "owned_claim ?r a p i rec idx"
      "retract ?r a p reason ?clk = Ok (retracted ?r a p reason ?clk i rec idx,
         if sr_addressings (without_claim rec idx (?clk 0)) = []
         then SubjectForgotten i (sr_subject_type rec) else AddressingRemoved)"
    have pre: "resolve ?r a = Some i" using own(1) by (simp add: owned_claim_def resolve_def)
    note eff = retracted_mirrored [OF inv own(1) mir refl, where clk = ?clk]
    show ?thesis
      using eff q pre by (cases "sr_addressings (without_claim rec idx (?clk 0)) = []")
        (auto simp: subject_retract_def endings own(2) Let_def durable_identity_def intro!: ends_tail preserved)
  qed (use dur in \<open>simp add: subject_retract_def endings durable_identity_def\<close>)
qed

lemma forced_retract_durable:
  assumes q: "quiet e" "we_persistence e" and inv: "reg_inv (sw_registry s)" and dur: "durable_identity s"
  shows "keeps_identity (admin_forced_retract_addressing e ap tp a reason) s"
proof -
  let ?r = "sw_registry s" and ?clk = "we_clk e (sw_site s)"
  have mir: "mirrored ?r (sw_store s)" using dur by (simp add: durable_identity_def)
  show ?thesis
  proof (rule forced_retract_cases [of ?r a tp ap reason ?clk])
    fix i rec idx
    assume own: "owned_claim ?r a tp i rec idx"
      "forced_retract_addressing ?r a tp ap reason ?clk = Ok (retracted ?r a ap reason ?clk i rec idx,
         if sr_addressings (without_claim rec idx (?clk 0)) = []
         then ForcedSubjectForgotten i (sr_subject_type rec) else ForcedAddressingRemoved i)"
    note eff = retracted_mirrored [OF inv own(1) mir refl, where clk = ?clk]
    show ?thesis
      using eff q mir by (cases "sr_addressings (without_claim rec idx (?clk 0)) = []")
        (auto simp: admin_forced_retract_addressing_def check_target_def endings own(2) Let_def
          durable_identity_def intro!: ends_tail preserved)
  qed (use dur in \<open>simp add: admin_forced_retract_addressing_def check_target_def endings durable_identity_def\<close>)
qed

lemma update_state_durable:
  assumes q: "quiet e" "we_persistence e" and dur: "durable_identity s"
  shows "keeps_identity (update_state_inner e p a st dbl) s"
proof -
  have "preserves identity_view (on_registry (\<lambda>n r. update_state r i st (we_clk e n)) err)" for i err
    by (auto simp: preserves_def identity_view_def on_registry_def wbind_def site_def update_state_def
        split: option.splits)
  moreover have "preserves identity_view (check_state_size e st)"
    unfolding check_state_size_def Let_def by (intro preserved)
  ultimately have "preserves identity_view (update_state_inner e p a st dbl)"
    unfolding update_state_inner_def Let_def by (intro preserved) auto
  then show ?thesis by (rule ends_tail) (use dur in auto)
qed

subsection \<open>Relations\<close>

lemma identity_rows_relations [simp]:
  "identity_rows (record_relation_assert x y m) = identity_rows m"
  "identity_rows (fst (record_relation_retract i q j p t f m)) = identity_rows m"
  "identity_rows (fst (record_relation_suppress i q j p t rs t' m)) = identity_rows m"
  "identity_rows (fst (record_relation_unsuppress i q j t m)) = identity_rows m"
  by (auto simp: identity_rows_def record_relation_assert_def record_relation_retract_def
      record_relation_suppress_def record_relation_unsuppress_def forget_claimants_def Let_def
      split: option.split)

lemma identity_relation_verbs:
  "preserves identity_view (relation_assert e p x)"
  "preserves identity_view (relation_retract e p x)"
  "preserves identity_view (admin_forced_retract_claim e p tp src q tgt reason)"
  "preserves identity_view (admin_suppress e p src q tgt reason)"
  "preserves identity_view (admin_unsuppress e p src q tgt)"
  by (auto simp: relation_assert_def check_types_def mirror_assert_def relation_retract_def
      admin_forced_retract_claim_def check_target_def with_endpoints_def admin_suppress_def
      admin_unsuppress_def intro!: preserved split: option.split suppress_outcome.split)

subsection \<open>Merge and split\<close>

lemma admin_merge_durable:
  assumes q: "quiet e" "we_persistence e" and ri: "reg_inv (sw_registry s)" and dur: "durable_identity s"
  shows "keeps_identity (admin_merge e ap ta tb reason) s"
proof (cases "\<exists>a b. resolve (sw_registry s) ta = Some a \<and> resolve (sw_registry s) tb = Some b \<and> a \<noteq> b")
  case False
  then show ?thesis using dur by (auto simp: admin_merge_def endings split: option.splits)
next
  case True
  let ?r = "sw_registry s" and ?n = "we_uid e (sw_site s) 0" and ?clk = "we_clk e (sw_site s)"
  obtain a b where a: "resolve ?r ta = Some a" and b: "resolve ?r tb = Some b" and ab: "a \<noteq> b"
    using True by blast
  have mir: "mirrored ?r (sw_store s)" using dur by (simp add: durable_identity_def)
  obtain ra where ra: "hm_get (ri_subjects ?r) a = Some ra" "describe ?r a = Some ra"
    using resolved_live [OF ri a] .
  obtain rb where rb: "hm_get (ri_subjects ?r) b = Some rb" "describe ?r b = Some rb"
    using resolved_live [OF ri b] .
  show ?thesis
  proof (cases "sr_subject_type ra = sr_subject_type rb")
    case False
    then show ?thesis using a b ab ra rb dur by (simp add: admin_merge_def check_merge_types_def endings)
  next
    case ty: True
    have m: "merge_aliases ?r a b ap reason (we_uid e (sw_site s)) ?clk =
        Ok (merged_registry ?r a b ra rb ap reason ?n (?clk 0),
         \<lparr>mo_new_id = ?n,
          mo_addressing_transfers = transfers_of a ?n (sr_addressings ra) @
                                    transfers_of b ?n (sr_addressings rb)\<rparr>)"
      using merge_cases [OF ri, of a b ap reason "we_uid e (sw_site s)" ?clk] ra rb ab ty by fastforce
    note eff = merged_mirrored [OF ri mir ab ra(1) rb(1)]
    show ?thesis
      using q eff ty by (simp add: admin_merge_def check_merge_types_def endings a b ab ra rb m Let_def)
        (auto simp: durable_identity_def intro!: ends_tail preserved)
  qed
qed

lemma admin_split_durable:
  assumes q: "quiet e" "we_persistence e" and fresh: "fresh_env e (sw_registry s)"
    and ri: "reg_inv (sw_registry s)" and dur: "durable_identity s"
  shows "keeps_identity (admin_split e ap src groups strategy as reason) s"
proof (cases "(\<exists>i. resolve (sw_registry s) src = Some i) \<and>
    List.find (\<lambda>a. length groups \<le> ex_target_new_id_index a) as = None")
  case False
  then show ?thesis using dur by (auto simp: admin_split_def endings split: option.splits)
next
  case True
  let ?r = "sw_registry s" and ?uid = "we_uid e (sw_site s)" and ?clk = "we_clk e (sw_site s)"
  let ?zs = "zip (map ?uid [0..<length groups]) groups"
  obtain i where i: "resolve ?r src = Some i"
    and bound: "List.find (\<lambda>a. length groups \<le> ex_target_new_id_index a) as = None"
    using True by blast
  have mir: "mirrored ?r (sw_store s)" using dur by (simp add: durable_identity_def)
  have site: "durable_identity (s\<lparr>sw_site := n\<rparr>)" for n using dur by (simp add: durable_identity_def)
  show ?thesis
  proof (rule split_cases [OF ri, of i groups ap reason ?uid ?clk])
    fix rec
    assume rec: "hm_get (ri_subjects ?r) i = Some rec" and chk: "split_check rec groups = None"
      and sp: "split_subject ?r i groups ap reason ?uid ?clk = Ok
         (split_registry ?r i rec ?zs ap reason (?clk 0),
          \<lparr>so_new_ids = map fst ?zs, so_addressing_transfers =
             concat (map (\<lambda>z. transfers_of i (fst z) (group_records rec (snd z))) ?zs)\<rparr>)"
    have d: "describe ?r i = Some rec" using rec by (simp add: describe_def)
    let ?t = "system_time_to_ms (we_clk e (Suc (sw_site s)) 0)"
    have fr: "fresh_ids ?r ?uid (length groups)" using fresh by (simp add: fresh_env_def)
    obtain m' where m': "record_subject_split i (map ?uid [0..<length groups]) (sr_subject_type rec) groups
        ap reason ?t (sw_store s) = Inr m'" "mirrored (split_registry ?r i rec ?zs ap reason (?clk 0)) m'"
      by (rule split_mirrored [OF ri mir fr rec chk])
    show ?thesis
      using q by (simp add: admin_split_def endings i bound sp d Let_def m'(1))
        (auto simp: durable_identity_def m'(2) intro!: ends_tail preserved)
  qed (use i bound site in \<open>simp add: admin_split_def endings Let_def\<close>)
qed

section \<open>Restart\<close>

inductive durable_step :: "('v, 'j) steward \<Rightarrow> ('v, 'j) steward \<Rightarrow> bool" where
  call: "quiet e \<Longrightarrow> we_persistence e \<Longrightarrow> fresh_env e (sw_registry s) \<Longrightarrow> call_ok c \<Longrightarrow>
    run_call e c s = (s', res) \<Longrightarrow> durable_step s s'"

lemma call_durable:
  assumes "quiet e" "we_persistence e" "fresh_env e (sw_registry s)" "call_ok c"
    "reg_inv (sw_registry s)" "durable_identity s"
  shows "keeps_identity (run_call e c) s"
  using assms
  by (cases c) (auto intro: subject_announce_durable subject_retract_durable forced_retract_durable
      update_state_durable admin_merge_durable admin_split_durable ends_tail identity_relation_verbs)

lemma durable_step_wiring: "durable_step s s' \<Longrightarrow> wiring_step s s'"
  by (auto elim!: durable_step.cases intro: wiring_step.call)

lemma durable_step_inv:
  assumes "durable_step s s'" "steward_inv s \<and> durable_identity s"
  shows "steward_inv s' \<and> durable_identity s'"
proof -
  have "reg_inv (sw_registry s)" using assms(2) by (simp add: steward_inv_def steward_ok_def)
  with assms have "durable_identity s'"
    by (auto elim!: durable_step.cases intro: ends_run [OF call_durable])
  with wiring_step_inv [OF durable_step_wiring [OF assms(1)]] assms(2) show ?thesis by blast
qed

definition booted_empty :: "('v, 'j) steward \<Rightarrow> bool" where
  "booted_empty s \<longleftrightarrow> booted s \<and> ms_subjects (sw_store s) = [] \<and> ms_aliases (sw_store s) = []"

lemma booted_durable: "booted_empty s \<Longrightarrow> steward_inv s \<and> durable_identity s"
  using booted_inv
  by (auto simp: booted_empty_def booted_def durable_identity_def mirrored_def subjects_image_def
      aliases_image_def alias_rows_def empty_registry_inner_def)

interpretation durable: invariant_system booted_empty durable_step
    "\<lambda>s. steward_inv s \<and> durable_identity s"
  by unfold_locales (fact booted_durable, fact durable_step_inv)

text \<open>(C25) A steward boots with an empty store, the store stays attached and none of its calls fails,
  no announcement lists an addressing twice, and verbs of the wiring layer are served one at a time.
  Whatever these verbs did, completed or refused, booting again from the store rebuilds the registry: the same
  addressings resolve to the same subjects, every subject has the same type and the same
  addressings in the same order, every retired id has an alias of the same kind that leads to the
  same subjects, and the rebuilt registry satisfies the registry invariant.\<close>

theorem registry_restart:
  fixes s :: "('v, 'j) steward"
  assumes "booted_empty s0" "durable_step\<^sup>*\<^sup>* s0 s"
  shows "\<exists>(r' :: 'v registry_inner) rep.
     rehydrate_from memory_boot_store (sw_store s) empty_registry_inner = Ok (r', rep) \<and> reg_inv r' \<and>
     resolve r' = resolve (sw_registry s) \<and>
     (\<forall>i. map_option rec_view (describe r' i) = map_option rec_view (describe (sw_registry s) i)) \<and>
     (\<forall>i. map_option alias_view (describe_alias r' i) =
          map_option alias_view (describe_alias (sw_registry s) i)) \<and>
     rh_live_subjects_loaded rep = length (ri_subjects (sw_registry s)) \<and>
     rh_forgotten_subjects_seen rep = 0"
proof -
  have "steward_inv s" "durable_identity s" using durable.reachable_inv [OF assms] by blast+
  then have "reg_inv (sw_registry s)" "mirrored (sw_registry s) (sw_store s)"
    by (simp_all add: steward_inv_def steward_ok_def durable_identity_def)
  then show ?thesis by (rule rehydrate_mirrored) blast
qed

lemma durable_step_fst:
  "fresh_env (sample_env n) (sw_registry s) \<Longrightarrow> call_ok c \<Longrightarrow>
   durable_step s (fst (run_call (sample_env n) c s))"
  by (rule durable_step.call [OF sample_quiet, where res = "snd (run_call (sample_env n) c s)"])
    (auto simp: sample_env_def)

lemma sample_ids_later:
  "map fst (ri_subjects (sw_registry fresh_steward)) = [] \<and> ri_aliases (sw_registry fresh_steward) = []"
  "map fst (ri_subjects (sw_registry steward_3)) = [''x'', ''xx''] \<and> ri_aliases (sw_registry steward_3) = []"
  "map fst (ri_subjects (sw_registry steward_4)) = [''x'', ''xx'', ''xxx''] \<and>
     ri_aliases (sw_registry steward_4) = []"
  by code_simp+

lemma sample_durable_run: "durable_step\<^sup>*\<^sup>* fresh_steward steward_5"
proof -
  have "durable_step fresh_steward steward_1"
    unfolding steward_1_def
    by (rule durable_step_fst [OF sample_fresh_ids [OF sample_ids_later(1)]]) (simp_all add: announce_one_def)
  moreover have "durable_step steward_1 steward_2"
    unfolding steward_2_def
    by (rule durable_step_fst [OF sample_fresh_ids [OF sample_ids(1)]]) (simp_all add: announce_one_def)
  moreover have "durable_step steward_2 steward_3"
    unfolding steward_3_def
    by (rule durable_step_fst [OF sample_fresh_ids [OF sample_ids(2)]]) simp_all
  moreover have "durable_step steward_3 steward_4"
    unfolding steward_4_def
    by (rule durable_step_fst [OF sample_fresh_ids [OF sample_ids_later(2)]]) (simp_all add: announce_one_def)
  moreover have "durable_step steward_4 steward_5"
    unfolding steward_5_def
    by (rule durable_step_fst [OF sample_fresh_ids [OF sample_ids_later(3)]]) simp_all
  ultimately show ?thesis by (meson converse_rtranclp_into_rtranclp rtranclp.rtrancl_refl)
qed

text \<open>Two tracks and an album, the tracks merged.\<close>

theorem registry_restart_witness:
  "\<exists>(r' :: unit registry_inner) rep.
     rehydrate_from memory_boot_store (sw_store steward_5) empty_registry_inner = Ok (r', rep) \<and>
     reg_inv r' \<and> resolve r' track_a = Some ''xxxx'' \<and> resolve r' track_b = Some ''xxxx'' \<and>
     map_option alias_view (describe_alias r' ''x'') = Some (AliasMerged, [''xxxx'']) \<and>
     rh_live_subjects_loaded rep = 2"
proof -
  have "booted_empty fresh_steward"
    by (simp add: booted_empty_def booted_def fresh_steward_def new_memory_state_def)
  moreover have "resolve (sw_registry steward_5) track_a = Some ''xxxx'' \<and>
      resolve (sw_registry steward_5) track_b = Some ''xxxx'' \<and>
      map_option alias_view (describe_alias (sw_registry steward_5) ''x'') = Some (AliasMerged, [''xxxx'']) \<and>
      length (ri_subjects (sw_registry steward_5)) = 2" by code_simp
  ultimately show ?thesis using registry_restart [OF _ sample_durable_run] by metis
qed

section \<open>Claims after a restart\<close>

text \<open>Retraction seen through the ledger of claims.\<close>

lemma retract_ok_ledger:
  assumes "reg_inv r"
  shows "is_ok (retract r a c reason clk) \<longleftrightarrow> ledger r a = Some c"
proof -
  have "is_ok (retract r a c reason clk) \<longleftrightarrow> (\<exists>i rec idx. owned_claim r a c i rec idx)"
    by (rule retract_cases [of r a c reason clk]) auto
  then show ?thesis using claims_addressing_owned [OF assms] ledger_iff [OF assms] by auto
qed

text \<open>An announcement never takes a claim away in memory, and what it lists ends on one subject.\<close>

lemma announce_keeps_claim:
  assumes inv: "reg_inv r" and fresh: "fresh_ids r uid 1" and d: "distinct (an_addressings ann)"
    and ok: "announce r ann c uid clk = Ok (r', upd, out)" and held: "ledger r a = Some p"
  shows "ledger r' a = Some p"
proof -
  have inv': "reg_inv r'"
    using registry_step_inv [OF step_announce [OF d fresh ok] inv] .
  have con: "announce_contract r ann c (clk 0) r' out" by (rule announce_contract_ok [OF inv ok])
  have u0: "describe r (uid 0) = None" using fresh by (auto simp: fresh_ids_def known_ids_def read_maps)
  obtain i rec where own: "claims_addressing r p a i rec" using held ledger_iff [OF inv] by blast
  have "\<exists>rec'. claims_addressing r' p a i rec'"
  proof (cases out)
    case (Created j)
    then have "j = uid 0" using announce_created_id ok by blast
    with con Created own u0 show ?thesis by (auto simp: claims_addressing_def)
  next
    case (Updated j)
    with con obtain rec' where "describe r j = Some rec'" "describe r' = (describe r)(j \<mapsto>
        rec'\<lparr>sr_addressings := sr_addressings rec' @ map (new_addressing_record c (clk 0))
           (filter (\<lambda>a. resolve r a = None) (an_addressings ann)), sr_modified_at := clk 0\<rparr>)" by auto
    with own show ?thesis by (cases "i = j") (auto simp: claims_addressing_def bex_Un)
  qed (use con own in \<open>auto simp: claims_addressing_def\<close>)
  then show ?thesis using ledger_iff [OF inv'] by blast
qed

lemma announce_one_subject:
  assumes inv: "reg_inv r" and ok: "announce r ann c uid clk = Ok (r', upd, out)"
    and a: "a \<in> set (an_addressings ann)" "resolve r a = Some i"
    and one: "\<forall>b \<in> set (an_addressings ann). resolve r b = None \<or> resolve r b = Some i"
  shows "announced_id out = Some i \<and> (\<forall>b \<in> set (an_addressings ann). resolve r' b = Some i)"
proof -
  have con: "announce_contract r ann c (clk 0) r' out" by (rule announce_contract_ok [OF inv ok])
  have t: "touched r (an_addressings ann) = {i}" using a one by (force simp: touched_def)
  show ?thesis
  proof (cases out)
    case (Conflict ids)
    with con t have "distinct ids" "2 \<le> length ids" "set ids = {i}" by auto
    then have False using distinct_card by fastforce
    then show ?thesis ..
  qed (use con t in auto)
qed

definition claims_rows where
  "claims_rows s = (sw_registry s, ms_subjects (sw_store s))"

interpretation claims_view: row_view claims_rows ms_subjects
  by unfold_locales (simp_all add: claims_rows_def)

lemma claims_persist_state [preserved]: "preserves claims_rows (persist_state e i v t)"
  unfolding persist_state_def by (intro preserved) (auto simp: record_subject_state_def)

text \<open>What the verb writes: every listed addressing of the subject's row goes to the announcer.\<close>

lemma announce_writes_claimant:
  fixes s :: "('v, 'j) steward"
  assumes q: "quiet e" "we_persistence e" and inv: "reg_inv (sw_registry s)" and dur: "durable_identity s"
    and a: "a \<in> set (an_addressings ann)" "resolve (sw_registry s) a = Some i"
    and one: "\<forall>b \<in> set (an_addressings ann).
      resolve (sw_registry s) b = None \<or> resolve (sw_registry s) b = Some i"
    and run: "subject_announce e c ann s = (s', Done ())"
  obtains r' upd out row where
    "announce (sw_registry s) ann c (we_uid e (sw_site s)) (we_clk e (sw_site s)) = Ok (r', upd, out)"
    "sw_registry s' = r'" "hm_get (ms_subjects (sw_store s')) i = Some row" "claimed_by c ann row"
proof -
  let ?r = "sw_registry s"
  define post where "post s' \<longleftrightarrow> (\<exists>r' upd out row. announce ?r ann c (we_uid e (sw_site s)) (we_clk e (sw_site s)) =
      Ok (r', upd, out) \<and> sw_registry s' = r' \<and> hm_get (ms_subjects (sw_store s')) i = Some row \<and>
      claimed_by c ann row)" for s' :: "('v, 'j) steward"
  have row: "\<exists>row. hm_get (ms_subjects (record_subject_announce i ty (an_addressings ann) c cs t (sw_store s))) i
      = Some row \<and> claimed_by c ann row" for ty cs t
    by (rule announced_row_claimed [OF inv _ a(2)]) (use dur in \<open>simp add: durable_identity_def\<close>)
  have main: "ends (wbind (mirror_announce e c ann outc) (\<lambda>_. case outc of
         Conflict ids \<Rightarrow> surface_conflict e c (an_addressings ann) ids | _ \<Rightarrow> wreturn ()))
       (\<lambda>_. post) (\<lambda>_. True) (s\<lparr>sw_site := n', sw_registry := r'\<rparr>)"
    if ok: "announce ?r ann c (we_uid e (sw_site s)) (we_clk e (sw_site s)) = Ok (r', upd, outc)"
    for r' upd outc n'
  proof -
    have "announced_id outc = Some i" using announce_one_subject [OF inv ok a one] by blast
    moreover have "post t" if "claims_rows t = (r', ms_subjects (record_subject_announce i ty
        (an_addressings ann) c cs t' (sw_store s)))" for t ty cs t'
      using row [of ty cs t'] that ok by (auto simp: claims_rows_def post_def)
    note post = this
    ultimately show ?thesis using q
      by (cases outc) (auto simp: mirror_announce_def endings Let_def split: option.split
        intro!: post ends_preserved [where V = claims_rows] claims_persist_state,
        auto simp: claims_rows_def preserves_basic)
  qed
  have "ends (subject_announce e c ann) (\<lambda>_. post) (\<lambda>_. True) s"
    using q main by (auto simp: subject_announce_def endings Let_def check_state_size_def
        split: option.split outcome.split)
  with run that show ?thesis by (auto simp: ends_def post_def)
qed

text \<open>(C26) The claim on an addressing does not survive a restart. In any steward reached from an empty
  boot by verbs served one at a time, with the store attached and none of its calls failing and no
  announcement listing an addressing twice: when plugin \<open>q\<close> announces an addressing that plugin
  \<open>p\<close> has claimed, in an announcement that touches that subject only, and the call completes, the
  registry keeps \<open>p\<close> as the holder of the claim, accepts its retraction and refuses one by
  \<open>q\<close>; but the durable row is rewritten to \<open>q\<close>, and booting from the store gives a registry
  in which \<open>q\<close> holds the claim on every addressing it listed, \<open>q\<close> may retract the addressing
  of \<open>p\<close> and \<open>p\<close> no longer can.\<close>

theorem durable_claim_theft:
  fixes s :: "('v, 'j) steward"
  assumes "booted_empty s0" "durable_step\<^sup>*\<^sup>* s0 s"
    "quiet e" "we_persistence e" "fresh_env e (sw_registry s)" "distinct (an_addressings ann)"
    "a \<in> set (an_addressings ann)" "ledger (sw_registry s) a = Some p" "p \<noteq> q"
    "\<forall>b \<in> set (an_addressings ann).
       resolve (sw_registry s) b = None \<or> resolve (sw_registry s) b = resolve (sw_registry s) a"
    "subject_announce e q ann s = (s', Done ())"
  shows "ledger (sw_registry s') a = Some p \<and>
    (\<forall>reason clk. is_ok (retract (sw_registry s') a p reason clk) \<and>
       \<not> is_ok (retract (sw_registry s') a q reason clk)) \<and>
    (\<exists>(r' :: 'v registry_inner) rep.
       rehydrate_from memory_boot_store (sw_store s') empty_registry_inner = Ok (r', rep) \<and>
       (\<forall>b \<in> set (an_addressings ann). ledger r' b = Some q) \<and>
       (\<forall>reason clk. is_ok (retract r' a q reason clk) \<and> \<not> is_ok (retract r' a p reason clk)))"
proof -
  have start: "steward_inv s" "durable_identity s" using durable.reachable_inv [OF assms(1,2)] by blast+
  then have inv: "reg_inv (sw_registry s)" by (simp add: steward_inv_def steward_ok_def)
  obtain i where i: "resolve (sw_registry s) a = Some i"
    using assms(8) ledger_dom [OF inv, of a] by auto
  have "durable_step s s'"
    by (rule durable_step.call [OF assms(3-5), of "CallAnnounce q ann"]) (use assms(6,11) in simp_all)
  from durable_step_inv [OF this] start have "steward_inv s'" "durable_identity s'" by blast+
  then have inv': "reg_inv (sw_registry s')" and mir': "mirrored (sw_registry s') (sw_store s')"
    by (simp_all add: steward_inv_def steward_ok_def durable_identity_def)
  obtain r1 upd out row where
    ok: "announce (sw_registry s) ann q (we_uid e (sw_site s)) (we_clk e (sw_site s)) = Ok (r1, upd, out)"
    and r1: "sw_registry s' = r1" and row: "hm_get (ms_subjects (sw_store s')) i = Some row"
    "claimed_by q ann row"
    by (rule announce_writes_claimant [OF assms(3,4) inv start(2) assms(7) i _ assms(11)])
      (use assms(10) i in auto)
  have held: "ledger (sw_registry s') a = Some p"
    using announce_keeps_claim [OF inv fresh_envD(1) [OF assms(5)] assms(6) ok assms(8)] r1 by simp
  have res: "resolve (sw_registry s') b = Some i" if "b \<in> set (an_addressings ann)" for b
    using announce_one_subject [OF inv ok assms(7) i] assms(10) i that r1 by auto
  obtain r' :: "'v registry_inner" and rep where
    boot: "rehydrate_from memory_boot_store (sw_store s') empty_registry_inner = Ok (r', rep)"
    and re: "reg_inv r'" "resolve r' = resolve (sw_registry s')"
    "describe r' i = map_option (\<lambda>sub. row_subject (persisted_row i sub)) (hm_get (ms_subjects (sw_store s')) i)"
    by (rule rehydrate_mirrored [OF inv' mir']) blast
  have taken: "ledger r' b = Some q" if b: "b \<in> set (an_addressings ann)" for b
  proof -
    let ?rec = "row_subject (persisted_row i row)"
    have rec: "describe r' i = Some ?rec" using re(3) row(1) by simp
    have "b \<in> addrs_of ?rec" using resolve_iff [OF re(1)] re(2) res [OF b] rec by auto
    then obtain pa where "pa \<in> set (mb_addressings row)" "row_addressing pa = b"
      by (auto simp: row_addrs_def persisted_row_def)
    with row(2) [unfolded claimed_by_def] b have "row_record pa \<in> set (sr_addressings ?rec)" "ar_claimant (row_record pa) = q"
      "ar_addressing (row_record pa) = b"
      by (auto simp: row_subject_def persisted_row_def row_record_def)
    with rec have "claims_addressing r' q b i ?rec" by (auto simp: claims_addressing_def)
    then show ?thesis using ledger_iff [OF re(1)] by blast
  qed
  show ?thesis
    using held taken boot assms(7,9) retract_ok_ledger [OF inv'] retract_ok_ledger [OF re(1)] by auto
qed

text \<open>A plugin announces the track another plugin has announced.\<close>

definition takeover :: "unit subject_announcement" where
  "takeover = \<lparr>an_subject_type = ''track'', an_addressings = [track_a], an_claims = [],
     an_state = None, an_announced_at = 0\<rparr>"

definition steward_6 :: "(unit, unit) steward" where
  "steward_6 = fst (subject_announce (sample_env 1) ''q'' takeover steward_1)"

theorem durable_claim_theft_witness:
  "ledger (sw_registry steward_6) track_a = Some ''p'' \<and>
   (\<exists>(r' :: unit registry_inner) rep.
      rehydrate_from memory_boot_store (sw_store steward_6) empty_registry_inner = Ok (r', rep) \<and>
      ledger r' track_a = Some ''q'')"
proof -
  have "durable_step fresh_steward steward_1"
    unfolding steward_1_def
    by (rule durable_step_fst [OF sample_fresh_ids [OF sample_ids_later(1)]]) (simp_all add: announce_one_def)
  then have run: "durable_step\<^sup>*\<^sup>* fresh_steward steward_1" by simp
  have boot: "booted_empty fresh_steward"
    by (simp add: booted_empty_def booted_def fresh_steward_def new_memory_state_def)
  have env: "quiet (sample_env 1)" "we_persistence (sample_env 1)"
    "fresh_env (sample_env 1) (sw_registry steward_1)"
    by (rule sample_quiet) (simp add: sample_env_def, rule sample_fresh_ids [OF sample_ids(1)], simp)
  have ann: "distinct (an_addressings takeover)" "track_a \<in> set (an_addressings takeover)"
    "\<forall>b \<in> set (an_addressings takeover). resolve (sw_registry steward_1) b = None \<or>
       resolve (sw_registry steward_1) b = resolve (sw_registry steward_1) track_a"
    by (simp_all add: takeover_def)
  have held: "ledger (sw_registry steward_1) track_a = Some ''p''"
    and fin: "snd (subject_announce (sample_env 1) ''q'' takeover steward_1) = Done ()" by code_simp+
  have "subject_announce (sample_env 1) ''q'' takeover steward_1 = (steward_6, Done ())"
    using fin by (simp add: steward_6_def prod_eq_iff)
  from durable_claim_theft [OF boot run env ann(1,2) held _ ann(3) this] ann(2) show ?thesis by blast
qed

end
