(* ===== verification/Wiring_Races.thy ===== *)
theory Wiring_Races
  imports Wiring_Cascade Subject_Spec
begin

text \<open>
  Verbs of the wiring layer that run at the same time. \<open>Wiring\<close> gives each verb as one function,
  and a run of the steward there is a sequence of whole verbs. In \<open>context.rs\<close> a verb holds no lock
  of its own: each registry, graph, store and bus call takes and releases its component's lock,
  so other verbs run between the calls. Here the verbs that read or change the registry first
  and the graph later are split at that point into two phases, each verb is shown to be its two
  phases in sequence, and the phases are run with other verbs between them.
\<close>

section \<open>The two phases of a verb\<close>

text \<open>An assertion: the catalogue and registry reads, then the graph, the store and the bus.\<close>

definition assert_check ::
    "relation_assertion \<Rightarrow> ('v, 'j, relation_predicate \<times> string \<times> string) verb" where
  "assert_check a =
     wbind (wget sw_catalogue) (\<lambda>cat.
     wbind (require (UnknownPredicate (ra_predicate a)) (find_predicate cat (ra_predicate a))) (\<lambda>predicate.
     wbind (wget sw_registry) (\<lambda>r.
     wbind (require (RInvalid (''assert: source addressing '' @ addressing_display (ra_source a) @
              '' is not registered'')) (resolve r (ra_source a))) (\<lambda>source_id.
     wbind (require (RInvalid (''assert: target addressing '' @ addressing_display (ra_target a) @
              '' is not registered'')) (resolve r (ra_target a))) (\<lambda>target_id.
     wbind (check_types predicate a r source_id target_id) (\<lambda>_.
       wreturn (predicate, source_id, target_id)))))))"

definition assert_commit ::
    "('v, 'j) wiring_env \<Rightarrow> string \<Rightarrow> relation_assertion \<Rightarrow> relation_predicate \<times> string \<times> string
       \<Rightarrow> ('v, 'j, unit) verb" where
  "assert_commit e plugin_name a = (\<lambda>(predicate, source_id, target_id).
     wbind (on_graph (\<lambda>n g. rel_assert g source_id (ra_predicate a) target_id plugin_name
                               (ra_reason a) (we_clk e n))
              (\<lambda>err. RInvalid (''assert: '' @ display_error err))) (\<lambda>outc.
     wbind (mirror_assert e plugin_name a source_id target_id outc) (\<lambda>_.
     wbind (warn_cardinality e plugin_name (ra_predicate a) source_id target_id SideSource
              (rp_source_cardinality predicate) (\<lambda>g. forward_count g source_id (ra_predicate a))) (\<lambda>_.
       warn_cardinality e plugin_name (ra_predicate a) source_id target_id SideTarget
              (rp_target_cardinality predicate) (\<lambda>g. inverse_count g target_id (ra_predicate a))))))"

text \<open>A retraction: the registry, then the store, the bus and the graph.\<close>

definition retract_registry ::
    "('v, 'j) wiring_env \<Rightarrow> string \<Rightarrow> external_addressing \<Rightarrow> string option
       \<Rightarrow> ('v, 'j, string option \<times> subject_retract_outcome) verb" where
  "retract_registry e plugin_name addressing reason =
     wbind (wget (\<lambda>s. resolve (sw_registry s) addressing)) (\<lambda>pre.
     wbind (on_registry (\<lambda>n r. retract r addressing plugin_name reason (we_clk e n))
              (\<lambda>err. RInvalid (''retract: '' @ display_error err))) (\<lambda>outc.
       wreturn (pre, outc)))"

definition retract_finish ::
    "('v, 'j) wiring_env \<Rightarrow> string \<Rightarrow> external_addressing \<Rightarrow> string option \<times> subject_retract_outcome
       \<Rightarrow> ('v, 'j, unit) verb" where
  "retract_finish e plugin_name addressing = (\<lambda>(pre, outc).
     case outc of
       AddressingRemoved \<Rightarrow>
         (case pre of
            Some canonical_id \<Rightarrow>
              wbind (now e) (\<lambda>at. persist e ''subject retract persist failed: ''
                (\<lambda>m. Inr (record_subject_retract canonical_id addressing plugin_name
                             (system_time_to_ms at) m)))
          | None \<Rightarrow> wreturn ())
     | SubjectForgotten canonical_id subject_type \<Rightarrow>
         wbind (now e) (\<lambda>at.
         wbind (persist e ''subject forget persist failed: ''
           (\<lambda>m. Inr (record_subject_forget canonical_id plugin_name None (system_time_to_ms at) m))) (\<lambda>_.
         wbind (persist e ''subject state forget persist failed: ''
           (\<lambda>m. Inr (forget_subject_state canonical_id m))) (\<lambda>_.
         wbind (emit_or_refuse e (H_SubjectForgotten plugin_name canonical_id subject_type at)) (\<lambda>_.
         wbind (cascade_forget e plugin_name canonical_id at) (\<lambda>_.
           resolve_conflicts_after_admin_op e ''forgotten'' (system_time_to_ms at)))))))"

text \<open>A merge and a split: the registry, then the store, the bus and the graph.\<close>

definition merge_registry ::
    "('v, 'j) wiring_env \<Rightarrow> string \<Rightarrow> external_addressing \<Rightarrow> external_addressing \<Rightarrow> string option
       \<Rightarrow> ('v, 'j, string \<times> string \<times> string option \<times> merge_aliases_outcome) verb" where
  "merge_registry e admin_plugin target_a target_b reason =
     wbind (wget sw_registry) (\<lambda>r.
     wbind (require (MergeSourceUnknown (addressing_display target_a)) (resolve r target_a)) (\<lambda>a_id.
     wbind (require (MergeSourceUnknown (addressing_display target_b)) (resolve r target_b)) (\<lambda>b_id.
     wbind (guarded (a_id \<noteq> b_id) MergeSelfTarget) (\<lambda>_.
     wbind (check_merge_types r a_id b_id) (\<lambda>subject_type.
     wbind (on_registry (\<lambda>n r. merge_aliases r a_id b_id admin_plugin reason (we_uid e n) (we_clk e n))
              (\<lambda>err. MergeInternal (display_error err))) (\<lambda>merged.
       wreturn (a_id, b_id, subject_type, merged)))))))"

definition merge_finish ::
    "('v, 'j) wiring_env \<Rightarrow> string \<Rightarrow> string option \<Rightarrow> string \<times> string \<times> string option \<times> merge_aliases_outcome
       \<Rightarrow> ('v, 'j, unit) verb" where
  "merge_finish e admin_plugin reason = (\<lambda>(a_id, b_id, subject_type, merged).
     wbind (case subject_type of
              None \<Rightarrow> wreturn ()
            | Some ty \<Rightarrow> wbind (now e) (\<lambda>at. persist e ''subject merge persist failed: ''
                (\<lambda>m. Inr (record_subject_merge a_id b_id (mo_new_id merged) ty admin_plugin reason
                             (system_time_to_ms at) m)))) (\<lambda>_.
     wbind (now e) (\<lambda>at.
     wbind (emit_or_refuse e (H_SubjectMerged admin_plugin [a_id, b_id] (mo_new_id merged) reason at)) (\<lambda>_.
     wbind (on_graph (\<lambda>n g. rewrite_subject_to g a_id (mo_new_id merged) (we_clk e n))
              (\<lambda>err. MergeInternal (''graph rewrite (source_a): '' @ display_error err))) (\<lambda>rewrite_a.
     wbind (on_graph (\<lambda>n g. rewrite_subject_to g b_id (mo_new_id merged) (we_clk e n))
              (\<lambda>err. MergeInternal (''graph rewrite (source_b): '' @ display_error err))) (\<lambda>rewrite_b.
     wbind (merge_cascade e admin_plugin at (mo_new_id merged)
              [(a_id, rewrite_a), (b_id, rewrite_b)] (mo_addressing_transfers merged)) (\<lambda>_.
     wbind (record_or_refuse e (admin_entry AK_SubjectMerge admin_plugin None
              (Some (mo_new_id merged)) None None [a_id, b_id] reason None at)) (\<lambda>_.
       resolve_conflicts_after_admin_op e ''merged'' (system_time_to_ms at)))))))))"

definition split_registry_phase ::
    "('v, 'j) wiring_env \<Rightarrow> string \<Rightarrow> external_addressing \<Rightarrow> external_addressing list list
       \<Rightarrow> explicit_relation_assignment list \<Rightarrow> string option
       \<Rightarrow> ('v, 'j, string \<times> (nat \<times> (string \<Rightarrow> resolved_split_assignment)) list \<times> string option \<times>
             split_subject_outcome) verb" where
  "split_registry_phase e admin_plugin source groups assignments reason =
     wbind (wget sw_registry) (\<lambda>r.
     wbind (require (RInvalid (''split: source addressing '' @ addressing_display source @
              '' is not registered'')) (resolve r source)) (\<lambda>source_id.
     wbind (case List.find (\<lambda>a. length groups \<le> ex_target_new_id_index a) assignments of
              Some bogus \<Rightarrow> refused (SplitTargetNewIdIndexOutOfBounds (ex_target_new_id_index bogus)
                              (length groups))
            | None \<Rightarrow> wreturn ()) (\<lambda>_.
     wbind (on_registry (\<lambda>n r. split_subject r source_id groups admin_plugin reason
                              (we_uid e n) (we_clk e n))
                 (\<lambda>err. RInvalid (''split: '' @ display_error err))) (\<lambda>split_out.
       wreturn (source_id, pre_resolve r assignments,
         map_option sr_subject_type (describe r source_id), split_out)))))"

definition split_finish ::
    "('v, 'j) wiring_env \<Rightarrow> string \<Rightarrow> external_addressing list list \<Rightarrow> split_relation_strategy
       \<Rightarrow> string option
       \<Rightarrow> string \<times> (nat \<times> (string \<Rightarrow> resolved_split_assignment)) list \<times> string option \<times> split_subject_outcome
       \<Rightarrow> ('v, 'j, unit) verb" where
  "split_finish e admin_plugin groups strategy reason = (\<lambda>(source_id, pre, subject_type, split_out).
        wbind (case subject_type of
                 None \<Rightarrow> wreturn ()
               | Some ty \<Rightarrow> wbind (now e) (\<lambda>at. persist e ''subject split persist failed: ''
                   (record_subject_split source_id (so_new_ids split_out) ty groups admin_plugin
                      reason (system_time_to_ms at)))) (\<lambda>_.
        wbind (assignments_for (so_new_ids split_out) pre) (\<lambda>resolved.
        wbind (now e) (\<lambda>at.
        wbind (emit_or_refuse e (H_SubjectSplit admin_plugin source_id (so_new_ids split_out)
                 strategy reason at)) (\<lambda>_.
        wbind (on_graph (\<lambda>n g. split_relations g source_id (so_new_ids split_out) strategy
                                 resolved (we_clk e n))
                 (\<lambda>err. RInvalid (''split graph: '' @ display_error err))) (\<lambda>outc.
        wbind (split_cascade e admin_plugin at source_id (so_new_ids split_out) outc
                 (so_addressing_transfers split_out)) (\<lambda>_.
        wbind (record_or_refuse e (admin_entry AK_SubjectSplit admin_plugin None (Some source_id)
                 None None (so_new_ids split_out) reason None at)) (\<lambda>_.
          resolve_conflicts_after_admin_op e ''split'' (system_time_to_ms at)))))))))"

lemma wbind_assoc: "wbind (wbind m f) g = wbind m (\<lambda>x. wbind (f x) g)"
  by (simp add: fun_eq_iff wbind_def split: prod.splits wresult.splits)

lemma wbind_return: "wbind (wreturn x) f = f x"
  by (simp add: fun_eq_iff wbind_def wreturn_def)

lemma wbind_reads:
  "wbind (wget f) g s = g (f s) s" "b \<Longrightarrow> wbind (guarded b r) k s = k () s"
  "wbind (require r (Some y)) h s = h y s"
  by (simp_all add: wbind_def wget_def guarded_def require_def wreturn_def)

text \<open>Run without interruption, the phases are the verb.\<close>

lemma assert_phases: "relation_assert e p a = wbind (assert_check a) (assert_commit e p a)"
  by (simp add: relation_assert_def assert_check_def assert_commit_def wbind_assoc wbind_return)

lemma retract_phases:
  "subject_retract e p a reason = wbind (retract_registry e p a reason) (retract_finish e p a)"
  by (simp add: subject_retract_def retract_registry_def retract_finish_def wbind_assoc wbind_return)

lemma merge_phases:
  "admin_merge e ap a b reason =
     wbind (merge_registry e ap a b reason) (merge_finish e ap reason)"
  by (simp add: admin_merge_def merge_registry_def merge_finish_def wbind_assoc wbind_return)

lemma split_phases:
  "admin_split e ap src groups strategy as reason =
     wbind (split_registry_phase e ap src groups as reason) (split_finish e ap groups strategy reason)"
  by (simp add: admin_split_def split_registry_phase_def split_finish_def wbind_assoc wbind_return
      Let_def)

lemmas verb_phases = assert_phases retract_phases merge_phases split_phases

section \<open>What the check phase and the commit phase do\<close>

text \<open>The check of an assertion reads, and the commit does not look at the registry.\<close>

lemma assert_check_reads:
  assumes "assert_check a s = (s', Done (p, src, tgt))"
  shows "s' = s \<and> resolve (sw_registry s) (ra_source a) = Some src \<and>
    resolve (sw_registry s) (ra_target a) = Some tgt"
proof -
  have "wp (assert_check a) (\<lambda>(p, src, tgt) s'. s' = s \<and>
      resolve (sw_registry s) (ra_source a) = Some src \<and>
      resolve (sw_registry s) (ra_target a) = Some tgt) (\<lambda>_ _. True) s"
    by (auto simp: assert_check_def check_types_def wps split: option.split)
  then show ?thesis using assms by (simp add: wp_def)
qed

lemma rel_assert_describe:
  "rel_assert g s p t c reason clk = Ok (g', out) \<Longrightarrow> describe_relation g' s p t \<noteq> None"
  by (auto simp: rel_assert_def describe_relation_def Let_def split: if_splits option.splits)

lemma rel_assert_accepts:
  "s \<noteq> [] \<Longrightarrow> p \<noteq> [] \<Longrightarrow> t \<noteq> [] \<Longrightarrow> \<exists>g' out. rel_assert g s p t c reason clk = Ok (g', out)"
  by (auto simp: rel_assert_def Let_def split: option.split)

lemma wp_mirror_assert:
  assumes "quiet e" "describe_relation (sw_graph s) si (ra_predicate a) ti \<noteq> None"
    "\<And>x s'. core s' = core s \<Longrightarrow> Q x s'"
  shows "wp (mirror_assert e p a si ti out) Q E s"
proof -
  have "wp (persist e w (\<lambda>m. Inr (f m))) Q E s" for w f
    using assms(1,3) by (intro keep_persist) auto
  with assms(2,3) show ?thesis by (auto simp: mirror_assert_def wps split: option.split)
qed

lemma assert_commit_stores:
  assumes "quiet e" "src \<noteq> []" "ra_predicate a \<noteq> []" "tgt \<noteq> []"
  shows "\<exists>s'. assert_commit e p a (pr, src, tgt) s = (s', Done ()) \<and>
    sw_registry s' = sw_registry s \<and> sw_catalogue s' = sw_catalogue s \<and>
    describe_relation (sw_graph s') src (ra_predicate a) tgt \<noteq> None"
    (is "\<exists>s'. _ \<and> ?P s'")
proof -
  obtain g' out where ok: "rel_assert (sw_graph s) src (ra_predicate a) tgt p (ra_reason a)
      (we_clk e (sw_site s)) = Ok (g', out)" using rel_assert_accepts [OF assms(2-4)] by blast
  have "wp (assert_commit e p a (pr, src, tgt)) (\<lambda>_. ?P) (\<lambda>_ _. False) s"
    using rel_assert_describe [OF ok]
    by (auto simp: assert_commit_def wps ok Let_def core_def intro!: wp_mirror_assert [OF assms(1)]
        wp_silent [OF silent_warn_cardinality [OF assms(1)]])
  then show ?thesis by (auto simp: wp_def split: prod.splits wresult.splits)
qed

text \<open>A plugin's retraction of a relation reaches only relations between live subjects.\<close>

lemma graph_unchanged [preserved]:
  "preserves sw_graph site" "preserves sw_graph (now e)" "preserves sw_graph (persist e w f)"
  "preserves sw_graph (emit_or_refuse e h)"
  by (auto simp: preserves_def site_def now_def wreturn_def wbind_def persist_def try_store_def
      refused_def emit_or_refuse_def split: option.splits sum.splits prod.splits if_splits)

lemma wbind_then_preserves:
  "(\<And>x. preserves V (f x)) \<Longrightarrow> V (fst (wbind m f s)) = V (fst (m s))"
  by (auto simp: preserves_def wbind_def split: prod.splits wresult.splits)

lemma rel_retract_other:
  "rel_retract g s p t c clk = Ok (g', out) \<Longrightarrow> k \<noteq> mk_key s p t \<Longrightarrow>
   hm_get (gi_relations g') k = hm_get (gi_relations g) k"
  by (auto simp: rel_retract_def drop_rel_claim_def unindex_key_def Let_def simp del: mk_key_eq
      split: option.splits if_splits)

lemma relation_retract_spares:
  assumes inv: "reg_inv (sw_registry s)" and i: "i = src \<or> i = tgt"
    "describe (sw_registry s) i = None"
  shows "describe_relation (sw_graph (fst (relation_retract e p a s))) src q tgt =
    describe_relation (sw_graph s) src q tgt"
proof -
  let ?k = "mk_key src q tgt"
  have live: "x \<noteq> i" if "resolve (sw_registry s) b = Some x" for b x
    using resolved_live [OF inv that] i(2) by (metis option.distinct(1))
  have graph: "hm_get (gi_relations (sw_graph (fst (on_graph (\<lambda>n g. rel_retract g si r ti p (we_clk e n))
      err s)))) ?k = hm_get (gi_relations (sw_graph s)) ?k" if "si \<noteq> i" "ti \<noteq> i" for si r ti err
  proof -
    have "?k \<noteq> mk_key si r ti" using that i(1) by auto
    then show ?thesis
      by (auto simp: on_graph_def wbind_def site_def rel_retract_other split: outcome.splits)
  qed
  show ?thesis
  proof (cases "find_predicate (sw_catalogue s) (ra_predicate a) = None \<or>
      resolve (sw_registry s) (ra_source a) = None \<or> resolve (sw_registry s) (ra_target a) = None")
    case True
    then show ?thesis
      by (auto simp: relation_retract_def wbind_def wget_def guarded_def require_def refused_def
          wreturn_def split: option.splits)
  next
    case False
    then obtain si ti where r: "resolve (sw_registry s) (ra_source a) = Some si"
      "resolve (sw_registry s) (ra_target a) = Some ti"
      "find_predicate (sw_catalogue s) (ra_predicate a) \<noteq> None" by auto
    define rest where "rest = (\<lambda>outc. wbind (if we_persistence e then
              wbind (now e) (\<lambda>at. persist e ''relation retract persist failed: ''
                (\<lambda>m. Inr (fst (record_relation_retract si (ra_predicate a) ti p
                   (system_time_to_ms at) (outc = RelRelationForgotten) m))))
            else wreturn ()) (\<lambda>_.
       if outc = RelRelationForgotten then
         wbind (now e) (\<lambda>at. emit_or_refuse e (H_RelationForgotten p si
           (ra_predicate a) ti (ClaimsRetracted p) at))
       else wreturn ()))"
    have "preserves sw_graph (rest outc)" for outc unfolding rest_def by (intro preserved)
    note tail = wbind_then_preserves [of sw_graph rest, OF this]
    have "relation_retract e p a s = wbind (on_graph (\<lambda>n g. rel_retract g si (ra_predicate a) ti p
        (we_clk e n)) (\<lambda>err. RInvalid (''retract: '' @ display_error err))) rest s"
      using r by (simp only: relation_retract_def rest_def wbind_reads not_False_eq_True)
    then show ?thesis
      using graph [OF live [OF r(1)] live [OF r(2)]] tail by (simp add: describe_relation_def)
  qed
qed

section \<open>An assertion overtaken\<close>


text \<open>The album of a track is asserted while the track's only addressing is retracted.\<close>

definition steward_race :: "(unit, unit) steward" where
  "steward_race = fst (run_call (sample_env 2) (CallRetract ''p'' track_a None) steward_2)"


section \<open>Between the registry and the graph\<close>

lemma retract_no_panic: "retract r a p reason clk \<noteq> Panic m"
  by (rule retract_cases [of r a p reason clk]) auto

lemma merge_no_panic: "reg_inv r \<Longrightarrow> merge_aliases r a b ap reason uid clk \<noteq> Panic m"
  by (rule merge_cases [of r a b ap reason uid clk]) auto

lemma split_no_panic: "reg_inv r \<Longrightarrow> split_subject r i groups ap reason uid clk \<noteq> Panic m"
  by (rule split_cases [of r i groups ap reason uid clk]) auto

lemma merge_gone:
  assumes "reg_inv r" "fresh_env e r" "merge_aliases r i j ap reason (we_uid e n) clk = Ok (r', out)"
  shows "describe r' i = None \<and> describe r' j = None"
proof -
  have "describe r (we_uid e n 0) = None" using fresh_new [OF assms(2)] by (simp add: describe_def)
  moreover have "merge_contract r i j ap reason (we_uid e n 0) (clk 0) r'"
    using merge_contract_ok [OF assms(1,3)] by blast
  ultimately show ?thesis by (auto simp: merge_contract_def)
qed

lemma split_gone:
  assumes "reg_inv r" "fresh_env e r" "split_subject r i groups ap reason (we_uid e n) clk = Ok (r', out)"
  shows "describe r' i = None"
  using split_contract_done [OF assms(1) fresh_envD(1) [OF assms(2)] assms(3)]
  by (auto simp: split_contract_def)

text \<open>A retraction that forgets, a merge and a split change the registry first and reach the graph
  only after the store and the bus have answered. Whatever runs in between, a projection say, finds
  every relation of the retired subjects still in the graph, with an end that is gone: this needs no
  store failure.\<close>

theorem registry_before_graph:
  assumes inv: "steward_inv s" and fresh: "fresh_env e (sw_registry s)"
  shows "(\<forall>s1 pre i ty. retract_registry e p a reason s = (s1, Done (pre, SubjectForgotten i ty)) \<longrightarrow>
      sw_graph s1 = sw_graph s \<and> describe (sw_registry s1) i = None) \<and>
    (\<forall>s1 i j ty m. merge_registry e p a b reason s = (s1, Done (i, j, ty, m)) \<longrightarrow>
      sw_graph s1 = sw_graph s \<and> describe (sw_registry s1) i = None \<and>
      describe (sw_registry s1) j = None) \<and>
    (\<forall>s1 i pre ty out. split_registry_phase e p a groups as reason s = (s1, Done (i, pre, ty, out)) \<longrightarrow>
      sw_graph s1 = sw_graph s \<and> describe (sw_registry s1) i = None)"
proof -
  have reg: "reg_inv (sw_registry s)" using inv by (simp add: steward_inv_def steward_ok_def)
  have "wp (retract_registry e p a reason) (\<lambda>(pre, out) s1. \<forall>i ty. out = SubjectForgotten i ty \<longrightarrow>
      sw_graph s1 = sw_graph s \<and> describe (sw_registry s1) i = None) (\<lambda>_ _. True) s"
    using retract_contract_ok [OF reg, of a p reason "we_clk e (sw_site s)"]
    by (auto simp: retract_registry_def wps Let_def retraction_contract_def retract_no_panic
        split: outcome.split if_splits)
  moreover have "wp (merge_registry e p a b reason) (\<lambda>(i, j, ty, m) s1. sw_graph s1 = sw_graph s \<and>
      describe (sw_registry s1) i = None \<and> describe (sw_registry s1) j = None) (\<lambda>_ _. True) s"
    using merge_gone [OF reg fresh] merge_no_panic [OF reg]
    by (auto simp: merge_registry_def check_merge_types_def wps Let_def split: outcome.split option.split)
  moreover have "wp (split_registry_phase e p a groups as reason) (\<lambda>(i, pre, ty, out) s1.
      sw_graph s1 = sw_graph s \<and> describe (sw_registry s1) i = None) (\<lambda>_ _. True) s"
    using split_gone [OF reg fresh] split_no_panic [OF reg]
    by (auto simp: split_registry_phase_def wps Let_def split: outcome.split option.split)
  ultimately show ?thesis by (auto simp: wp_def split: prod.splits)
qed

end
