(* ===== verification/Alias_Query.thy ===== *)
theory Alias_Query
  imports Wiring_Laws Subject_Spec
begin

text \<open>
  The alias-following query of the subject querier (\<open>RegistrySubjectQuerier\<close> in \<open>context.rs\<close>) over
  registries reachable by registry operations. The alias records form an acyclic graph whose
  targets are known ids; the query follows single-target records through it.
\<close>

section \<open>The alias graph\<close>

definition alias_edges :: "'v registry_inner \<Rightarrow> (string \<times> string) set" where
  "alias_edges r = {(i, j). \<exists>al. hm_get (ri_aliases r) i = Some al \<and> j \<in> set (al_new_ids al)}"

text \<open>Aliases lead to known ids, never in a circle.\<close>

definition alias_ok :: "'v registry_inner \<Rightarrow> bool" where
  "alias_ok r \<longleftrightarrow> reg_inv r \<and> snd ` alias_edges r \<subseteq> known_ids r \<and> acyclic (alias_edges r)"

lemma known_alt: "known_ids r = dom (type_of r) \<union> dom (hm_get (ri_aliases r))"
  by (auto simp: known_ids_def type_of_def describe_def)

lemma acyclic_extend:
  assumes "acyclic E" "N \<inter> Domain E = {}" "I \<inter> N = {}"
  shows "acyclic (E \<union> I \<times> N)"
proof -
  have "(x, y) \<in> E\<^sup>+ \<or> y \<in> N" if "(x, y) \<in> (E \<union> I \<times> N)\<^sup>+" for x y
    using that
  proof (induction rule: trancl_induct)
    case (step y z)
    then show ?case using assms(2,3) by (auto intro: trancl_into_trancl)
  qed auto
  moreover have False if "(x, x) \<in> (E \<union> I \<times> N)\<^sup>+" "x \<in> N" for x
  proof -
    have "x \<in> Domain (E \<union> I \<times> N)" using that(1) trancl_domain by (metis DomainI)
    with that(2) assms(2,3) show False by auto
  qed
  ultimately show ?thesis using assms(1) by (auto simp: acyclic_def)
qed

lemma alias_ok_same:
  assumes "alias_ok r" "reg_inv r'" "hm_get (ri_aliases r') = hm_get (ri_aliases r)"
    "dom (type_of r) \<subseteq> dom (type_of r')"
  shows "alias_ok r'"
proof -
  have "alias_edges r' = alias_edges r" by (simp add: alias_edges_def assms(3))
  moreover have "known_ids r \<subseteq> known_ids r'" using assms(3,4) by (auto simp: known_alt)
  ultimately show ?thesis using assms(1,2) by (auto simp: alias_ok_def)
qed

text \<open>Retiring ids: their records point at ids that were unknown and are live now.\<close>

lemma alias_ok_retire:
  assumes ok: "alias_ok r" and inv: "reg_inv r'" and I: "I \<subseteq> dom (type_of r)"
    and al: "hm_get (ri_aliases r') =
      (\<lambda>x. if x \<in> I then Some (retired_alias x ns k t p reason) else hm_get (ri_aliases r) x)"
    and dom: "dom (type_of r) \<subseteq> I \<union> dom (type_of r')" "set ns \<subseteq> dom (type_of r')"
    and new: "set ns \<inter> known_ids r = {}"
  shows "alias_ok r'"
proof -
  have none: "hm_get (ri_aliases r) i = None" if "i \<in> I" for i
    using ok I that by (fastforce simp: alias_ok_def reg_inv_def type_of_def describe_def)
  have E: "alias_edges r' = alias_edges r \<union> I \<times> set ns"
    using none by (auto simp: alias_edges_def al retired_alias_def split: if_splits)
  have "acyclic (alias_edges r')"
    unfolding E
  proof (rule acyclic_extend)
    show "I \<inter> set ns = {}" using new I by (auto simp: known_alt)
    show "set ns \<inter> Domain (alias_edges r) = {}"
      using new by (fastforce simp: alias_edges_def known_alt)
  qed (use ok in \<open>simp add: alias_ok_def\<close>)
  moreover have "known_ids r \<subseteq> known_ids r'" using dom(1) by (auto simp: known_alt al split: if_splits)
  moreover have "set ns \<subseteq> known_ids r'" using dom(2) by (auto simp: known_alt)
  ultimately show ?thesis using ok inv unfolding alias_ok_def E by auto
qed

lemma retracted_alias_ok:
  assumes ok: "alias_ok r" and own: "owned_claim r a c i rec idx"
  shows "alias_ok (retracted r a plugin reason clk i rec idx)" (is "alias_ok ?r'")
proof -
  have inv: "reg_inv r" using ok by (simp add: alias_ok_def)
  have i: "{i} \<subseteq> dom (type_of r)" using own by (auto simp: owned_claim_def type_of_def describe_def)
  show ?thesis
  proof (cases "sr_addressings (without_claim rec idx (clk 0)) = []")
    case True
    show ?thesis
      by (rule alias_ok_retire [OF ok retracted_inv [OF inv own] i, where ns = "[]"])
        (auto simp: retracted_maps(4) [OF inv own] retracted_types [OF inv own] True)
  next
    case False
    show ?thesis
      by (rule alias_ok_same [OF ok retracted_inv [OF inv own]])
        (auto simp: retracted_maps(4) [OF inv own] retracted_types [OF inv own] False)
  qed
qed

lemma merge_alias_ok:
  assumes ok: "alias_ok r" and fresh: "fresh_ids r uid 1"
    and m: "merge_aliases r a b ap reason uid clk = Ok (r', out)"
  shows "alias_ok r'"
proof -
  have inv: "reg_inv r" using ok by (simp add: alias_ok_def)
  have new: "set [uid 0] \<inter> known_ids r = {}" using fresh by (simp add: fresh_ids_def)
  show ?thesis
  proof (rule merge_cases [OF inv, of a b ap reason uid clk])
    fix ra rb
    assume S: "hm_get (ri_subjects r) a = Some ra" "hm_get (ri_subjects r) b = Some rb"
      and eq: "merge_aliases r a b ap reason uid clk = Ok
        (merged_registry r a b ra rb ap reason (uid 0) (clk 0),
         \<lparr>mo_new_id = uid 0,
          mo_addressing_transfers = transfers_of a (uid 0) (sr_addressings ra) @
                                    transfers_of b (uid 0) (sr_addressings rb)\<rparr>)"
    have r': "r' = merged_registry r a b ra rb ap reason (uid 0) (clk 0)" using eq m by simp
    have ab: "{a, b} \<subseteq> dom (type_of r)" using S by (auto simp: type_of_def describe_def)
    have ty: "type_of r' = (type_of r)(a := None, b := None, uid 0 := type_of r a)"
      unfolding r' by (rule merged_types [OF S(1)])
    have al: "hm_get (ri_aliases r') = (\<lambda>x. if x \<in> {a, b}
        then Some (retired_alias x [uid 0] AliasMerged (clk 0) ap reason) else hm_get (ri_aliases r) x)"
      by (auto simp: r' merged_registry_def fun_eq_iff)
    show ?thesis
      by (rule alias_ok_retire [OF ok merge_inv [OF inv fresh m] ab al _ _ new])
        (use ab in \<open>auto simp: ty\<close>)
  qed (use m in simp)
qed

lemma split_alias_ok:
  assumes ok: "alias_ok r" and fresh: "fresh_ids r uid (length groups)"
    and m: "split_subject r src groups ap reason uid clk = Ok (r', out)"
  shows "alias_ok r'"
proof -
  have inv: "reg_inv r" using ok by (simp add: alias_ok_def)
  let ?zs = "zip (map uid [0..<length groups]) groups" and ?ns = "map uid [0..<length groups]"
  have new: "set ?ns \<inter> known_ids r = {}" using fresh by (simp only: fresh_ids_def)
  show ?thesis
  proof (rule split_cases [OF inv, of src groups ap reason uid clk])
    fix rec
    assume S: "hm_get (ri_subjects r) src = Some rec" and chk: "split_check rec groups = None"
      and eq: "split_subject r src groups ap reason uid clk = Ok
         (split_registry r src rec ?zs ap reason (clk 0),
          \<lparr>so_new_ids = map fst ?zs, so_addressing_transfers =
             concat (map (\<lambda>z. transfers_of src (fst z) (group_records rec (snd z))) ?zs)\<rparr>)"
    have r': "r' = split_registry r src rec ?zs ap reason (clk 0)" using eq m by simp
    have src: "{src} \<subseteq> dom (type_of r)" using S by (auto simp: type_of_def describe_def)
    have ty: "type_of r' = (\<lambda>j. if j = src then None else if j \<in> set ?ns then type_of r src else type_of r j)"
      unfolding r' split_types [OF S fresh chk] by (simp only: set_map set_upt)
    have "src \<notin> set ?ns" using new src by (auto simp: known_alt)
    moreover have al: "hm_get (ri_aliases r') = (\<lambda>x. if x \<in> {src}
        then Some (retired_alias x ?ns AliasSplit (clk 0) ap reason) else hm_get (ri_aliases r) x)"
      by (auto simp: r' split_registry_def fun_eq_iff)
    ultimately show ?thesis
      by (intro alias_ok_retire [OF ok split_inv [OF inv fresh m] src al _ _ new])
        (use src in \<open>auto simp: ty dom_def simp del: set_map set_upt\<close>)
  qed (use m in simp)
qed

lemma registry_step_alias_ok: "registry_step r r' \<Longrightarrow> alias_ok r \<Longrightarrow> alias_ok r'"
proof (induction rule: registry_step.induct)
  case (step_announce ann r uid c clk r' upd out)
  then have inv: "reg_inv r" by (simp add: alias_ok_def)
  have "dom (type_of r) \<subseteq> dom (type_of r')"
    using announce_types [OF inv step_announce.hyps(2,3)]
    using map_le_implies_dom_le by metis
  then show ?case
    using alias_ok_same [OF step_announce.prems announce_inv [OF inv step_announce.hyps]]
      announce_aliases [OF step_announce.hyps(3)] by simp
next
  case (step_update_state r i st clk r' upd)
  then have inv: "reg_inv r" by (simp add: alias_ok_def)
  have "ri_aliases r' = ri_aliases r"
    using step_update_state.hyps by (auto simp: update_state_def split: option.splits)
  then show ?case
    using alias_ok_same [OF step_update_state.prems update_state_inv [OF inv step_update_state.hyps]]
      update_state_types [OF step_update_state.hyps] by simp
next
  case (step_retract r a c reason clk r' rout)
  then show ?case by (cases rule: retract_cases [of r a c reason clk]) (auto intro: retracted_alias_ok)
next
  case (step_forced r a tp ap reason clk r' fout)
  then show ?case
    by (cases rule: forced_retract_cases [of r a tp ap reason clk]) (auto intro: retracted_alias_ok)
qed (auto intro: merge_alias_ok split_alias_ok)

lemma alias_edges_empty [simp]: "alias_edges empty_registry_inner = {}"
  by (simp add: alias_edges_def empty_registry_inner_def)

lemma alias_ok_empty: "alias_ok empty_registry_inner"
  by (simp add: alias_ok_def acyclic_def)

interpretation aliases: invariant_system "\<lambda>r. r = empty_registry_inner" registry_step alias_ok
  by unfold_locales (auto intro: registry_step_alias_ok alias_ok_empty)

section \<open>The query\<close>

text \<open>\<open>followed r i chain\<close>: the chain is the list of alias records met on the way from \<open>i\<close>, each
  but the last being a record with one target that is not a split.\<close>

fun followed :: "'v registry_inner \<Rightarrow> string \<Rightarrow> alias_record list \<Rightarrow> bool" where
  "followed r i [] = True"
| "followed r i (al # chain) \<longleftrightarrow> describe_alias r i = Some al \<and> describe r i = None \<and>
     (chain \<noteq> [] \<longrightarrow> al_kind al \<noteq> AliasSplit \<and> length (al_new_ids al) = 1) \<and>
     followed r (hd (al_new_ids al)) chain"

text \<open>What the loop adds to the chain it was entered with.\<close>

fun resumed :: "alias_record list \<Rightarrow> subject_query_result \<Rightarrow> subject_query_result" where
  "resumed chain (QFound record) = (if chain = [] then QFound record else QAliased chain (Some record))"
| "resumed chain (QAliased more_records terminal) = QAliased (chain @ more_records) terminal"
| "resumed chain QNotFound = (if chain = [] then QNotFound else QAliased chain None)"

text \<open>The specification: a total walk along the alias graph, cut after \<open>n\<close> records.\<close>

fun query_spec :: "'v registry_inner \<Rightarrow> nat \<Rightarrow> string \<Rightarrow> subject_query_result" where
  "query_spec r n i = (case describe r i of
      Some record \<Rightarrow> QFound (project_subject_record record)
    | None \<Rightarrow> (case describe_alias r i of
        None \<Rightarrow> QNotFound
      | Some al \<Rightarrow>
          (case n of
             Suc (Suc m) \<Rightarrow> if al_kind al = AliasSplit \<or> length (al_new_ids al) \<noteq> 1 then QAliased [al] None
                       else resumed [al] (query_spec r (Suc m) (hd (al_new_ids al)))
           | _ \<Rightarrow> QAliased [al] None)))"

declare query_spec.simps [simp del]

lemma resumed_resumed: "resumed c (resumed [al] q) = resumed (c @ [al]) q"
  by (cases q) auto

lemma alias_loop_spec:
  "depth < MAX_ALIAS_CHAIN_DEPTH \<Longrightarrow>
   alias_loop r i chain depth = resumed chain (query_spec r (MAX_ALIAS_CHAIN_DEPTH - depth) i)"
proof (induction r i chain depth rule: alias_loop.induct)
  case (1 r i chain depth)
  obtain n where n: "MAX_ALIAS_CHAIN_DEPTH - depth = Suc n" using 1(2) by (metis Suc_diff_Suc)
  show ?case
  proof (cases "describe r i \<noteq> None \<or> describe_alias r i = None")
    case True
    then show ?thesis by (subst alias_loop.simps, subst query_spec.simps) (auto split: option.splits)
  next
    case False
    then obtain al where al: "describe r i = None" "describe_alias r i = Some al" by auto
    show ?thesis
    proof (cases n)
      case 0
      then have "MAX_ALIAS_CHAIN_DEPTH \<le> depth + 1" using n by simp
      with al n 0 show ?thesis
        by (subst alias_loop.simps, subst query_spec.simps) (simp add: Let_def)
    next
      case (Suc m)
      then have lt: "depth + 1 < MAX_ALIAS_CHAIN_DEPTH" and m: "MAX_ALIAS_CHAIN_DEPTH - (depth + 1) = Suc m"
        using n by auto
      show ?thesis
        using 1(1) [OF al(1,2) refl] al n Suc lt m
        by (subst alias_loop.simps, subst query_spec.simps) (auto simp: Let_def resumed_resumed)
    qed
  qed
qed

text \<open>Where a followed chain arrives.\<close>

fun arrives :: "string \<Rightarrow> alias_record list \<Rightarrow> string" where
  "arrives i [] = i"
| "arrives i (al # chain) = arrives (hd (al_new_ids al)) chain"

definition dead_end :: "'v registry_inner \<Rightarrow> alias_record \<Rightarrow> bool" where
  "dead_end r al \<longleftrightarrow> al_kind al = AliasSplit \<or> length (al_new_ids al) \<noteq> 1 \<or>
     describe r (hd (al_new_ids al)) = None \<and> describe_alias r (hd (al_new_ids al)) = None"

fun answers :: "'v registry_inner \<Rightarrow> string \<Rightarrow> nat \<Rightarrow> subject_query_result \<Rightarrow> bool" where
  "answers r i n (QFound record) = (\<exists>rec. describe r i = Some rec \<and> record = project_subject_record rec)"
| "answers r i n QNotFound = (describe r i = None \<and> describe_alias r i = None)"
| "answers r i n (QAliased chain terminal) = (chain \<noteq> [] \<and> length chain \<le> n \<and> followed r i chain \<and>
     (case terminal of
        Some record \<Rightarrow> \<exists>rec. describe r (arrives i chain) = Some rec \<and>
          record = project_subject_record rec \<and> length (al_new_ids (last chain)) = 1
      | None \<Rightarrow> dead_end r (last chain) \<or> length chain = n))"

lemma query_spec_answers: "answers r i (Suc n) (query_spec r (Suc n) i)"
proof (induction n arbitrary: i)
  case 0
  show ?case by (subst query_spec.simps) (auto split: option.split)
next
  case (Suc n)
  show ?case
  proof (cases "describe r i = None \<and> describe_alias r i \<noteq> None")
    case False
    then show ?thesis by (subst query_spec.simps) (auto split: option.split)
  next
    case True
    then obtain al where al: "describe r i = None" "describe_alias r i = Some al" by auto
    show ?thesis
    proof (cases "al_kind al = AliasSplit \<or> length (al_new_ids al) \<noteq> 1")
      case True
      with al show ?thesis by (subst query_spec.simps) (auto simp: dead_end_def)
    next
      case False
      with al show ?thesis
        using Suc.IH [of "hd (al_new_ids al)"]
        by (subst query_spec.simps, cases "query_spec r (Suc n) (hd (al_new_ids al))")
          (auto simp: dead_end_def split: option.splits)
    qed
  qed
qed

lemma query_answers:
  "subject_id \<noteq> [] \<Longrightarrow>
   answers r subject_id MAX_ALIAS_CHAIN_DEPTH (describe_subject_with_aliases r subject_id)"
proof -
  assume ne: "subject_id \<noteq> []"
  have "alias_loop r subject_id [] 0 = resumed [] (query_spec r MAX_ALIAS_CHAIN_DEPTH subject_id)"
    by (subst alias_loop_spec) (simp_all add: MAX_ALIAS_CHAIN_DEPTH_def)
  moreover have "resumed [] q = q" for q by (cases q) auto
  moreover have "answers r subject_id MAX_ALIAS_CHAIN_DEPTH (query_spec r MAX_ALIAS_CHAIN_DEPTH subject_id)"
    using query_spec_answers [of r subject_id 15] by (simp add: MAX_ALIAS_CHAIN_DEPTH_def)
  ultimately show ?thesis using ne by (simp add: describe_subject_with_aliases_def)
qed

lemma followed_path:
  assumes "alias_ok r" "followed r i chain" "chain \<noteq> []"
  shows "al_old_id (hd chain) = i \<and> (\<forall>al \<in> set (tl chain). (i, al_old_id al) \<in> (alias_edges r)\<^sup>+)"
  using assms(2,3)
proof (induction chain arbitrary: i)
  case (Cons al chain)
  have i: "al_old_id al = i" using Cons.prems(1) assms(1)
    by (auto simp: alias_ok_def reg_inv_def wf_alias_def describe_alias_def)
  show ?case
  proof (cases chain)
    case (Cons al' chain')
    let ?j = "hd (al_new_ids al)"
    have e: "(i, ?j) \<in> alias_edges r"
      using Cons.prems(1) Cons by (auto simp: alias_edges_def describe_alias_def intro!: hd_in_set)
    have "al_old_id al' = ?j \<and> (\<forall>al \<in> set chain'. (?j, al_old_id al) \<in> (alias_edges r)\<^sup>+)"
      using Cons.IH [of ?j] Cons.prems(1) Cons by simp
    with i e Cons show ?thesis by (auto intro: trancl_into_trancl2)
  qed (simp add: i)
qed simp

lemma followed_distinct:
  assumes "alias_ok r" "followed r i chain"
  shows "distinct (map al_old_id chain)"
  using assms(2)
proof (induction chain arbitrary: i)
  case (Cons al chain)
  have "al_old_id al \<notin> al_old_id ` set chain"
    using followed_path [OF assms(1) Cons.prems] assms(1) by (auto simp: alias_ok_def acyclic_def)
  with Cons.IH Cons.prems show ?case by auto
qed simp

text \<open>(C24) The alias query terminates and is exact. For a live subject it answers the record itself,
  for an id that never existed \<open>NotFound\<close>. For a retired id it answers the chain of alias
  records from that id, at most 16 long and without repetition: the record of the id, then, as
  long as a record has one target, the record of that target. It gives a terminal record exactly
  as the live subject the chain arrives at; it gives none only when the last record has no or
  several targets, that is when the subject was forgotten or split, or when the chain has 16
  records.\<close>

theorem alias_query_exact:
  assumes "registry_step\<^sup>*\<^sup>* empty_registry_inner r" "subject_id \<noteq> []"
  shows "case describe_subject_with_aliases r subject_id of
      QFound record \<Rightarrow> \<exists>rec. describe r subject_id = Some rec \<and> record = project_subject_record rec
    | QNotFound \<Rightarrow> describe r subject_id = None \<and> describe_alias r subject_id = None
    | QAliased chain terminal \<Rightarrow> chain \<noteq> [] \<and> length chain \<le> 16 \<and> followed r subject_id chain \<and>
        distinct (map al_old_id chain) \<and>
        (case terminal of
           Some record \<Rightarrow> \<exists>rec. describe r (arrives subject_id chain) = Some rec \<and>
             record = project_subject_record rec
         | None \<Rightarrow> al_kind (last chain) = AliasSplit \<or> al_new_ids (last chain) = [] \<or> length chain = 16)"
proof -
  have ok: "alias_ok r" using aliases.reachable_inv [OF refl assms(1)] .
  have last: "\<exists>i. describe_alias r i = Some (last chain)" if "followed r i chain" "chain \<noteq> []" for i chain
    using that by (induction chain arbitrary: i) auto
  have "al_kind al = AliasSplit \<or> al_new_ids al = []"
    if d: "dead_end r al" and i: "describe_alias r i = Some al" for i al
  proof -
    have shape: "alias_shape (al_kind al) (al_new_ids al)"
      using ok i by (auto simp: alias_ok_def reg_inv_def wf_alias_def describe_alias_def)
    have "hd (al_new_ids al) \<in> known_ids r" if "length (al_new_ids al) = 1"
    proof -
      have "(i, hd (al_new_ids al)) \<in> alias_edges r"
        using i that by (cases "al_new_ids al") (auto simp: alias_edges_def describe_alias_def)
      then show ?thesis using ok by (force simp: alias_ok_def)
    qed
    with d shape show ?thesis
      by (cases "al_kind al")
        (auto simp: dead_end_def known_ids_def describe_def describe_alias_def)
  qed
  with last have dead: "al_kind (last chain) = AliasSplit \<or> al_new_ids (last chain) = []"
    if "followed r i chain" "chain \<noteq> []" "dead_end r (last chain)" for i chain using that by blast
  show ?thesis
    using query_answers [OF assms(2), of r]
    by (auto simp: MAX_ALIAS_CHAIN_DEPTH_def dest: dead followed_distinct [OF ok]
        split: subject_query_result.splits option.splits)
qed

text \<open>Two subjects merged: the first id leads to the merged subject in one step.\<close>

definition registry_merged :: "nat registry_inner" where
  "registry_merged = ok_state (merge_aliases registry_two ''x0'' ''y0'' ''admin'' None (uid_from CHR ''z'') tick)"

lemma registry_merged_reachable: "registry_step\<^sup>*\<^sup>* empty_registry_inner registry_merged"
proof -
  have m: "merge_aliases registry_two ''x0'' ''y0'' ''admin'' None (uid_from CHR ''z'') tick =
    Ok (registry_merged, \<lparr>mo_new_id = ''z0'', mo_addressing_transfers =
      transfers_of ''x0'' ''z0'' [new_addressing_record ''plug.one'' 0 path_a,
        new_addressing_record ''plug.one'' 0 mbid_c] @
      transfers_of ''y0'' ''z0'' [new_addressing_record ''plug.two'' 0 path_b]\<rparr>)"
    by code_simp
  have "registry_step registry_two registry_merged"
    by (rule step_merge [OF _ m]) (simp add: fresh_ids_def registry_two_ids uid_from_def)
  with registry_two_reachable show ?thesis by (rule rtranclp.rtrancl_into_rtrancl)
qed

theorem alias_query_exact_witness:
  "\<exists>al rec. describe_subject_with_aliases registry_merged ''x0'' =
     QAliased [al] (Some (project_subject_record rec)) \<and> describe registry_merged ''z0'' = Some rec"
proof -
  have "case describe_subject_with_aliases registry_merged ''x0'' of
      QAliased [al] (Some _) \<Rightarrow> al_new_ids al = [''z0''] | _ \<Rightarrow> False" by code_simp
  then obtain al rec0 where
    "describe_subject_with_aliases registry_merged ''x0'' = QAliased [al] (Some rec0)" "al_new_ids al = [''z0'']"
    by (auto split: subject_query_result.splits list.splits option.splits)
  with alias_query_exact [OF registry_merged_reachable, of "''x0''"] show ?thesis by auto
qed

end
