(* ===== verification/Projections.thy ===== *)
theory Projections
  imports Wiring
begin

text \<open>
  The projection engine (\<open>crates/evo/src/projections.rs\<close>): a view of one subject composed on demand
  from the registry, the relation graph and the conflict index, with the related subjects expanded
  recursively. The \<open>Arc\<close> handles are the components themselves, so a composition reads one state of
  them; \<open>SystemTime::now\<close> is a clock, read once per composed projection.
\<close>

section \<open>Engine, scope and documents\<close>

definition DEFAULT_MAX_DEPTH :: nat where "DEFAULT_MAX_DEPTH = 1"
definition DEFAULT_MAX_VISITS :: nat where "DEFAULT_MAX_VISITS = 1000"
definition SUBJECT_PROJECTION_SHAPE_VERSION :: u32 where "SUBJECT_PROJECTION_SHAPE_VERSION = 1"

record 'v projection_engine =
  pe_registry :: "'v registry_inner"
  pe_graph :: graph_inner
  pe_conflicts :: "conflict_index option"

definition new_engine :: "'v registry_inner \<Rightarrow> graph_inner \<Rightarrow> 'v projection_engine" where
  "new_engine r g = \<lparr>pe_registry = r, pe_graph = g, pe_conflicts = None\<rparr>"

definition with_conflict_index :: "conflict_index \<Rightarrow> 'v projection_engine \<Rightarrow> 'v projection_engine" where
  "with_conflict_index ix eng = eng\<lparr>pe_conflicts := Some ix\<rparr>"

record projection_scope =
  po_relation_predicates :: "string list"
  po_direction :: walk_direction
  po_max_depth :: nat
  po_max_visits :: nat

definition scope_of :: "walk_direction \<Rightarrow> string list \<Rightarrow> projection_scope" where
  "scope_of d predicates = \<lparr>po_relation_predicates = predicates, po_direction = d,
     po_max_depth = DEFAULT_MAX_DEPTH, po_max_visits = DEFAULT_MAX_VISITS\<rparr>"

definition scope_none :: projection_scope where "scope_none = scope_of WalkForward []"
definition scope_forward :: "string list \<Rightarrow> projection_scope" where "scope_forward = scope_of WalkForward"
definition scope_inverse :: "string list \<Rightarrow> projection_scope" where "scope_inverse = scope_of WalkInverse"
definition scope_both :: "string list \<Rightarrow> projection_scope" where "scope_both = scope_of WalkBoth"

definition with_max_depth :: "nat \<Rightarrow> projection_scope \<Rightarrow> projection_scope" where
  "with_max_depth n sc = sc\<lparr>po_max_depth := n\<rparr>"

definition with_max_visits :: "nat \<Rightarrow> projection_scope \<Rightarrow> projection_scope" where
  "with_max_visits n sc = sc\<lparr>po_max_visits := n\<rparr>"

datatype relation_direction = DirForward | DirInverse

datatype degraded_reason_kind = DanglingRelation | SubjectInConflict

record degraded_reason =
  dg_kind :: degraded_reason_kind
  dg_detail :: "string option"

record addressing_entry =
  ad_scheme :: string
  ad_value :: string
  ad_claimant :: string

datatype 'v subject_projection = SubjectProjection
    (sp_canonical_id: string) (sp_subject_type: string) (sp_addressings: "addressing_entry list")
    (sp_related: "'v related_subject list") (sp_state: "'v option") (sp_composed_at: systime)
    (sp_shape_version: u32) (sp_claimants: "string list") (sp_degraded: bool)
    (sp_degraded_reasons: "degraded_reason list") (sp_walk_truncated: bool)
  and 'v related_subject = RelatedSubject
    (rs_predicate: string) (rs_direction: relation_direction) (rs_target_id: string)
    (rs_target_type: "string option") (rs_relation_claimants: "string list")
    (rs_nested: "'v subject_projection option")

datatype projection_error = UnknownSubject string

section \<open>Composition\<close>

text \<open>The state the recursion shares: the visited ids, the truncation flag and the number of clock
  readings so far.\<close>

record walk_state =
  wk_visited :: "string hset"
  wk_truncated :: bool
  wk_reads :: nat

type_synonym 'v projector =
  "string \<Rightarrow> walk_state \<Rightarrow> walk_state \<times> (projection_error + 'v subject_projection)"

definition show_int :: "int \<Rightarrow> string" where
  "show_int i = (if i < 0 then ''-'' @ show_nat (nat (- i)) else show_nat (nat i))"

definition addressing_entry_of :: "addressing_record \<Rightarrow> addressing_entry" where
  "addressing_entry_of ar = \<lparr>ad_scheme = ea_scheme (ar_addressing ar),
     ad_value = ea_value (ar_addressing ar), ad_claimant = ar_claimant ar\<rparr>"

fun dedup_onto :: "string list \<Rightarrow> string list \<Rightarrow> string list" where
  "dedup_onto seen [] = []"
| "dedup_onto seen (c # cs) =
     (if c \<in> set seen then dedup_onto seen cs else c # dedup_onto (c # seen) cs)"

definition deduplicated_claimants :: "addressing_entry list \<Rightarrow> 'v related_subject list \<Rightarrow> string list" where
  "deduplicated_claimants addressings related =
     dedup_onto [] (map ad_claimant addressings @ concat (map rs_relation_claimants related))"

definition conflict_reasons :: "'v projection_engine \<Rightarrow> string \<Rightarrow> degraded_reason list" where
  "conflict_reasons eng i = (case pe_conflicts eng of
      None \<Rightarrow> []
    | Some ix \<Rightarrow> map (\<lambda>c. \<lparr>dg_kind = SubjectInConflict,
        dg_detail = Some (''conflict_id='' @ show_int c)\<rparr>) (conflicts_for ix i))"

text \<open>The recursive call is a parameter: \<open>below\<close> projects with the depth budget decremented by one.\<close>

definition maybe_nest ::
    "projection_scope \<Rightarrow> 'v projector \<Rightarrow> nat \<Rightarrow> string \<Rightarrow> string option \<Rightarrow> walk_state
       \<Rightarrow> walk_state \<times> 'v subject_projection option" where
  "maybe_nest sc below remaining_depth neighbour_id neighbour_type st =
     (if remaining_depth \<le> 1 then (st, None)
      else if neighbour_type = None then (st, None)
      else if neighbour_id \<in> set (wk_visited st) then (st, None)
      else if po_max_visits sc \<le> length (wk_visited st) then (st\<lparr>wk_truncated := True\<rparr>, None)
      else case below neighbour_id st of
        (st', Inr p) \<Rightarrow> (st', Some p)
      | (st', Inl _) \<Rightarrow> (st', None))"

definition relation_claimants_of :: "graph_inner \<Rightarrow> string \<Rightarrow> string \<Rightarrow> string \<Rightarrow> string list" where
  "relation_claimants_of g source_id predicate target_id =
     (case describe_relation g source_id predicate target_id of
        None \<Rightarrow> [] | Some rel \<Rightarrow> map rc_claimant (rr_claims rel))"

definition build_related ::
    "'v projection_engine \<Rightarrow> projection_scope \<Rightarrow> 'v projector \<Rightarrow> nat \<Rightarrow> string \<Rightarrow> relation_direction
       \<Rightarrow> string \<Rightarrow> string \<Rightarrow> walk_state \<Rightarrow> degraded_reason list
       \<Rightarrow> walk_state \<times> degraded_reason list \<times> 'v related_subject" where
  "build_related eng sc below remaining_depth predicate direction source_id target_id st degraded =
     (let target_type = map_option sr_subject_type (describe (pe_registry eng) target_id);
          degraded' = (if target_type = None then degraded @ [\<lparr>dg_kind = DanglingRelation,
              dg_detail = Some (predicate @ '' -> '' @ target_id @ '': target not in registry'')\<rparr>]
            else degraded);
          relation_claimants = relation_claimants_of (pe_graph eng) source_id predicate target_id;
          (st', nested) = maybe_nest sc below remaining_depth target_id target_type st
      in (st', degraded', RelatedSubject predicate direction target_id target_type relation_claimants nested))"

definition build_related_inverse ::
    "'v projection_engine \<Rightarrow> projection_scope \<Rightarrow> 'v projector \<Rightarrow> nat \<Rightarrow> string
       \<Rightarrow> string \<Rightarrow> string \<Rightarrow> walk_state \<Rightarrow> degraded_reason list
       \<Rightarrow> walk_state \<times> degraded_reason list \<times> 'v related_subject" where
  "build_related_inverse eng sc below remaining_depth predicate source_id subject_id st degraded =
     (let source_type = map_option sr_subject_type (describe (pe_registry eng) source_id);
          degraded' = (if source_type = None then degraded @ [\<lparr>dg_kind = DanglingRelation,
              dg_detail = Some (predicate @ '' <- '' @ source_id @ '': source not in registry'')\<rparr>]
            else degraded);
          relation_claimants = relation_claimants_of (pe_graph eng) source_id predicate subject_id;
          (st', nested) = maybe_nest sc below remaining_depth source_id source_type st
      in (st', degraded', RelatedSubject predicate DirInverse source_id source_type relation_claimants nested))"

text \<open>The edges of one level, in the order of the two nested loops.\<close>

definition level_edges ::
    "graph_inner \<Rightarrow> projection_scope \<Rightarrow> string \<Rightarrow> (string \<times> relation_direction \<times> string) list" where
  "level_edges g sc canonical_id = concat (map (\<lambda>predicate.
     (if follows_forward (po_direction sc)
      then map (\<lambda>t. (predicate, DirForward, t)) (neighbours g canonical_id predicate WalkForward) else []) @
     (if follows_inverse (po_direction sc)
      then map (\<lambda>s. (predicate, DirInverse, s)) (neighbours g canonical_id predicate WalkInverse) else []))
     (po_relation_predicates sc))"

definition build_edge ::
    "'v projection_engine \<Rightarrow> projection_scope \<Rightarrow> 'v projector \<Rightarrow> nat \<Rightarrow> string
       \<Rightarrow> string \<times> relation_direction \<times> string \<Rightarrow> walk_state \<Rightarrow> degraded_reason list
       \<Rightarrow> walk_state \<times> degraded_reason list \<times> 'v related_subject" where
  "build_edge eng sc below remaining_depth canonical_id edge st degraded =
     (case edge of
        (predicate, DirForward, target_id) \<Rightarrow>
          build_related eng sc below remaining_depth predicate DirForward canonical_id target_id st degraded
      | (predicate, DirInverse, source_id) \<Rightarrow>
          build_related_inverse eng sc below remaining_depth predicate source_id canonical_id st degraded)"

fun build_edges ::
    "'v projection_engine \<Rightarrow> projection_scope \<Rightarrow> 'v projector \<Rightarrow> nat \<Rightarrow> string
       \<Rightarrow> (string \<times> relation_direction \<times> string) list \<Rightarrow> walk_state \<Rightarrow> degraded_reason list
       \<Rightarrow> walk_state \<times> degraded_reason list \<times> 'v related_subject list" where
  "build_edges eng sc below remaining_depth canonical_id [] st degraded = (st, degraded, [])"
| "build_edges eng sc below remaining_depth canonical_id (edge # edges) st degraded =
     (let (st1, degraded1, entry) = build_edge eng sc below remaining_depth canonical_id edge st degraded;
          (st2, degraded2, related) =
            build_edges eng sc below remaining_depth canonical_id edges st1 degraded1
      in (st2, degraded2, entry # related))"

definition project_level ::
    "'v projection_engine \<Rightarrow> projection_scope \<Rightarrow> clock \<Rightarrow> 'v projector \<Rightarrow> nat \<Rightarrow> 'v projector" where
  "project_level eng sc clk below remaining_depth canonical_id st =
     (case describe (pe_registry eng) canonical_id of
        None \<Rightarrow> (st, Inl (UnknownSubject canonical_id))
      | Some record \<Rightarrow>
          let st1 = st\<lparr>wk_visited := hs_insert (sr_id record) (wk_visited st)\<rparr>;
              addressings = map addressing_entry_of (sr_addressings record);
              (st2, degraded_reasons, related) =
                (if 0 < remaining_depth \<and> po_relation_predicates sc \<noteq> [] then
                   build_edges eng sc below remaining_depth canonical_id
                     (level_edges (pe_graph eng) sc canonical_id) st1
                     (conflict_reasons eng (sr_id record))
                 else (st1, conflict_reasons eng (sr_id record), []));
              state = (case state_of (pe_registry eng) (sr_id record) of None \<Rightarrow> None | Some v \<Rightarrow> v)
          in (st2\<lparr>wk_reads := Suc (wk_reads st2)\<rparr>,
              Inr (SubjectProjection (sr_id record) (sr_subject_type record) addressings related state
                (clk (wk_reads st2)) SUBJECT_PROJECTION_SHAPE_VERSION
                (deduplicated_claimants addressings related) (degraded_reasons \<noteq> []) degraded_reasons
                (wk_truncated st2))))"

text \<open>With no budget there is no edge and no recursive call.\<close>

primrec project_recursive ::
    "'v projection_engine \<Rightarrow> projection_scope \<Rightarrow> clock \<Rightarrow> nat \<Rightarrow> 'v projector" where
  "project_recursive eng sc clk 0 =
     project_level eng sc clk (\<lambda>i st. (st, Inl (UnknownSubject i))) 0"
| "project_recursive eng sc clk (Suc d) =
     project_level eng sc clk (project_recursive eng sc clk d) (Suc d)"

definition project_subject ::
    "'v projection_engine \<Rightarrow> string \<Rightarrow> projection_scope \<Rightarrow> clock
       \<Rightarrow> projection_error + 'v subject_projection" where
  "project_subject eng canonical_id sc clk =
     snd (project_recursive eng sc clk (po_max_depth sc) canonical_id
       \<lparr>wk_visited = [], wk_truncated = False, wk_reads = 0\<rparr>)"

end
