(* ===== verification/Projection_Spec.thy ===== *)
theory Projection_Spec
  imports Projections Wiring_Cascade
begin

text \<open>
  What a projection is: every document of the tree says exactly what the registry, the graph and the
  conflict index hold of its subject, no subject is expanded twice, the tree is bounded by the depth
  and by the visit cap, and without the truncation flag every live neighbour within the budget is
  expanded. Over states of the wiring layer, no projection reports a dangling relation.
\<close>

section \<open>The shape of a projection tree\<close>

text \<open>The subjects with a document of their own, in the order they are composed.\<close>

fun expanded :: "'v subject_projection \<Rightarrow> string list"
  and expanded_related :: "'v related_subject \<Rightarrow> string list" where
  "expanded (SubjectProjection i ty as related v t sv cs dg rs tr) = i # concat (map expanded_related related)"
| "expanded_related (RelatedSubject p d i ty cs nested) = (case nested of None \<Rightarrow> [] | Some q \<Rightarrow> expanded q)"

lemma expanded_related_alt:
  "expanded_related e = (case rs_nested e of None \<Rightarrow> [] | Some q \<Rightarrow> expanded q)"
  by (cases e) simp

definition entry_key :: "'v related_subject \<Rightarrow> string \<times> relation_direction \<times> string" where
  "entry_key e = (rs_predicate e, rs_direction e, rs_target_id e)"

fun dangling_reason :: "string \<times> relation_direction \<times> string \<Rightarrow> degraded_reason" where
  "dangling_reason (p, DirForward, i) = \<lparr>dg_kind = DanglingRelation,
     dg_detail = Some (p @ '' -> '' @ i @ '': target not in registry'')\<rparr>"
| "dangling_reason (p, DirInverse, i) = \<lparr>dg_kind = DanglingRelation,
     dg_detail = Some (p @ '' <- '' @ i @ '': source not in registry'')\<rparr>"

definition edge_claimants :: "graph_inner \<Rightarrow> string \<Rightarrow> string \<times> relation_direction \<times> string \<Rightarrow> string list" where
  "edge_claimants g i = (\<lambda>(p, d, j). case d of
      DirForward \<Rightarrow> relation_claimants_of g i p j | DirInverse \<Rightarrow> relation_claimants_of g j p i)"

definition entry_ok :: "'v projection_engine \<Rightarrow> string \<Rightarrow> 'v related_subject \<Rightarrow> bool" where
  "entry_ok eng i e \<longleftrightarrow>
     rs_target_type e = map_option sr_subject_type (describe (pe_registry eng) (rs_target_id e)) \<and>
     rs_relation_claimants e = edge_claimants (pe_graph eng) i (entry_key e)"

definition dangling :: "'v projection_engine \<Rightarrow> string \<times> relation_direction \<times> string \<Rightarrow> bool" where
  "dangling eng = (\<lambda>(p, d, j). describe (pe_registry eng) j = None)"

text \<open>One document, given the edges it must list.\<close>

definition document_ok ::
    "'v projection_engine \<Rightarrow> (string \<times> relation_direction \<times> string) list \<Rightarrow> 'v subject_projection \<Rightarrow> bool" where
  "document_ok eng edges p \<longleftrightarrow> (\<exists>rec. describe (pe_registry eng) (sp_canonical_id p) = Some rec \<and>
     sp_subject_type p = sr_subject_type rec \<and>
     sp_addressings p = map addressing_entry_of (sr_addressings rec) \<and>
     sp_state p = Option.bind (state_of (pe_registry eng) (sp_canonical_id p)) id \<and>
     map entry_key (sp_related p) = edges \<and>
     (\<forall>e \<in> set (sp_related p). entry_ok eng (sp_canonical_id p) e) \<and>
     sp_claimants p = deduplicated_claimants (sp_addressings p) (sp_related p) \<and>
     sp_degraded_reasons p = conflict_reasons eng (sp_canonical_id p) @
       map dangling_reason (filter (dangling eng) edges) \<and>
     (sp_degraded p \<longleftrightarrow> sp_degraded_reasons p \<noteq> []))"

text \<open>A tree composed with budget \<open>n\<close>; \<open>V\<close> holds the subjects that are expanded anywhere.\<close>

primrec tree_ok ::
    "'v projection_engine \<Rightarrow> projection_scope \<Rightarrow> nat \<Rightarrow> 'v subject_projection \<Rightarrow> bool" where
  "tree_ok eng sc 0 p = document_ok eng [] p"
| "tree_ok eng sc (Suc n) p =
     (document_ok eng (level_edges (pe_graph eng) sc (sp_canonical_id p)) p \<and>
      (\<forall>e \<in> set (sp_related p). \<forall>q. rs_nested e = Some q \<longrightarrow>
         0 < n \<and> sp_canonical_id q = rs_target_id e \<and> tree_ok eng sc n q))"

primrec closed_in :: "string set \<Rightarrow> nat \<Rightarrow> 'v subject_projection \<Rightarrow> bool" where
  "closed_in V 0 p = True"
| "closed_in V (Suc n) p = (\<forall>e \<in> set (sp_related p).
     (0 < n \<and> rs_target_type e \<noteq> None \<longrightarrow> rs_target_id e \<in> V) \<and>
     (\<forall>q. rs_nested e = Some q \<longrightarrow> closed_in V n q))"

lemma closed_in_mono: "closed_in V n p \<Longrightarrow> V \<subseteq> V' \<Longrightarrow> closed_in V' n p"
  by (induction n arbitrary: p) (simp, fastforce)

section \<open>The contract of the recursion\<close>

definition well_keyed :: "'v projection_engine \<Rightarrow> bool" where
  "well_keyed eng \<longleftrightarrow> (\<forall>i rec. describe (pe_registry eng) i = Some rec \<longrightarrow> sr_id rec = i)"

definition projects ::
    "'v projection_engine \<Rightarrow> projection_scope \<Rightarrow> nat \<Rightarrow> walk_state \<Rightarrow> walk_state \<Rightarrow> string
       \<Rightarrow> 'v subject_projection \<Rightarrow> bool" where
  "projects eng sc n st st' i p \<longleftrightarrow> sp_canonical_id p = i \<and> tree_ok eng sc n p \<and>
     wk_visited st' = wk_visited st @ expanded p \<and> distinct (wk_visited st') \<and>
     length (wk_visited st') \<le> max (Suc (length (wk_visited st))) (po_max_visits sc) \<and>
     (wk_truncated st \<longrightarrow> wk_truncated st') \<and> sp_walk_truncated p = wk_truncated st' \<and>
     (\<not> wk_truncated st' \<longrightarrow> closed_in (set (wk_visited st')) n p)"

text \<open>A projector that keeps the contract with budget \<open>n\<close>.\<close>

locale sound_projector =
  fixes eng :: "'v projection_engine" and sc :: projection_scope and n :: nat
    and below :: "'v projector"
  assumes unknown: "describe (pe_registry eng) i = None \<Longrightarrow> below i st = (st, Inl (UnknownSubject i))"
    and known: "well_keyed eng \<Longrightarrow> describe (pe_registry eng) i \<noteq> None \<Longrightarrow> distinct (wk_visited st) \<Longrightarrow>
      i \<notin> set (wk_visited st) \<Longrightarrow> \<exists>st' p. below i st = (st', Inr p) \<and> projects eng sc n st st' i p"
begin

text \<open>One neighbour.\<close>

lemma nest:
  assumes wk: "well_keyed eng" and d: "distinct (wk_visited st)" and ty: "ty = None \<longleftrightarrow> describe (pe_registry eng) j = None"
    and eq: "maybe_nest sc below (Suc n) j ty st = (st', nested)"
  shows "wk_visited st' = wk_visited st @ (case nested of None \<Rightarrow> [] | Some q \<Rightarrow> expanded q)"
    "distinct (wk_visited st')" "length (wk_visited st') \<le> max (length (wk_visited st)) (po_max_visits sc)"
    "wk_truncated st \<longrightarrow> wk_truncated st'"
    "\<And>q. nested = Some q \<Longrightarrow> 0 < n \<and> sp_canonical_id q = j \<and> tree_ok eng sc n q \<and>
       (\<not> wk_truncated st' \<longrightarrow> closed_in (set (wk_visited st')) n q)"
    "\<not> wk_truncated st' \<Longrightarrow> 0 < n \<Longrightarrow> ty \<noteq> None \<Longrightarrow> j \<in> set (wk_visited st')"
proof -
  consider (stop) "nested = None" "wk_visited st' = wk_visited st" "wk_truncated st \<longrightarrow> wk_truncated st'"
      "\<not> wk_truncated st' \<longrightarrow> 0 < n \<longrightarrow> ty \<noteq> None \<longrightarrow> j \<in> set (wk_visited st)"
    | (go) p where "nested = Some p" "0 < n" "length (wk_visited st) < po_max_visits sc"
      "projects eng sc n st st' j p"
  proof (cases "0 < n \<and> ty \<noteq> None \<and> j \<notin> set (wk_visited st) \<and> length (wk_visited st) < po_max_visits sc")
    case False
    then show ?thesis by (intro that(1)) (use eq in \<open>auto simp: maybe_nest_def split: if_splits\<close>)
  next
    case True
    with ty known [OF wk _ d] obtain st2 p where b: "below j st = (st2, Inr p)" "projects eng sc n st st2 j p"
      by blast
    with True eq have "st' = st2" "nested = Some p" by (auto simp: maybe_nest_def)
    with b True show ?thesis by (intro that(2)) auto
  qed
  note cases = this
  show "wk_visited st' = wk_visited st @ (case nested of None \<Rightarrow> [] | Some q \<Rightarrow> expanded q)"
    "distinct (wk_visited st')" "length (wk_visited st') \<le> max (length (wk_visited st)) (po_max_visits sc)"
    "wk_truncated st \<longrightarrow> wk_truncated st'"
    by (cases rule: cases; use d in \<open>auto simp: projects_def\<close>)+
  show "0 < n \<and> sp_canonical_id q = j \<and> tree_ok eng sc n q \<and>
       (\<not> wk_truncated st' \<longrightarrow> closed_in (set (wk_visited st')) n q)" if "nested = Some q" for q
    by (cases rule: cases; use that in \<open>auto simp: projects_def\<close>)
  have head: "sp_canonical_id p \<in> set (expanded p)" for p :: "'v subject_projection"
    by (cases p) simp
  show "j \<in> set (wk_visited st')" if "\<not> wk_truncated st'" "0 < n" "ty \<noteq> None"
    by (cases rule: cases; use that head in \<open>auto simp: projects_def\<close>)
qed

text \<open>One entry, then the list of entries of a level.\<close>

lemma edge:
  assumes wk: "well_keyed eng" and d: "distinct (wk_visited st)"
    and eq: "build_edge eng sc below (Suc n) i k st dg = (st', dg', e)"
  shows "entry_key e = k" "entry_ok eng i e"
    "dg' = dg @ (if dangling eng k then [dangling_reason k] else [])"
    "wk_visited st' = wk_visited st @ expanded_related e"
    "distinct (wk_visited st')" "length (wk_visited st') \<le> max (length (wk_visited st)) (po_max_visits sc)"
    "wk_truncated st \<longrightarrow> wk_truncated st'"
    "\<And>q. rs_nested e = Some q \<Longrightarrow> 0 < n \<and> sp_canonical_id q = rs_target_id e \<and> tree_ok eng sc n q \<and>
       (\<not> wk_truncated st' \<longrightarrow> closed_in (set (wk_visited st')) n q)"
    "\<not> wk_truncated st' \<Longrightarrow> 0 < n \<Longrightarrow> rs_target_type e \<noteq> None \<Longrightarrow> rs_target_id e \<in> set (wk_visited st')"
proof -
  obtain p dir j where k: "k = (p, dir, j)" by (metis prod.exhaust)
  let ?ty = "map_option sr_subject_type (describe (pe_registry eng) j)"
  obtain st2 nested where m: "maybe_nest sc below (Suc n) j ?ty st = (st2, nested)" by fastforce
  have e: "st' = st2" "e = RelatedSubject p dir j ?ty (edge_claimants (pe_graph eng) i k) nested"
    and dg: "dg' = dg @ (if dangling eng k then [dangling_reason k] else [])"
    using eq m by (cases dir; auto simp: k build_edge_def build_related_def build_related_inverse_def
        Let_def edge_claimants_def dangling_def)+
  note n = nest [OF wk d _ m, simplified]
  show "entry_key e = k" "entry_ok eng i e" by (simp_all add: e entry_key_def entry_ok_def k)
  show "dg' = dg @ (if dangling eng k then [dangling_reason k] else [])" by (fact dg)
  show "wk_visited st' = wk_visited st @ expanded_related e"
    "distinct (wk_visited st')" "length (wk_visited st') \<le> max (length (wk_visited st)) (po_max_visits sc)"
    "wk_truncated st \<longrightarrow> wk_truncated st'"
    using n(1-4) by (simp_all add: e)
  show "0 < n \<and> sp_canonical_id q = rs_target_id e \<and> tree_ok eng sc n q \<and>
       (\<not> wk_truncated st' \<longrightarrow> closed_in (set (wk_visited st')) n q)" if "rs_nested e = Some q" for q
    using n(5) [of q] that by (simp add: e)
  show "rs_target_id e \<in> set (wk_visited st')" if "\<not> wk_truncated st'" "0 < n" "rs_target_type e \<noteq> None"
    using n(6) that by (simp add: e)
qed

lemma edges:
  assumes "well_keyed eng" "distinct (wk_visited st)"
    "build_edges eng sc below (Suc n) i ks st dg = (st', dg', es)"
  shows "map entry_key es = ks \<and> (\<forall>e \<in> set es. entry_ok eng i e) \<and>
    dg' = dg @ map dangling_reason (filter (dangling eng) ks) \<and>
    wk_visited st' = wk_visited st @ concat (map expanded_related es) \<and> distinct (wk_visited st') \<and>
    length (wk_visited st') \<le> max (length (wk_visited st)) (po_max_visits sc) \<and>
    (wk_truncated st \<longrightarrow> wk_truncated st') \<and>
    (\<forall>e \<in> set es. \<forall>q. rs_nested e = Some q \<longrightarrow>
       0 < n \<and> sp_canonical_id q = rs_target_id e \<and> tree_ok eng sc n q) \<and>
    (\<not> wk_truncated st' \<longrightarrow> (\<forall>e \<in> set es.
       (0 < n \<and> rs_target_type e \<noteq> None \<longrightarrow> rs_target_id e \<in> set (wk_visited st')) \<and>
       (\<forall>q. rs_nested e = Some q \<longrightarrow> closed_in (set (wk_visited st')) n q)))"
  using assms(2,3)
proof (induction ks arbitrary: st dg es)
  case (Cons k ks)
  obtain st1 dg1 e where 1: "build_edge eng sc below (Suc n) i k st dg = (st1, dg1, e)"
    by (metis prod.exhaust)
  obtain es' where 2: "build_edges eng sc below (Suc n) i ks st1 dg1 = (st', dg', es')" "es = e # es'"
    using Cons.prems(2) 1 by (auto split: prod.splits)
  note one = edge [OF assms(1) Cons.prems(1) 1]
  note rest = Cons.IH [OF one(5) 2(1)]
  have sub: "set (wk_visited st1) \<subseteq> set (wk_visited st')" using rest by simp
  have "(0 < n \<and> rs_target_type e \<noteq> None \<longrightarrow> rs_target_id e \<in> set (wk_visited st')) \<and>
      (\<forall>q. rs_nested e = Some q \<longrightarrow> closed_in (set (wk_visited st')) n q)" if "\<not> wk_truncated st'"
    using one(8,9) that rest sub closed_in_mono by blast
  note closed = this
  show ?case unfolding 2(2)
  proof (intro conjI impI)
    show "map entry_key (e # es') = k # ks" using one(1) rest by simp
    show "\<forall>x \<in> set (e # es'). entry_ok eng i x" using one(2) rest by simp
    show "dg' = dg @ map dangling_reason (filter (dangling eng) (k # ks))" using one(3) rest by simp
    show "wk_visited st' = wk_visited st @ concat (map expanded_related (e # es'))" using one(4) rest by simp
    show "distinct (wk_visited st')" using rest by blast
    show "length (wk_visited st') \<le> max (length (wk_visited st)) (po_max_visits sc)"
      using one(6) rest by linarith
    show "wk_truncated st'" if "wk_truncated st" using that one(7) rest by blast
    show "\<forall>x \<in> set (e # es'). \<forall>q. rs_nested x = Some q \<longrightarrow>
       0 < n \<and> sp_canonical_id q = rs_target_id x \<and> tree_ok eng sc n q"
      using one(8) rest by (metis set_ConsD)
    show "\<forall>x \<in> set (e # es').
       (0 < n \<and> rs_target_type x \<noteq> None \<longrightarrow> rs_target_id x \<in> set (wk_visited st')) \<and>
       (\<forall>q. rs_nested x = Some q \<longrightarrow> closed_in (set (wk_visited st')) n q)" if "\<not> wk_truncated st'"
      using closed [OF that] rest that by (metis set_ConsD)
  qed
qed simp

text \<open>A level whose neighbours are projected soundly is itself sound, with one more level of budget.\<close>

lemma level:
  assumes wk: "well_keyed eng" and rec: "describe (pe_registry eng) i = Some rec"
    and d: "distinct (wk_visited st)" and i: "i \<notin> set (wk_visited st)"
  shows "\<exists>st' p. project_level eng sc clk below (Suc n) i st = (st', Inr p) \<and> projects eng sc (Suc n) st st' i p"
proof -
  let ?st1 = "st\<lparr>wk_visited := wk_visited st @ [i]\<rparr>"
  let ?ks = "level_edges (pe_graph eng) sc i"
  obtain st2 dg es where b: "build_edges eng sc below (Suc n) i ?ks ?st1 (conflict_reasons eng i) = (st2, dg, es)"
    by (metis prod.exhaust)
  have id: "sr_id rec = i" using wk rec by (simp add: well_keyed_def)
  have none: "?ks = []" if "po_relation_predicates sc = []" using that by (simp add: level_edges_def)
  have l: "project_level eng sc clk below (Suc n) i st = (st2\<lparr>wk_reads := Suc (wk_reads st2)\<rparr>,
      Inr (SubjectProjection i (sr_subject_type rec) (map addressing_entry_of (sr_addressings rec)) es
        (case state_of (pe_registry eng) i of None \<Rightarrow> None | Some v \<Rightarrow> v) (clk (wk_reads st2))
        SUBJECT_PROJECTION_SHAPE_VERSION
        (deduplicated_claimants (map addressing_entry_of (sr_addressings rec)) es) (dg \<noteq> []) dg
        (wk_truncated st2)))"
    using b i none by (cases "po_relation_predicates sc = []")
      (auto simp: project_level_def rec id Let_def hs_insert_def)
  have "distinct (wk_visited ?st1)" using d i by simp
  note e = edges [OF wk this b]
  have doc: "document_ok eng ?ks (SubjectProjection i (sr_subject_type rec)
      (map addressing_entry_of (sr_addressings rec)) es
      (case state_of (pe_registry eng) i of None \<Rightarrow> None | Some v \<Rightarrow> v) t v
      (deduplicated_claimants (map addressing_entry_of (sr_addressings rec)) es) (dg \<noteq> []) dg tr)" for t v tr
    using e rec by (auto simp: document_ok_def split: option.split)
  let ?p = "SubjectProjection i (sr_subject_type rec) (map addressing_entry_of (sr_addressings rec)) es
      (case state_of (pe_registry eng) i of None \<Rightarrow> None | Some v \<Rightarrow> v) (clk (wk_reads st2))
      SUBJECT_PROJECTION_SHAPE_VERSION
      (deduplicated_claimants (map addressing_entry_of (sr_addressings rec)) es) (dg \<noteq> []) dg
      (wk_truncated st2)"
  let ?st' = "st2\<lparr>wk_reads := Suc (wk_reads st2)\<rparr>"
  have len: "length (wk_visited ?st1) = Suc (length (wk_visited st))" by simp
  have f: "wk_visited ?st' = wk_visited st2" "wk_truncated ?st' = wk_truncated st2" by simp_all
  have "projects eng sc (Suc n) st ?st' i ?p"
    unfolding projects_def f
  proof (intro conjI)
    show "tree_ok eng sc (Suc n) ?p" using doc e by simp
    show "wk_visited st2 = wk_visited st @ expanded ?p" using e by simp
    show "distinct (wk_visited st2)" using e by blast
    show "length (wk_visited st2) \<le> max (Suc (length (wk_visited st))) (po_max_visits sc)"
      using e unfolding len by blast
    show "wk_truncated st \<longrightarrow> wk_truncated st2" using e by simp
    show "\<not> wk_truncated st2 \<longrightarrow> closed_in (set (wk_visited st2)) (Suc n) ?p"
      unfolding closed_in.simps subject_projection.sel using e by blast
  qed simp_all
  with l show ?thesis by blast
qed

end

lemma level_0:
  assumes "well_keyed eng" "describe (pe_registry eng) i = Some rec" "distinct (wk_visited st)"
    "i \<notin> set (wk_visited st)"
  shows "\<exists>st' p. project_level eng sc clk below 0 i st = (st', Inr p) \<and> projects eng sc 0 st st' i p"
  using assms by (auto simp: project_level_def Let_def projects_def document_ok_def well_keyed_def
      hs_insert_def split: option.split)

lemma level_unknown:
  "describe (pe_registry eng) i = None \<Longrightarrow>
   project_level eng sc clk below n i st = (st, Inl (UnknownSubject i))"
  by (simp add: project_level_def)

lemma project_sound: "sound_projector eng sc n (project_recursive eng sc clk n)"
proof (induction n)
  case 0
  show ?case by unfold_locales (auto simp: level_unknown intro: level_0)
next
  case (Suc n)
  show ?case
    by unfold_locales (auto simp: level_unknown intro: sound_projector.level [OF Suc])
qed

interpretation projecting: sound_projector eng sc n "project_recursive eng sc clk n" for eng sc n clk
  by (rule project_sound)

lemma reg_inv_keyed: "reg_inv (pe_registry eng) \<Longrightarrow> well_keyed eng"
  by (auto simp: reg_inv_def well_keyed_def describe_def coherent_def wf_record_def)

lemma project_subject_cases:
  assumes "reg_inv (pe_registry eng)"
  obtains (unknown) "describe (pe_registry eng) i = None" "project_subject eng i sc clk = Inl (UnknownSubject i)"
  | (known) p st' where "describe (pe_registry eng) i \<noteq> None" "project_subject eng i sc clk = Inr p"
      "projects eng sc (po_max_depth sc) \<lparr>wk_visited = [], wk_truncated = False, wk_reads = 0\<rparr> st' i p"
proof (cases "describe (pe_registry eng) i")
  case None
  then show ?thesis by (intro unknown) (simp_all add: project_subject_def projecting.unknown)
next
  case (Some rec)
  let ?st = "\<lparr>wk_visited = [], wk_truncated = False, wk_reads = 0\<rparr>"
  have "\<exists>st' p. project_recursive eng sc clk (po_max_depth sc) i ?st = (st', Inr p) \<and>
      projects eng sc (po_max_depth sc) ?st st' i p"
    by (rule projecting.known [OF reg_inv_keyed [OF assms]]) (simp_all add: Some)
  then obtain st' p where "project_recursive eng sc clk (po_max_depth sc) i ?st = (st', Inr p)"
    "projects eng sc (po_max_depth sc) ?st st' i p" by blast
  with Some show ?thesis by (intro known [of p st']) (simp_all add: project_subject_def)
qed

section \<open>Bounds\<close>

fun levels :: "'v subject_projection \<Rightarrow> nat" and levels_related :: "'v related_subject \<Rightarrow> nat" where
  "levels (SubjectProjection i ty as related v t sv cs dg rs tr) = fold max (map levels_related related) 0"
| "levels_related (RelatedSubject p d i ty cs nested) =
     Suc (case nested of None \<Rightarrow> 0 | Some q \<Rightarrow> levels q)"

lemma fold_max_le: "fold max xs (a :: nat) \<le> b \<longleftrightarrow> a \<le> b \<and> (\<forall>x \<in> set xs. x \<le> b)"
  by (induction xs arbitrary: a) auto

lemma tree_levels: "tree_ok eng sc n p \<Longrightarrow> levels p \<le> n"
proof (induction n arbitrary: p)
  case 0
  then show ?case by (cases p) (auto simp: document_ok_def)
next
  case (Suc n)
  have "levels_related e \<le> Suc n" if "e \<in> set (sp_related p)" for e
    using Suc that by (cases e) (fastforce split: option.splits)
  then show ?case by (cases p) (auto simp: fold_max_le)
qed

lemma tree_live: "tree_ok eng sc n p \<Longrightarrow> j \<in> set (expanded p) \<Longrightarrow> describe (pe_registry eng) j \<noteq> None"
proof (induction n arbitrary: p)
  case 0
  then show ?case by (cases p) (auto simp: document_ok_def)
next
  case (Suc n)
  from Suc.prems(2) consider "j = sp_canonical_id p"
    | e q where "e \<in> set (sp_related p)" "rs_nested e = Some q" "j \<in> set (expanded q)"
  proof (cases p)
    case (SubjectProjection i ty as related v t sv cs dg rs tr)
    with Suc.prems(2) consider "j = i" | e where "e \<in> set related" "j \<in> set (expanded_related e)" by auto
    then show ?thesis
    proof cases
      case 2
      then show ?thesis using that(2) [of e] SubjectProjection
        by - (cases "rs_nested e", auto simp: expanded_related_alt)
    qed (use that(1) SubjectProjection in simp)
  qed
  then show ?case
  proof cases
    case 1
    then show ?thesis using Suc.prems(1) by (auto simp: document_ok_def)
  next
    case 2
    then show ?thesis using Suc by auto
  qed
qed

text \<open>(C28) A projection of a known subject always ends and always gives a document, an unknown
  subject is always the error. In the tree of documents the subject asked for comes first, no
  subject is expanded twice however cyclic the graph, only live subjects are expanded, the nesting
  is at most the depth of the scope, and the number of documents is at most the visit cap, except
  that the subject asked for is always composed.\<close>

theorem projection_bounds:
  assumes "reg_inv (pe_registry eng)"
  shows "(describe (pe_registry eng) i = None \<and> project_subject eng i sc clk = Inl (UnknownSubject i)) \<or>
     (describe (pe_registry eng) i \<noteq> None \<and> (\<exists>p. project_subject eng i sc clk = Inr p \<and>
        sp_canonical_id p = i \<and> distinct (expanded p) \<and> length (expanded p) \<le> max 1 (po_max_visits sc) \<and>
        levels p \<le> po_max_depth sc \<and> (\<forall>j \<in> set (expanded p). describe (pe_registry eng) j \<noteq> None)))"
proof (rule project_subject_cases [OF assms, of i sc clk])
  fix p st'
  assume "describe (pe_registry eng) i \<noteq> None" "project_subject eng i sc clk = Inr p"
    and p: "projects eng sc (po_max_depth sc) \<lparr>wk_visited = [], wk_truncated = False, wk_reads = 0\<rparr> st' i p"
  moreover from p have t: "tree_ok eng sc (po_max_depth sc) p" by (simp add: projects_def)
  moreover note tree_levels [OF t] tree_live [OF t]
  moreover from p have "distinct (expanded p)" "length (expanded p) \<le> max 1 (po_max_visits sc)"
    by (auto simp: projects_def)
  moreover from p have "sp_canonical_id p = i" by (simp add: projects_def)
  ultimately show ?thesis by blast
qed blast

section \<open>Exactness\<close>

lemma level_edges_iff:
  assumes "graph_inv g"
  shows "(pr, dir, x) \<in> set (level_edges g sc j) \<longleftrightarrow> pr \<in> set (po_relation_predicates sc) \<and>
     (case dir of DirForward \<Rightarrow> follows_forward (po_direction sc) \<and> edge_visible g j pr x
      | DirInverse \<Rightarrow> follows_inverse (po_direction sc) \<and> edge_visible g x pr j)"
  by (cases dir) (auto simp: level_edges_def neighbours_set [OF assms] follows_forward_def [of WalkForward]
      follows_inverse_def [of WalkInverse] follows_forward_def [of WalkInverse]
      follows_inverse_def [of WalkForward])

text \<open>(C27) Every document of a projection says exactly what the registry and the graph hold: type,
  addressings and state of its subject, one entry per visible edge along the predicates and
  directions of the scope, in the order of the predicates and of the neighbour ids, each entry with
  the type of its end and the claimants of its relation, and one degraded reason per open conflict
  and per edge whose other end is not registered. An entry is nested only above the last level of
  the tree; if the walk was not truncated, every live end of an edge of a document above the last
  level has a document somewhere in the tree (a level of the tree is not a distance in the graph: a
  subject first met deep in the tree is not expanded again nearer to its root).\<close>

theorem projection_exact:
  assumes "reg_inv (pe_registry eng)" "graph_inv (pe_graph eng)" "project_subject eng i sc clk = Inr p"
  shows "tree_ok eng sc (po_max_depth sc) p \<and>
     (\<not> sp_walk_truncated p \<longrightarrow> closed_in (set (expanded p)) (po_max_depth sc) p) \<and>
     (\<forall>j pr dir x. (pr, dir, x) \<in> set (level_edges (pe_graph eng) sc j) \<longleftrightarrow>
        pr \<in> set (po_relation_predicates sc) \<and>
        (case dir of
           DirForward \<Rightarrow> follows_forward (po_direction sc) \<and> edge_visible (pe_graph eng) j pr x
         | DirInverse \<Rightarrow> follows_inverse (po_direction sc) \<and> edge_visible (pe_graph eng) x pr j))"
  by (rule project_subject_cases [OF assms(1), of i sc clk])
    (use assms(3) level_edges_iff [OF assms(2)] in \<open>auto simp: projects_def\<close>)

section \<open>Projections of the running steward\<close>

fun documents :: "'v subject_projection \<Rightarrow> 'v subject_projection list"
  and documents_related :: "'v related_subject \<Rightarrow> 'v subject_projection list" where
  "documents (SubjectProjection i ty as related v t sv cs dg rs tr) =
     SubjectProjection i ty as related v t sv cs dg rs tr # concat (map documents_related related)"
| "documents_related (RelatedSubject p d i ty cs nested) =
     (case nested of None \<Rightarrow> [] | Some q \<Rightarrow> documents q)"

lemma documents_unfold:
  fixes p :: "'a subject_projection"
  shows "documents p = p # concat (map (\<lambda>e. case rs_nested e of None \<Rightarrow> [] | Some q \<Rightarrow> documents q) (sp_related p))"
proof -
  have "documents_related e = (case rs_nested e of None \<Rightarrow> [] | Some q \<Rightarrow> documents q)" for e :: "'a related_subject"
    by (cases e) simp
  then show ?thesis by (cases p) (simp cong: map_cong)
qed

lemma tree_documents:
  "tree_ok eng sc n p \<Longrightarrow> q \<in> set (documents p) \<Longrightarrow>
   \<exists>edges. set edges \<subseteq> set (level_edges (pe_graph eng) sc (sp_canonical_id q)) \<and> document_ok eng edges q"
proof (induction n arbitrary: p)
  case 0
  then have "q = p" using documents_unfold [of p] by (auto simp: document_ok_def)
  with 0 show ?case by (auto intro: exI [of _ "[]"])
next
  case (Suc n)
  from Suc.prems(2) consider "q = p"
    | e p' where "e \<in> set (sp_related p)" "rs_nested e = Some p'" "q \<in> set (documents p')"
    unfolding documents_unfold [of p] by (force split: option.splits)
  then show ?case
  proof cases
    case 1
    with Suc.prems(1) show ?thesis by auto
  next
    case 2
    with Suc show ?thesis by auto
  qed
qed

lemma edge_ends_live:
  assumes "steward_inv s" "edge_visible (sw_graph s) a pr b"
  shows "describe (sw_registry s) a \<noteq> None" "describe (sw_registry s) b \<noteq> None"
proof -
  have "mk_key a pr b \<in> dom (hm_get (gi_relations (sw_graph s)))"
    using assms(2) by (auto simp: edge_visible_iff visible_def)
  with assms(1) have "conforms (sw_catalogue s) (type_of (sw_registry s)) (mk_key a pr b)"
    by (simp only: steward_inv_def steward_ok_def)
  then show "describe (sw_registry s) a \<noteq> None" "describe (sw_registry s) b \<noteq> None"
    by (auto simp: conforms_def type_of_def)
qed

text \<open>In a steward booted empty that serves its verbs one at a time, with no store failure and no
  announcement that lists an addressing twice, no projection composed between two verbs reports a
  dangling relation, in any of its documents and for any scope: the only degradation left is an
  open conflict. Outside these conditions dangling relations do occur: while a retraction, a merge
  or a split is between the registry and the graph and after an overtaken assertion
  (\<open>Wiring_Races\<close>), after a store failure, and after a restart that follows a merge
  (\<open>Wiring_Cascade\<close>).\<close>

theorem projection_not_dangling:
  assumes "booted s0" "wiring_step\<^sup>*\<^sup>* s0 s"
    and p: "project_subject \<lparr>pe_registry = sw_registry s, pe_graph = sw_graph s, pe_conflicts = cx\<rparr> i sc clk = Inr p"
    and q: "q \<in> set (documents p)"
  shows "sp_degraded_reasons q = conflict_reasons
      \<lparr>pe_registry = sw_registry s, pe_graph = sw_graph s, pe_conflicts = cx\<rparr> (sp_canonical_id q) \<and>
    (cx = None \<longrightarrow> \<not> sp_degraded q)"
proof -
  let ?eng = "\<lparr>pe_registry = sw_registry s, pe_graph = sw_graph s, pe_conflicts = cx\<rparr>"
  have inv: "steward_inv s" by (rule wiring.reachable_inv [OF assms(1,2)])
  then have ri: "reg_inv (pe_registry ?eng)" and gi: "graph_inv (pe_graph ?eng)"
    by (simp_all add: steward_inv_def steward_ok_def)
  have "tree_ok ?eng sc (po_max_depth sc) p"
    by (rule project_subject_cases [OF ri, of i sc clk]) (use p in \<open>auto simp: projects_def\<close>)
  from tree_documents [OF this q] obtain edges where
    e: "set edges \<subseteq> set (level_edges (pe_graph ?eng) sc (sp_canonical_id q))" "document_ok ?eng edges q" by blast
  have "\<not> dangling ?eng k" if "k \<in> set edges" for k
  proof -
    obtain pr dir x where k: "k = (pr, dir, x)" by (metis prod.exhaust)
    have "(pr, dir, x) \<in> set (level_edges (pe_graph ?eng) sc (sp_canonical_id q))" using e(1) that k by blast
    then show ?thesis
      unfolding level_edges_iff [OF gi] using edge_ends_live [OF inv]
      by (cases dir) (auto simp: dangling_def k)
  qed
  then have "filter (dangling ?eng) edges = []" by (simp add: filter_empty_conv)
  with e(2) show ?thesis by (auto simp: document_ok_def conflict_reasons_def)
qed

section \<open>Samples\<close>

definition engine_3 :: "unit projection_engine" where
  "engine_3 = \<lparr>pe_registry = sw_registry steward_3, pe_graph = sw_graph steward_3, pe_conflicts = None\<rparr>"

definition scope_3 :: projection_scope where
  "scope_3 = with_max_depth 2 (scope_both [''album_of''])"

lemma engine_3_sample:
  "case project_subject engine_3 ''x'' scope_3 (\<lambda>_. 0) of
     Inr p \<Rightarrow> expanded p = [''x'', ''xx''] \<and> \<not> sp_walk_truncated p \<and> sp_claimants p = [''p'']
   | Inl _ \<Rightarrow> False"
  by code_simp

lemma engine_3_inv: "reg_inv (pe_registry engine_3)" "graph_inv (pe_graph engine_3)"
  using wiring.reachable_inv [OF sample_booted sample_run]
  by (simp_all add: engine_3_def steward_inv_def steward_ok_def)

theorem projection_bounds_witness:
  "\<exists>p. project_subject engine_3 ''x'' scope_3 (\<lambda>_. 0) = Inr p \<and> distinct (expanded p) \<and>
     length (expanded p) \<le> 1000 \<and> levels p \<le> 2"
  using projection_bounds [OF engine_3_inv(1), of "''x''" scope_3 "\<lambda>_. 0"] engine_3_sample
  by (auto simp: scope_3_def with_max_depth_def scope_both_def scope_of_def DEFAULT_MAX_VISITS_def)

theorem projection_exact_witness:
  "\<exists>p. project_subject engine_3 ''x'' scope_3 (\<lambda>_. 0) = Inr p \<and> tree_ok engine_3 scope_3 2 p \<and>
     closed_in {''x'', ''xx''} 2 p"
proof -
  from engine_3_sample obtain p where p: "project_subject engine_3 ''x'' scope_3 (\<lambda>_. 0) = Inr p"
    "expanded p = [''x'', ''xx'']" "\<not> sp_walk_truncated p" by (auto split: sum.splits)
  have "po_max_depth scope_3 = 2" by (simp add: scope_3_def with_max_depth_def)
  with projection_exact [OF engine_3_inv p(1)] p show ?thesis by auto
qed

theorem projection_not_dangling_witness:
  "\<exists>p. project_subject engine_3 ''x'' scope_3 (\<lambda>_. 0) = Inr p \<and> length (documents p) = 2 \<and>
     (\<forall>q \<in> set (documents p). \<not> sp_degraded q)"
proof -
  have "case project_subject engine_3 ''x'' scope_3 (\<lambda>_. 0) of Inr p \<Rightarrow> length (documents p) = 2 | _ \<Rightarrow> False"
    by code_simp
  then obtain p where p: "project_subject engine_3 ''x'' scope_3 (\<lambda>_. 0) = Inr p" "length (documents p) = 2"
    by (auto split: sum.splits)
  have "\<not> sp_degraded q" if "q \<in> set (documents p)" for q
    using projection_not_dangling [OF sample_booted sample_run p(1) [unfolded engine_3_def] that] by simp
  with p show ?thesis by blast
qed

end
