(* ===== verification/Time_Trust.thy ===== *)
theory Time_Trust
  imports Happenings
begin

text \<open>
  The time-trust tracker (\<open>crates/evo/src/time_trust.rs\<close>): the four trust states, the poll that
  computes the next one from the kernel's synchronisation state, and the detection of clock
  steps. What a poll reads (the \<open>adjtimex\<close> status, the monotonic and the wall clock, the
  override file and the environment flags) is the record \<open>tick_reading\<close>.

  A poll hands the happenings it returns to the bus in the order of the list and drops the
  result of each \<open>emit_durable\<close>; \<open>tick_on_bus\<close> is the two together.
\<close>

section \<open>Trust states\<close>

datatype time_trust =
    TT_Untrusted | TT_Trusted systime | TT_Stale systime | TT_Adjusting systime

fun trust_as_str :: "time_trust \<Rightarrow> string" where
  "trust_as_str TT_Untrusted = ''untrusted''"
| "trust_as_str (TT_Trusted _) = ''trusted''"
| "trust_as_str (TT_Stale _) = ''stale''"
| "trust_as_str (TT_Adjusting _) = ''adjusting''"

fun trust_is_strict :: "time_trust \<Rightarrow> bool" where
  "trust_is_strict (TT_Trusted _) = True"
| "trust_is_strict _ = False"

fun acceptable_for_lenient_firing :: "time_trust \<Rightarrow> bool" where
  "acceptable_for_lenient_firing (TT_Trusted _) = True"
| "acceptable_for_lenient_firing (TT_Stale _) = True"
| "acceptable_for_lenient_firing _ = False"

definition CLOCK_JUMP_THRESHOLD_SECS :: int where
  "CLOCK_JUMP_THRESHOLD_SECS = 2"

text \<open>\<open>as_secs\<close> of a duration in nanoseconds.\<close>

definition as_secs :: "int \<Rightarrow> int" where
  "as_secs d = d div 1000000000"

section \<open>The poll\<close>

record last_clock_step =
  ls_delta_seconds :: int
  ls_at_ms :: u64

text \<open>\<open>shared\<close> and \<open>last_step\<close> are the shared slots, the other two fields the variables of the
  loop.\<close>

record tracker =
  tk_shared :: time_trust
  tk_last_step :: "last_clock_step option"
  tk_last_observed_synced_at :: "systime option"
  tk_last_sample :: "(nat \<times> systime) option"

definition new_tracker :: tracker where
  "new_tracker = \<lparr>tk_shared = TT_Untrusted, tk_last_step = None,
     tk_last_observed_synced_at = None, tk_last_sample = None\<rparr>"

text \<open>\<open>trd_status\<close> is \<open>Some (synced, now)\<close> for \<open>Ok\<close>. The wall clock is read up to four times: for
  \<open>wall_now\<close>, in \<open>compute_state\<close>, and for the two happenings.\<close>

record tick_reading =
  trd_status :: "(bool \<times> systime) option"
  trd_monotonic :: nat
  trd_wall_now :: systime
  trd_state_now :: systime
  trd_changed_at :: systime
  trd_jump_at :: systime
  trd_override :: "bool option"
  trd_force_unsynced :: bool
  trd_force_synced :: bool

definition clock_jump :: "(nat \<times> systime) option \<Rightarrow> nat \<Rightarrow> systime \<Rightarrow> int option" where
  "clock_jump last_sample now_monotonic kernel_now =
     (case last_sample of
        None \<Rightarrow> None
      | Some (prev_mono, prev_wall) \<Rightarrow>
          let mono_elapsed = as_secs (int (now_monotonic - prev_mono));
              drift = (if prev_wall \<le> kernel_now
                       then as_secs (kernel_now - prev_wall) - mono_elapsed
                       else - as_secs (prev_wall - kernel_now))
          in if \<bar>drift\<bar> > CLOCK_JUMP_THRESHOLD_SECS then Some drift else None)"

definition synced_now :: "tick_reading \<Rightarrow> bool" where
  "synced_now r =
     (case trd_override r of
        Some directive \<Rightarrow> directive
      | None \<Rightarrow>
          if trd_force_unsynced r then False
          else if trd_force_synced r then True
          else (case trd_status r of Some (synced, _) \<Rightarrow> synced | None \<Rightarrow> False))"

definition compute_state :: "bool \<Rightarrow> systime option \<Rightarrow> int \<Rightarrow> bool \<Rightarrow> systime \<Rightarrow> time_trust" where
  "compute_state synced last_synced max_staleness jump now =
     (case last_synced of
        None \<Rightarrow> TT_Untrusted
      | Some at \<Rightarrow>
          if jump then TT_Adjusting at
          else if synced then TT_Trusted at
          else (let elapsed = (if at \<le> now then now - at else 0)
                in if elapsed > max_staleness then TT_Stale at else TT_Trusted at))"

definition tick :: "int \<Rightarrow> tick_reading \<Rightarrow> tracker \<Rightarrow> tracker \<times> 'v happening list" where
  "tick max_staleness r tk =
     (let kernel_now = (case trd_status r of Some (_, now) \<Rightarrow> now | None \<Rightarrow> trd_wall_now r);
          jump = clock_jump (tk_last_sample tk) (trd_monotonic r) kernel_now;
          synced = synced_now r;
          last_synced = (if synced then Some (trd_wall_now r)
                         else tk_last_observed_synced_at tk);
          new_state = compute_state synced last_synced max_staleness (jump \<noteq> None)
                        (trd_state_now r);
          prev_state = tk_shared tk;
          changed = (if trust_as_str prev_state \<noteq> trust_as_str new_state
                     then [H_ClockTrustChanged (trust_as_str prev_state)
                             (trust_as_str new_state) (trd_changed_at r)]
                     else [])
      in case jump of
           None \<Rightarrow>
             (tk\<lparr>tk_shared := new_state, tk_last_observed_synced_at := last_synced,
                 tk_last_sample := Some (trd_monotonic r, kernel_now)\<rparr>, changed)
         | Some delta \<Rightarrow>
             (tk\<lparr>tk_shared := new_state, tk_last_observed_synced_at := last_synced,
                 tk_last_sample := Some (trd_monotonic r, kernel_now),
                 tk_last_step := Some \<lparr>ls_delta_seconds = delta,
                                       ls_at_ms = system_time_to_ms (trd_jump_at r)\<rparr>\<rparr>,
              changed @ [H_ClockAdjusted delta (trd_jump_at r)]))"

text \<open>\<open>let _ = bus.emit_durable(h).await\<close> for each happening in turn.\<close>

fun emit_ignoring ::
    "('s, 'j) happening_store option \<Rightarrow> ('v happening \<Rightarrow> string + 'j) \<Rightarrow> systime
       \<Rightarrow> 'v happening list \<Rightarrow> 'v happening_bus \<times> 's \<Rightarrow> 'v happening_bus \<times> 's" where
  "emit_ignoring persistence ser now [] bs = bs"
| "emit_ignoring persistence ser now (h # hs) bs =
     (case emit_durable persistence ser now h (fst bs) (snd bs) of
        (b', s', _) \<Rightarrow> emit_ignoring persistence ser now hs (b', s'))"

definition tick_on_bus ::
    "('s, 'j) happening_store option \<Rightarrow> ('v happening \<Rightarrow> string + 'j) \<Rightarrow> systime \<Rightarrow> int
       \<Rightarrow> tick_reading \<Rightarrow> tracker \<times> 'v happening_bus \<times> 's \<Rightarrow> tracker \<times> 'v happening_bus \<times> 's" where
  "tick_on_bus persistence ser now max_staleness r s =
     (case tick max_staleness r (fst s) of
        (tk', hs) \<Rightarrow> (tk', emit_ignoring persistence ser now hs (snd s)))"

text \<open>The loop: one poll per reading; the happenings of the whole run.\<close>

fun run_tracker ::
    "int \<Rightarrow> tick_reading list \<Rightarrow> tracker \<Rightarrow> tracker \<times> 'v happening list" where
  "run_tracker max_staleness [] tk = (tk, [])"
| "run_tracker max_staleness (r # rs) tk =
     (case tick max_staleness r tk of
        (tk1, hs1) \<Rightarrow> (case run_tracker max_staleness rs tk1 of
                         (tk2, hs2) \<Rightarrow> (tk2, hs1 @ hs2)))"

section \<open>What a poll computes\<close>

text \<open>The trust state always carries the last observed synchronisation.\<close>

fun trust_anchor :: "time_trust \<Rightarrow> systime option" where
  "trust_anchor TT_Untrusted = None"
| "trust_anchor (TT_Trusted at) = Some at"
| "trust_anchor (TT_Stale at) = Some at"
| "trust_anchor (TT_Adjusting at) = Some at"

lemma compute_state_anchor [simp]:
  "trust_anchor (compute_state synced last_synced max_staleness jump now) = last_synced"
  by (auto simp: compute_state_def Let_def split: option.splits)

lemma compute_state_strict:
  "trust_is_strict (compute_state synced last_synced max_staleness jump now) \<longleftrightarrow>
     \<not> jump \<and> (\<exists>at. last_synced = Some at \<and>
                  (synced \<or> max 0 (now - at) \<le> max_staleness))"
  by (auto simp: compute_state_def Let_def max_def split: option.splits)

definition tracker_inv :: "tracker \<Rightarrow> bool" where
  "tracker_inv tk \<longleftrightarrow> trust_anchor (tk_shared tk) = tk_last_observed_synced_at tk"

lemma tracker_inv_new: "tracker_inv new_tracker"
  by (simp add: tracker_inv_def new_tracker_def)

lemma tracker_inv_tick: "tick max_staleness r tk = (tk', hs) \<Longrightarrow> tracker_inv tk'"
  by (auto simp: tracker_inv_def tick_def Let_def split: option.splits)

lemma tick_synced_at:
  "tick max_staleness r tk = (tk', hs) \<Longrightarrow>
   tk_last_observed_synced_at tk' =
     (if synced_now r then Some (trd_wall_now r) else tk_last_observed_synced_at tk)"
  by (auto simp: tick_def Let_def split: option.splits)

lemma run_tracker_synced_at:
  "run_tracker max_staleness rs tk = (tk', hs) \<Longrightarrow>
   tk_last_observed_synced_at tk' =
     (case filter synced_now (rev rs) of
        [] \<Rightarrow> tk_last_observed_synced_at tk | r # _ \<Rightarrow> Some (trd_wall_now r))"
proof (induction rs arbitrary: tk hs)
  case (Cons r rs)
  then show ?case
    by (fastforce dest: tick_synced_at split: list.splits prod.splits if_splits)
qed simp

lemma run_tracker_inv:
  "run_tracker max_staleness rs tk = (tk', hs) \<Longrightarrow> tracker_inv tk \<Longrightarrow> tracker_inv tk'"
  by (induction rs arbitrary: tk hs) (auto split: prod.splits dest: tracker_inv_tick)

section \<open>What the happenings tell\<close>

text \<open>The trust changes announced in a list of happenings, as pairs of names; \<open>trust_path\<close> says
  that they lead from one state to another with no idle step and no gap.\<close>

fun trust_changes :: "'v happening list \<Rightarrow> (string \<times> string) list" where
  "trust_changes [] = []"
| "trust_changes (H_ClockTrustChanged a b _ # hs) = (a, b) # trust_changes hs"
| "trust_changes (_ # hs) = trust_changes hs"

fun trust_path :: "string \<Rightarrow> (string \<times> string) list \<Rightarrow> string \<Rightarrow> bool" where
  "trust_path a [] b \<longleftrightarrow> a = b"
| "trust_path a ((c, d) # ps) b \<longleftrightarrow> c = a \<and> d \<noteq> a \<and> trust_path d ps b"

lemma trust_changes_append [simp]:
  "trust_changes (xs @ ys) = trust_changes xs @ trust_changes ys"
  by (induction xs rule: trust_changes.induct) auto

lemma trust_path_append:
  "trust_path a ps b \<Longrightarrow> trust_path b qs c \<Longrightarrow> trust_path a (ps @ qs) c"
  by (induction a ps b rule: trust_path.induct) auto

lemma tick_path:
  "tick max_staleness r tk = (tk', hs) \<Longrightarrow>
   trust_path (trust_as_str (tk_shared tk)) (trust_changes hs) (trust_as_str (tk_shared tk'))"
  by (auto simp: tick_def Let_def split: option.splits if_splits)

lemma run_tracker_path:
  "run_tracker max_staleness rs tk = (tk', hs) \<Longrightarrow>
   trust_path (trust_as_str (tk_shared tk)) (trust_changes hs) (trust_as_str (tk_shared tk'))"
proof (induction rs arbitrary: tk hs)
  case (Cons r rs)
  then obtain tk1 hs1 hs2 where "tick max_staleness r tk = (tk1, hs1)"
    "run_tracker max_staleness rs tk1 = (tk', hs2)" "hs = hs1 @ hs2"
    by (auto split: prod.splits)
  with Cons.IH tick_path show ?case by (metis trust_changes_append trust_path_append)
qed simp

lemma run_tracker_last:
  "run_tracker max_staleness (rs @ [r]) tk = (tk', hs :: 'v happening list) \<Longrightarrow>
   \<exists>tk1 hs1 hs2. run_tracker max_staleness rs tk = (tk1, hs1 :: 'v happening list) \<and>
     tick max_staleness r tk1 = (tk', hs2) \<and> hs = hs1 @ hs2"
  by (induction rs arbitrary: tk hs) (fastforce split: prod.splits)+

section \<open>Trust over a run\<close>

lemma tick_shared:
  "tick max_staleness r tk = (tk', hs) \<Longrightarrow>
   tk_shared tk' = compute_state (synced_now r) (tk_last_observed_synced_at tk') max_staleness
     (clock_jump (tk_last_sample tk) (trd_monotonic r)
        (case trd_status r of Some (_, now) \<Rightarrow> now | None \<Rightarrow> trd_wall_now r) \<noteq> None)
     (trd_state_now r)"
  by (auto simp: tick_def Let_def split: option.splits if_splits)

lemma run_tracker_anchor:
  "run_tracker max_staleness rs new_tracker = (tk, hs) \<Longrightarrow>
   trust_anchor (tk_shared tk) =
     (case filter synced_now (rev rs) of [] \<Rightarrow> None | r # _ \<Rightarrow> Some (trd_wall_now r))"
  using run_tracker_inv [OF _ tracker_inv_new] run_tracker_synced_at
  by (fastforce simp: tracker_inv_def new_tracker_def split: list.splits)

lemma run_tracker_strict:
  assumes "run_tracker max_staleness rs new_tracker = (tk, hs)" "tk_shared tk = TT_Trusted at"
  shows "\<exists>r qs. filter synced_now rs = qs @ [r] \<and> at = trd_wall_now r \<and>
           (synced_now (last rs) \<or> trd_state_now (last rs) - at \<le> max_staleness)"
proof (cases rs rule: rev_cases)
  case Nil
  with assms show ?thesis by (auto simp: new_tracker_def)
next
  case (snoc qs l)
  from assms(1) obtain tk1 hs1 hs2 where
    t: "tick max_staleness l tk1 = (tk, hs2 :: 'a happening list)"
    using run_tracker_last unfolding snoc by blast
  have "trust_anchor (tk_shared tk) = Some at" using assms(2) by simp
  with run_tracker_anchor [OF assms(1)] obtain r ps where
    r: "filter synced_now (rev rs) = r # ps" "at = trd_wall_now r"
    by (auto split: list.splits)
  then have "filter synced_now rs = rev ps @ [r]"
    by (metis rev.simps(2) rev_filter rev_rev_ident)
  moreover have "synced_now l \<or> trd_state_now l - at \<le> max_staleness"
    using tick_shared [OF t] compute_state_strict assms(2)
    by (metis compute_state_anchor max.bounded_iff option.inject trust_anchor.simps(2)
        trust_is_strict.simps(1))
  ultimately show ?thesis using r snoc by auto
qed

text \<open>(C34) Trust over a run of the tracker: whatever the polls read, the announced changes lead from
  \<open>untrusted\<close> to the present state without a gap and without an idle announcement; the clock is
  untrusted exactly while no poll has seen it synchronised (it never becomes untrusted again);
  and it is trusted only when the last poll saw it synchronised or the last synchronisation seen
  lies within the tolerance.
\<close>

theorem trust_of_run:
  assumes "run_tracker max_staleness rs new_tracker = (tk, hs)"
  shows "trust_path ''untrusted'' (trust_changes hs) (trust_as_str (tk_shared tk)) \<and>
         (tk_shared tk = TT_Untrusted \<longleftrightarrow> (\<forall>r \<in> set rs. \<not> synced_now r)) \<and>
         (\<forall>at. tk_shared tk = TT_Trusted at \<longrightarrow>
            (\<exists>r qs. filter synced_now rs = qs @ [r] \<and> at = trd_wall_now r \<and>
               (synced_now (last rs) \<or> trd_state_now (last rs) - at \<le> max_staleness)))"
proof (intro conjI allI impI)
  show "trust_path ''untrusted'' (trust_changes hs) (trust_as_str (tk_shared tk))"
    using run_tracker_path [OF assms] by (simp add: new_tracker_def)
  have "tk_shared tk = TT_Untrusted \<longleftrightarrow> trust_anchor (tk_shared tk) = None"
    by (cases "tk_shared tk") auto
  also have "\<dots> \<longleftrightarrow> filter synced_now (rev rs) = []"
    by (auto simp: run_tracker_anchor [OF assms] split: list.splits)
  finally show "tk_shared tk = TT_Untrusted \<longleftrightarrow> (\<forall>r \<in> set rs. \<not> synced_now r)"
    by (simp add: filter_empty_conv)
qed (rule run_tracker_strict [OF assms])

text \<open>A poll that sees the clock synchronised, then one a minute later that does not.\<close>

definition poll :: "bool \<Rightarrow> nat \<Rightarrow> systime \<Rightarrow> tick_reading" where
  "poll synced m wall =
     \<lparr>trd_status = Some (synced, wall), trd_monotonic = m, trd_wall_now = wall,
      trd_state_now = wall, trd_changed_at = wall, trd_jump_at = wall, trd_override = None,
      trd_force_unsynced = False, trd_force_synced = False\<rparr>"

lemma poll_run:
  "run_tracker 30000000000 [poll True 0 100, poll False 60000000000 60000000100] new_tracker =
     (\<lparr>tk_shared = TT_Stale 100, tk_last_step = None, tk_last_observed_synced_at = Some 100,
       tk_last_sample = Some (60000000000, 60000000100)\<rparr>,
      [H_ClockTrustChanged ''untrusted'' ''trusted'' 100,
       H_ClockTrustChanged ''trusted'' ''stale'' 60000000100])"
  by (simp add: poll_def new_tracker_def tick_def synced_now_def clock_jump_def compute_state_def
      as_secs_def CLOCK_JUMP_THRESHOLD_SECS_def)

theorem trust_of_run_witness:
  "trust_path ''untrusted'' [(''untrusted'', ''trusted''), (''trusted'', ''stale'')] ''stale''"
  using trust_of_run [OF poll_run] by simp

section \<open>Clock steps\<close>

lemma as_secs_mono: "a \<le> b \<Longrightarrow> as_secs a \<le> as_secs b"
  by (simp add: as_secs_def zdiv_mono1)

lemma as_secs_shift: "as_secs (a + 3000000000) = as_secs a + 3"
  using div_mult_self1 [of "1000000000 :: int" a 3] by (simp add: as_secs_def)

lemma as_secs_far_above: "a + 3000000000 \<le> b \<Longrightarrow> as_secs a + 3 \<le> as_secs b"
  using as_secs_mono as_secs_shift by metis

lemma as_secs_retreat:
  "0 \<le> r \<Longrightarrow> 0 \<le> as_secs r" "r < 3000000000 \<Longrightarrow> as_secs r \<le> 2"
  "3000000000 \<le> r \<Longrightarrow> 3 \<le> as_secs r"
  by (simp_all add: as_secs_def zdiv_mono1 pos_imp_zdiv_nonneg_iff)

definition seen_step :: "nat \<Rightarrow> systime \<Rightarrow> nat \<Rightarrow> int \<Rightarrow> int option" where
  "seen_step m wall d step = clock_jump (Some (m, wall)) (m + d) (wall + int d + step)"

text \<open>Which clock steps a poll sees. Between two polls \<open>d\<close> of monotonic time apart the clock is
  stepped by \<open>step\<close>. A step forward of three seconds or more is seen, and so is one backward as
  long as it is not longer than \<open>d\<close>. A longer backward step makes the clock retreat; the code then
  compares the retreat alone with the threshold and forgets the time that has passed, so that a
  backward step between \<open>d\<close> and \<open>d\<close> plus three seconds is not seen, and a longer one is reported
  as \<open>step + d\<close>.
\<close>

theorem clock_steps_seen:
  "(3000000000 \<le> step \<longrightarrow> seen_step m wall d step \<noteq> None) \<and>
   (step \<le> - 3000000000 \<and> - step \<le> int d \<longrightarrow> seen_step m wall d step \<noteq> None) \<and>
   (int d < - step \<and> - step < int d + 3000000000 \<longrightarrow> seen_step m wall d step = None) \<and>
   (int d + 3000000000 \<le> - step \<longrightarrow>
      seen_step m wall d step = Some (- as_secs (- int d - step)))"
proof (intro conjI impI)
  assume "3000000000 \<le> step"
  then show "seen_step m wall d step \<noteq> None"
    using as_secs_far_above [of "int d" "int d + step"]
    by (simp add: seen_step_def clock_jump_def CLOCK_JUMP_THRESHOLD_SECS_def Let_def)
next
  assume "step \<le> - 3000000000 \<and> - step \<le> int d"
  then show "seen_step m wall d step \<noteq> None"
    using as_secs_far_above [of "int d + step" "int d"]
    by (simp add: seen_step_def clock_jump_def CLOCK_JUMP_THRESHOLD_SECS_def Let_def)
next
  assume "int d < - step \<and> - step < int d + 3000000000"
  then show "seen_step m wall d step = None"
    using as_secs_retreat(1,2) [of "- int d - step"]
    by (simp add: seen_step_def clock_jump_def CLOCK_JUMP_THRESHOLD_SECS_def Let_def)
next
  assume "int d + 3000000000 \<le> - step"
  then show "seen_step m wall d step = Some (- as_secs (- int d - step))"
    using as_secs_retreat(3) [of "- int d - step"]
    by (simp add: seen_step_def clock_jump_def CLOCK_JUMP_THRESHOLD_SECS_def Let_def)
qed

theorem clock_steps_seen_witness:
  "seen_step 0 60000000000 5000000000 (- 7000000000) = None"
  using clock_steps_seen [of "- 7000000000" 0 60000000000 5000000000] by simp

end
