(* ===== verification/Watches.thy ===== *)
theory Watches
  imports Time_Trust Complex_Main
begin

text \<open>
  Condition-driven watches (\<open>crates/evo/src/watches.rs\<close>, with the specification types of the
  SDK, \<open>contract/context.rs\<close>): the ledger of watches, the validation of a specification, the
  evaluation of a condition tree against one happening, and the runtime that decides for each
  event and each active watch whether its action is dispatched.

  A JSON value is \<open>'v option\<close> with \<open>None\<close> for \<open>null\<close>, as in the happening that carries it; the
  accessors of the JSON library and the regular-expression engine are the record \<open>watch_env\<close>. An
  \<open>Instant\<close> is a number of nanoseconds. Happenings are returned in the order in which the code
  hands them to \<open>emit_durable\<close>, whose result it drops.
\<close>

section \<open>Specifications\<close>

text \<open>\<open>f64\<close> as far as the code uses it: the strict order of IEEE 754, in which no comparison with
  a NaN holds.\<close>

datatype f64 = F64 real | F64_Infinity | F64_NegInfinity | F64_NaN

fun f64_lt :: "f64 \<Rightarrow> f64 \<Rightarrow> bool" where
  "f64_lt (F64 x) (F64 y) \<longleftrightarrow> x < y"
| "f64_lt (F64 _) F64_Infinity \<longleftrightarrow> True"
| "f64_lt F64_NegInfinity (F64 _) \<longleftrightarrow> True"
| "f64_lt F64_NegInfinity F64_Infinity \<longleftrightarrow> True"
| "f64_lt _ _ \<longleftrightarrow> False"

record watch_happening_filter =
  wf_variants :: "string list"
  wf_plugins :: "string list"
  wf_shelves :: "string list"

datatype 'v state_predicate =
    SP_Equals string "'v option"
  | SP_NotEquals string "'v option"
  | SP_GreaterThan string f64
  | SP_LessThan string f64
  | SP_InRange string f64 f64
  | SP_Hysteresis string f64 f64
  | SP_Regex string string

datatype composite_op = Op_All | Op_Any | Op_Not

datatype 'v watch_condition =
    WC_HappeningMatch watch_happening_filter
  | WC_SubjectState string "'v state_predicate" "u64 option"
  | WC_Composite composite_op "'v watch_condition list"

datatype watch_trigger = Trig_Edge | Trig_Level u64

record 'v watch_action =
  wa_target_shelf :: string
  wa_request_type :: string
  wa_payload :: "'v option"

record 'v watch_spec =
  ws_watch_id :: string
  ws_condition :: "'v watch_condition"
  ws_trigger :: watch_trigger

datatype watch_state = W_Pending | W_Matched | W_Fired | W_Cancelled

section \<open>The ledger\<close>

type_synonym watch_key = "string \<times> string"

record 'v watch_entry =
  we_creator :: string
  we_spec :: "'v watch_spec"
  we_action :: "'v watch_action"
  we_state :: watch_state
  we_last_fired_at_ms :: "u64 option"
  we_fires_completed :: u32
  we_cooldown_until :: "nat option"
  we_match_entered_at_ms :: "u64 option"

record 'v watch_ledger =
  wl_entries :: "(watch_key, 'v watch_entry) hmap"
  wl_max_total :: u32
  wl_max_per_creator :: u32
  wl_max_composite_depth :: u32

datatype quota_scope = QS_Total | QS_PerCreator string

datatype watch_schedule_error =
    WE_QuotaExceeded quota_scope u32
  | WE_CooldownTooShort u64
  | WE_NotComposite
  | WE_EmptyComposite
  | WE_CompositeDepthExceeded u32

definition DEFAULT_MAX_WATCHES_TOTAL :: u32 where "DEFAULT_MAX_WATCHES_TOTAL = 10000"
definition DEFAULT_MAX_WATCHES_PER_CREATOR :: u32 where "DEFAULT_MAX_WATCHES_PER_CREATOR = 1000"
definition DEFAULT_MAX_COMPOSITE_DEPTH :: u32 where "DEFAULT_MAX_COMPOSITE_DEPTH = 8"

definition new_watch_ledger :: "'v watch_ledger" where
  "new_watch_ledger = \<lparr>wl_entries = [], wl_max_total = DEFAULT_MAX_WATCHES_TOTAL,
     wl_max_per_creator = DEFAULT_MAX_WATCHES_PER_CREATOR,
     wl_max_composite_depth = DEFAULT_MAX_COMPOSITE_DEPTH\<rparr>"

definition with_max_total :: "u32 \<Rightarrow> 'v watch_ledger \<Rightarrow> 'v watch_ledger" where
  "with_max_total m l = l\<lparr>wl_max_total := m\<rparr>"

definition with_max_per_creator :: "u32 \<Rightarrow> 'v watch_ledger \<Rightarrow> 'v watch_ledger" where
  "with_max_per_creator m l = l\<lparr>wl_max_per_creator := m\<rparr>"

definition with_max_composite_depth :: "u32 \<Rightarrow> 'v watch_ledger \<Rightarrow> 'v watch_ledger" where
  "with_max_composite_depth m l = l\<lparr>wl_max_composite_depth := m\<rparr>"

text \<open>\<open>validate_terms\<close> is the loop over the terms of an \<open>All\<close> or \<open>Any\<close>.\<close>

fun validate_condition ::
      "'v watch_condition \<Rightarrow> u32 \<Rightarrow> u32 \<Rightarrow> watch_schedule_error + unit"
  and validate_terms ::
      "'v watch_condition list \<Rightarrow> u32 \<Rightarrow> u32 \<Rightarrow> watch_schedule_error + unit" where
  "validate_condition c depth max_depth =
     (if depth > max_depth then Inl (WE_CompositeDepthExceeded max_depth)
      else case c of
        WC_HappeningMatch _ \<Rightarrow> Inr ()
      | WC_SubjectState _ _ _ \<Rightarrow> Inr ()
      | WC_Composite op ts \<Rightarrow>
          if op = Op_Not
          then (case ts of
                  [t] \<Rightarrow> validate_condition t (depth + 1) max_depth
                | _ \<Rightarrow> Inl WE_NotComposite)
          else if ts = [] then Inl WE_EmptyComposite
          else validate_terms ts (depth + 1) max_depth)"
| "validate_terms [] depth max_depth = Inr ()"
| "validate_terms (t # ts) depth max_depth =
     (case validate_condition t depth max_depth of
        Inl e \<Rightarrow> Inl e
      | Inr _ \<Rightarrow> validate_terms ts depth max_depth)"

declare validate_condition.simps [simp del]

definition validate_spec :: "'v watch_spec \<Rightarrow> u32 \<Rightarrow> watch_schedule_error + unit" where
  "validate_spec spec max_depth =
     (case ws_trigger spec of
        Trig_Level cooldown_ms \<Rightarrow>
          if cooldown_ms < 1000 then Inl (WE_CooldownTooShort cooldown_ms)
          else validate_condition (ws_condition spec) 0 max_depth
      | Trig_Edge \<Rightarrow> validate_condition (ws_condition spec) 0 max_depth)"

definition fresh_entry :: "string \<Rightarrow> 'v watch_spec \<Rightarrow> 'v watch_action \<Rightarrow> 'v watch_entry" where
  "fresh_entry creator spec action =
     \<lparr>we_creator = creator, we_spec = spec, we_action = action, we_state = W_Pending,
      we_last_fired_at_ms = None, we_fires_completed = 0, we_cooldown_until = None,
      we_match_entered_at_ms = None\<rparr>"

definition ledger_schedule ::
    "string \<Rightarrow> 'v watch_spec \<Rightarrow> 'v watch_action \<Rightarrow> 'v watch_ledger
       \<Rightarrow> 'v watch_ledger \<times> (watch_schedule_error + unit)" where
  "ledger_schedule creator spec action l =
     (case validate_spec spec (wl_max_composite_depth l) of
        Inl e \<Rightarrow> (l, Inl e)
      | Inr _ \<Rightarrow>
          let key = (creator, ws_watch_id spec);
              inserted = l\<lparr>wl_entries :=
                hm_insert key (fresh_entry creator spec action) (wl_entries l)\<rparr>
          in if hm_contains (wl_entries l) key then (inserted, Inr ())
             else if of_nat (length (wl_entries l)) \<ge> wl_max_total l
             then (l, Inl (WE_QuotaExceeded QS_Total (wl_max_total l)))
             else if of_nat (length (filter (\<lambda>(c, _). c = creator) (hm_keys (wl_entries l))))
                       \<ge> wl_max_per_creator l
             then (l, Inl (WE_QuotaExceeded (QS_PerCreator creator) (wl_max_per_creator l)))
             else (inserted, Inr ()))"

definition update_entry ::
    "watch_key \<Rightarrow> ('v watch_entry \<Rightarrow> 'v watch_entry) \<Rightarrow> 'v watch_ledger \<Rightarrow> 'v watch_ledger" where
  "update_entry key f l =
     (case hm_get (wl_entries l) key of
        None \<Rightarrow> l
      | Some e \<Rightarrow> if we_state e = W_Cancelled then l
                  else l\<lparr>wl_entries := hm_insert key (f e) (wl_entries l)\<rparr>)"

definition ledger_cancel :: "watch_key \<Rightarrow> 'v watch_ledger \<Rightarrow> 'v watch_ledger \<times> bool" where
  "ledger_cancel key l =
     (update_entry key (\<lambda>e. e\<lparr>we_state := W_Cancelled, we_cooldown_until := None,
                               we_match_entered_at_ms := None\<rparr>) l,
      case hm_get (wl_entries l) key of None \<Rightarrow> False | Some e \<Rightarrow> we_state e \<noteq> W_Cancelled)"

definition ledger_lookup :: "watch_key \<Rightarrow> 'v watch_ledger \<Rightarrow> 'v watch_entry option" where
  "ledger_lookup key l = hm_get (wl_entries l) key"

definition mark_fired ::
    "watch_key \<Rightarrow> u64 \<Rightarrow> nat option \<Rightarrow> 'v watch_ledger \<Rightarrow> 'v watch_ledger" where
  "mark_fired key fired_at_ms cooldown_until =
     update_entry key (\<lambda>e. e\<lparr>we_last_fired_at_ms := Some fired_at_ms,
       we_fires_completed := sat_inc (we_fires_completed e), we_state := W_Pending,
       we_cooldown_until := cooldown_until, we_match_entered_at_ms := None\<rparr>)"

definition note_match_entered :: "watch_key \<Rightarrow> u64 \<Rightarrow> 'v watch_ledger \<Rightarrow> 'v watch_ledger" where
  "note_match_entered key now_ms =
     update_entry key (\<lambda>e. e\<lparr>we_state := W_Matched, we_match_entered_at_ms :=
       (case we_match_entered_at_ms e of None \<Rightarrow> Some now_ms | Some t \<Rightarrow> Some t)\<rparr>)"

definition note_match_exited :: "watch_key \<Rightarrow> 'v watch_ledger \<Rightarrow> 'v watch_ledger" where
  "note_match_exited key =
     update_entry key (\<lambda>e. e\<lparr>we_state := W_Pending, we_match_entered_at_ms := None\<rparr>)"

definition ledger_active :: "'v watch_ledger \<Rightarrow> 'v watch_entry list" where
  "ledger_active l =
     filter (\<lambda>e. we_state e = W_Pending \<or> we_state e = W_Matched) (map snd (wl_entries l))"

definition all_entries :: "'v watch_ledger \<Rightarrow> 'v watch_entry list" where
  "all_entries l = map snd (wl_entries l)"

section \<open>Evaluation of a condition\<close>

text \<open>\<open>get\<close>, \<open>==\<close>, \<open>as_f64\<close> and \<open>as_str\<close> of a JSON value other than \<open>null\<close>, the
  compilation of a pattern to its matcher (\<open>None\<close> for a malformed one), and the display of a
  router error or the success of a dispatched request.\<close>

record 'v watch_env =
  ve_get :: "'v \<Rightarrow> string \<Rightarrow> 'v option option"
  ve_eq :: "'v \<Rightarrow> 'v \<Rightarrow> bool"
  ve_as_f64 :: "'v \<Rightarrow> f64 option"
  ve_as_str :: "'v \<Rightarrow> string option"
  ve_regex :: "string \<Rightarrow> (string \<Rightarrow> bool) option"

definition field_of :: "'v watch_env \<Rightarrow> 'v option \<Rightarrow> string \<Rightarrow> 'v option option" where
  "field_of env state field = Option.bind state (\<lambda>v. ve_get env v field)"

definition json_eq :: "'v watch_env \<Rightarrow> 'v option \<Rightarrow> 'v option \<Rightarrow> bool" where
  "json_eq env x y = (case (x, y) of
     (None, None) \<Rightarrow> True | (Some a, Some b) \<Rightarrow> ve_eq env a b | _ \<Rightarrow> False)"

definition number_of :: "'v watch_env \<Rightarrow> 'v option \<Rightarrow> string \<Rightarrow> f64 option" where
  "number_of env state field =
     Option.bind (field_of env state field) (\<lambda>v. Option.bind v (ve_as_f64 env))"

definition text_of :: "'v watch_env \<Rightarrow> 'v option \<Rightarrow> string \<Rightarrow> string option" where
  "text_of env state field =
     Option.bind (field_of env state field) (\<lambda>v. Option.bind v (ve_as_str env))"

text \<open>\<open>opt.map(p).unwrap_or(false)\<close>.\<close>

definition holds_some :: "('a \<Rightarrow> bool) \<Rightarrow> 'a option \<Rightarrow> bool" where
  "holds_some p x = (case x of None \<Rightarrow> False | Some v \<Rightarrow> p v)"

definition happening_matches_filter :: "'v happening \<Rightarrow> watch_happening_filter \<Rightarrow> bool" where
  "happening_matches_filter h f \<longleftrightarrow>
     (if wf_variants f \<noteq> [] \<and> happening_kind_str h \<notin> set (wf_variants f) then False
      else if wf_plugins f \<noteq> [] \<and> \<not> optional_in (primary_plugin h) (wf_plugins f) then False
      else if wf_shelves f \<noteq> [] \<and> \<not> optional_in (happening_shelf h) (wf_shelves f) then False
      else True)"

record evaluator_state =
  es_cooldown_until :: "nat option"
  es_throttle_window_started :: "nat option"
  es_throttle_window_seen :: u64
  es_throttle_window_dropped :: u64
  es_hysteresis_high :: "(string, bool) hmap"

definition default_evaluator_state :: evaluator_state where
  "default_evaluator_state = \<lparr>es_cooldown_until = None, es_throttle_window_started = None,
     es_throttle_window_seen = 0, es_throttle_window_dropped = 0, es_hysteresis_high = []\<rparr>"

definition in_high :: "evaluator_state \<Rightarrow> string \<Rightarrow> bool" where
  "in_high st c = (case hm_get (es_hysteresis_high st) c of None \<Rightarrow> False | Some b \<Rightarrow> b)"

definition set_high :: "string \<Rightarrow> bool \<Rightarrow> evaluator_state \<Rightarrow> evaluator_state" where
  "set_high c b st = st\<lparr>es_hysteresis_high := hm_insert c b (es_hysteresis_high st)\<rparr>"

fun apply_state_predicate ::
    "'v watch_env \<Rightarrow> 'v state_predicate \<Rightarrow> 'v option \<Rightarrow> string \<Rightarrow> evaluator_state
       \<Rightarrow> evaluator_state \<times> bool" where
  "apply_state_predicate env (SP_Equals field v) state c st =
     (st, holds_some (\<lambda>x. json_eq env x v) (field_of env state field))"
| "apply_state_predicate env (SP_NotEquals field v) state c st =
     (st, holds_some (\<lambda>x. \<not> json_eq env x v) (field_of env state field))"
| "apply_state_predicate env (SP_GreaterThan field t) state c st =
     (st, holds_some (\<lambda>x. f64_lt t x) (number_of env state field))"
| "apply_state_predicate env (SP_LessThan field t) state c st =
     (st, holds_some (\<lambda>x. f64_lt x t) (number_of env state field))"
| "apply_state_predicate env (SP_InRange field lower upper) state c st =
     (st, holds_some (\<lambda>x. f64_lt lower x \<and> f64_lt x upper) (number_of env state field))"
| "apply_state_predicate env (SP_Hysteresis field upper lower) state c st =
     (case number_of env state field of
        None \<Rightarrow> (set_high c (in_high st c) st, False)
      | Some v \<Rightarrow>
          if f64_lt upper v \<and> \<not> in_high st c then (set_high c True st, True)
          else if f64_lt v lower then (set_high c False st, False)
          else (set_high c (in_high st c) st, False))"
| "apply_state_predicate env (SP_Regex field pattern) state c st =
     (st, holds_some
            (\<lambda>is_match. is_match (case text_of env state field of None \<Rightarrow> [] | Some s \<Rightarrow> s))
            (ve_regex env pattern))"

definition evaluate_subject_state_arm ::
    "'v watch_env \<Rightarrow> 'v happening \<Rightarrow> string \<Rightarrow> 'v state_predicate \<Rightarrow> evaluator_state
       \<Rightarrow> evaluator_state \<times> bool" where
  "evaluate_subject_state_arm env h target p st =
     (case h of
        H_SubjectStateChanged _ canonical_id _ _ new_state _ \<Rightarrow>
          if canonical_id \<noteq> target then (st, False)
          else apply_state_predicate env p new_state canonical_id st
      | _ \<Rightarrow> (st, False))"

text \<open>\<open>Iterator::all\<close> and \<open>any\<close> stop at the first term that decides.\<close>

fun evaluate_condition ::
      "'v watch_env \<Rightarrow> 'v watch_condition \<Rightarrow> 'v happening \<Rightarrow> evaluator_state
         \<Rightarrow> evaluator_state \<times> bool"
  and evaluate_all ::
      "'v watch_env \<Rightarrow> 'v watch_condition list \<Rightarrow> 'v happening \<Rightarrow> evaluator_state
         \<Rightarrow> evaluator_state \<times> bool"
  and evaluate_any ::
      "'v watch_env \<Rightarrow> 'v watch_condition list \<Rightarrow> 'v happening \<Rightarrow> evaluator_state
         \<Rightarrow> evaluator_state \<times> bool" where
  "evaluate_condition env (WC_HappeningMatch f) h st = (st, happening_matches_filter h f)"
| "evaluate_condition env (WC_SubjectState c p d) h st = evaluate_subject_state_arm env h c p st"
| "evaluate_condition env (WC_Composite Op_All ts) h st = evaluate_all env ts h st"
| "evaluate_condition env (WC_Composite Op_Any ts) h st = evaluate_any env ts h st"
| "evaluate_condition env (WC_Composite Op_Not []) h st = (st, False)"
| "evaluate_condition env (WC_Composite Op_Not (t # ts)) h st =
     (case evaluate_condition env t h st of (st', b) \<Rightarrow> (st', \<not> b))"
| "evaluate_all env [] h st = (st, True)"
| "evaluate_all env (t # ts) h st =
     (case evaluate_condition env t h st of
        (st', b) \<Rightarrow> if b then evaluate_all env ts h st' else (st', False))"
| "evaluate_any env [] h st = (st, False)"
| "evaluate_any env (t # ts) h st =
     (case evaluate_condition env t h st of
        (st', b) \<Rightarrow> if b then (st', True) else evaluate_any env ts h st')"

fun max_minimum_duration_ms :: "'v watch_condition \<Rightarrow> u64"
  and max_duration_terms :: "'v watch_condition list \<Rightarrow> u64" where
  "max_minimum_duration_ms (WC_HappeningMatch _) = 0"
| "max_minimum_duration_ms (WC_SubjectState _ _ d) = (case d of None \<Rightarrow> 0 | Some ms \<Rightarrow> ms)"
| "max_minimum_duration_ms (WC_Composite _ ts) = max_duration_terms ts"
| "max_duration_terms [] = 0"
| "max_duration_terms (t # ts) = max (max_minimum_duration_ms t) (max_duration_terms ts)"

section \<open>The runtime\<close>

text \<open>\<open>wr_framework_handler\<close> says whether a handler is installed; its call has no result.\<close>

record 'v watch_runtime =
  wr_ledger :: "'v watch_ledger"
  wr_evaluator_state :: "(watch_key, evaluator_state) hmap"
  wr_max_evaluations_per_second :: u64
  wr_framework_handler :: bool

definition DEFAULT_MAX_EVALUATIONS_PER_SECOND_PER_WATCH :: u64 where
  "DEFAULT_MAX_EVALUATIONS_PER_SECOND_PER_WATCH = 1000"

definition start_runtime :: "'v watch_ledger \<Rightarrow> 'v watch_runtime" where
  "start_runtime l = \<lparr>wr_ledger = l, wr_evaluator_state = [],
     wr_max_evaluations_per_second = DEFAULT_MAX_EVALUATIONS_PER_SECOND_PER_WATCH,
     wr_framework_handler = False\<rparr>"

definition set_framework_fire_handler :: "bool \<Rightarrow> 'v watch_runtime \<Rightarrow> 'v watch_runtime" where
  "set_framework_fire_handler b rt = rt\<lparr>wr_framework_handler := b\<rparr>"

definition entry_key :: "'v watch_entry \<Rightarrow> watch_key" where
  "entry_key e = (we_creator e, ws_watch_id (we_spec e))"

text \<open>\<open>evaluator_state.entry(key).or_default()\<close>, and the write through the reference it gives.\<close>

definition evaluator_of :: "'v watch_runtime \<Rightarrow> watch_key \<Rightarrow> evaluator_state" where
  "evaluator_of rt key =
     (case hm_get (wr_evaluator_state rt) key of None \<Rightarrow> default_evaluator_state | Some st \<Rightarrow> st)"

definition set_evaluator ::
    "watch_key \<Rightarrow> evaluator_state \<Rightarrow> 'v watch_runtime \<Rightarrow> 'v watch_runtime" where
  "set_evaluator key st rt =
     rt\<lparr>wr_evaluator_state := hm_insert key st (wr_evaluator_state rt)\<rparr>"

definition drop_evaluator :: "watch_key \<Rightarrow> 'v watch_runtime \<Rightarrow> 'v watch_runtime" where
  "drop_evaluator key rt =
     rt\<lparr>wr_evaluator_state := hm_remove key (wr_evaluator_state rt)\<rparr>"

definition runtime_schedule ::
    "string \<Rightarrow> 'v watch_spec \<Rightarrow> 'v watch_action \<Rightarrow> 'v watch_runtime
       \<Rightarrow> 'v watch_runtime \<times> (watch_schedule_error + unit)" where
  "runtime_schedule creator spec action rt =
     (case ledger_schedule creator spec action (wr_ledger rt) of
        (l, Inl e) \<Rightarrow> (rt\<lparr>wr_ledger := l\<rparr>, Inl e)
      | (l, Inr _) \<Rightarrow>
          (drop_evaluator (creator, ws_watch_id spec) (rt\<lparr>wr_ledger := l\<rparr>), Inr ()))"

definition runtime_cancel ::
    "watch_key \<Rightarrow> string \<Rightarrow> systime \<Rightarrow> 'v watch_runtime
       \<Rightarrow> 'v watch_runtime \<times> 'v happening list \<times> bool" where
  "runtime_cancel key cancelled_by ts rt =
     (case ledger_cancel key (wr_ledger rt) of
        (l, did_cancel) \<Rightarrow>
          if did_cancel
          then (drop_evaluator key (rt\<lparr>wr_ledger := l\<rparr>),
                [H_WatchCancelled (fst key) (snd key) cancelled_by ts], True)
          else (rt\<lparr>wr_ledger := l\<rparr>, [], False))"

text \<open>One second in nanoseconds, one millisecond in nanoseconds.\<close>

definition one_second :: nat where "one_second = 1000000000"

definition millis :: "u64 \<Rightarrow> nat" where "millis ms = unat ms * 1000000"

definition throttle ::
    "u64 \<Rightarrow> nat \<Rightarrow> evaluator_state \<Rightarrow> evaluator_state \<times> bool \<times> u64" where
  "throttle cap now st =
     (let window_start = (case es_throttle_window_started st of None \<Rightarrow> now | Some t \<Rightarrow> t)
      in if now - window_start \<ge> one_second
         then (st\<lparr>es_throttle_window_started := Some now, es_throttle_window_seen := 0,
                  es_throttle_window_dropped := 0\<rparr>, False, es_throttle_window_dropped st)
         else if es_throttle_window_seen st \<ge> cap
         then (st\<lparr>es_throttle_window_dropped := sat_succ (es_throttle_window_dropped st)\<rparr>,
               True, 0)
         else (st\<lparr>es_throttle_window_started := Some window_start,
                  es_throttle_window_seen := sat_succ (es_throttle_window_seen st)\<rparr>, False, 0))"

definition account_for_evaluation ::
    "'v watch_entry \<Rightarrow> nat \<Rightarrow> systime \<Rightarrow> 'v watch_runtime
       \<Rightarrow> 'v watch_runtime \<times> 'v happening list \<times> bool" where
  "account_for_evaluation entry now ts rt =
     (case throttle (wr_max_evaluations_per_second rt) now (evaluator_of rt (entry_key entry)) of
        (st, drop_now, drops_to_emit) \<Rightarrow>
          (set_evaluator (entry_key entry) st rt,
           if drops_to_emit > 0
           then [H_WatchEvaluationThrottled (we_creator entry) (ws_watch_id (we_spec entry))
                   drops_to_emit ts]
           else [],
           \<not> drop_now))"

definition sat_sub :: "u64 \<Rightarrow> u64 \<Rightarrow> u64" where
  "sat_sub x y = (if y \<le> x then x - y else 0)"

text \<open>The ways out of \<open>evaluate_one\<close> before the dispatch: the evaluation is throttled, the
  condition does not match, the match has not lasted long enough, the fire is suppressed (with the
  reason of the \<open>WatchMissed\<close>), or the action is to be dispatched.\<close>

datatype gate = G_Throttled | G_NoMatch | G_Waiting | G_Suppressed string | G_Fire

definition held_long_enough :: "u64 \<Rightarrow> 'v watch_entry \<Rightarrow> u64 \<Rightarrow> 'v watch_ledger \<Rightarrow> bool" where
  "held_long_enough duration entry now_ms l =
     (let elapsed = (case Option.bind (ledger_lookup (entry_key entry) l)
                            we_match_entered_at_ms of
                       Some t \<Rightarrow> sat_sub now_ms t | None \<Rightarrow> 0)
      in \<not> elapsed < duration)"

definition cooldown_active :: "watch_key \<Rightarrow> nat \<Rightarrow> 'v watch_runtime \<Rightarrow> bool" where
  "cooldown_active key now rt =
     holds_some (\<lambda>until. now < until)
       (Option.bind (hm_get (wr_evaluator_state rt) key) es_cooldown_until)"

definition suppression :: "u64 \<Rightarrow> 'v watch_entry \<Rightarrow> nat \<Rightarrow> time_trust \<Rightarrow> 'v watch_runtime
    \<Rightarrow> string option" where
  "suppression duration entry now trust rt =
     (if ws_trigger (we_spec entry) \<noteq> Trig_Edge \<and> cooldown_active (entry_key entry) now rt
      then Some ''in_cooldown''
      else if duration > 0 \<and> \<not> trust_is_strict trust then Some ''time_untrusted''
      else None)"

definition after_match ::
    "'v watch_entry \<Rightarrow> nat \<Rightarrow> u64 \<Rightarrow> time_trust \<Rightarrow> 'v watch_runtime
       \<Rightarrow> 'v watch_runtime \<times> gate" where
  "after_match entry now now_ms trust rt =
     (let duration = max_minimum_duration_ms (ws_condition (we_spec entry));
          rt' = (if duration > 0
                 then rt\<lparr>wr_ledger := note_match_entered (entry_key entry) now_ms (wr_ledger rt)\<rparr>
                 else rt)
      in if duration > 0 \<and> \<not> held_long_enough duration entry now_ms (wr_ledger rt')
         then (rt', G_Waiting)
         else case suppression duration entry now trust rt' of
                Some reason \<Rightarrow> (rt', G_Suppressed reason)
              | None \<Rightarrow> (rt', G_Fire))"

definition after_mismatch :: "'v watch_entry \<Rightarrow> 'v watch_runtime \<Rightarrow> 'v watch_runtime" where
  "after_mismatch entry rt =
     (if max_minimum_duration_ms (ws_condition (we_spec entry)) > 0 \<and>
         we_match_entered_at_ms entry \<noteq> None
      then rt\<lparr>wr_ledger := note_match_exited (entry_key entry) (wr_ledger rt)\<rparr>
      else rt)"

definition evaluate_gate ::
    "'v watch_env \<Rightarrow> time_trust \<Rightarrow> systime \<Rightarrow> 'v watch_entry \<Rightarrow> 'v happening \<Rightarrow> nat \<Rightarrow> u64
       \<Rightarrow> 'v watch_runtime \<Rightarrow> 'v watch_runtime \<times> 'v happening list \<times> gate" where
  "evaluate_gate env trust ts entry event now now_ms rt =
     (case account_for_evaluation entry now ts rt of
        (rt1, hs, accepted) \<Rightarrow>
          if \<not> accepted then (rt1, hs, G_Throttled)
          else case evaluate_condition env (ws_condition (we_spec entry)) event
                      (evaluator_of rt1 (entry_key entry)) of
            (st, condition_match) \<Rightarrow>
              let rt2 = set_evaluator (entry_key entry) st rt1
              in if \<not> condition_match then (after_mismatch entry rt2, hs, G_NoMatch)
                 else case after_match entry now now_ms trust rt2 of
                   (rt3, G_Suppressed reason) \<Rightarrow>
                     (rt3, hs @ [H_WatchMissed (we_creator entry) (ws_watch_id (we_spec entry))
                                   now_ms reason ts], G_Suppressed reason)
                 | (rt3, g) \<Rightarrow> (rt3, hs, g))"

definition FRAMEWORK_CREATOR_PREFIX :: string where
  "FRAMEWORK_CREATOR_PREFIX = ''evo.''"

text \<open>\<open>result\<close> is what the router returns for the request, an error by its text.\<close>

definition dispatch_outcome :: "'v watch_entry \<Rightarrow> string + unit \<Rightarrow> 'v watch_runtime \<Rightarrow> string" where
  "dispatch_outcome entry result rt =
     (if take (length FRAMEWORK_CREATOR_PREFIX) (we_creator entry) = FRAMEWORK_CREATOR_PREFIX \<and>
         wr_framework_handler rt
      then ''ok''
      else case result of Inr _ \<Rightarrow> ''ok'' | Inl e \<Rightarrow> ''error: '' @ e)"

definition cooldown_end :: "'v watch_entry \<Rightarrow> nat \<Rightarrow> nat option" where
  "cooldown_end entry now =
     (case ws_trigger (we_spec entry) of
        Trig_Level cooldown_ms \<Rightarrow> Some (now + millis cooldown_ms) | Trig_Edge \<Rightarrow> None)"

definition finish_fire ::
    "'v watch_entry \<Rightarrow> nat \<Rightarrow> u64 \<Rightarrow> string \<Rightarrow> systime \<Rightarrow> 'v watch_runtime
       \<Rightarrow> 'v watch_runtime \<times> 'v happening list" where
  "finish_fire entry now now_ms outcome ts rt =
     (let key = entry_key entry;
          rt1 = rt\<lparr>wr_ledger := mark_fired key now_ms (cooldown_end entry now) (wr_ledger rt)\<rparr>;
          rt2 = (if cooldown_end entry now \<noteq> None
                 then set_evaluator key
                   ((evaluator_of rt1 key)\<lparr>es_cooldown_until := cooldown_end entry now\<rparr>) rt1
                 else rt1)
      in (rt2, [H_WatchFired (we_creator entry) (ws_watch_id (we_spec entry)) now_ms outcome ts]))"

text \<open>What one evaluation reads and hears: the trust state, the clock of its happenings, the
  router's answer.\<close>

record eval_reading =
  er_trust :: time_trust
  er_at :: systime
  er_result :: "string + unit"

definition evaluate_one ::
    "'v watch_env \<Rightarrow> eval_reading \<Rightarrow> 'v watch_entry \<Rightarrow> 'v happening \<Rightarrow> nat \<Rightarrow> u64
       \<Rightarrow> 'v watch_runtime \<Rightarrow> 'v watch_runtime \<times> 'v happening list" where
  "evaluate_one env r entry event now now_ms rt =
     (case evaluate_gate env (er_trust r) (er_at r) entry event now now_ms rt of
        (rt1, hs, G_Fire) \<Rightarrow>
          (case finish_fire entry now now_ms (dispatch_outcome entry (er_result r) rt1)
                  (er_at r) rt1 of
             (rt2, fired) \<Rightarrow> (rt2, hs @ fired))
      | (rt1, hs, _) \<Rightarrow> (rt1, hs))"

fun is_watch_event :: "'v happening \<Rightarrow> bool" where
  "is_watch_event (H_WatchFired _ _ _ _ _) = True"
| "is_watch_event (H_WatchMissed _ _ _ _ _) = True"
| "is_watch_event (H_WatchCancelled _ _ _ _) = True"
| "is_watch_event (H_WatchEvaluationThrottled _ _ _ _) = True"
| "is_watch_event _ = False"

fun evaluate_entries ::
    "'v watch_env \<Rightarrow> ('v watch_entry \<Rightarrow> eval_reading) \<Rightarrow> 'v watch_entry list \<Rightarrow> 'v happening
       \<Rightarrow> nat \<Rightarrow> u64 \<Rightarrow> 'v watch_runtime \<Rightarrow> 'v watch_runtime \<times> 'v happening list" where
  "evaluate_entries env rd [] event now now_ms rt = (rt, [])"
| "evaluate_entries env rd (e # es) event now now_ms rt =
     (case evaluate_one env (rd e) e event now now_ms rt of
        (rt1, hs1) \<Rightarrow> (case evaluate_entries env rd es event now now_ms rt1 of
                         (rt2, hs2) \<Rightarrow> (rt2, hs1 @ hs2)))"

definition evaluate_event ::
    "'v watch_env \<Rightarrow> ('v watch_entry \<Rightarrow> eval_reading) \<Rightarrow> 'v happening \<Rightarrow> nat \<Rightarrow> u64
       \<Rightarrow> 'v watch_runtime \<Rightarrow> 'v watch_runtime \<times> 'v happening list" where
  "evaluate_event env rd event now now_ms rt =
     (if is_watch_event event then (rt, [])
      else evaluate_entries env rd (ledger_active (wr_ledger rt)) event now now_ms rt)"

end
