(* ===== verification/Watch_Laws.thy ===== *)
theory Watch_Laws
  imports Watches
begin

text \<open>
  Laws of the watch ledger, of condition evaluation and of the evaluation gate, used by the
  properties of watches: what validation accepts, what each ledger operation keeps, what a
  condition without hysteresis means, and which part of the runtime an evaluation may touch.
\<close>

section \<open>Validation\<close>

text \<open>A well-shaped condition, and how deep its composites are nested.\<close>

fun condition_ok :: "'v watch_condition \<Rightarrow> bool" where
  "condition_ok (WC_Composite op ts) \<longleftrightarrow>
     (if op = Op_Not then length ts = 1 else ts \<noteq> []) \<and> (\<forall>t \<in> set ts. condition_ok t)"
| "condition_ok _ \<longleftrightarrow> True"

fun nesting :: "'v watch_condition \<Rightarrow> nat" where
  "nesting (WC_Composite op ts) = Suc (fold max (map nesting ts) 0)"
| "nesting _ = 0"

lemma fold_max_bound: "fold max xs a \<le> (b :: nat) \<longleftrightarrow> a \<le> b \<and> (\<forall>x \<in> set xs. x \<le> b)"
  by (induction xs arbitrary: a) auto

lemma sum_fold_max_le:
  "xs \<noteq> [] \<Longrightarrow> Suc (a + fold max xs 0) \<le> b \<longleftrightarrow> (\<forall>x \<in> set xs. Suc (a + x) \<le> (b :: nat))"
  using fold_max_bound [of xs 0 "b - Suc a"] by (cases xs) (fastforce simp del: fold_simps)+

lemma u32_next:
  fixes d :: u32
  assumes "max_depth \<noteq> - 1" "d \<le> max_depth"
  shows "unat (d + 1) = Suc (unat d)"
proof -
  have "d \<noteq> - 1" using assms by (metis word_order.extremum_uniqueI)
  then have "1 + d \<noteq> 0" by (metis add.commute add_eq_0_iff)
  then show ?thesis by (metis add.commute unatSuc)
qed

lemma validate_condition_ok:
  fixes c :: "'v watch_condition"
  assumes "max_depth \<noteq> - 1"
  shows "validate_condition c d max_depth = Inr () \<longleftrightarrow>
           unat d + nesting c \<le> unat max_depth \<and> condition_ok c"
    and "validate_terms (ts :: 'v watch_condition list) d max_depth = Inr () \<longleftrightarrow>
           (\<forall>t \<in> set ts. unat d + nesting t \<le> unat max_depth \<and> condition_ok t)"
  using assms
proof (induction c d max_depth and ts d max_depth rule: validate_condition_validate_terms.induct)
  case (1 c d max_depth)
  show ?case
  proof (cases "d > max_depth")
    case True
    then show ?thesis by (simp add: validate_condition.simps word_less_nat_alt)
  next
    case False
    then have d: "unat d \<le> unat max_depth" "unat (d + 1) = Suc (unat d)"
      using u32_next [OF "1.prems"] by (simp_all add: word_le_nat_alt not_less)
    show ?thesis
    proof (cases c)
      case (WC_Composite op ts)
      show ?thesis
      proof (cases "op = Op_Not")
        case True
        show ?thesis
        proof (cases "\<exists>t. ts = [t]")
          case True
          then obtain t where t: "ts = [t]" by blast
          with 1(1) [OF False WC_Composite \<open>op = Op_Not\<close> t refl "1.prems"] d False WC_Composite
          show ?thesis by (simp add: validate_condition.simps [of "WC_Composite _ _"] \<open>op = Op_Not\<close>)
        next
          case no: False
          then have "length ts \<noteq> 1" by (auto simp: length_Suc_conv)
          with no False WC_Composite show ?thesis
            by (simp add: validate_condition.simps [of "WC_Composite _ _"] \<open>op = Op_Not\<close> split: list.splits)
        qed
      next
        case op: False
        show ?thesis
          using 1(2) [OF False WC_Composite op _ "1.prems"] d False WC_Composite op
          by (auto simp: validate_condition.simps [of "WC_Composite _ _"] sum_fold_max_le
              simp flip: Suc_le_eq)
      qed
    qed (use d False in \<open>simp_all add: validate_condition.simps\<close>)
  qed
qed (auto split: sum.splits)

definition spec_ok :: "u32 \<Rightarrow> 'v watch_spec \<Rightarrow> bool" where
  "spec_ok max_depth spec \<longleftrightarrow> condition_ok (ws_condition spec) \<and>
     nesting (ws_condition spec) \<le> unat max_depth \<and>
     (\<forall>ms. ws_trigger spec = Trig_Level ms \<longrightarrow> 1000 \<le> ms)"

lemma validate_spec_ok:
  "max_depth \<noteq> - 1 \<Longrightarrow> validate_spec spec max_depth = Inr () \<longleftrightarrow> spec_ok max_depth spec"
  by (auto simp: validate_spec_def spec_ok_def validate_condition_ok not_less
      split: watch_trigger.splits)

section \<open>The ledger\<close>

definition keys_of_creator :: "string \<Rightarrow> 'v watch_ledger \<Rightarrow> watch_key list" where
  "keys_of_creator c l = filter (\<lambda>k. fst k = c) (hm_keys (wl_entries l))"

definition entry_ok :: "u32 \<Rightarrow> watch_key \<Rightarrow> 'v watch_entry \<Rightarrow> bool" where
  "entry_ok max_depth k e \<longleftrightarrow> entry_key e = k \<and> spec_ok max_depth (we_spec e) \<and>
     we_state e \<noteq> W_Fired \<and>
     (we_state e = W_Cancelled \<longrightarrow> we_match_entered_at_ms e = None \<and> we_cooldown_until e = None)"

definition ledger_inv :: "'v watch_ledger \<Rightarrow> bool" where
  "ledger_inv l \<longleftrightarrow> hm_wf (wl_entries l) \<and> wl_max_composite_depth l \<noteq> - 1 \<and>
     (\<forall>k e. hm_get (wl_entries l) k = Some e \<longrightarrow> entry_ok (wl_max_composite_depth l) k e) \<and>
     length (wl_entries l) \<le> unat (wl_max_total l) \<and>
     (\<forall>c. length (keys_of_creator c l) \<le> unat (wl_max_per_creator l))"

lemma keys_of_creator_insert:
  assumes "hm_wf (wl_entries l)"
  shows "length (keys_of_creator c (l\<lparr>wl_entries := hm_insert k e (wl_entries l)\<rparr>)) =
    (if hm_get (wl_entries l) k = None \<and> fst k = c then Suc (length (keys_of_creator c l))
     else length (keys_of_creator c l))"
proof -
  have card: "length (keys_of_creator c l') = card {k' \<in> dom (hm_get (wl_entries l')). fst k' = c}"
    if "hm_wf (wl_entries l')" for l' :: "'a watch_ledger"
    using that by (simp add: keys_of_creator_def flip: distinct_card [OF distinct_filter])
  have "{k' \<in> dom (hm_get (hm_insert k e (wl_entries l))). fst k' = c} =
        (if fst k = c then insert k {k' \<in> dom (hm_get (wl_entries l)). fst k' = c}
         else {k' \<in> dom (hm_get (wl_entries l)). fst k' = c})"
    by auto
  then show ?thesis using assms by (auto simp: card card_insert_if)
qed

lemma ledger_inv_entry:
  "ledger_inv l \<Longrightarrow> hm_get (wl_entries l) k = Some e \<Longrightarrow> entry_ok (wl_max_composite_depth l) k e"
  unfolding ledger_inv_def by blast

lemma ledger_inv_replace:
  "ledger_inv l \<Longrightarrow> hm_get (wl_entries l) k = Some e \<Longrightarrow>
   entry_ok (wl_max_composite_depth l) k e' \<Longrightarrow>
   ledger_inv (l\<lparr>wl_entries := hm_insert k e' (wl_entries l)\<rparr>)"
  by (auto simp: ledger_inv_def hm.len_ins keys_of_creator_insert split: if_splits)

lemma below_quota:
  "n \<le> unat m \<Longrightarrow> \<not> of_nat n \<ge> (m :: u32) \<Longrightarrow> Suc n \<le> unat m"
  using unsigned_less [of m, where ?'a = nat]
  by (simp add: not_le word_less_nat_alt unat_of_nat take_bit_eq_mod)

lemma ledger_inv_schedule:
  assumes "ledger_inv l"
  shows "ledger_inv (fst (ledger_schedule creator spec action l))"
proof (cases "validate_spec spec (wl_max_composite_depth l) = Inr ()")
  case False
  then have "fst (ledger_schedule creator spec action l) = l"
    by (auto simp: ledger_schedule_def split: sum.splits)
  with assms show ?thesis by simp
next
  case True
  let ?k = "(creator, ws_watch_id spec)" and ?e = "fresh_entry creator spec action"
  have ok: "entry_ok (wl_max_composite_depth l) ?k ?e"
    using assms True
    by (simp add: entry_ok_def fresh_entry_def entry_key_def ledger_inv_def
        flip: validate_spec_ok)
  show ?thesis
  proof (cases "hm_get (wl_entries l) ?k")
    case (Some e)
    with ledger_inv_replace [OF assms this ok] True show ?thesis
      by (simp add: ledger_schedule_def)
  next
    case None
    have split: "(\<lambda>(c, _). c = creator) = (\<lambda>k. fst k = creator)" by auto
    show ?thesis
      using assms True None ok below_quota [of "length (wl_entries l)" "wl_max_total l"]
        below_quota [of "length (keys_of_creator creator l)" "wl_max_per_creator l"]
      by (auto simp: ledger_schedule_def ledger_inv_def hm.len_ins keys_of_creator_insert
          domIff split keys_of_creator_def [of creator l, symmetric] Let_def)
  qed
qed

lemma ledger_inv_update:
  assumes "ledger_inv l"
    and "\<And>e. entry_ok (wl_max_composite_depth l) k e \<Longrightarrow> we_state e \<noteq> W_Cancelled \<Longrightarrow>
               entry_ok (wl_max_composite_depth l) k (f e)"
  shows "ledger_inv (update_entry k f l)"
proof (cases "hm_get (wl_entries l) k")
  case None
  with assms(1) show ?thesis by (simp add: update_entry_def)
next
  case (Some e)
  with assms(1) have "entry_ok (wl_max_composite_depth l) k e" by (rule ledger_inv_entry)
  with assms Some show ?thesis
    by (simp add: update_entry_def ledger_inv_replace [OF assms(1) Some])
qed

lemma ledger_inv_ops:
  assumes "ledger_inv l"
  shows "ledger_inv (fst (ledger_cancel k l))"
    and "ledger_inv (mark_fired k ms until l)"
    and "ledger_inv (note_match_entered k ms l)"
    and "ledger_inv (note_match_exited k l)"
  using assms
  by (auto simp: ledger_cancel_def mark_fired_def note_match_entered_def note_match_exited_def
      entry_ok_def entry_key_def intro!: ledger_inv_update)

lemma update_entry_get:
  "hm_get (wl_entries (update_entry k f l)) k' =
     (if k' = k then map_option (\<lambda>e. if we_state e = W_Cancelled then e else f e)
                       (hm_get (wl_entries l) k)
      else hm_get (wl_entries l) k')"
  by (simp add: update_entry_def split: option.split)

lemma ledger_active_entry:
  "ledger_inv l \<Longrightarrow> e \<in> set (ledger_active l) \<Longrightarrow>
   hm_get (wl_entries l) (entry_key e) = Some e \<and> we_state e \<noteq> W_Cancelled"
  by (auto simp: ledger_active_def ledger_inv_def entry_ok_def hm_mem_iff)

lemma ledger_active_keys:
  assumes "ledger_inv l"
  shows "distinct (map entry_key (ledger_active l))"
proof -
  have "map entry_key (map snd (wl_entries l)) = map fst (wl_entries l)"
    using assms by (auto simp: ledger_inv_def entry_ok_def hm_mem_iff)
  then have "distinct (map entry_key (map snd (wl_entries l)))"
    using assms unfolding ledger_inv_def hm_wf_def by metis
  then show ?thesis unfolding ledger_active_def by (rule distinct_map_filter)
qed

section \<open>Conditions\<close>

fun hysteresis_free :: "'v watch_condition \<Rightarrow> bool" where
  "hysteresis_free (WC_SubjectState c (SP_Hysteresis f u l) d) \<longleftrightarrow> False"
| "hysteresis_free (WC_Composite op ts) \<longleftrightarrow> (\<forall>t \<in> set ts. hysteresis_free t)"
| "hysteresis_free _ \<longleftrightarrow> True"

text \<open>The meaning of a condition as a proposition about one happening. A field of the new state has a
  value (\<open>None\<close> is \<open>null\<close>), is a number or is a text; the predicates are stated over these
  relations. A hysteresis is not a proposition about one happening and has no meaning here.\<close>

definition field_value :: "'v watch_env \<Rightarrow> 'v option \<Rightarrow> string \<Rightarrow> 'v option \<Rightarrow> bool" where
  "field_value env state field v \<longleftrightarrow> (\<exists>x. state = Some x \<and> ve_get env x field = Some v)"

definition field_number :: "'v watch_env \<Rightarrow> 'v option \<Rightarrow> string \<Rightarrow> f64 \<Rightarrow> bool" where
  "field_number env state field n \<longleftrightarrow>
     (\<exists>v. field_value env state field (Some v) \<and> ve_as_f64 env v = Some n)"

definition field_text :: "'v watch_env \<Rightarrow> 'v option \<Rightarrow> string \<Rightarrow> string \<Rightarrow> bool" where
  "field_text env state field s \<longleftrightarrow>
     (\<exists>v. field_value env state field (Some v) \<and> ve_as_str env v = Some s)"

definition same_json :: "'v watch_env \<Rightarrow> 'v option \<Rightarrow> 'v option \<Rightarrow> bool" where
  "same_json env x y \<longleftrightarrow> x = None \<and> y = None \<or> (\<exists>a b. x = Some a \<and> y = Some b \<and> ve_eq env a b)"

fun state_holds :: "'v watch_env \<Rightarrow> 'v state_predicate \<Rightarrow> 'v option \<Rightarrow> bool" where
  "state_holds env (SP_Equals f v) st \<longleftrightarrow> (\<exists>x. field_value env st f x \<and> same_json env x v)"
| "state_holds env (SP_NotEquals f v) st \<longleftrightarrow> (\<exists>x. field_value env st f x \<and> \<not> same_json env x v)"
| "state_holds env (SP_GreaterThan f t) st \<longleftrightarrow> (\<exists>n. field_number env st f n \<and> f64_lt t n)"
| "state_holds env (SP_LessThan f t) st \<longleftrightarrow> (\<exists>n. field_number env st f n \<and> f64_lt n t)"
| "state_holds env (SP_InRange f lower upper) st \<longleftrightarrow>
     (\<exists>n. field_number env st f n \<and> f64_lt lower n \<and> f64_lt n upper)"
| "state_holds env (SP_Regex f pattern) st \<longleftrightarrow>
     (\<exists>m. ve_regex env pattern = Some m \<and>
        ((\<exists>s. field_text env st f s \<and> m s) \<or> (\<nexists>s. field_text env st f s) \<and> m []))"
| "state_holds env (SP_Hysteresis f upper lower) st \<longleftrightarrow> False"

definition changes_to :: "'v happening \<Rightarrow> string \<Rightarrow> 'v option \<Rightarrow> bool" where
  "changes_to h c new \<longleftrightarrow> (\<exists>p ty old t. h = H_SubjectStateChanged p c ty old new t)"

definition arm_holds :: "'v watch_env \<Rightarrow> 'v happening \<Rightarrow> string \<Rightarrow> 'v state_predicate \<Rightarrow> bool" where
  "arm_holds env h c p \<longleftrightarrow> (\<exists>new. changes_to h c new \<and> state_holds env p new)"

fun meaning :: "'v watch_env \<Rightarrow> 'v happening \<Rightarrow> 'v watch_condition \<Rightarrow> bool" where
  "meaning env h (WC_HappeningMatch f) \<longleftrightarrow>
     (wf_variants f = [] \<or> happening_kind_str h \<in> set (wf_variants f)) \<and>
     (wf_plugins f = [] \<or> (\<exists>p \<in> set (wf_plugins f). primary_plugin h = Some p)) \<and>
     (wf_shelves f = [] \<or> (\<exists>s \<in> set (wf_shelves f). happening_shelf h = Some s))"
| "meaning env h (WC_SubjectState c p d) \<longleftrightarrow> arm_holds env h c p"
| "meaning env h (WC_Composite Op_All ts) \<longleftrightarrow> (\<forall>t \<in> set ts. meaning env h t)"
| "meaning env h (WC_Composite Op_Any ts) \<longleftrightarrow> (\<exists>t \<in> set ts. meaning env h t)"
| "meaning env h (WC_Composite Op_Not ts) \<longleftrightarrow> (\<forall>t \<in> set ts. \<not> meaning env h t)"

lemma optional_in_iff: "optional_in x xs \<longleftrightarrow> (\<exists>p \<in> set xs. x = Some p)"
  by (auto simp: optional_in_def split: option.splits)

lemma field_of_iff: "field_of env st f = Some v \<longleftrightarrow> field_value env st f v"
  by (auto simp: field_of_def field_value_def bind_eq_Some_conv)

lemma number_of_iff: "number_of env st f = Some n \<longleftrightarrow> field_number env st f n"
  by (auto simp: number_of_def field_number_def field_of_iff bind_eq_Some_conv)

lemma text_of_iff: "text_of env st f = Some s \<longleftrightarrow> field_text env st f s"
  by (auto simp: text_of_def field_text_def field_of_iff bind_eq_Some_conv)

lemma field_text_unique: "field_text env st f s \<Longrightarrow> field_text env st f t \<Longrightarrow> s = t"
  by (simp flip: text_of_iff)

lemma text_of_None: "text_of env st f = None \<longleftrightarrow> (\<nexists>s. field_text env st f s)"
  by (metis text_of_iff not_None_eq)

lemma json_eq_same: "json_eq env x y \<longleftrightarrow> same_json env x y"
  by (auto simp: json_eq_def same_json_def split: option.split)

lemma holds_some_iff: "holds_some p x \<longleftrightarrow> (\<exists>v. x = Some v \<and> p v)"
  by (auto simp: holds_some_def split: option.split)

lemmas state_reads = holds_some_iff field_of_iff number_of_iff json_eq_same

lemma apply_stateless:
  "hysteresis_free (WC_SubjectState c p d) \<Longrightarrow>
   apply_state_predicate env p state i st = (st, state_holds env p state)"
  by (cases p) (auto simp: state_reads text_of_iff text_of_None dest: field_text_unique split: option.split)

lemma evaluate_arm_stateless:
  assumes "hysteresis_free (WC_SubjectState c p d)"
  shows "evaluate_subject_state_arm env h c p st = (st, arm_holds env h c p)"
  by (cases h) (auto simp: evaluate_subject_state_arm_def arm_holds_def changes_to_def
      apply_stateless [OF assms])

lemma in_high_set: "in_high (set_high c b st) i = (if i = c then b else in_high st i)"
  by (simp add: in_high_def set_high_def)

text \<open>A hysteresis is true at the crossing of its upper bound, and armed again below its lower bound.\<close>

lemma evaluate_hysteresis:
  assumes "evaluate_condition env (WC_SubjectState c (SP_Hysteresis f upper lower) d) h st = (st', b)"
  shows "b \<longleftrightarrow> \<not> in_high st c \<and> (\<exists>new n. changes_to h c new \<and> field_number env new f n \<and> f64_lt upper n)"
    and "in_high st' i \<longleftrightarrow> (if i = c \<and> b then True
      else if i = c \<and> (\<exists>new n. changes_to h c new \<and> field_number env new f n \<and> f64_lt n lower) then False
      else in_high st i)"
proof -
  have num: "field_number env new f n \<longleftrightarrow> number_of env new f = Some n" for new n
    by (simp add: number_of_iff)
  show "b \<longleftrightarrow> \<not> in_high st c \<and> (\<exists>new n. changes_to h c new \<and> field_number env new f n \<and> f64_lt upper n)"
    "in_high st' i \<longleftrightarrow> (if i = c \<and> b then True
      else if i = c \<and> (\<exists>new n. changes_to h c new \<and> field_number env new f n \<and> f64_lt n lower) then False
      else in_high st i)"
    using assms unfolding num
    by (cases h; force simp: evaluate_subject_state_arm_def changes_to_def in_high_set
        split: option.splits if_splits)+
qed

lemma evaluate_meaning:
  fixes c :: "'v watch_condition"
  shows "condition_ok c \<Longrightarrow> hysteresis_free c \<Longrightarrow>
           evaluate_condition env c h st = (st, meaning env h c)"
    and "\<forall>t \<in> set ts. condition_ok t \<and> hysteresis_free t \<Longrightarrow>
           evaluate_all env ts h st = (st, \<forall>t \<in> set ts. meaning env h t)"
    and "\<forall>t \<in> set ts'. condition_ok t \<and> hysteresis_free t \<Longrightarrow>
           evaluate_any env ts' h st = (st, \<exists>t \<in> set ts'. meaning env h t)"
proof (induction env c h st and env ts h st and env ts' h st
    rule: evaluate_condition_evaluate_all_evaluate_any.induct)
  case (1 env f h st)
  then show ?case by (simp add: happening_matches_filter_def optional_in_iff)
next
  case (2 env c p d h st)
  then show ?case by (simp only: evaluate_condition.simps meaning.simps evaluate_arm_stateless)
qed auto

text \<open>Evaluation touches nothing of the evaluator state but the hysteresis marks.\<close>

definition bookkeeping :: "evaluator_state \<Rightarrow> evaluator_state" where
  "bookkeeping st = st\<lparr>es_hysteresis_high := []\<rparr>"

lemma apply_predicate_frame:
  "bookkeeping (fst (apply_state_predicate env p state i st)) = bookkeeping st"
  by (cases p) (auto simp: bookkeeping_def set_high_def split: option.split)

lemma evaluate_arm_frame:
  "bookkeeping (fst (evaluate_subject_state_arm env h c p st)) = bookkeeping st"
  by (cases h) (simp_all add: evaluate_subject_state_arm_def apply_predicate_frame)

lemma evaluate_frame:
  fixes c :: "'v watch_condition"
  shows "bookkeeping (fst (evaluate_condition env c h st)) = bookkeeping st"
    and "bookkeeping (fst (evaluate_all env ts h st)) = bookkeeping st"
    and "bookkeeping (fst (evaluate_any env ts' h st)) = bookkeeping st"
proof (induction env c h st and env ts h st and env ts' h st
    rule: evaluate_condition_evaluate_all_evaluate_any.induct)
  case (8 env t ts h st)
  then show ?case by (cases "evaluate_condition env t h st") auto
next
  case (10 env t ts h st)
  then show ?case by (cases "evaluate_condition env t h st") auto
qed (auto simp: evaluate_arm_frame case_prod_beta)

lemma evaluate_keeps:
  assumes "evaluate_condition env c h st = (st', b)"
  shows "es_cooldown_until st' = es_cooldown_until st"
    and "es_throttle_window_started st' = es_throttle_window_started st"
    and "es_throttle_window_seen st' = es_throttle_window_seen st"
  using evaluate_frame(1) [of env c h st] assms
  by (simp_all add: bookkeeping_def) (metis evaluator_state.ext_inject evaluator_state.surjective
      evaluator_state.update_convs(5))+

section \<open>The gate\<close>

definition cooldown_of :: "'v watch_runtime \<Rightarrow> watch_key \<Rightarrow> nat option" where
  "cooldown_of rt k = es_cooldown_until (evaluator_of rt k)"

lemma cooldown_active_iff:
  "cooldown_active k now rt \<longleftrightarrow> (\<exists>until. cooldown_of rt k = Some until \<and> now < until)"
  by (auto simp: cooldown_active_def holds_some_def cooldown_of_def evaluator_of_def
      default_evaluator_state_def split: option.splits)

lemma evaluator_of_set [simp]:
  "evaluator_of (set_evaluator k st rt) k' = (if k' = k then st else evaluator_of rt k')"
  by (simp add: evaluator_of_def set_evaluator_def)

lemma evaluator_of_drop [simp]:
  "evaluator_of (drop_evaluator k rt) k' =
     (if k' = k then default_evaluator_state else evaluator_of rt k')"
  by (simp add: evaluator_of_def drop_evaluator_def)

lemma evaluator_of_ledger [simp]: "evaluator_of (rt\<lparr>wr_ledger := l\<rparr>) k = evaluator_of rt k"
  by (simp add: evaluator_of_def)

lemma runtime_parts [simp]:
  "wr_ledger (set_evaluator k st rt) = wr_ledger rt"
  "wr_ledger (drop_evaluator k rt) = wr_ledger rt"
  by (simp_all add: set_evaluator_def drop_evaluator_def)

lemma account_throttles:
  assumes "account_for_evaluation e now ts rt = (rt', hs, accepted)"
  obtains st n where "throttle (wr_max_evaluations_per_second rt) now
      (evaluator_of rt (entry_key e)) = (st, \<not> accepted, n)"
    "rt' = set_evaluator (entry_key e) st rt"
  using assms by (auto simp: account_for_evaluation_def split: prod.splits)

lemma throttle_keeps:
  "throttle cap now st = (st', b, n) \<Longrightarrow> es_cooldown_until st' = es_cooldown_until st"
  "throttle cap now st = (st', b, n) \<Longrightarrow> es_hysteresis_high st' = es_hysteresis_high st"
  by (auto simp: throttle_def Let_def split: if_splits)

lemma account_frame:
  assumes "account_for_evaluation e now ts rt = (rt', hs, accepted)"
  shows "wr_ledger rt' = wr_ledger rt" "cooldown_of rt' k = cooldown_of rt k"
    "k \<noteq> entry_key e \<Longrightarrow> evaluator_of rt' k = evaluator_of rt k"
    "es_hysteresis_high (evaluator_of rt' k) = es_hysteresis_high (evaluator_of rt k)"
  using assms throttle_keeps by (auto simp: cooldown_of_def elim!: account_throttles)

lemma after_match_frame:
  assumes "after_match e now now_ms trust rt = (rt', g)"
  shows "evaluator_of rt' k = evaluator_of rt k"
    and "wr_ledger rt' =
           (if max_minimum_duration_ms (ws_condition (we_spec e)) > 0
            then note_match_entered (entry_key e) now_ms (wr_ledger rt) else wr_ledger rt)"
    and "g \<noteq> G_NoMatch" "g \<noteq> G_Throttled"
  using assms by (auto simp: after_match_def Let_def split: if_splits option.splits)

lemma after_mismatch_frame [simp]:
  "evaluator_of (after_mismatch e rt) k = evaluator_of rt k"
  by (simp add: after_mismatch_def)

lemma gate_cases:
  assumes "evaluate_gate env trust ts e event now now_ms rt = (rt', hs, g)"
  obtains (throttled) hs1 where
      "account_for_evaluation e now ts rt = (rt', hs1, False)" "g = G_Throttled"
  | (mismatch) rt1 hs1 st where
      "account_for_evaluation e now ts rt = (rt1, hs1, True)"
      "evaluate_condition env (ws_condition (we_spec e)) event (evaluator_of rt1 (entry_key e)) =
         (st, False)"
      "rt' = after_mismatch e (set_evaluator (entry_key e) st rt1)" "g = G_NoMatch"
  | (matched) rt1 hs1 st where
      "account_for_evaluation e now ts rt = (rt1, hs1, True)"
      "evaluate_condition env (ws_condition (we_spec e)) event (evaluator_of rt1 (entry_key e)) =
         (st, True)"
      "after_match e now now_ms trust (set_evaluator (entry_key e) st rt1) = (rt', g)"
proof -
  obtain rt1 hs1 acc where a: "account_for_evaluation e now ts rt = (rt1, hs1, acc)"
    by (metis prod_cases3)
  obtain st b where v: "evaluate_condition env (ws_condition (we_spec e)) event
      (evaluator_of rt1 (entry_key e)) = (st, b)" by fastforce
  obtain rt3 g3 where m: "after_match e now now_ms trust (set_evaluator (entry_key e) st rt1) =
      (rt3, g3)" by fastforce
  show ?thesis
  proof (cases acc)
    case False
    with assms a throttled show ?thesis by (simp add: evaluate_gate_def)
  next
    case acc: True
    show ?thesis
    proof (cases b)
      case False
      with assms a v acc mismatch show ?thesis by (auto simp: evaluate_gate_def)
    next
      case True
      with assms a v m acc have "rt3 = rt' \<and> g3 = g"
        by (cases g3) (auto simp: evaluate_gate_def)
      with matched [of rt1 hs1 st] a v m acc True show ?thesis by simp
    qed
  qed
qed

text \<open>What one pass through the gate leaves of the ledger, by its outcome.\<close>

definition gate_ledger ::
    "gate \<Rightarrow> 'v watch_entry \<Rightarrow> u64 \<Rightarrow> 'v watch_ledger \<Rightarrow> 'v watch_ledger" where
  "gate_ledger g e now_ms l =
     (if g = G_Throttled \<or> \<not> max_minimum_duration_ms (ws_condition (we_spec e)) > 0 then l
      else if g = G_NoMatch
      then (if we_match_entered_at_ms e = None then l else note_match_exited (entry_key e) l)
      else note_match_entered (entry_key e) now_ms l)"

lemma gate_frame_all:
  assumes "evaluate_gate env trust ts e event now now_ms rt = (rt', hs, g)"
  shows "wr_ledger rt' = gate_ledger g e now_ms (wr_ledger rt) \<and>
         cooldown_of rt' k = cooldown_of rt k \<and>
         (k \<noteq> entry_key e \<longrightarrow> evaluator_of rt' k = evaluator_of rt k)"
  using assms
proof (cases rule: gate_cases)
  case (throttled hs1)
  with account_frame [OF throttled(1)] show ?thesis by (simp add: gate_ledger_def)
next
  case (mismatch rt1 hs1 st)
  with account_frame(1) [OF mismatch(1)] account_frame(2,3) [OF mismatch(1), of k]
    evaluate_keeps(1) [OF mismatch(2)]
  show ?thesis
    by (cases "k = entry_key e") (simp_all add: gate_ledger_def after_mismatch_def cooldown_of_def)
next
  case (matched rt1 hs1 st)
  with account_frame(1) [OF matched(1)] account_frame(2,3) [OF matched(1), of k]
    after_match_frame [OF matched(3)]
    evaluate_keeps(1) [OF matched(2)]
  show ?thesis by (cases "k = entry_key e") (simp_all add: gate_ledger_def cooldown_of_def)
qed

lemmas gate_frame =
  gate_frame_all [THEN conjunct1]
  gate_frame_all [THEN conjunct2, THEN conjunct1]
  gate_frame_all [THEN conjunct2, THEN conjunct2, THEN mp]

lemma gate_fire:
  assumes "evaluate_gate env trust ts e event now now_ms rt = (rt', hs, G_Fire)"
  shows "ws_trigger (we_spec e) \<noteq> Trig_Edge \<Longrightarrow> cooldown_of rt (entry_key e) = Some until \<Longrightarrow>
           until \<le> now"
    and "max_minimum_duration_ms (ws_condition (we_spec e)) > 0 \<Longrightarrow> trust_is_strict trust"
    and "max_minimum_duration_ms (ws_condition (we_spec e)) > 0 \<Longrightarrow>
           held_long_enough (max_minimum_duration_ms (ws_condition (we_spec e))) e now_ms
             (note_match_entered (entry_key e) now_ms (wr_ledger rt))"
proof -
  from assms obtain rt1 hs1 st where
    m: "account_for_evaluation e now ts rt = (rt1, hs1, True)"
      "after_match e now now_ms trust (set_evaluator (entry_key e) st rt1) = (rt', G_Fire)"
    by (cases rule: gate_cases) auto
  have s: "suppression (max_minimum_duration_ms (ws_condition (we_spec e))) e now trust rt' = None"
    and h: "max_minimum_duration_ms (ws_condition (we_spec e)) > 0 \<Longrightarrow>
      held_long_enough (max_minimum_duration_ms (ws_condition (we_spec e))) e now_ms (wr_ledger rt')"
    using m(2) by (auto simp: after_match_def Let_def split: if_splits option.splits)
  show "ws_trigger (we_spec e) \<noteq> Trig_Edge \<Longrightarrow> cooldown_of rt (entry_key e) = Some until \<Longrightarrow>
           until \<le> now"
    using s gate_frame(2) [OF assms, of "entry_key e"]
    by (auto simp: suppression_def cooldown_active_iff not_less split: if_splits)
  show "max_minimum_duration_ms (ws_condition (we_spec e)) > 0 \<Longrightarrow> trust_is_strict trust"
    using s by (auto simp: suppression_def split: if_splits)
  show "max_minimum_duration_ms (ws_condition (we_spec e)) > 0 \<Longrightarrow>
           held_long_enough (max_minimum_duration_ms (ws_condition (we_spec e))) e now_ms
             (note_match_entered (entry_key e) now_ms (wr_ledger rt))"
    using h gate_frame(1) [OF assms] by (simp add: gate_ledger_def)
qed

end
