(* ===== verification/Watch_Decision.thy ===== *)
theory Watch_Decision
  imports Watch_Laws
begin

text \<open>
  Decisions of the watch evaluator, one event at a time: what a condition means, how many
  evaluations the throttle lets through, that a matching watch is fired, and two ways in which a
  watch with a minimum duration never fires.
\<close>

section \<open>Conditions\<close>

text \<open>(C31) Conditions mean what they say. A validated condition without hysteresis predicates
  evaluates to its meaning as a proposition, whatever the order of its terms and the state of the
  evaluator, and leaves that state as it was: a filter names the variant, the plugin and the shelf
  of the happening; a subject predicate holds when the happening is a state change of that subject
  and the named field of the new state is equal or unequal to the value, a number above, below or
  strictly between the bounds, or a text (the empty one when there is none) that the pattern
  matches; \<open>all\<close> is every term, \<open>any\<close> some term and \<open>not\<close> the negation of its one term. A
  condition that is a hysteresis predicate is true exactly when the field is above the upper bound
  and the subject was not high; it is high from then until the field is below the lower bound.
\<close>

theorem watch_condition_exact:
  assumes "validate_spec spec max_depth = Inr ()" "max_depth \<noteq> - 1"
  shows "(hysteresis_free (ws_condition spec) \<longrightarrow>
      evaluate_condition env (ws_condition spec) h st = (st, meaning env h (ws_condition spec))) \<and>
    (\<forall>c f upper lower d st' b. ws_condition spec = WC_SubjectState c (SP_Hysteresis f upper lower) d \<and>
       evaluate_condition env (ws_condition spec) h st = (st', b) \<longrightarrow>
       (b \<longleftrightarrow> \<not> in_high st c \<and>
          (\<exists>new n. changes_to h c new \<and> field_number env new f n \<and> f64_lt upper n)) \<and>
       (\<forall>i. in_high st' i \<longleftrightarrow> (if i = c \<and> b then True
          else if i = c \<and> (\<exists>new n. changes_to h c new \<and> field_number env new f n \<and> f64_lt n lower)
          then False else in_high st i)))"
proof (intro conjI allI impI)
  show "evaluate_condition env (ws_condition spec) h st = (st, meaning env h (ws_condition spec))"
    if "hysteresis_free (ws_condition spec)"
    using assms that by (auto simp: validate_spec_ok spec_ok_def intro: evaluate_meaning(1))
next
  fix c f upper lower d st' b
  assume "ws_condition spec = WC_SubjectState c (SP_Hysteresis f upper lower) d \<and>
    evaluate_condition env (ws_condition spec) h st = (st', b)"
  then have "evaluate_condition env (WC_SubjectState c (SP_Hysteresis f upper lower) d) h st = (st', b)"
    by metis
  note hy = evaluate_hysteresis [OF this]
  show "b \<longleftrightarrow> \<not> in_high st c \<and>
      (\<exists>new n. changes_to h c new \<and> field_number env new f n \<and> f64_lt upper n)" by (rule hy(1))
  show "in_high st' i \<longleftrightarrow> (if i = c \<and> b then True
      else if i = c \<and> (\<exists>new n. changes_to h c new \<and> field_number env new f n \<and> f64_lt n lower)
      then False else in_high st i)" for i by (rule hy(2))
qed

definition null_env :: "unit watch_env" where
  "null_env = \<lparr>ve_get = \<lambda>_ _. None, ve_eq = \<lambda>_ _. True, ve_as_f64 = \<lambda>_. None,
     ve_as_str = \<lambda>_. None, ve_regex = \<lambda>_. None\<rparr>"

definition any_happening :: watch_happening_filter where
  "any_happening = \<lparr>wf_variants = [], wf_plugins = [], wf_shelves = []\<rparr>"

definition only_merges :: watch_happening_filter where
  "only_merges = \<lparr>wf_variants = [''subject_merged''], wf_plugins = [], wf_shelves = []\<rparr>"

definition no_merge_spec :: "watch_trigger \<Rightarrow> unit watch_spec" where
  "no_merge_spec trigger = \<lparr>ws_watch_id = ''w'', ws_condition =
     WC_Composite Op_All [WC_HappeningMatch any_happening,
       WC_Composite Op_Not [WC_HappeningMatch only_merges]], ws_trigger = trigger\<rparr>"

definition forgotten :: "unit happening" where
  "forgotten = H_SubjectForgotten ''p'' ''s'' ''track'' 0"

lemma no_merge_ok: "spec_ok 8 (no_merge_spec (Trig_Level 1000))"
  by (simp add: spec_ok_def no_merge_spec_def)

theorem watch_condition_exact_witness:
  "evaluate_condition null_env (ws_condition (no_merge_spec (Trig_Level 1000))) forgotten
     default_evaluator_state = (default_evaluator_state, True)"
  using watch_condition_exact [of "no_merge_spec (Trig_Level 1000)" 8 null_env forgotten
      default_evaluator_state] no_merge_ok
  by (simp add: validate_spec_ok) (simp add: no_merge_spec_def any_happening_def only_merges_def
      forgotten_def)

section \<open>The throttle\<close>

text \<open>The evaluations let through in a sequence of them.\<close>

fun throttle_run :: "u64 \<Rightarrow> nat list \<Rightarrow> evaluator_state \<Rightarrow> nat" where
  "throttle_run cap [] st = 0"
| "throttle_run cap (now # nows) st =
     (case throttle cap now st of
        (st', drop_now, _) \<Rightarrow> (if drop_now then 0 else 1) + throttle_run cap nows st')"

lemma sat_succ_below:
  fixes x cap :: u64
  assumes "x < cap"
  shows "unat (sat_succ x) = Suc (unat x)"
proof -
  have "x \<noteq> - 1" using assms word_order.extremum_strict by metis
  then have "1 + x \<noteq> 0" by (metis add.commute add_eq_0_iff)
  then show ?thesis
    using \<open>x \<noteq> - 1\<close> by (metis add.commute sat_succ_def unatSuc)
qed

lemma throttle_cases:
  assumes "throttle cap now st = (st', drop_now, n)"
  obtains (roll) w where "es_throttle_window_started st = Some w" "now - w \<ge> one_second"
      "\<not> drop_now" "es_throttle_window_started st' = Some now" "es_throttle_window_seen st' = 0"
  | (full) "drop_now" "es_throttle_window_started st' = es_throttle_window_started st"
      "es_throttle_window_seen st' = es_throttle_window_seen st"
  | (count) "\<not> drop_now" "es_throttle_window_seen st < cap"
      "es_throttle_window_started st' =
         Some (case es_throttle_window_started st of None \<Rightarrow> now | Some w \<Rightarrow> w)"
      "unat (es_throttle_window_seen st') = Suc (unat (es_throttle_window_seen st))"
  using assms
  by (auto simp: throttle_def Let_def one_second_def sat_succ_below split: if_splits option.splits)

text \<open>Within one window the count goes up to the cap; the evaluation that rolls it is not counted.\<close>

lemma throttle_in_window:
  assumes "es_throttle_window_started st = Some w" "\<forall>now \<in> set nows. now - w < one_second"
  shows "throttle_run cap nows st \<le> unat cap - unat (es_throttle_window_seen st)"
  using assms
proof (induction nows arbitrary: st)
  case (Cons now nows)
  obtain st' d n where t: "throttle cap now st = (st', d, n)" by (metis prod_cases3)
  from t show ?case
  proof (cases rule: throttle_cases)
    case count
    with Cons.IH [of st'] Cons.prems t show ?thesis by (simp add: word_less_nat_alt)
  qed (use Cons.IH [of st'] Cons.prems t in auto)
qed simp

lemma throttle_in_second:
  assumes "\<forall>now \<in> set nows. a \<le> now \<and> now < a + one_second"
  shows "throttle_run cap nows st \<le> (unat cap - unat (es_throttle_window_seen st)) + Suc (unat cap)"
  using assms
proof (induction nows arbitrary: st)
  case (Cons now nows)
  obtain st' d n where t: "throttle cap now st = (st', d, n)" by (metis prod_cases3)
  from t show ?case
  proof (cases rule: throttle_cases)
    case (roll w)
    have "\<forall>m \<in> set nows. m - now < one_second" using Cons.prems by auto
    with throttle_in_window [OF roll(4) this, of cap] roll t show ?thesis by simp
  next
    case full
    with Cons.IH [of st'] Cons.prems t show ?thesis by simp
  next
    case count
    with Cons.IH [of st'] Cons.prems t show ?thesis by (simp add: word_less_nat_alt)
  qed
qed simp

lemma throttle_fills:
  assumes "es_throttle_window_started st = Some now"
    "unat (es_throttle_window_seen st) + n \<le> unat cap"
  shows "throttle_run cap (replicate n now) st = n"
  using assms
proof (induction n arbitrary: st)
  case (Suc n)
  then have "es_throttle_window_seen st < cap" "\<not> cap \<le> es_throttle_window_seen st"
    by (simp_all add: word_less_nat_alt word_le_nat_alt)
  with Suc.prems obtain st' m where t: "throttle cap now st = (st', False, m)"
    "es_throttle_window_started st' = Some now"
    "unat (es_throttle_window_seen st') = Suc (unat (es_throttle_window_seen st))"
    by (auto simp: throttle_def Let_def one_second_def sat_succ_below)
  with Suc.IH [of st'] Suc.prems show ?case by simp
qed simp

text \<open>The throttle. Whatever the state of the window, at most twice the cap and one evaluations
  of one watch are let through in any period of one second; and the cap itself is not kept: an
  evaluation that rolls the window is let through without being counted, so that a window of one
  second has room for one more than the cap.
\<close>

theorem throttle_bound:
  "((\<forall>now \<in> set nows. a \<le> now \<and> now < a + one_second) \<longrightarrow>
      throttle_run cap nows st \<le> 2 * unat cap + 1) \<and>
   (es_throttle_window_started st = Some w \<and> one_second \<le> now - w \<longrightarrow>
      throttle_run cap (replicate (unat cap + 1) now) st = unat cap + 1)"
proof (intro conjI impI)
  assume "\<forall>now \<in> set nows. a \<le> now \<and> now < a + one_second"
  from throttle_in_second [OF this, of cap st] show "throttle_run cap nows st \<le> 2 * unat cap + 1"
    by simp
next
  assume w: "es_throttle_window_started st = Some w \<and> one_second \<le> now - w"
  then obtain st' m where "throttle cap now st = (st', False, m)"
    "es_throttle_window_started st' = Some now" "es_throttle_window_seen st' = 0"
    by (auto simp: throttle_def Let_def)
  with throttle_fills [of st' now "unat cap" cap]
  show "throttle_run cap (replicate (unat cap + 1) now) st = unat cap + 1" by simp
qed

definition idle_window :: evaluator_state where
  "idle_window = default_evaluator_state\<lparr>es_throttle_window_started := Some 0\<rparr>"

theorem throttle_bound_witness:
  "throttle_run 3 [0, 1, 2, 3, 4] idle_window \<le> 7 \<and>
   throttle_run 3 (replicate 4 one_second) idle_window = 4"
  using throttle_bound [of "[0, 1, 2, 3, 4]" 0 3 idle_window 0 one_second]
  by (simp add: idle_window_def one_second_def)

section \<open>Debounce\<close>

text \<open>The event is a state change of the subject \<open>c\<close>.\<close>

fun state_change_of :: "string \<Rightarrow> 'v happening \<Rightarrow> bool" where
  "state_change_of c (H_SubjectStateChanged _ i _ _ _ _) \<longleftrightarrow> i = c"
| "state_change_of c _ \<longleftrightarrow> False"

lemma arm_of_other_event:
  "\<not> state_change_of c h \<Longrightarrow> evaluate_subject_state_arm env h c p st = (st, False)"
  by (cases h) (auto simp: evaluate_subject_state_arm_def)

lemma hysteresis_arm:
  assumes "evaluate_subject_state_arm env h c (SP_Hysteresis f u l) st = (st', True)"
  shows "\<not> in_high st c" "in_high st' c"
  using assms
  by (auto simp: evaluate_subject_state_arm_def in_high_def set_high_def
      split: happening.splits if_splits option.splits)

lemma account_happenings:
  "account_for_evaluation e now ts rt = (rt', hs, accepted) \<Longrightarrow>
   H_WatchFired a b c d x \<notin> set hs"
  by (auto simp: account_for_evaluation_def split: prod.splits if_splits)

lemma gate_happenings:
  assumes "evaluate_gate env trust ts e event now now_ms rt = (rt', hs, g)"
  shows "H_WatchFired a b c d x \<notin> set hs"
  using assms account_happenings
  by (fastforce simp: evaluate_gate_def Let_def split: prod.splits if_splits gate.splits)

text \<open>One watch evaluated on a sequence of events, each time from its present entry.\<close>

fun watch_run ::
    "'v watch_env \<Rightarrow> watch_key \<Rightarrow> (eval_reading \<times> 'v happening \<times> nat \<times> u64) list
       \<Rightarrow> 'v watch_runtime \<Rightarrow> 'v happening list" where
  "watch_run env k [] rt = []"
| "watch_run env k ((r, event, now, now_ms) # xs) rt =
     (case ledger_lookup k (wr_ledger rt) of
        None \<Rightarrow> []
      | Some e \<Rightarrow> (case evaluate_one env r e event now now_ms rt of
                     (rt', hs) \<Rightarrow> hs @ watch_run env k xs rt'))"

text \<open>A hysteresis watch with a minimum duration: a recorded match implies the high mark.\<close>

definition hysteresis_watch ::
    "watch_key \<Rightarrow> 'v watch_condition \<Rightarrow> string \<Rightarrow> 'v watch_runtime \<Rightarrow> bool" where
  "hysteresis_watch k cond c rt \<longleftrightarrow> (\<exists>e. hm_get (wl_entries (wr_ledger rt)) k = Some e \<and>
     entry_key e = k \<and> ws_condition (we_spec e) = cond \<and> we_state e \<noteq> W_Cancelled \<and>
     (we_match_entered_at_ms e \<noteq> None \<longrightarrow> in_high (evaluator_of rt k) c))"

lemma hysteresis_gate:
  assumes "hysteresis_watch k (WC_SubjectState c (SP_Hysteresis f u l) (Some d)) c rt" "d > 0"
    "hm_get (wl_entries (wr_ledger rt)) k = Some e"
    "evaluate_gate env trust ts e event now now_ms rt = (rt', hs, g)"
  shows "g \<noteq> G_Fire" "hysteresis_watch k (WC_SubjectState c (SP_Hysteresis f u l) (Some d)) c rt'"
proof -
  have e: "entry_key e = k" "we_state e \<noteq> W_Cancelled"
    "ws_condition (we_spec e) = WC_SubjectState c (SP_Hysteresis f u l) (Some d)"
    "we_match_entered_at_ms e \<noteq> None \<Longrightarrow> in_high (evaluator_of rt k) c"
    using assms(1,3) by (auto simp: hysteresis_watch_def)
  have "g \<noteq> G_Fire \<and> hysteresis_watch k (WC_SubjectState c (SP_Hysteresis f u l) (Some d)) c rt'"
    using assms(4)
  proof (cases rule: gate_cases)
    case (throttled hs1)
    then show ?thesis
      using account_frame(1) [OF throttled(1)] account_frame(4) [OF throttled(1)] assms(1)
      by (simp add: hysteresis_watch_def in_high_def)
  next
    case (mismatch rt1 hs1 st)
    then show ?thesis
      using account_frame(1) [OF mismatch(1)] e assms(2,3)
      by (auto simp: hysteresis_watch_def after_mismatch_def note_match_exited_def
          update_entry_get entry_key_def)
  next
    case (matched rt1 hs1 st)
    have h: "\<not> in_high (evaluator_of rt1 k) c" "in_high st c"
      using hysteresis_arm [of env event c f u l "evaluator_of rt1 k" st] matched(2) e by simp_all
    then have "\<not> in_high (evaluator_of rt k) c"
      using account_frame(4) [OF matched(1), of k] by (simp add: in_high_def)
    then have none: "we_match_entered_at_ms e = None" using e(4) by blast
    have "\<not> held_long_enough d e now_ms (note_match_entered k now_ms (wr_ledger rt1))"
      using account_frame(1) [OF matched(1)] assms(2,3) e none
      by (simp add: held_long_enough_def ledger_lookup_def note_match_entered_def update_entry_get
          sat_sub_def)
    then show ?thesis
      using matched(3) e h account_frame(1) [OF matched(1)] assms(2,3) none
      by (auto simp: after_match_def Let_def hysteresis_watch_def note_match_entered_def
          update_entry_get entry_key_def)
  qed
  then show "g \<noteq> G_Fire"
    "hysteresis_watch k (WC_SubjectState c (SP_Hysteresis f u l) (Some d)) c rt'" by auto
qed

lemma hysteresis_run:
  assumes "hysteresis_watch k (WC_SubjectState c (SP_Hysteresis f u l) (Some d)) c rt" "d > 0"
  shows "H_WatchFired a b ms out x \<notin> set (watch_run env k xs rt)"
  using assms(1)
proof (induction xs arbitrary: rt)
  case (Cons y xs)
  obtain r event now now_ms where y: "y = (r, event, now, now_ms)" by (metis prod_cases4)
  from Cons.prems obtain e where e: "hm_get (wl_entries (wr_ledger rt)) k = Some e"
    by (auto simp: hysteresis_watch_def)
  obtain rt' hs g where g: "evaluate_gate env (er_trust r) (er_at r) e event now now_ms rt =
      (rt', hs, g)" by (metis prod_cases3)
  note step = hysteresis_gate [OF Cons.prems assms(2) e g]
  have "evaluate_one env r e event now now_ms rt = (rt', hs)"
    using g step(1) by (cases g) (simp_all add: evaluate_one_def)
  with Cons.IH [OF step(2)] gate_happenings [OF g] show ?case
    by (simp add: y e ledger_lookup_def)
qed simp

text \<open>(C32) Two ways in which a watch with a minimum duration does not fire although its predicate
  holds. The match of a subject's state is forgotten at the next evaluated event that is not a
  state change of this subject: the evaluator counts any other event of the bus as the predicate
  leaving its match. And a hysteresis predicate matches only at the moment of the crossing, so
  that a hysteresis watch with a minimum duration never fires, whatever the events.
\<close>

theorem debounce_starved:
  assumes "d > 0" "hm_get (wl_entries (wr_ledger rt)) (entry_key e) = Some e"
    "we_state e \<noteq> W_Cancelled" "ws_condition (we_spec e) = WC_SubjectState c p (Some d)"
  shows "(we_match_entered_at_ms e = Some t \<and> \<not> state_change_of c event \<and>
          evaluate_gate env trust ts e event now now_ms rt = (rt', hs, g) \<and> g \<noteq> G_Throttled \<longrightarrow>
          map_option we_match_entered_at_ms (hm_get (wl_entries (wr_ledger rt')) (entry_key e)) =
            Some None) \<and>
         (p = SP_Hysteresis f u l \<and> we_match_entered_at_ms e = None \<longrightarrow>
          H_WatchFired a b ms out x \<notin> set (watch_run env (entry_key e) xs rt))"
proof (intro conjI impI, elim conjE)
  assume m: "we_match_entered_at_ms e = Some t" "\<not> state_change_of c event" "g \<noteq> G_Throttled"
    and g: "evaluate_gate env trust ts e event now now_ms rt = (rt', hs, g)"
  have "g = G_NoMatch"
    using g
  proof (cases rule: gate_cases)
    case (matched rt1 hs1 st)
    then show ?thesis using assms(4) arm_of_other_event [OF m(2)] by simp
  qed (use m in auto)
  then show "map_option we_match_entered_at_ms
      (hm_get (wl_entries (wr_ledger rt')) (entry_key e)) = Some None"
    using gate_frame(1) [OF g] m(1) assms
    by (simp add: gate_ledger_def note_match_exited_def update_entry_get)
next
  assume "p = SP_Hysteresis f u l \<and> we_match_entered_at_ms e = None"
  then have "hysteresis_watch (entry_key e) (WC_SubjectState c (SP_Hysteresis f u l) (Some d)) c rt"
    using assms by (simp add: hysteresis_watch_def)
  then show "H_WatchFired a b ms out x \<notin> set (watch_run env (entry_key e) xs rt)"
    by (rule hysteresis_run [OF _ assms(1)])
qed

text \<open>A sensor whose state is one number, and the watch \<open>above two for five milliseconds\<close>.\<close>

definition sensor_env :: "real watch_env" where
  "sensor_env = \<lparr>ve_get = \<lambda>v _. Some (Some v), ve_eq = (=), ve_as_f64 = \<lambda>v. Some (F64 v),
     ve_as_str = \<lambda>_. None, ve_regex = \<lambda>_. None\<rparr>"

definition single_watch :: "'v watch_entry \<Rightarrow> 'v watch_runtime" where
  "single_watch e = start_runtime (new_watch_ledger\<lparr>wl_entries := [(entry_key e, e)]\<rparr>)"

definition fan_on :: "'v watch_action" where
  "fan_on = \<lparr>wa_target_shelf = ''fan'', wa_request_type = ''on'', wa_payload = None\<rparr>"

definition hot_spec :: "real watch_spec" where
  "hot_spec = \<lparr>ws_watch_id = ''w'', ws_condition =
     WC_SubjectState ''s'' (SP_Hysteresis ''t'' (F64 2) (F64 1)) (Some 5), ws_trigger = Trig_Edge\<rparr>"

definition hot_watch :: "real watch_entry" where
  "hot_watch = fresh_entry ''p'' hot_spec fan_on"

definition trusted_ok :: eval_reading where
  "trusted_ok = \<lparr>er_trust = TT_Trusted 0, er_at = 0, er_result = Inr ()\<rparr>"

definition reading :: "real \<Rightarrow> real happening" where
  "reading v = H_SubjectStateChanged ''p'' ''s'' ''sensor'' None (Some v) 0"

lemma hot_watch_facts:
  "hm_get (wl_entries (wr_ledger (single_watch hot_watch))) (entry_key hot_watch) = Some hot_watch"
  "we_state hot_watch \<noteq> W_Cancelled"
  "ws_condition (we_spec hot_watch) =
     WC_SubjectState ''s'' (SP_Hysteresis ''t'' (F64 2) (F64 1)) (Some 5)"
  "we_match_entered_at_ms hot_watch = None"
  "entry_key hot_watch = (''p'', ''w'')"
  by (simp_all add: single_watch_def hot_watch_def hot_spec_def fresh_entry_def entry_key_def
      start_runtime_def hm_get_def)

theorem debounce_starved_witness:
  "H_WatchFired ''p'' ''w'' 90 ''ok'' 0 \<notin> set (watch_run sensor_env (''p'', ''w'')
     [(trusted_ok, reading 3, 0, 10), (trusted_ok, reading 4, 1, 90)] (single_watch hot_watch))"
  by (rule debounce_starved [OF _ hot_watch_facts(1-3), THEN conjunct2, THEN mp,
        OF _ conjI [OF refl hot_watch_facts(4)], unfolded hot_watch_facts(5)]) simp

section \<open>A matching watch is fired\<close>

text \<open>What is left alone by the evaluation of watches with other keys.\<close>

definition same_watch :: "watch_key \<Rightarrow> 'v watch_runtime \<Rightarrow> 'v watch_runtime \<Rightarrow> bool" where
  "same_watch k rt rt' \<longleftrightarrow> evaluator_of rt' k = evaluator_of rt k \<and>
     hm_get (wl_entries (wr_ledger rt')) k = hm_get (wl_entries (wr_ledger rt)) k \<and>
     wr_max_evaluations_per_second rt' = wr_max_evaluations_per_second rt"

lemma runtime_cap [simp]:
  "wr_max_evaluations_per_second (set_evaluator k st rt) = wr_max_evaluations_per_second rt"
  by (simp add: set_evaluator_def)

lemma gate_cap:
  assumes "evaluate_gate env trust ts e event now now_ms rt = (rt', hs, g)"
  shows "wr_max_evaluations_per_second rt' = wr_max_evaluations_per_second rt"
  using assms
proof (cases rule: gate_cases)
  case (throttled hs1)
  then show ?thesis by (auto elim: account_throttles)
next
  case (mismatch rt1 hs1 st)
  then show ?thesis by (auto simp: after_mismatch_def elim!: account_throttles)
next
  case (matched rt1 hs1 st)
  then have "wr_max_evaluations_per_second rt' = wr_max_evaluations_per_second rt1"
    by (auto simp: after_match_def Let_def split: if_splits option.splits)
  with matched(1) show ?thesis by (auto elim: account_throttles)
qed

lemma gate_same_watch:
  assumes "evaluate_gate env trust ts e event now now_ms rt = (rt', hs, g)" "k \<noteq> entry_key e"
  shows "same_watch k rt rt'"
  using gate_frame(1) [OF assms(1)] gate_frame(3) [OF assms] gate_cap [OF assms(1)] assms(2)
  by (simp add: same_watch_def gate_ledger_def note_match_entered_def note_match_exited_def
      update_entry_get)

lemma finish_same_watch:
  "finish_fire e now now_ms outcome ts rt = (rt', hs) \<Longrightarrow> k \<noteq> entry_key e \<Longrightarrow> same_watch k rt rt'"
  by (auto simp: finish_fire_def Let_def same_watch_def mark_fired_def update_entry_get)

lemma same_watch_trans: "same_watch k r s \<Longrightarrow> same_watch k s t \<Longrightarrow> same_watch k r t"
  by (simp add: same_watch_def)

lemma evaluate_one_same_watch:
  assumes "evaluate_one env r e event now now_ms rt = (rt', hs)" "k \<noteq> entry_key e"
  shows "same_watch k rt rt'"
proof -
  obtain rt1 hs1 g where g: "evaluate_gate env (er_trust r) (er_at r) e event now now_ms rt =
      (rt1, hs1, g)" by (metis prod_cases3)
  note first = gate_same_watch [OF g assms(2)]
  show ?thesis
  proof (cases "g = G_Fire")
    case True
    then obtain hs2 where "finish_fire e now now_ms (dispatch_outcome e (er_result r) rt1)
        (er_at r) rt1 = (rt', hs2)"
      using assms(1) g by (auto simp: evaluate_one_def split: prod.splits)
    from same_watch_trans [OF first finish_same_watch [OF this assms(2)]] show ?thesis .
  next
    case False
    with assms(1) g have "rt' = rt1" by (cases g) (auto simp: evaluate_one_def)
    with first show ?thesis by simp
  qed
qed

lemma evaluate_entries_same_watch:
  assumes "evaluate_entries env rd es event now now_ms rt = (rt', hs)" "k \<notin> entry_key ` set es"
  shows "same_watch k rt rt'"
  using assms
proof (induction es arbitrary: rt hs)
  case Nil
  then show ?case by (simp add: same_watch_def)
next
  case (Cons e es)
  then show ?case
    by (auto split: prod.splits intro: same_watch_trans evaluate_one_same_watch)
qed

text \<open>A watch is due on an event: its condition is true of the event (from the present hysteresis
  state), the match has lasted for the longest minimum duration the condition asks for while the
  clock is trusted, the watch is outside its cooldown, and the evaluation is within the throttle.\<close>

definition watch_due ::
    "'v watch_env \<Rightarrow> time_trust \<Rightarrow> 'v happening \<Rightarrow> nat \<Rightarrow> u64 \<Rightarrow> 'v watch_runtime \<Rightarrow> 'v watch_entry
       \<Rightarrow> bool" where
  "watch_due env trust event now now_ms rt e \<longleftrightarrow>
     snd (evaluate_condition env (ws_condition (we_spec e)) event (evaluator_of rt (entry_key e))) \<and>
     (max_minimum_duration_ms (ws_condition (we_spec e)) = 0 \<or>
        trust_is_strict trust \<and>
        (\<exists>t. we_match_entered_at_ms e = Some t \<and>
           max_minimum_duration_ms (ws_condition (we_spec e)) \<le> sat_sub now_ms t)) \<and>
     (ws_trigger (we_spec e) = Trig_Edge \<or>
        (\<forall>until. cooldown_of rt (entry_key e) = Some until \<longrightarrow> until \<le> now)) \<and>
     \<not> fst (snd (throttle (wr_max_evaluations_per_second rt) now
                   (evaluator_of rt (entry_key e))))"

lemma watch_due_same:
  "same_watch (entry_key e) rt rt' \<Longrightarrow>
   watch_due env trust event now now_ms rt' e = watch_due env trust event now now_ms rt e"
  by (simp add: watch_due_def same_watch_def cooldown_of_def)

text \<open>The throttle runs before the condition; the condition reads the hysteresis state only.\<close>

lemma apply_predicate_high:
  assumes "es_hysteresis_high st = es_hysteresis_high st'"
  shows "snd (apply_state_predicate env p state i st) = snd (apply_state_predicate env p state i st') \<and>
    es_hysteresis_high (fst (apply_state_predicate env p state i st)) =
      es_hysteresis_high (fst (apply_state_predicate env p state i st'))"
  using assms by (cases p) (auto simp: in_high_def set_high_def split: option.split)

lemma evaluate_high:
  fixes c :: "'v watch_condition"
  shows "es_hysteresis_high st = es_hysteresis_high u \<Longrightarrow>
      snd (evaluate_condition env c h st) = snd (evaluate_condition env c h u) \<and>
      es_hysteresis_high (fst (evaluate_condition env c h st)) =
        es_hysteresis_high (fst (evaluate_condition env c h u))"
    and "es_hysteresis_high st = es_hysteresis_high u \<Longrightarrow>
      snd (evaluate_all env ts h st) = snd (evaluate_all env ts h u) \<and>
      es_hysteresis_high (fst (evaluate_all env ts h st)) = es_hysteresis_high (fst (evaluate_all env ts h u))"
    and "es_hysteresis_high st = es_hysteresis_high u \<Longrightarrow>
      snd (evaluate_any env ts' h st) = snd (evaluate_any env ts' h u) \<and>
      es_hysteresis_high (fst (evaluate_any env ts' h st)) = es_hysteresis_high (fst (evaluate_any env ts' h u))"
proof (induction env c h st and env ts h st and env ts' h st arbitrary: u and u and u
    rule: evaluate_condition_evaluate_all_evaluate_any.induct)
  case (2 env c p d h st)
  then show ?case
    by (cases h) (simp_all add: evaluate_subject_state_arm_def
        apply_predicate_high [OF 2, THEN conjunct1] apply_predicate_high [OF 2, THEN conjunct2])
next
  case (6 env t ts h st)
  then show ?case by (simp add: case_prod_beta)
next
  case (8 env t ts h st)
  obtain st1 b u1 b' where t: "evaluate_condition env t h st = (st1, b)"
    "evaluate_condition env t h u = (u1, b')" by fastforce
  from "8.IH"(1) [OF "8.prems"] t have "b' = b" "es_hysteresis_high st1 = es_hysteresis_high u1"
    by simp_all
  with t "8.IH"(2) [of st1 b u1] show ?case by simp
next
  case (10 env t ts h st)
  obtain st1 b u1 b' where t: "evaluate_condition env t h st = (st1, b)"
    "evaluate_condition env t h u = (u1, b')" by fastforce
  from "10.IH"(1) [OF "10.prems"] t have "b' = b" "es_hysteresis_high st1 = es_hysteresis_high u1"
    by simp_all
  with t "10.IH"(2) [of st1 b u1] show ?case by simp
qed simp_all

lemma account_evaluates:
  assumes "account_for_evaluation e now ts rt = (rt', hs, accepted)"
  shows "snd (evaluate_condition env c h (evaluator_of rt' (entry_key e))) =
    snd (evaluate_condition env c h (evaluator_of rt (entry_key e)))"
  using evaluate_high(1) [OF account_frame(4) [OF assms, of "entry_key e"]] by blast

lemma held_after_entry:
  assumes "hm_get (wl_entries l) (entry_key e) = Some e" "0 < d"
  shows "held_long_enough d e now_ms (note_match_entered (entry_key e) now_ms l) \<longleftrightarrow>
    (\<exists>t. we_match_entered_at_ms e = Some t \<and> d \<le> sat_sub now_ms t)"
  using assms
  by (auto simp: held_long_enough_def ledger_lookup_def note_match_entered_def update_entry_get
      sat_sub_def Let_def not_less split: option.split)

lemma after_match_fire:
  assumes "after_match e now now_ms trust rt = (rt', g)"
  shows "g = G_Fire \<longleftrightarrow> (let d = max_minimum_duration_ms (ws_condition (we_spec e)) in
    (d > 0 \<longrightarrow> held_long_enough d e now_ms (wr_ledger rt') \<and> trust_is_strict trust) \<and>
    \<not> (ws_trigger (we_spec e) \<noteq> Trig_Edge \<and> cooldown_active (entry_key e) now rt'))"
  using assms by (auto simp: after_match_def suppression_def Let_def split: if_splits option.splits)

text \<open>The gate lets a watch fire exactly when it is due.\<close>

lemma due_gate:
  assumes g: "evaluate_gate env trust ts e event now now_ms rt = (rt', hs, g)"
    and own: "hm_get (wl_entries (wr_ledger rt)) (entry_key e) = Some e"
  shows "g = G_Fire \<longleftrightarrow> watch_due env trust event now now_ms rt e"
  using g
proof (cases rule: gate_cases)
  case (throttled hs1)
  then show ?thesis by (auto simp: watch_due_def elim: account_throttles)
next
  case (mismatch rt1 hs1 st)
  then show ?thesis
    using account_evaluates [OF mismatch(1), of env "ws_condition (we_spec e)" event]
    by (auto simp: watch_due_def)
next
  case (matched rt1 hs1 st)
  let ?d = "max_minimum_duration_ms (ws_condition (we_spec e))"
  have thr: "\<not> fst (snd (throttle (wr_max_evaluations_per_second rt) now (evaluator_of rt (entry_key e))))"
    using matched(1) by (auto elim: account_throttles)
  have cond: "snd (evaluate_condition env (ws_condition (we_spec e)) event (evaluator_of rt (entry_key e)))"
    using account_evaluates [OF matched(1), of env "ws_condition (we_spec e)" event] matched(2) by simp
  have own1: "hm_get (wl_entries (wr_ledger rt1)) (entry_key e) = Some e"
    using own account_frame(1) [OF matched(1)] by simp
  have "wr_ledger rt' = (if ?d > 0 then note_match_entered (entry_key e) now_ms (wr_ledger rt1)
      else wr_ledger rt1)"
    using after_match_frame(2) [OF matched(3)] by simp
  then have held: "held_long_enough ?d e now_ms (wr_ledger rt') \<longleftrightarrow>
      (\<exists>t. we_match_entered_at_ms e = Some t \<and> ?d \<le> sat_sub now_ms t)" if "?d > 0"
    using held_after_entry [OF own1 that] that by simp
  show ?thesis
    using after_match_fire [OF matched(3)] held thr cond gate_frame(2) [OF g, of "entry_key e"]
    by (auto simp: watch_due_def cooldown_active_iff word_gt_0 Let_def not_less)
qed

fun is_fire_of :: "'v watch_entry \<Rightarrow> u64 \<Rightarrow> 'v happening \<Rightarrow> bool" where
  "is_fire_of e now_ms (H_WatchFired creator watch_id fired_at_ms _ _) \<longleftrightarrow>
     creator = we_creator e \<and> watch_id = ws_watch_id (we_spec e) \<and> fired_at_ms = now_ms"
| "is_fire_of e now_ms _ \<longleftrightarrow> False"

lemma is_fire_of_fired: "is_fire_of e t h \<Longrightarrow> \<exists>a b c d x. h = H_WatchFired a b c d x"
  by (cases h) auto

definition fired_at :: "'v watch_entry \<Rightarrow> u64 \<Rightarrow> 'v watch_runtime \<Rightarrow> 'v happening list \<Rightarrow> bool" where
  "fired_at e now_ms rt hs \<longleftrightarrow>
     (\<exists>h \<in> set hs. is_fire_of e now_ms h) \<and>
     (\<exists>e'. hm_get (wl_entries (wr_ledger rt)) (entry_key e) = Some e' \<and>
        we_last_fired_at_ms e' = Some now_ms \<and>
        we_fires_completed e' = sat_inc (we_fires_completed e))"

lemma evaluate_one_fires:
  assumes own: "hm_get (wl_entries (wr_ledger rt)) (entry_key e) = Some e" "we_state e \<noteq> W_Cancelled"
    and run: "evaluate_one env r e event now now_ms rt = (rt', hs)"
  shows "if watch_due env (er_trust r) event now now_ms rt e then fired_at e now_ms rt' hs
    else \<not> (\<exists>h \<in> set hs. is_fire_of e t h)"
proof -
  obtain rt1 hs1 g where
    g: "evaluate_gate env (er_trust r) (er_at r) e event now now_ms rt = (rt1, hs1, g)"
    by (metis prod_cases3)
  note due = due_gate [OF g own(1)]
  have quiet: "\<not> is_fire_of e t h" if "h \<in> set hs1" for h
    using that gate_happenings [OF g] is_fire_of_fired by blast
  show ?thesis
  proof (cases "g = G_Fire")
    case True
    then have led: "hm_get (wl_entries (wr_ledger rt1)) (entry_key e) =
        (if max_minimum_duration_ms (ws_condition (we_spec e)) > 0
         then Some (e\<lparr>we_state := W_Matched, we_match_entered_at_ms :=
           (case we_match_entered_at_ms e of None \<Rightarrow> Some now_ms | Some t \<Rightarrow> Some t)\<rparr>) else Some e)"
      using gate_frame(1) [OF g] own by (simp add: gate_ledger_def note_match_entered_def update_entry_get)
    show ?thesis
      using True due own(2) run g led
      by (auto simp: evaluate_one_def finish_fire_def Let_def fired_at_def mark_fired_def
          update_entry_get split: if_splits)
  next
    case False
    with run g have "\<forall>h \<in> set hs. \<not> is_fire_of e t h"
      using quiet by (cases g) (auto simp: evaluate_one_def)
    with False due show ?thesis by simp
  qed
qed

text \<open>Other watches do not speak for this one.\<close>

lemma evaluate_one_other:
  assumes "evaluate_one env r a event now now_ms rt = (rt', hs)" "entry_key e \<noteq> entry_key a"
  shows "\<not> (\<exists>h \<in> set hs. is_fire_of e t h)"
proof -
  obtain rt1 hs1 g where
    g: "evaluate_gate env (er_trust r) (er_at r) a event now now_ms rt = (rt1, hs1, g)"
    by (metis prod_cases3)
  have quiet: "\<not> is_fire_of e t h" if "h \<in> set hs1" for h
    using that gate_happenings [OF g] is_fire_of_fired by blast
  show ?thesis
    using assms g quiet
    by (auto simp: evaluate_one_def finish_fire_def Let_def entry_key_def split: gate.splits if_splits)
qed

lemma entries_other:
  assumes "evaluate_entries env rd es event now now_ms rt = (rt', hs)" "entry_key e \<notin> entry_key ` set es"
  shows "\<not> (\<exists>h \<in> set hs. is_fire_of e t h)"
  using assms
proof (induction es arbitrary: rt hs)
  case (Cons a es)
  then show ?case using evaluate_one_other [of env _ a event now now_ms rt _ _ e t]
    by (fastforce split: prod.splits)
qed simp

lemma due_fires_in_queue:
  assumes "distinct (map entry_key es)" "e \<in> set es"
    "hm_get (wl_entries (wr_ledger rt)) (entry_key e) = Some e" "we_state e \<noteq> W_Cancelled"
    "evaluate_entries env rd es event now now_ms rt = (rt', hs)"
  shows "if watch_due env (er_trust (rd e)) event now now_ms rt e then fired_at e now_ms rt' hs
    else \<not> (\<exists>h \<in> set hs. is_fire_of e t h)"
  using assms
proof (induction es arbitrary: rt hs)
  case (Cons a es)
  obtain rt1 hs1 hs2 where one: "evaluate_one env (rd a) a event now now_ms rt = (rt1, hs1)"
    and rest: "evaluate_entries env rd es event now now_ms rt1 = (rt', hs2)"
    and hs: "hs = hs1 @ hs2"
    using Cons.prems(5) by (auto split: prod.splits)
  show ?case
  proof (cases "e = a")
    case True
    then have k: "entry_key e \<notin> entry_key ` set es" using Cons.prems(1) by simp
    from evaluate_entries_same_watch [OF rest k] entries_other [OF rest k]
      evaluate_one_fires [OF Cons.prems(3,4) one [folded True], of t] hs
    show ?thesis by (auto simp: fired_at_def same_watch_def split: if_splits)
  next
    case False
    with Cons.prems(1,2) have e: "e \<in> set es" "entry_key e \<noteq> entry_key a" by (auto simp: image_iff)
    note same = evaluate_one_same_watch [OF one e(2)]
    have own: "hm_get (wl_entries (wr_ledger rt1)) (entry_key e) = Some e"
      using Cons.prems(3) same by (simp add: same_watch_def)
    have "if watch_due env (er_trust (rd e)) event now now_ms rt e then fired_at e now_ms rt' hs2
      else \<not> (\<exists>h \<in> set hs2. is_fire_of e t h)"
      using Cons.IH [OF _ e(1) own Cons.prems(4) rest] Cons.prems(1) watch_due_same [OF same] by simp
    then show ?thesis
      using evaluate_one_other [OF one e(2)] by (auto simp: fired_at_def hs split: if_splits)
  qed
qed simp


definition merge_watch :: "unit watch_entry" where
  "merge_watch = fresh_entry ''p'' (no_merge_spec (Trig_Level 1000)) fan_on"

lemma merge_watch_due:
  "watch_due null_env trust forgotten 0 now_ms (single_watch merge_watch) merge_watch"
  by (simp add: watch_due_def merge_watch_def fresh_entry_def no_merge_spec_def any_happening_def
      only_merges_def forgotten_def single_watch_def start_runtime_def throttle_def one_second_def
      evaluator_of_def default_evaluator_state_def cooldown_of_def happening_matches_filter_def
      DEFAULT_MAX_EVALUATIONS_PER_SECOND_PER_WATCH_def)

lemma merge_watch_ledger: "ledger_inv (wr_ledger (single_watch merge_watch))"
  using no_merge_ok
  by (simp add: ledger_inv_def single_watch_def start_runtime_def new_watch_ledger_def hm_wf_def
      hm_get_def merge_watch_def fresh_entry_def entry_ok_def entry_key_def keys_of_creator_def
      hm_keys_def DEFAULT_MAX_COMPOSITE_DEPTH_def DEFAULT_MAX_WATCHES_TOTAL_def
      DEFAULT_MAX_WATCHES_PER_CREATOR_def)


end
