(* ===== verification/Watch_Spec.thy ===== *)
theory Watch_Spec
  imports Watch_Decision
begin

text \<open>
  The watch runtime as a system of tasks: the loop that receives events and evaluates the active
  watches one after the other, and the callers that schedule and cancel watches between its steps.
  The loop works on a snapshot of the ledger and waits for the router between the decision to fire
  and its bookkeeping, so both may interleave with the callers.

  The steps are the units that are taken to run without interruption: a call of \<open>schedule\<close> or
  \<open>cancel\<close>, the decision about one watch (\<open>evaluate_gate\<close>) and the bookkeeping after its
  dispatch. In the code a call takes the ledger's lock and then the lock of the evaluator states, and
  the decision takes several locks and awaits the bus when it reports throttled evaluations, so a
  caller's two halves may run around a decision. What that window can do is stated at the end of the
  section: the second half of a call drops whatever evaluator state is there, a cooldown that a fire
  has stored in between included.
\<close>

section \<open>The system\<close>

text \<open>\<open>sy_log\<close> records, newest first, what happened; it is no part of the program.\<close>

datatype 'v loop_state =
    Loop_Idle
  | Loop_Evaluating "'v happening" nat u64 "'v watch_entry list"
  | Loop_Dispatching "'v watch_entry" "'v happening" nat u64 "'v watch_entry list"

datatype 'v watch_log =
    Lg_Scheduled watch_key
  | Lg_Cancelled watch_key
  | Lg_Evaluated watch_key u64 bool
  | Lg_Fired "'v watch_entry" nat u64 time_trust

record 'v watch_system =
  sy_runtime :: "'v watch_runtime"
  sy_loop :: "'v loop_state"
  sy_clock :: nat
  sy_log :: "'v watch_log list"

definition gate_log :: "gate \<Rightarrow> 'v watch_entry \<Rightarrow> nat \<Rightarrow> u64 \<Rightarrow> time_trust \<Rightarrow> 'v watch_log list" where
  "gate_log g e now now_ms trust =
     (case g of
        G_Throttled \<Rightarrow> []
      | G_NoMatch \<Rightarrow> [Lg_Evaluated (entry_key e) now_ms False]
      | G_Fire \<Rightarrow> [Lg_Fired e now now_ms trust, Lg_Evaluated (entry_key e) now_ms True]
      | _ \<Rightarrow> [Lg_Evaluated (entry_key e) now_ms True])"

inductive watch_step :: "'v watch_env \<Rightarrow> 'v watch_system \<Rightarrow> 'v watch_system \<Rightarrow> bool"
  for env :: "'v watch_env" where
  schedule: "runtime_schedule creator spec action (sy_runtime s) = (rt, res) \<Longrightarrow>
     watch_step env s (s\<lparr>sy_runtime := rt, sy_log :=
       (if res = Inr () then [Lg_Scheduled (creator, ws_watch_id spec)] else []) @ sy_log s\<rparr>)"
| cancel: "runtime_cancel key cancelled_by ts (sy_runtime s) = (rt, hs, did) \<Longrightarrow>
     watch_step env s (s\<lparr>sy_runtime := rt,
       sy_log := (if did then [Lg_Cancelled key] else []) @ sy_log s\<rparr>)"
| install: "watch_step env s
     (s\<lparr>sy_runtime := set_framework_fire_handler b (sy_runtime s)\<rparr>)"
| receive: "sy_loop s = Loop_Idle \<Longrightarrow> \<not> is_watch_event event \<Longrightarrow> sy_clock s \<le> now \<Longrightarrow>
     watch_step env s (s\<lparr>sy_clock := now, sy_loop :=
       Loop_Evaluating event now now_ms (ledger_active (wr_ledger (sy_runtime s)))\<rparr>)"
| evaluate: "sy_loop s = Loop_Evaluating event now now_ms (e # es) \<Longrightarrow>
     evaluate_gate env trust ts e event now now_ms (sy_runtime s) = (rt, hs, g) \<Longrightarrow>
     watch_step env s (s\<lparr>sy_runtime := rt,
       sy_loop := (if g = G_Fire then Loop_Dispatching e event now now_ms es
                   else Loop_Evaluating event now now_ms es),
       sy_log := gate_log g e now now_ms trust @ sy_log s\<rparr>)"
| dispatched: "sy_loop s = Loop_Dispatching e event now now_ms es \<Longrightarrow>
     finish_fire e now now_ms outcome ts (sy_runtime s) = (rt, hs) \<Longrightarrow>
     watch_step env s (s\<lparr>sy_runtime := rt, sy_loop := Loop_Evaluating event now now_ms es\<rparr>)"
| finished: "sy_loop s = Loop_Evaluating event now now_ms [] \<Longrightarrow>
     watch_step env s (s\<lparr>sy_loop := Loop_Idle\<rparr>)"

definition watch_start :: "'v watch_system \<Rightarrow> bool" where
  "watch_start s \<longleftrightarrow> wl_entries (wr_ledger (sy_runtime s)) = [] \<and>
     wl_max_composite_depth (wr_ledger (sy_runtime s)) \<noteq> - 1 \<and>
     wr_evaluator_state (sy_runtime s) = [] \<and> sy_loop s = Loop_Idle \<and> sy_log s = []"

text \<open>The window inside a scheduling call: whatever runtime the second half finds, it leaves the watch
  without a cooldown, without throttle counts and without hysteresis state.\<close>

lemma schedule_second_half:
  "ledger_schedule creator spec action (wr_ledger rt) = (l, Inr ()) \<Longrightarrow>
     runtime_schedule creator spec action rt =
       (drop_evaluator (creator, ws_watch_id spec) (rt\<lparr>wr_ledger := l\<rparr>), Inr ())"
  "evaluator_of (drop_evaluator k rt') k = default_evaluator_state"
  "cooldown_of (drop_evaluator k rt') k = None"
  by (simp_all add: runtime_schedule_def drop_evaluator_def evaluator_of_def cooldown_of_def
      default_evaluator_state_def)

section \<open>The queue of the loop\<close>

fun queue :: "'v loop_state \<Rightarrow> 'v watch_entry list" where
  "queue Loop_Idle = []"
| "queue (Loop_Evaluating _ _ _ es) = es"
| "queue (Loop_Dispatching e _ _ _ es) = e # es"

fun waiting :: "'v loop_state \<Rightarrow> 'v watch_entry list" where
  "waiting Loop_Idle = []"
| "waiting (Loop_Evaluating _ _ _ es) = es"
| "waiting (Loop_Dispatching _ _ _ _ es) = es"

fun dispatching :: "'v loop_state \<Rightarrow> ('v watch_entry \<times> nat) option" where
  "dispatching (Loop_Dispatching e _ now _ _) = Some (e, now)"
| "dispatching _ = None"

text \<open>An entry of the snapshot is the present entry of its key as far as the debounce goes, or the
  present entry has no match recorded (it was cancelled or scheduled anew since).\<close>

definition current :: "'v watch_ledger \<Rightarrow> 'v watch_entry \<Rightarrow> bool" where
  "current l e \<longleftrightarrow> (\<forall>c. hm_get (wl_entries l) (entry_key e) = Some c \<longrightarrow>
     we_match_entered_at_ms c = None \<or>
     we_spec c = we_spec e \<and> we_match_entered_at_ms c = we_match_entered_at_ms e)"

definition queue_inv :: "'v watch_system \<Rightarrow> bool" where
  "queue_inv s \<longleftrightarrow> ledger_inv (wr_ledger (sy_runtime s)) \<and>
     distinct (map entry_key (queue (sy_loop s))) \<and>
     (\<forall>e \<in> set (waiting (sy_loop s)). current (wr_ledger (sy_runtime s)) e)"

text \<open>How the ledger changes at a step, key by key.\<close>

lemma schedule_ledger:
  "runtime_schedule creator spec action rt = (rt', res) \<Longrightarrow>
   wr_ledger rt' = fst (ledger_schedule creator spec action (wr_ledger rt)) \<and>
   res = snd (ledger_schedule creator spec action (wr_ledger rt))"
  by (auto simp: runtime_schedule_def split: prod.splits sum.splits)

lemma schedule_get:
  "hm_get (wl_entries (fst (ledger_schedule creator spec action l))) k =
     (if snd (ledger_schedule creator spec action l) = Inr () \<and> k = (creator, ws_watch_id spec)
      then Some (fresh_entry creator spec action) else hm_get (wl_entries l) k)"
  by (auto simp: ledger_schedule_def Let_def split: sum.splits)

lemma cancel_ledger:
  "runtime_cancel key by' ts rt = (rt', hs, did) \<Longrightarrow>
   wr_ledger rt' = fst (ledger_cancel key (wr_ledger rt)) \<and>
   did = snd (ledger_cancel key (wr_ledger rt))"
  by (auto simp: runtime_cancel_def split: prod.splits if_splits)

lemma finish_ledger:
  "finish_fire e now now_ms outcome ts rt = (rt', hs) \<Longrightarrow>
   wr_ledger rt' = mark_fired (entry_key e) now_ms (cooldown_end e now) (wr_ledger rt)"
  by (auto simp: finish_fire_def Let_def split: if_splits)

lemma current_update_other:
  "k \<noteq> entry_key e \<Longrightarrow> current (update_entry k f l) e = current l e"
  by (simp add: current_def update_entry_get)

lemma current_schedule:
  "current l e \<Longrightarrow> current (fst (ledger_schedule creator spec action l)) e"
  by (auto simp: current_def schedule_get fresh_entry_def)

lemma current_cancel: "ledger_inv l \<Longrightarrow> current l e \<Longrightarrow> current (fst (ledger_cancel k l)) e"
  by (auto simp: current_def ledger_cancel_def update_entry_get)

lemma current_active: "ledger_inv l \<Longrightarrow> e \<in> set (ledger_active l) \<Longrightarrow> current l e"
  by (simp add: current_def ledger_active_entry)

lemma ledger_inv_gate: "ledger_inv l \<Longrightarrow> ledger_inv (gate_ledger g e now_ms l)"
  by (simp add: gate_ledger_def ledger_inv_ops)

lemma current_gate_other:
  "entry_key e' \<noteq> entry_key e \<Longrightarrow> current l e' \<Longrightarrow> current (gate_ledger g e now_ms l) e'"
  by (simp add: gate_ledger_def note_match_entered_def note_match_exited_def current_update_other)

lemma current_fired_other:
  "entry_key e' \<noteq> entry_key e \<Longrightarrow> current l e' \<Longrightarrow> current (mark_fired (entry_key e) ms u l) e'"
  by (simp add: mark_fired_def current_update_other)

lemma queue_inv_start: "watch_start s \<Longrightarrow> queue_inv s"
  by (auto simp: queue_inv_def watch_start_def ledger_inv_def keys_of_creator_def hm_keys_def)

lemma queue_inv_step: "watch_step env s t \<Longrightarrow> queue_inv s \<Longrightarrow> queue_inv t"
proof (induction rule: watch_step.induct)
  case (schedule creator spec action s rt res)
  then show ?case
    using schedule_ledger [OF schedule.hyps]
    by (auto simp: queue_inv_def ledger_inv_schedule intro: current_schedule)
next
  case (cancel key cancelled_by ts s rt hs did)
  then show ?case
    using cancel_ledger [OF cancel.hyps]
    by (auto simp: queue_inv_def ledger_inv_ops intro: current_cancel)
next
  case (receive s event now now_ms)
  then show ?case by (auto simp: queue_inv_def ledger_active_keys current_active)
next
  case (evaluate s event now now_ms e es trust ts rt hs g)
  then show ?case
    using gate_frame(1) [OF evaluate.hyps(2)]
    by (auto simp: queue_inv_def ledger_inv_gate image_iff intro!: current_gate_other)
next
  case (dispatched s e event now now_ms es outcome ts rt hs)
  then show ?case
    using finish_ledger [OF dispatched.hyps(2)]
    by (auto simp: queue_inv_def ledger_inv_ops image_iff intro!: current_fired_other)
qed (auto simp: queue_inv_def set_framework_fire_handler_def)

section \<open>Cooldown\<close>

text \<open>The last fire of a key, unless it was scheduled or cancelled since.\<close>

fun last_fire :: "watch_key \<Rightarrow> 'v watch_log list \<Rightarrow> ('v watch_entry \<times> nat) option" where
  "last_fire k [] = None"
| "last_fire k (Lg_Fired e now _ _ # l) = (if entry_key e = k then Some (e, now) else last_fire k l)"
| "last_fire k (Lg_Scheduled k' # l) = (if k' = k then None else last_fire k l)"
| "last_fire k (Lg_Cancelled k' # l) = (if k' = k then None else last_fire k l)"
| "last_fire k (Lg_Evaluated _ _ _ # l) = last_fire k l"

text \<open>Every fire of a level-triggered watch keeps the cooldown of the one before.\<close>

fun spaced :: "'v watch_log list \<Rightarrow> bool" where
  "spaced [] \<longleftrightarrow> True"
| "spaced (Lg_Fired e now _ _ # l) \<longleftrightarrow> spaced l \<and>
     (\<forall>e' t c. last_fire (entry_key e) l = Some (e', t) \<longrightarrow>
        ws_trigger (we_spec e') = Trig_Level c \<longrightarrow> ws_trigger (we_spec e) \<noteq> Trig_Edge \<longrightarrow>
        t + millis c \<le> now)"
| "spaced (_ # l) \<longleftrightarrow> spaced l"

definition cooldown_inv :: "'v watch_system \<Rightarrow> bool" where
  "cooldown_inv s \<longleftrightarrow> spaced (sy_log s) \<and>
     (\<forall>k e t c. last_fire k (sy_log s) = Some (e, t) \<longrightarrow> ws_trigger (we_spec e) = Trig_Level c \<longrightarrow>
        dispatching (sy_loop s) = Some (e, t) \<and> entry_key e = k \<or>
        (\<forall>e' t'. dispatching (sy_loop s) = Some (e', t') \<longrightarrow> entry_key e' \<noteq> k) \<and>
        cooldown_of (sy_runtime s) k = Some (t + millis c))"

lemma cooldown_invD:
  assumes "cooldown_inv s" "last_fire k (sy_log s) = Some (e, t)"
    "ws_trigger (we_spec e) = Trig_Level c"
  shows "dispatching (sy_loop s) = Some (e, t) \<and> entry_key e = k \<or>
    (\<forall>e' t'. dispatching (sy_loop s) = Some (e', t') \<longrightarrow> entry_key e' \<noteq> k) \<and>
    cooldown_of (sy_runtime s) k = Some (t + millis c)"
  using assms unfolding cooldown_inv_def by blast

lemma schedule_evaluator:
  "runtime_schedule creator spec action rt = (rt', res) \<Longrightarrow>
   evaluator_of rt' k = (if res = Inr () \<and> k = (creator, ws_watch_id spec)
                         then default_evaluator_state else evaluator_of rt k)"
  by (auto simp: runtime_schedule_def split: prod.splits sum.splits)

lemma cancel_evaluator:
  "runtime_cancel key by' ts rt = (rt', hs, did) \<Longrightarrow>
   evaluator_of rt' k = (if did \<and> k = key then default_evaluator_state else evaluator_of rt k)"
  by (auto simp: runtime_cancel_def split: prod.splits if_splits)

lemma finish_cooldown:
  "finish_fire e now now_ms outcome ts rt = (rt', hs) \<Longrightarrow>
   cooldown_of rt' k = (if k = entry_key e \<and> cooldown_end e now \<noteq> None then cooldown_end e now
                        else cooldown_of rt k)"
  by (auto simp: finish_fire_def Let_def cooldown_of_def split: if_splits)

lemma last_fire_gate:
  "last_fire k (gate_log g e now now_ms trust @ l) =
     (if g = G_Fire \<and> entry_key e = k then Some (e, now) else last_fire k l)"
  by (cases g) (auto simp: gate_log_def)

lemma spaced_gate:
  "spaced (gate_log g e now now_ms trust @ l) \<longleftrightarrow> spaced l \<and>
     (g = G_Fire \<longrightarrow> (\<forall>e' t c. last_fire (entry_key e) l = Some (e', t) \<longrightarrow>
        ws_trigger (we_spec e') = Trig_Level c \<longrightarrow> ws_trigger (we_spec e) \<noteq> Trig_Edge \<longrightarrow>
        t + millis c \<le> now))"
  by (cases g) (auto simp: gate_log_def)

lemma cooldown_inv_start: "watch_start s \<Longrightarrow> cooldown_inv s"
  by (simp add: cooldown_inv_def watch_start_def)

lemma cooldown_inv_evaluate:
  assumes "cooldown_inv s" "sy_loop s = Loop_Evaluating event now now_ms (e # es)"
    "evaluate_gate env trust ts e event now now_ms (sy_runtime s) = (rt, hs, g)"
  shows "cooldown_inv (s\<lparr>sy_runtime := rt,
       sy_loop := (if g = G_Fire then Loop_Dispatching e event now now_ms es
                   else Loop_Evaluating event now now_ms es),
       sy_log := gate_log g e now now_ms trust @ sy_log s\<rparr>)"
proof -
  have cd: "cooldown_of (sy_runtime s) k = Some (t + millis c)"
    if "last_fire k (sy_log s) = Some (e', t)" "ws_trigger (we_spec e') = Trig_Level c" for k e' t c
    using cooldown_invD [OF assms(1) that] assms(2) by simp
  have "t + millis c \<le> now"
    if "g = G_Fire" "last_fire (entry_key e) (sy_log s) = Some (e', t)"
      "ws_trigger (we_spec e') = Trig_Level c" "ws_trigger (we_spec e) \<noteq> Trig_Edge" for e' t c
    using gate_fire(1) [OF assms(3) [unfolded that(1)] that(4) cd [OF that(2,3)]] .
  then have "spaced (gate_log g e now now_ms trust @ sy_log s)"
    using assms(1) unfolding spaced_gate cooldown_inv_def by blast
  then show ?thesis
    using cd gate_frame(2) [OF assms(3)] by (auto simp: cooldown_inv_def last_fire_gate)
qed

lemma cooldown_inv_step: "watch_step env s t \<Longrightarrow> cooldown_inv s \<Longrightarrow> cooldown_inv t"
proof (induction rule: watch_step.induct)
  case (schedule creator spec action s rt res)
  then show ?case
    using schedule_evaluator [OF schedule.hyps]
    by (auto simp: cooldown_inv_def cooldown_of_def split: if_splits)
next
  case (cancel key cancelled_by ts s rt hs did)
  then show ?case
    using cancel_evaluator [OF cancel.hyps]
    by (auto simp: cooldown_inv_def cooldown_of_def split: if_splits)
next
  case (evaluate s event now now_ms e es trust ts rt hs g)
  then show ?case by (rule cooldown_inv_evaluate [rotated])
next
  case (dispatched s e event now now_ms es outcome ts rt hs)
  have "cooldown_of rt k = Some (t + millis c)"
    if "last_fire k (sy_log s) = Some (e', t)" "ws_trigger (we_spec e') = Trig_Level c" for k e' t c
    using cooldown_invD [OF dispatched.prems that] that dispatched.hyps(1)
      finish_cooldown [OF dispatched.hyps(2), of k]
    by (auto simp: cooldown_end_def)
  with dispatched show ?case by (simp add: cooldown_inv_def)
qed (auto simp: cooldown_inv_def set_framework_fire_handler_def cooldown_of_def evaluator_of_def)

section \<open>Debounce\<close>

text \<open>Since the evaluation of \<open>k\<close> at time \<open>t\<close>, that one included, every evaluation of \<open>k\<close> has
  matched, and \<open>k\<close> has not fired, been cancelled or scheduled.\<close>

fun holds_from :: "watch_key \<Rightarrow> u64 \<Rightarrow> 'v watch_log list \<Rightarrow> bool" where
  "holds_from k t [] \<longleftrightarrow> False"
| "holds_from k t (Lg_Evaluated k' ms b # l) \<longleftrightarrow>
     (if k' = k then b \<and> (ms = t \<or> holds_from k t l) else holds_from k t l)"
| "holds_from k t (Lg_Fired e _ _ _ # l) \<longleftrightarrow> entry_key e \<noteq> k \<and> holds_from k t l"
| "holds_from k t (Lg_Scheduled k' # l) \<longleftrightarrow> k' \<noteq> k \<and> holds_from k t l"
| "holds_from k t (Lg_Cancelled k' # l) \<longleftrightarrow> k' \<noteq> k \<and> holds_from k t l"

definition duration_of :: "'v watch_entry \<Rightarrow> u64" where
  "duration_of e = max_minimum_duration_ms (ws_condition (we_spec e))"

fun debounced :: "'v watch_log list \<Rightarrow> bool" where
  "debounced [] \<longleftrightarrow> True"
| "debounced (Lg_Fired e _ ms trust # l) \<longleftrightarrow> debounced l \<and>
     (duration_of e > 0 \<longrightarrow> trust_is_strict trust \<and>
        (\<exists>t. holds_from (entry_key e) t l \<and> unat t + unat (duration_of e) \<le> unat ms))"
| "debounced (_ # l) \<longleftrightarrow> debounced l"

text \<open>The time a match was recorded at is the time from which the log holds.\<close>

definition match_recorded :: "'v watch_ledger \<Rightarrow> watch_key \<Rightarrow> u64 \<Rightarrow> bool" where
  "match_recorded l k t \<longleftrightarrow> (\<exists>c. hm_get (wl_entries l) k = Some c \<and>
     we_match_entered_at_ms c = Some t \<and> duration_of c > 0)"

definition debounce_inv :: "'v watch_system \<Rightarrow> bool" where
  "debounce_inv s \<longleftrightarrow> debounced (sy_log s) \<and>
     (\<forall>k t. match_recorded (wr_ledger (sy_runtime s)) k t \<longrightarrow>
        (\<exists>e now. dispatching (sy_loop s) = Some (e, now) \<and> entry_key e = k) \<or>
        holds_from k t (sy_log s))"

lemma debounce_invD:
  "debounce_inv s \<Longrightarrow> match_recorded (wr_ledger (sy_runtime s)) k t \<Longrightarrow>
     (\<exists>e now. dispatching (sy_loop s) = Some (e, now) \<and> entry_key e = k) \<or>
     holds_from k t (sy_log s)"
  unfolding debounce_inv_def by blast

lemma debounce_invI:
  "debounced (sy_log s) \<Longrightarrow>
   (\<And>k t. match_recorded (wr_ledger (sy_runtime s)) k t \<Longrightarrow>
      \<not> (\<exists>e now. dispatching (sy_loop s) = Some (e, now) \<and> entry_key e = k) \<Longrightarrow>
      holds_from k t (sy_log s)) \<Longrightarrow> debounce_inv s"
  unfolding debounce_inv_def by blast

lemma match_recorded_update_other:
  "k \<noteq> k' \<Longrightarrow> match_recorded (update_entry k' f l) k t = match_recorded l k t"
  by (simp add: match_recorded_def update_entry_get)

lemma match_recorded_schedule:
  "match_recorded (fst (ledger_schedule creator spec action l)) k t \<longleftrightarrow> match_recorded l k t \<and>
     \<not> (snd (ledger_schedule creator spec action l) = Inr () \<and> k = (creator, ws_watch_id spec))"
  by (auto simp: match_recorded_def schedule_get fresh_entry_def)

lemma match_recorded_cleared:
  assumes "ledger_inv l" "\<And>e. we_match_entered_at_ms (f e) = None"
  shows "\<not> match_recorded (update_entry k f l) k t"
  using assms ledger_inv_entry [OF assms(1), of k]
  by (auto simp: match_recorded_def update_entry_get entry_ok_def)

lemma match_recorded_cancel:
  "ledger_inv l \<Longrightarrow> match_recorded (fst (ledger_cancel k' l)) k t \<Longrightarrow> match_recorded l k t \<and> k \<noteq> k'"
  by (cases "k = k'")
     (simp_all add: ledger_cancel_def match_recorded_update_other match_recorded_cleared)

lemma match_recorded_fired:
  "ledger_inv l \<Longrightarrow> match_recorded (mark_fired k' ms u l) k t \<Longrightarrow> match_recorded l k t \<and> k \<noteq> k'"
  by (cases "k = k'")
     (simp_all add: mark_fired_def match_recorded_update_other match_recorded_cleared)

lemma match_recorded_entered:
  assumes "ledger_inv l" "match_recorded (note_match_entered k ms l) k t"
  shows "t = ms \<or> match_recorded l k t"
  using assms ledger_inv_entry [OF assms(1), of k]
  by (auto simp: match_recorded_def note_match_entered_def update_entry_get duration_of_def
      entry_ok_def split: if_splits option.splits)

text \<open>A match that is recorded for the key of a queued entry is recorded for this entry.\<close>

lemma current_recorded:
  "current l e \<Longrightarrow> match_recorded l (entry_key e) t \<Longrightarrow>
   we_match_entered_at_ms e = Some t \<and> duration_of e > 0"
  by (auto simp: current_def match_recorded_def duration_of_def)

lemma gate_ledger_recorded:
  assumes "ledger_inv l" "current l e" "match_recorded (gate_ledger g e ms l) k t"
    "g \<noteq> G_Throttled"
  shows "k \<noteq> entry_key e \<and> match_recorded l k t \<or>
         k = entry_key e \<and> g \<noteq> G_NoMatch \<and> (t = ms \<or> match_recorded l k t)"
proof (cases "k = entry_key e")
  case False
  then show ?thesis using assms(3)
    by (auto simp: gate_ledger_def note_match_entered_def note_match_exited_def
        match_recorded_update_other split: if_splits)
next
  case True
  then show ?thesis
    using assms current_recorded [OF assms(2)] match_recorded_entered [OF assms(1)]
      match_recorded_cleared [OF assms(1), of "\<lambda>e. e\<lparr>we_state := W_Pending,
        we_match_entered_at_ms := None\<rparr>" "entry_key e" t]
    by (auto simp: gate_ledger_def note_match_exited_def duration_of_def split: if_splits)
qed

lemma holds_from_gate:
  "holds_from k t (gate_log g e now ms trust @ l) \<longleftrightarrow>
     (if g = G_Throttled \<or> k \<noteq> entry_key e then holds_from k t l
      else g \<noteq> G_NoMatch \<and> g \<noteq> G_Fire \<and> (ms = t \<or> holds_from k t l))"
  by (cases g) (auto simp: gate_log_def)

lemma debounced_gate:
  "debounced (gate_log g e now ms trust @ l) \<longleftrightarrow> debounced l \<and>
     (g = G_Fire \<longrightarrow> duration_of e > 0 \<longrightarrow> trust_is_strict trust \<and>
        (\<exists>t. (ms = t \<or> holds_from (entry_key e) t l) \<and>
             unat t + unat (duration_of e) \<le> unat ms))"
  by (cases g) (auto simp: gate_log_def)

lemma held_long_enough_recorded:
  assumes "ledger_inv l" "current l e" "duration_of e > 0"
    "held_long_enough (duration_of e) e ms (note_match_entered (entry_key e) ms l)"
  obtains t where "match_recorded l (entry_key e) t" "unat t + unat (duration_of e) \<le> unat ms"
proof -
  let ?l = "note_match_entered (entry_key e) ms l"
  have pos: "\<not> 0 \<ge> duration_of e" using assms(3) by simp
  with assms(4) obtain c t where c: "hm_get (wl_entries ?l) (entry_key e) = Some c"
    "we_match_entered_at_ms c = Some t" "\<not> sat_sub ms t < duration_of e"
    by (auto simp: held_long_enough_def ledger_lookup_def Let_def not_less bind_eq_Some_conv
        split: option.splits)
  then have t: "t \<le> ms" "duration_of e \<le> ms - t"
    using assms(3) by (auto simp: sat_sub_def split: if_splits)
  then have "t \<noteq> ms" using pos by auto
  obtain d where d: "hm_get (wl_entries l) (entry_key e) = Some d" "we_match_entered_at_ms d = Some t"
    using c(1,2) \<open>t \<noteq> ms\<close> ledger_inv_entry [OF assms(1), of "entry_key e"]
    by (auto simp: note_match_entered_def update_entry_get entry_ok_def
        split: if_splits option.splits)
  with assms(2,3) have "match_recorded l (entry_key e) t"
    by (auto simp: match_recorded_def current_def duration_of_def)
  moreover have "unat t + unat (duration_of e) \<le> unat ms"
    using t by (simp add: word_le_nat_alt unat_sub)
  ultimately show ?thesis using that by blast
qed

lemma debounce_inv_evaluate:
  assumes "queue_inv s" "debounce_inv s"
    "sy_loop s = Loop_Evaluating event now now_ms (e # es)"
    "evaluate_gate env trust ts e event now now_ms (sy_runtime s) = (rt, hs, g)"
  shows "debounce_inv (s\<lparr>sy_runtime := rt,
       sy_loop := (if g = G_Fire then Loop_Dispatching e event now now_ms es
                   else Loop_Evaluating event now now_ms es),
       sy_log := gate_log g e now now_ms trust @ sy_log s\<rparr>)"
proof (rule debounce_invI, simp_all)
  let ?l = "wr_ledger (sy_runtime s)"
  have l: "ledger_inv ?l" "current ?l e" using assms(1,3) by (simp_all add: queue_inv_def)
  have rec: "holds_from k t (sy_log s)" if "match_recorded ?l k t" for k t
    using debounce_invD [OF assms(2) that] assms(3) by simp
  show "debounced (gate_log g e now now_ms trust @ sy_log s)"
  proof (simp only: debounced_gate, intro conjI impI)
    show "debounced (sy_log s)" using assms(2) by (simp add: debounce_inv_def)
    assume "g = G_Fire" and d: "0 < duration_of e"
    note fire = assms(4) [unfolded \<open>g = G_Fire\<close>] and d' = d [unfolded duration_of_def]
    show "trust_is_strict trust" by (rule gate_fire(2) [OF fire d'])
    have "held_long_enough (duration_of e) e now_ms (note_match_entered (entry_key e) now_ms ?l)"
      unfolding duration_of_def by (rule gate_fire(3) [OF fire d'])
    then show "\<exists>t. (now_ms = t \<or> holds_from (entry_key e) t (sy_log s)) \<and>
        unat t + unat (duration_of e) \<le> unat now_ms"
      using held_long_enough_recorded [OF l d] rec by metis
  qed
  fix k t
  assume m: "match_recorded (wr_ledger rt) k t"
    and "\<forall>e'. (\<forall>now'. dispatching (if g = G_Fire then Loop_Dispatching e event now now_ms es
       else Loop_Evaluating event now now_ms es) \<noteq> Some (e', now')) \<or> entry_key e' \<noteq> k"
  then have k: "g = G_Fire \<Longrightarrow> k \<noteq> entry_key e" by auto
  show "holds_from k t (gate_log g e now now_ms trust @ sy_log s)"
  proof (cases "g = G_Throttled")
    case True
    with m gate_frame(1) [OF assms(4)] rec show ?thesis
      by (simp add: holds_from_gate gate_ledger_def)
  next
    case False
    from gate_ledger_recorded [OF l m [unfolded gate_frame(1) [OF assms(4)]] False]
      k rec [of k t] False
    show ?thesis unfolding holds_from_gate by auto
  qed
qed

definition watch_inv :: "'v watch_system \<Rightarrow> bool" where
  "watch_inv s \<longleftrightarrow> queue_inv s \<and> cooldown_inv s \<and> debounce_inv s"

lemma debounce_inv_start: "watch_start s \<Longrightarrow> debounce_inv s"
  by (simp add: debounce_inv_def watch_start_def match_recorded_def)

lemma debounce_inv_step: "watch_step env s t \<Longrightarrow> queue_inv s \<Longrightarrow> debounce_inv s \<Longrightarrow> debounce_inv t"
proof (induction rule: watch_step.induct)
  case (schedule creator spec action s rt res)
  have m: "match_recorded (wr_ledger (sy_runtime s)) k t \<and>
      (res = Inr () \<longrightarrow> k \<noteq> (creator, ws_watch_id spec))"
    if "match_recorded (wr_ledger rt) k t" for k t
    using that schedule_ledger [OF schedule.hyps] match_recorded_schedule by metis
  show ?case
  proof (rule debounce_invI, goal_cases)
    case (2 k t)
    with m [of k t] debounce_invD [OF schedule.prems(2), of k t] show ?case
      by (cases "res = Inr ()") auto
  qed (use schedule in \<open>simp add: debounce_inv_def\<close>)
next
  case (cancel key cancelled_by ts s rt hs did)
  have m: "match_recorded (wr_ledger (sy_runtime s)) k t \<and> k \<noteq> key"
    if "match_recorded (wr_ledger rt) k t" for k t
    using that cancel_ledger [OF cancel.hyps] cancel.prems(1) match_recorded_cancel
    unfolding queue_inv_def by metis
  show ?case
  proof (rule debounce_invI, goal_cases)
    case (2 k t)
    with m [of k t] debounce_invD [OF cancel.prems(2), of k t] show ?case by auto
  qed (use cancel in \<open>simp add: debounce_inv_def\<close>)
next
  case (evaluate s event now now_ms e es trust ts rt hs g)
  then show ?case by (intro debounce_inv_evaluate)
next
  case (dispatched s e event now now_ms es outcome ts rt hs)
  have m: "match_recorded (wr_ledger (sy_runtime s)) k t \<and> k \<noteq> entry_key e"
    if "match_recorded (wr_ledger rt) k t" for k t
    using that finish_ledger [OF dispatched.hyps(2)] dispatched.prems(1) match_recorded_fired
    unfolding queue_inv_def by metis
  show ?case
  proof (rule debounce_invI, goal_cases)
    case (2 k t)
    with m [of k t] debounce_invD [OF dispatched.prems(2), of k t] dispatched.hyps(1) show ?case by auto
  qed (use dispatched in \<open>simp add: debounce_inv_def\<close>)
qed (auto simp: debounce_inv_def set_framework_fire_handler_def)

interpretation watches: invariant_system watch_start "watch_step env" watch_inv for env
  by unfold_locales
     (auto simp: watch_inv_def intro: queue_inv_start cooldown_inv_start debounce_inv_start
       queue_inv_step cooldown_inv_step debounce_inv_step)

section \<open>Fires\<close>

text \<open>(C29) When watches fire, in every interleaving of the loop with callers that schedule and cancel:
  a level-triggered watch does not fire within the cooldown of its fire before (unless it was
  scheduled or cancelled in between); and a watch with a minimum duration fires only while the
  clock is trusted, and only if every evaluation of it since some evaluation at least that
  duration ago has matched, with no fire, cancellation or scheduling in between.
\<close>

theorem watch_fires_sound:
  assumes "watch_start s" "(watch_step env)\<^sup>*\<^sup>* s t"
  shows "spaced (sy_log t) \<and> debounced (sy_log t)"
  using watches.reachable_inv [OF assms]
  by (simp add: watch_inv_def cooldown_inv_def debounce_inv_def)

section \<open>Quotas\<close>

definition ledger_le :: "'v watch_system \<Rightarrow> 'v watch_system \<Rightarrow> bool" where
  "ledger_le s t \<longleftrightarrow>
     dom (hm_get (wl_entries (wr_ledger (sy_runtime s)))) \<subseteq>
       dom (hm_get (wl_entries (wr_ledger (sy_runtime t)))) \<and>
     wl_max_total (wr_ledger (sy_runtime t)) = wl_max_total (wr_ledger (sy_runtime s)) \<and>
     wl_max_per_creator (wr_ledger (sy_runtime t)) = wl_max_per_creator (wr_ledger (sy_runtime s))"

lemma update_entry_caps [simp]:
  "wl_max_total (update_entry k f l) = wl_max_total l"
  "wl_max_per_creator (update_entry k f l) = wl_max_per_creator l"
  "dom (hm_get (wl_entries (update_entry k f l))) = dom (hm_get (wl_entries l))"
  by (auto simp: update_entry_def dom_def split: option.splits)

lemma gate_ledger_caps [simp]:
  "wl_max_total (gate_ledger g e ms l) = wl_max_total l"
  "wl_max_per_creator (gate_ledger g e ms l) = wl_max_per_creator l"
  "dom (hm_get (wl_entries (gate_ledger g e ms l))) = dom (hm_get (wl_entries l))"
  by (simp_all add: gate_ledger_def note_match_entered_def note_match_exited_def)

lemma schedule_caps:
  "wl_max_total (fst (ledger_schedule c spec a l)) = wl_max_total l"
  "wl_max_per_creator (fst (ledger_schedule c spec a l)) = wl_max_per_creator l"
  by (simp_all add: ledger_schedule_def Let_def split: sum.split)

lemma ledger_le_step: "watch_step env s t \<Longrightarrow> ledger_le s t"
proof (induction rule: watch_step.induct)
  case (schedule creator spec action s rt res)
  show ?case
    using schedule_ledger [OF schedule] by (auto simp: ledger_le_def schedule_caps schedule_get dom_def)
next
  case (cancel key cancelled_by ts s rt hs did)
  show ?case
    using cancel_ledger [OF cancel] by (simp add: ledger_le_def ledger_cancel_def)
next
  case (evaluate s event now now_ms e es trust ts rt hs g)
  show ?case using gate_frame(1) [OF evaluate(2)] by (simp add: ledger_le_def)
next
  case (dispatched s e event now now_ms es outcome ts rt hs)
  show ?case using finish_ledger [OF dispatched(2)] by (simp add: ledger_le_def mark_fired_def)
qed (simp_all add: ledger_le_def set_framework_fire_handler_def)

interpretation watch_keys: monotone_system watch_start "watch_step env" watch_inv ledger_le for env
proof (unfold_locales, goal_cases)
  case (2 r s t)
  then show ?case unfolding ledger_le_def by auto
qed (simp_all add: ledger_le_def [of s s for s] ledger_le_step)

lemma schedule_refused:
  assumes "spec_ok (wl_max_composite_depth l) spec" "ledger_inv l"
    "hm_get (wl_entries l) (creator, ws_watch_id spec) = None"
  shows "snd (ledger_schedule creator spec action l) =
    (if length (wl_entries l) = unat (wl_max_total l)
     then Inl (WE_QuotaExceeded QS_Total (wl_max_total l))
     else if length (keys_of_creator creator l) = unat (wl_max_per_creator l)
     then Inl (WE_QuotaExceeded (QS_PerCreator creator) (wl_max_per_creator l))
     else Inr ())"
proof -
  have quota: "of_nat n \<ge> m \<longleftrightarrow> n = unat m" if "n \<le> unat m" for n and m :: u32
    using that unsigned_less [of m, where ?'a = nat]
    by (auto simp: word_le_nat_alt unat_of_nat take_bit_eq_mod)
  have split: "(\<lambda>(c, _). c = creator) = (\<lambda>k. fst k = creator)" by auto
  have "validate_spec spec (wl_max_composite_depth l) = Inr ()"
    using assms by (simp add: validate_spec_ok ledger_inv_def)
  then show ?thesis
    using assms quota [of "length (wl_entries l)" "wl_max_total l"]
      quota [of "length (keys_of_creator creator l)" "wl_max_per_creator l"]
    by (simp add: ledger_schedule_def ledger_inv_def Let_def split
        keys_of_creator_def [of creator l, symmetric])
qed

lemma keys_of_creator_mono:
  assumes "ledger_inv l" "ledger_inv l'"
    "dom (hm_get (wl_entries l)) \<subseteq> dom (hm_get (wl_entries l'))"
  shows "length (keys_of_creator c l) \<le> length (keys_of_creator c l')"
proof -
  have "distinct (keys_of_creator c l)" "distinct (keys_of_creator c l')"
    using assms(1,2) by (simp_all add: ledger_inv_def keys_of_creator_def)
  moreover have "set (keys_of_creator c l) \<subseteq> set (keys_of_creator c l')"
    using assms(3) by (auto simp: keys_of_creator_def)
  ultimately show ?thesis by (metis card_mono distinct_card finite_set)
qed

text \<open>(C33) The quotas of watches. In every reachable state the ledger holds no more watches than the
  framework's cap and no more of one creator than the creator's cap, each under its own key and
  with a validated specification. No step ever removes an entry, a cancellation included: a
  creator that has used up its cap is refused every new watch in every later state.
\<close>

theorem watch_quotas:
  assumes "watch_start s" "(watch_step env)\<^sup>*\<^sup>* s t" "(watch_step env)\<^sup>*\<^sup>* t u"
  shows "ledger_inv (wr_ledger (sy_runtime t)) \<and>
         (length (keys_of_creator c (wr_ledger (sy_runtime t))) =
            unat (wl_max_per_creator (wr_ledger (sy_runtime t))) \<longrightarrow>
          spec_ok (wl_max_composite_depth (wr_ledger (sy_runtime u))) spec \<longrightarrow>
          hm_get (wl_entries (wr_ledger (sy_runtime u))) (c, ws_watch_id spec) = None \<longrightarrow>
          (\<exists>scope limit. snd (ledger_schedule c spec action (wr_ledger (sy_runtime u))) =
             Inl (WE_QuotaExceeded scope limit)))"
proof (intro conjI impI)
  let ?l = "wr_ledger (sy_runtime t)" and ?l' = "wr_ledger (sy_runtime u)"
  have inv: "watch_inv t" "watch_inv u"
    using watches.reachable_inv [OF assms(1,2)] watches.run_inv [OF assms(3)] by simp_all
  then show l: "ledger_inv ?l" by (simp add: watch_inv_def queue_inv_def)
  have l': "ledger_inv ?l'" using inv by (simp add: watch_inv_def queue_inv_def)
  have le: "dom (hm_get (wl_entries ?l)) \<subseteq> dom (hm_get (wl_entries ?l'))"
    "wl_max_per_creator ?l' = wl_max_per_creator ?l"
    using watch_keys.run_le [OF assms(3) inv(1)] unfolding ledger_le_def by auto
  have "length (keys_of_creator c ?l') \<le> unat (wl_max_per_creator ?l')"
    using l' unfolding ledger_inv_def by blast
  moreover assume "length (keys_of_creator c ?l) = unat (wl_max_per_creator ?l)"
  ultimately have "length (keys_of_creator c ?l') = unat (wl_max_per_creator ?l')"
    using keys_of_creator_mono [OF l l' le(1), of c] le(2) by simp
  moreover assume "spec_ok (wl_max_composite_depth ?l') spec"
    "hm_get (wl_entries ?l') (c, ws_watch_id spec) = None"
  ultimately show "\<exists>scope limit. snd (ledger_schedule c spec action ?l') =
      Inl (WE_QuotaExceeded scope limit)"
    by (simp add: schedule_refused [OF _ l'])
qed

section \<open>A concrete run\<close>

text \<open>One creator with room for one watch; its watch is scheduled, fires and is cancelled.\<close>

definition watch_boot :: "unit watch_system" where
  "watch_boot = \<lparr>sy_runtime = start_runtime (with_max_per_creator 1 new_watch_ledger),
     sy_loop = Loop_Idle, sy_clock = 0, sy_log = []\<rparr>"

definition watch_scheduled :: "unit watch_system" where
  "watch_scheduled = watch_boot\<lparr>
     sy_runtime := fst (runtime_schedule ''p'' (no_merge_spec (Trig_Level 1000)) fan_on
       (sy_runtime watch_boot)), sy_log := [Lg_Scheduled (''p'', ''w'')]\<rparr>"

definition watch_received :: "unit watch_system" where
  "watch_received = watch_scheduled\<lparr>sy_clock := 0,
     sy_loop := Loop_Evaluating forgotten 0 7 (ledger_active (wr_ledger (sy_runtime watch_scheduled)))\<rparr>"

definition watch_deciding :: "unit watch_system" where
  "watch_deciding = watch_received\<lparr>
     sy_runtime := fst (evaluate_gate null_env (TT_Trusted 0) 0 merge_watch forgotten 0 7
       (sy_runtime watch_received)),
     sy_loop := Loop_Dispatching merge_watch forgotten 0 7 [],
     sy_log := [Lg_Fired merge_watch 0 7 (TT_Trusted 0), Lg_Evaluated (''p'', ''w'') 7 True,
       Lg_Scheduled (''p'', ''w'')]\<rparr>"

lemma watch_boot_start: "watch_start watch_boot"
  by (simp add: watch_start_def watch_boot_def start_runtime_def with_max_per_creator_def
      new_watch_ledger_def DEFAULT_MAX_COMPOSITE_DEPTH_def)

lemma watch_scheduled_result:
  "runtime_schedule ''p'' (no_merge_spec (Trig_Level 1000)) fan_on (sy_runtime watch_boot) =
     (\<lparr>wr_ledger = (with_max_per_creator 1 new_watch_ledger)
         \<lparr>wl_entries := [((''p'', ''w''), merge_watch)]\<rparr>,
       wr_evaluator_state = [],
       wr_max_evaluations_per_second = DEFAULT_MAX_EVALUATIONS_PER_SECOND_PER_WATCH,
       wr_framework_handler = False\<rparr>, Inr ())"
proof -
  have "validate_spec (no_merge_spec (Trig_Level 1000)) 8 = Inr ()"
    using no_merge_ok by (simp add: validate_spec_ok)
  moreover have "ws_watch_id (no_merge_spec (Trig_Level 1000)) = ''w''"
    by (simp add: no_merge_spec_def)
  ultimately show ?thesis
    by (simp add: watch_boot_def runtime_schedule_def ledger_schedule_def start_runtime_def
        with_max_per_creator_def new_watch_ledger_def DEFAULT_MAX_COMPOSITE_DEPTH_def
        DEFAULT_MAX_WATCHES_TOTAL_def hm_keys_def hm_insert_def drop_evaluator_def hm_remove_def
        merge_watch_def)
qed

lemma watch_step_scheduled: "watch_step null_env watch_boot watch_scheduled"
  using watch_step.schedule [OF watch_scheduled_result, of null_env]
  by (simp add: watch_scheduled_def watch_scheduled_result) (simp add: watch_boot_def no_merge_spec_def)

lemma merge_watch_key: "entry_key merge_watch = (''p'', ''w'')"
  by (simp add: merge_watch_def entry_key_def fresh_entry_def no_merge_spec_def)

lemma watch_step_received: "watch_step null_env watch_scheduled watch_received"
  using watch_step.receive [of watch_scheduled forgotten 0 null_env 7]
  by (simp add: watch_received_def) (simp add: watch_scheduled_def watch_boot_def forgotten_def)

lemma watch_step_deciding: "watch_step null_env watch_received watch_deciding"
proof -
  have due: "watch_due null_env (TT_Trusted 0) forgotten 0 7 (sy_runtime watch_received) merge_watch"
    using merge_watch_due [of "TT_Trusted 0" 7]
    by (simp add: watch_due_def cooldown_of_def evaluator_of_def watch_received_def
        watch_scheduled_def watch_scheduled_result single_watch_def start_runtime_def)
  have own: "hm_get (wl_entries (wr_ledger (sy_runtime watch_received))) (entry_key merge_watch) =
      Some merge_watch"
    by (simp add: watch_received_def watch_scheduled_def watch_scheduled_result merge_watch_key hm_get_def)
  obtain rt hs g where g: "evaluate_gate null_env (TT_Trusted 0) 0 merge_watch forgotten 0 7
      (sy_runtime watch_received) = (rt, hs, g)"
    by (metis prod_cases3)
  then have "evaluate_gate null_env (TT_Trusted 0) 0 merge_watch forgotten 0 7
      (sy_runtime watch_received) = (rt, hs, G_Fire)"
    using due_gate [OF g own] due by simp
  moreover have "sy_loop watch_received = Loop_Evaluating forgotten 0 7 [merge_watch]"
    by (simp add: watch_received_def watch_scheduled_def watch_scheduled_result ledger_active_def)
       (simp add: merge_watch_def fresh_entry_def)
  moreover have "sy_log watch_received = [Lg_Scheduled (''p'', ''w'')]"
    by (simp add: watch_received_def watch_scheduled_def)
  ultimately show ?thesis
    using watch_step.evaluate [of watch_received forgotten 0 7 merge_watch "[]" null_env
        "TT_Trusted 0" 0 rt hs G_Fire]
    by (simp add: watch_deciding_def gate_log_def merge_watch_key)
qed

lemma watch_run_scheduled: "(watch_step null_env)\<^sup>*\<^sup>* watch_boot watch_scheduled"
  by (rule r_into_rtranclp) (rule watch_step_scheduled)

lemma watch_run_received: "(watch_step null_env)\<^sup>*\<^sup>* watch_scheduled watch_received"
  by (rule r_into_rtranclp) (rule watch_step_received)

lemma watch_run_deciding: "(watch_step null_env)\<^sup>*\<^sup>* watch_boot watch_deciding"
  by (rule rtranclp.rtrancl_into_rtrancl [OF rtranclp_trans])
     (rule watch_run_scheduled watch_run_received watch_step_deciding)+

theorem watch_fires_sound_witness:
  "spaced (sy_log watch_deciding) \<and> debounced (sy_log watch_deciding) \<and>
   Lg_Fired merge_watch 0 7 (TT_Trusted 0) \<in> set (sy_log watch_deciding)"
proof -
  have "Lg_Fired merge_watch 0 7 (TT_Trusted 0) \<in> set (sy_log watch_deciding)"
    by (simp add: watch_deciding_def)
  with watch_fires_sound [OF watch_boot_start watch_run_deciding] show ?thesis by blast
qed

definition other_spec :: "unit watch_spec" where
  "other_spec = (no_merge_spec Trig_Edge)\<lparr>ws_watch_id := ''v''\<rparr>"

theorem watch_quotas_witness:
  "\<exists>scope limit. snd (ledger_schedule ''p'' other_spec fan_on
     (wr_ledger (sy_runtime watch_received))) = Inl (WE_QuotaExceeded scope limit)"
proof -
  let ?l = "wr_ledger (sy_runtime watch_scheduled)" and ?l' = "wr_ledger (sy_runtime watch_received)"
  have l: "?l = (with_max_per_creator 1 new_watch_ledger)
      \<lparr>wl_entries := [((''p'', ''w''), merge_watch)]\<rparr>" "?l' = ?l"
    by (simp_all add: watch_received_def watch_scheduled_def watch_scheduled_result)
  have "length (keys_of_creator ''p'' ?l) = unat (wl_max_per_creator ?l)"
    by (simp add: l keys_of_creator_def hm_keys_def with_max_per_creator_def)
  moreover have "spec_ok (wl_max_composite_depth ?l') other_spec"
    by (simp add: l spec_ok_def other_spec_def no_merge_spec_def with_max_per_creator_def
        new_watch_ledger_def DEFAULT_MAX_COMPOSITE_DEPTH_def)
  moreover have "hm_get (wl_entries ?l') (''p'', ws_watch_id other_spec) = None"
    by (simp add: l other_spec_def hm_get_def)
  ultimately show ?thesis
    using watch_quotas [OF watch_boot_start watch_run_scheduled watch_run_received,
        of "''p''" other_spec fan_on]
    by blast
qed

end
