(* ===== verification/Appointments.thy ===== *)
theory Appointments
  imports Watch_Laws
begin

text \<open>
  Appointments (\<open>crates/evo/src/appointments.rs\<close>, with the specification types of the SDK,
  \<open>contract/context.rs\<close>): when a recurrence fires next, the ledger of appointments, and the runtime
  that fires the due ones, re-evaluates them when the clock is stepped, mirrors them in the store
  and restores them at boot.

  The calendar library is the record \<open>calendar\<close>: dates \<open>'d\<close>, times of day \<open>'t\<close>, their parsers and the
  conversions to milliseconds. The JSON codec of the stored rows is the record \<open>appointment_codec\<close>.
  An \<open>Instant\<close> is a number of nanoseconds; a pair \<open>(now_ms, instant)\<close> is one reading of both clocks.
  The store is the in-memory one; each write is told whether it succeeds, and a failed write is only
  logged by the code.
\<close>

section \<open>Specifications\<close>

datatype day_of_week = Mon | Tue | Wed | Thu | Fri | Sat | Sun

datatype appointment_recurrence =
    R_OneShot u64
  | R_Daily
  | R_Weekdays
  | R_Weekends
  | R_Weekly "day_of_week list"
  | R_Monthly "8 word"
  | R_Yearly "8 word" "8 word"
  | R_Cron string
  | R_Periodic u64

datatype appointment_time_zone = Z_Utc | Z_Local | Z_Anchored string

datatype appointment_miss_policy = M_Drop | M_Catchup | M_CatchupWithinGrace u64

record appointment_spec =
  as_appointment_id :: string
  as_time :: "string option"
  as_zone :: appointment_time_zone
  as_recurrence :: appointment_recurrence
  as_end_time_ms :: "u64 option"
  as_max_fires :: "u32 option"
  as_except :: "string list"
  as_miss_policy :: appointment_miss_policy
  as_pre_fire_ms :: "u32 option"
  as_must_wake_device :: bool
  as_wake_pre_arm_ms :: "u32 option"

datatype appointment_state = A_Pending | A_Approaching | A_Firing | A_Fired | A_Cancelled

record 'v appointment_action =
  aa_target_shelf :: string
  aa_request_type :: string
  aa_payload :: 'v

section \<open>The calendar\<close>

datatype local_result = LR_None | LR_Single u64 | LR_Ambiguous u64 u64

text \<open>\<open>cal_instant\<close> is \<open>DateTime::from_timestamp_millis\<close> of a \<open>u64\<close> cast to \<open>i64\<close>, by its dates in
  UTC and in the local zone; \<open>cal_utc_ms\<close> and \<open>cal_local_ms\<close> are the way back, the timestamp cast to
  \<open>u64\<close>.\<close>

record ('d, 't) calendar =
  cal_parse_time :: "string \<Rightarrow> string \<Rightarrow> 't option"
  cal_parse_date :: "string \<Rightarrow> string \<Rightarrow> 'd option"
  cal_instant :: "u64 \<Rightarrow> ('d \<times> 'd) option"
  cal_add_days :: "'d \<Rightarrow> nat \<Rightarrow> 'd option"
  cal_utc_ms :: "'d \<Rightarrow> 't \<Rightarrow> u64"
  cal_local_ms :: "'d \<Rightarrow> 't \<Rightarrow> local_result"
  cal_weekday :: "'d \<Rightarrow> day_of_week"
  cal_day :: "'d \<Rightarrow> u32"
  cal_month :: "'d \<Rightarrow> u32"

section \<open>Recurrence\<close>

datatype recurrence_error =
    RE_InvalidTimeOfDay string
  | RE_InvalidDayOfMonth "8 word"
  | RE_InvalidYearlyDate "8 word" "8 word"
  | RE_EmptyWeeklyDays
  | RE_InvalidExceptDate string
  | RE_AnchoredZoneNotSupported string
  | RE_CronNotSupported string
  | RE_InvalidPeriodicInterval u64

definition parse_time_of_day ::
    "('d, 't) calendar \<Rightarrow> string option \<Rightarrow> recurrence_error + 't" where
  "parse_time_of_day cal raw =
     (case raw of
        None \<Rightarrow> Inl (RE_InvalidTimeOfDay ''<none>'')
      | Some s \<Rightarrow>
          (case cal_parse_time cal ''%H:%M'' s of
             Some t \<Rightarrow> Inr t
           | None \<Rightarrow> (case cal_parse_time cal ''%H:%M:%S'' s of
                        Some t \<Rightarrow> Inr t | None \<Rightarrow> Inl (RE_InvalidTimeOfDay s))))"

fun parse_except_dates ::
    "('d, 't) calendar \<Rightarrow> string list \<Rightarrow> recurrence_error + 'd list" where
  "parse_except_dates cal [] = Inr []"
| "parse_except_dates cal (s # ss) =
     (case cal_parse_date cal ''%Y-%m-%d'' s of
        None \<Rightarrow> Inl (RE_InvalidExceptDate s)
      | Some d \<Rightarrow> (case parse_except_dates cal ss of Inl e \<Rightarrow> Inl e | Inr ds \<Rightarrow> Inr (d # ds)))"

text \<open>\<open>weekday_matches\<close> compares the two enumerations of weekdays, here one type.\<close>

fun day_matches_recurrence ::
    "('d, 't) calendar \<Rightarrow> appointment_recurrence \<Rightarrow> 'd \<Rightarrow> bool" where
  "day_matches_recurrence cal R_Weekdays d \<longleftrightarrow> cal_weekday cal d \<notin> {Sat, Sun}"
| "day_matches_recurrence cal R_Weekends d \<longleftrightarrow> cal_weekday cal d \<in> {Sat, Sun}"
| "day_matches_recurrence cal (R_Weekly days) d \<longleftrightarrow> cal_weekday cal d \<in> set days"
| "day_matches_recurrence cal (R_Monthly day_of_month) d \<longleftrightarrow>
     cal_day cal d = ucast day_of_month"
| "day_matches_recurrence cal (R_Yearly month day) d \<longleftrightarrow>
     cal_month cal d = ucast month \<and> cal_day cal d = ucast day"
| "day_matches_recurrence cal _ d \<longleftrightarrow> True"

definition check_recurrence :: "appointment_recurrence \<Rightarrow> recurrence_error + unit" where
  "check_recurrence r =
     (case r of
        R_Weekly days \<Rightarrow> if days = [] then Inl RE_EmptyWeeklyDays else Inr ()
      | R_Monthly d \<Rightarrow> if 1 \<le> d \<and> d \<le> 31 then Inr () else Inl (RE_InvalidDayOfMonth d)
      | R_Yearly m d \<Rightarrow>
          if 1 \<le> m \<and> m \<le> 12 \<and> 1 \<le> d \<and> d \<le> 31 then Inr () else Inl (RE_InvalidYearlyDate m d)
      | _ \<Rightarrow> Inr ())"

definition MAX_LOOKAHEAD_DAYS :: nat where
  "MAX_LOOKAHEAD_DAYS = 367"

text \<open>One turn of the lookahead loop: \<open>None\<close> is \<open>continue\<close>.\<close>

definition try_day ::
    "('d, 't) calendar \<Rightarrow> appointment_recurrence \<Rightarrow> appointment_time_zone \<Rightarrow> 't \<Rightarrow> 'd list
       \<Rightarrow> u64 \<Rightarrow> 'd \<times> 'd \<Rightarrow> nat \<Rightarrow> u64 option" where
  "try_day cal r zone time except now_ms dates offset_days =
     Option.bind (cal_add_days cal (if zone = Z_Utc then fst dates else snd dates) offset_days)
       (\<lambda>d. Option.bind
          (if zone = Z_Utc then Some (cal_utc_ms cal d time)
           else case cal_local_ms cal d time of
                  LR_Single ms \<Rightarrow> Some ms | LR_Ambiguous ms _ \<Rightarrow> Some ms | LR_None \<Rightarrow> None)
          (\<lambda>ms. if ms \<le> now_ms \<or> d \<in> set except \<or> \<not> day_matches_recurrence cal r d
                then None else Some ms))"

fun first_some :: "('a \<Rightarrow> 'b option) \<Rightarrow> 'a list \<Rightarrow> 'b option" where
  "first_some f [] = None"
| "first_some f (x # xs) = (case f x of Some y \<Rightarrow> Some y | None \<Rightarrow> first_some f xs)"

definition next_periodic_fire ::
    "('d, 't) calendar \<Rightarrow> appointment_recurrence \<Rightarrow> appointment_time_zone \<Rightarrow> 't \<Rightarrow> 'd list
       \<Rightarrow> u64 \<Rightarrow> recurrence_error + u64 option" where
  "next_periodic_fire cal r zone time except now_ms =
     (case check_recurrence r of
        Inl e \<Rightarrow> Inl e
      | Inr _ \<Rightarrow>
          (case cal_instant cal now_ms of
             None \<Rightarrow> Inl (RE_InvalidTimeOfDay ''<now-overflow>'')
           | Some dates \<Rightarrow>
               (case zone of
                  Z_Anchored name \<Rightarrow> Inl (RE_AnchoredZoneNotSupported name)
                | _ \<Rightarrow> Inr (first_some (try_day cal r zone time except now_ms dates)
                              [0..<MAX_LOOKAHEAD_DAYS]))))"

text \<open>\<open>saturating_add\<close> on \<open>u64\<close>.\<close>

definition sat_add :: "u64 \<Rightarrow> u64 \<Rightarrow> u64" where
  "sat_add x y = (if x \<le> - 1 - y then x + y else - 1)"

definition next_candidate ::
    "('d, 't) calendar \<Rightarrow> appointment_spec \<Rightarrow> u64 \<Rightarrow> u32 \<Rightarrow> recurrence_error + u64 option" where
  "next_candidate cal spec now_ms fires_completed =
     (case as_recurrence spec of
        R_OneShot fire_at_ms \<Rightarrow> if fires_completed > 0 then Inr None else Inr (Some fire_at_ms)
      | R_Cron expr \<Rightarrow> Inl (RE_CronNotSupported expr)
      | R_Periodic interval_ms \<Rightarrow>
          if interval_ms = 0 then Inl (RE_InvalidPeriodicInterval 0)
          else Inr (Some (sat_add now_ms interval_ms))
      | r \<Rightarrow>
          (case parse_time_of_day cal (as_time spec) of
             Inl e \<Rightarrow> Inl e
           | Inr time \<Rightarrow>
               (case parse_except_dates cal (as_except spec) of
                  Inl e \<Rightarrow> Inl e
                | Inr except \<Rightarrow> next_periodic_fire cal r (as_zone spec) time except now_ms)))"

definition next_fire_after ::
    "('d, 't) calendar \<Rightarrow> appointment_spec \<Rightarrow> u64 \<Rightarrow> u32 \<Rightarrow> recurrence_error + u64 option" where
  "next_fire_after cal spec now_ms fires_completed =
     (if (case as_max_fires spec of None \<Rightarrow> False | Some cap \<Rightarrow> fires_completed \<ge> cap) then Inr None
      else case next_candidate cal spec now_ms fires_completed of
        Inl e \<Rightarrow> Inl e
      | Inr candidate \<Rightarrow>
          (case (candidate, as_end_time_ms spec) of
             (Some c, Some end_ms) \<Rightarrow> if c > end_ms then Inr None else Inr candidate
           | _ \<Rightarrow> Inr candidate))"

section \<open>The ledger\<close>

definition APPOINTMENT_SCHEME :: string where
  "APPOINTMENT_SCHEME = ''evo-appointment''"

definition appointment_addressing_value :: "string \<Rightarrow> string \<Rightarrow> string" where
  "appointment_addressing_value creator appointment_id = creator @ ''/'' @ appointment_id"

record 'v appointment_entry =
  ap_creator :: string
  ap_spec :: appointment_spec
  ap_action :: "'v appointment_action"
  ap_state :: appointment_state
  ap_next_fire :: "nat option"
  ap_last_fired_at_ms :: "u64 option"
  ap_fires_completed :: u32

record 'v appointment_ledger =
  al_entries :: "(string \<times> string, 'v appointment_entry) hmap"
  al_max_total :: u32
  al_max_per_creator :: u32

definition DEFAULT_MAX_APPOINTMENTS_PER_CREATOR :: u32 where
  "DEFAULT_MAX_APPOINTMENTS_PER_CREATOR = 1000"

definition DEFAULT_MAX_APPOINTMENTS_TOTAL :: u32 where
  "DEFAULT_MAX_APPOINTMENTS_TOTAL = 10000"

definition new_appointment_ledger :: "'v appointment_ledger" where
  "new_appointment_ledger = \<lparr>al_entries = [], al_max_total = DEFAULT_MAX_APPOINTMENTS_TOTAL,
     al_max_per_creator = DEFAULT_MAX_APPOINTMENTS_PER_CREATOR\<rparr>"

definition al_with_max_total :: "u32 \<Rightarrow> 'v appointment_ledger \<Rightarrow> 'v appointment_ledger" where
  "al_with_max_total limit l = l\<lparr>al_max_total := limit\<rparr>"

definition al_with_max_per_creator :: "u32 \<Rightarrow> 'v appointment_ledger \<Rightarrow> 'v appointment_ledger" where
  "al_with_max_per_creator limit l = l\<lparr>al_max_per_creator := limit\<rparr>"

text \<open>The ledgers of watches and of appointments name the same two quotas.\<close>

datatype appointment_schedule_error = AE_QuotaExceeded quota_scope u32

definition fresh_appointment ::
    "string \<Rightarrow> appointment_spec \<Rightarrow> 'v appointment_action \<Rightarrow> nat option
       \<Rightarrow> 'v appointment_entry" where
  "fresh_appointment creator spec action next_fire =
     \<lparr>ap_creator = creator, ap_spec = spec, ap_action = action, ap_state = A_Pending,
      ap_next_fire = next_fire, ap_last_fired_at_ms = None, ap_fires_completed = 0\<rparr>"

definition al_schedule ::
    "string \<Rightarrow> appointment_spec \<Rightarrow> 'v appointment_action \<Rightarrow> nat option
       \<Rightarrow> 'v appointment_ledger \<Rightarrow> 'v appointment_ledger \<times> (appointment_schedule_error + unit)" where
  "al_schedule creator spec action next_fire l =
     (let key = (creator, as_appointment_id spec);
          inserted = l\<lparr>al_entries :=
            hm_insert key (fresh_appointment creator spec action next_fire) (al_entries l)\<rparr>
      in if hm_contains (al_entries l) key then (inserted, Inr ())
         else if of_nat (length (al_entries l)) \<ge> al_max_total l
         then (l, Inl (AE_QuotaExceeded QS_Total (al_max_total l)))
         else if of_nat (length (filter (\<lambda>(c, _). c = creator) (hm_keys (al_entries l))))
                   \<ge> al_max_per_creator l
         then (l, Inl (AE_QuotaExceeded (QS_PerCreator creator) (al_max_per_creator l)))
         else (inserted, Inr ()))"

text \<open>The update of an entry that is known and not cancelled, and whether there was one.\<close>

definition al_update ::
    "string \<times> string \<Rightarrow> ('v appointment_entry \<Rightarrow> 'v appointment_entry)
       \<Rightarrow> 'v appointment_ledger \<Rightarrow> 'v appointment_ledger \<times> bool" where
  "al_update key f l =
     (case hm_get (al_entries l) key of
        None \<Rightarrow> (l, False)
      | Some e \<Rightarrow> if ap_state e = A_Cancelled then (l, False)
                  else (l\<lparr>al_entries := hm_insert key (f e) (al_entries l)\<rparr>, True))"

definition al_cancel ::
    "string \<times> string \<Rightarrow> 'v appointment_ledger \<Rightarrow> 'v appointment_ledger \<times> bool" where
  "al_cancel key = al_update key (\<lambda>e. e\<lparr>ap_state := A_Cancelled, ap_next_fire := None\<rparr>)"

definition al_lookup ::
    "string \<times> string \<Rightarrow> 'v appointment_ledger \<Rightarrow> 'v appointment_entry option" where
  "al_lookup key l = hm_get (al_entries l) key"

definition al_mark_fired ::
    "string \<times> string \<Rightarrow> u64 \<Rightarrow> nat option \<Rightarrow> 'v appointment_ledger
       \<Rightarrow> 'v appointment_ledger \<times> bool" where
  "al_mark_fired key fired_at_ms next_fire =
     al_update key (\<lambda>e. e\<lparr>ap_fires_completed := sat_inc (ap_fires_completed e),
       ap_last_fired_at_ms := Some fired_at_ms, ap_next_fire := next_fire,
       ap_state := (case next_fire of Some _ \<Rightarrow> A_Pending | None \<Rightarrow> A_Fired)\<rparr>)"

definition al_pending :: "'v appointment_ledger \<Rightarrow> 'v appointment_entry list" where
  "al_pending l = filter (\<lambda>e. ap_state e = A_Pending) (map snd (al_entries l))"

definition al_all_entries :: "'v appointment_ledger \<Rightarrow> 'v appointment_entry list" where
  "al_all_entries l = map snd (al_entries l)"

section \<open>Stored rows\<close>

datatype persisted_appointment_state = PA_Pending | PA_Fired | PA_Cancelled | PA_Terminal

record persisted_appointment =
  pa_creator :: string
  pa_appointment_id :: string
  pa_spec_json :: string
  pa_action_json :: string
  pa_state :: persisted_appointment_state
  pa_next_fire_at_ms :: "u64 option"
  pa_last_fired_at_ms :: "u64 option"
  pa_fires_completed :: u32
  pa_created_at_ms :: u64
  pa_updated_at_ms :: u64

type_synonym appointment_rows = "(string \<times> string, persisted_appointment) hmap"

definition record_appointment :: "persisted_appointment \<Rightarrow> appointment_rows \<Rightarrow> appointment_rows" where
  "record_appointment row = hm_insert (pa_creator row, pa_appointment_id row) row"

definition update_appointment_after_fire ::
    "string \<times> string \<Rightarrow> u64 option \<Rightarrow> u64 \<Rightarrow> u32 \<Rightarrow> persisted_appointment_state \<Rightarrow> u64
       \<Rightarrow> appointment_rows \<Rightarrow> appointment_rows" where
  "update_appointment_after_fire key next_ms last_ms fires state now_ms rows =
     (case hm_get rows key of
        None \<Rightarrow> rows
      | Some row \<Rightarrow> hm_insert key (row\<lparr>pa_state := state, pa_next_fire_at_ms := next_ms,
          pa_last_fired_at_ms := Some last_ms, pa_fires_completed := fires,
          pa_updated_at_ms := now_ms\<rparr>) rows)"

definition forget_appointment :: "string \<times> string \<Rightarrow> appointment_rows \<Rightarrow> appointment_rows" where
  "forget_appointment key rows = hm_remove key rows"

definition list_pending_appointments :: "appointment_rows \<Rightarrow> persisted_appointment list" where
  "list_pending_appointments rows =
     sort_key pa_created_at_ms (filter (\<lambda>row. pa_state row = PA_Pending) (map snd rows))"

record 'v appointment_codec =
  ac_spec_json :: "appointment_spec \<Rightarrow> string"
  ac_action_json :: "'v appointment_action \<Rightarrow> string"
  ac_spec_of_json :: "string \<Rightarrow> appointment_spec option"
  ac_action_of_json :: "string \<Rightarrow> 'v appointment_action option"

definition persisted_appointment_row ::
    "'v appointment_codec \<Rightarrow> string \<Rightarrow> appointment_spec \<Rightarrow> 'v appointment_action \<Rightarrow> u64 option
       \<Rightarrow> u64 \<Rightarrow> persisted_appointment" where
  "persisted_appointment_row codec creator spec action next_ms now_ms =
     \<lparr>pa_creator = creator, pa_appointment_id = as_appointment_id spec,
      pa_spec_json = ac_spec_json codec spec, pa_action_json = ac_action_json codec action,
      pa_state = PA_Pending, pa_next_fire_at_ms = next_ms, pa_last_fired_at_ms = None,
      pa_fires_completed = 0, pa_created_at_ms = now_ms, pa_updated_at_ms = now_ms\<rparr>"

section \<open>The runtime\<close>

text \<open>\<open>ar_rows\<close> is \<open>None\<close> without persistence; \<open>ar_wake\<close> is \<open>None\<close> without a wake callback, else what was
  last programmed.\<close>

record 'v appointment_runtime =
  ar_ledger :: "'v appointment_ledger"
  ar_rows :: "appointment_rows option"
  ar_wake :: "u64 option option"
  ar_framework_handler :: bool

definition set_appointment_handler :: "bool \<Rightarrow> 'v appointment_runtime \<Rightarrow> 'v appointment_runtime" where
  "set_appointment_handler installed rt = rt\<lparr>ar_framework_handler := installed\<rparr>"

type_synonym clocks = "u64 \<times> nat"

definition ms_to_instant :: "u64 \<Rightarrow> u64 \<Rightarrow> nat \<Rightarrow> nat" where
  "ms_to_instant target_ms now_ms instant =
     (if target_ms \<le> now_ms then instant else instant + millis (target_ms - now_ms))"

text \<open>A distance of whole milliseconds that does not fit a \<open>u64\<close> gives \<open>None\<close>.\<close>

definition instant_to_ms :: "nat \<Rightarrow> u64 \<Rightarrow> nat \<Rightarrow> u64 option" where
  "instant_to_ms target now_ms instant =
     (if instant \<le> target
      then (let d = (target - instant) div 1000000
            in if d < 2 ^ 64 then Some (sat_add now_ms (of_nat d)) else None)
      else (let d = (instant - target) div 1000000
            in if d < 2 ^ 64 then Some (sat_sub now_ms (of_nat d)) else None))"

definition wake_at :: "clocks \<Rightarrow> 'v appointment_entry \<Rightarrow> u64 option" where
  "wake_at clk e =
     (if \<not> as_must_wake_device (ap_spec e) then None
      else map_option
        (\<lambda>ms. sat_sub ms (case as_wake_pre_arm_ms (ap_spec e) of None \<Rightarrow> 0 | Some p \<Rightarrow> ucast p))
        (Option.bind (ap_next_fire e) (\<lambda>i. instant_to_ms i (fst clk) (snd clk))))"

definition min_option :: "'a::linorder option \<Rightarrow> 'a option \<Rightarrow> 'a option" where
  "min_option x y = (case (x, y) of
     (None, _) \<Rightarrow> y | (_, None) \<Rightarrow> x | (Some a, Some b) \<Rightarrow> Some (min a b))"

definition reprogram_rtc_wake :: "clocks \<Rightarrow> 'v appointment_runtime \<Rightarrow> 'v appointment_runtime" where
  "reprogram_rtc_wake clk rt =
     (case ar_wake rt of
        None \<Rightarrow> rt
      | Some _ \<Rightarrow> rt\<lparr>ar_wake :=
          Some (foldl min_option None (map (wake_at clk) (al_pending (ar_ledger rt))))\<rparr>)"

definition write_rows ::
    "bool \<Rightarrow> (appointment_rows \<Rightarrow> appointment_rows) \<Rightarrow> 'v appointment_runtime
       \<Rightarrow> 'v appointment_runtime" where
  "write_rows stored f rt = (if stored then rt\<lparr>ar_rows := map_option f (ar_rows rt)\<rparr> else rt)"

datatype appointment_runtime_error =
    AR_Recurrence recurrence_error | AR_Schedule appointment_schedule_error

definition appointment_schedule ::
    "('d, 't) calendar \<Rightarrow> 'v appointment_codec \<Rightarrow> clocks \<Rightarrow> clocks \<Rightarrow> bool \<Rightarrow> string
       \<Rightarrow> appointment_spec \<Rightarrow> 'v appointment_action \<Rightarrow> 'v appointment_runtime
       \<Rightarrow> 'v appointment_runtime \<times> (appointment_runtime_error + u64 option)" where
  "appointment_schedule cal codec clk clk' stored creator spec action rt =
     (case next_fire_after cal spec (fst clk) 0 of
        Inl e \<Rightarrow> (rt, Inl (AR_Recurrence e))
      | Inr next_ms \<Rightarrow>
          (case al_schedule creator spec action
                  (map_option (\<lambda>ms. ms_to_instant ms (fst clk) (snd clk)) next_ms) (ar_ledger rt) of
             (l, Inl e) \<Rightarrow> (rt\<lparr>ar_ledger := l\<rparr>, Inl (AR_Schedule e))
           | (l, Inr _) \<Rightarrow>
               (reprogram_rtc_wake clk'
                  (write_rows stored
                     (record_appointment
                        (persisted_appointment_row codec creator spec action next_ms (fst clk)))
                     (rt\<lparr>ar_ledger := l\<rparr>)),
                Inr next_ms)))"

definition appointment_cancel ::
    "string \<times> string \<Rightarrow> string \<Rightarrow> bool \<Rightarrow> systime \<Rightarrow> clocks \<Rightarrow> 'v appointment_runtime
       \<Rightarrow> 'v appointment_runtime \<times> 'v happening list \<times> bool" where
  "appointment_cancel key cancelled_by stored ts clk rt =
     (case al_cancel key (ar_ledger rt) of
        (l, did_cancel) \<Rightarrow>
          if did_cancel
          then (reprogram_rtc_wake clk
                  (write_rows stored (forget_appointment key) (rt\<lparr>ar_ledger := l\<rparr>)),
                [H_AppointmentCancelled (fst key) (snd key) cancelled_by ts], True)
          else (rt, [], False))"

definition peek_soonest_pending :: "'v appointment_ledger \<Rightarrow> nat option" where
  "peek_soonest_pending l = foldl min_option None (map ap_next_fire (al_pending l))"

text \<open>The pass over the pending entries after a clock step: an entry whose recurrence has become
  an error is left alone, every other one is issued again.\<close>

definition reevaluate_one ::
    "('d, 't) calendar \<Rightarrow> clocks \<Rightarrow> 'v appointment_entry \<Rightarrow> 'v appointment_ledger
       \<Rightarrow> 'v appointment_ledger" where
  "reevaluate_one cal clk e l =
     (case next_fire_after cal (ap_spec e) (fst clk) (ap_fires_completed e) of
        Inl _ \<Rightarrow> l
      | Inr next_ms \<Rightarrow>
          fst (al_schedule (ap_creator e) (ap_spec e) (ap_action e)
                 (map_option (\<lambda>ms. ms_to_instant ms (fst clk) (snd clk)) next_ms) l))"

definition reevaluate_all_pending ::
    "('d, 't) calendar \<Rightarrow> clocks \<Rightarrow> clocks \<Rightarrow> 'v appointment_runtime
       \<Rightarrow> 'v appointment_runtime" where
  "reevaluate_all_pending cal clk clk' rt =
     reprogram_rtc_wake clk'
       (rt\<lparr>ar_ledger := fold (reevaluate_one cal clk) (al_pending (ar_ledger rt)) (ar_ledger rt)\<rparr>)"

definition appointment_key :: "'v appointment_entry \<Rightarrow> string \<times> string" where
  "appointment_key e = (ap_creator e, as_appointment_id (ap_spec e))"

text \<open>\<open>fires_completed + 1\<close> and \<open>now_ms + 1\<close> are plain additions; the one that goes to the store
  saturates.\<close>

definition advance_after_fire ::
    "('d, 't) calendar \<Rightarrow> clocks \<Rightarrow> bool \<Rightarrow> 'v appointment_entry \<Rightarrow> 'v appointment_runtime
       \<Rightarrow> 'v appointment_runtime" where
  "advance_after_fire cal clk stored e rt =
     (let next_ms = (case next_fire_after cal (ap_spec e) (fst clk + 1) (ap_fires_completed e + 1) of
                       Inl _ \<Rightarrow> None | Inr m \<Rightarrow> m);
          next_instant = map_option (\<lambda>ms. ms_to_instant ms (fst clk) (snd clk)) next_ms;
          key = appointment_key e;
          l = fst (al_mark_fired key (fst clk) next_instant (ar_ledger rt))
      in write_rows stored
           (case next_ms of
              Some ms \<Rightarrow> update_appointment_after_fire key (Some ms) (fst clk)
                           (sat_inc (ap_fires_completed e)) PA_Pending (fst clk)
            | None \<Rightarrow> forget_appointment key)
           (rt\<lparr>ar_ledger := l\<rparr>))"

text \<open>What one fire reads and hears: the trust in the clock, the monotonic clock when the delay is
  computed and again when the fire is recorded, the answer of the router, whether the row could be
  written, and the time stamp of the happening.\<close>

record fire_reading =
  fr_trust :: time_trust
  fr_instant :: nat
  fr_after :: nat
  fr_result :: "string + unit"
  fr_stored :: bool
  fr_at :: systime

definition appointment_outcome ::
    "'v appointment_entry \<Rightarrow> string + unit \<Rightarrow> 'v appointment_runtime \<Rightarrow> string" where
  "appointment_outcome e result rt =
     (if take (length FRAMEWORK_CREATOR_PREFIX) (ap_creator e) = FRAMEWORK_CREATOR_PREFIX \<and>
         ar_framework_handler rt
      then ''ok''
      else case result of Inr _ \<Rightarrow> ''ok'' | Inl err \<Rightarrow> ''error: '' @ err)"

definition missed_reason :: "appointment_miss_policy \<Rightarrow> u64 \<Rightarrow> string option" where
  "missed_reason policy delay_ms =
     (case policy of
        M_Drop \<Rightarrow> if delay_ms > 1000 then Some ''drop_policy'' else None
      | M_CatchupWithinGrace grace_ms \<Rightarrow>
          if delay_ms > grace_ms then Some ''grace_window_exceeded'' else None
      | M_Catchup \<Rightarrow> None)"

definition fire_one ::
    "('d, 't) calendar \<Rightarrow> u64 \<Rightarrow> fire_reading \<Rightarrow> 'v appointment_entry \<Rightarrow> 'v appointment_runtime
       \<Rightarrow> 'v appointment_runtime \<times> 'v happening list" where
  "fire_one cal now_ms r e rt =
     (let missed = (\<lambda>reason at_ms. H_AppointmentMissed (ap_creator e)
            (as_appointment_id (ap_spec e)) at_ms reason (fr_at r))
      in if fr_trust r = TT_Untrusted then (rt, [missed ''untrusted_time'' now_ms])
         else
           let scheduled_for_ms =
                 (case Option.bind (ap_next_fire e) (\<lambda>i. instant_to_ms i now_ms (fr_instant r)) of
                    None \<Rightarrow> now_ms | Some ms \<Rightarrow> ms);
               advanced = advance_after_fire cal (now_ms, fr_after r) (fr_stored r) e rt
           in case missed_reason (as_miss_policy (ap_spec e)) (sat_sub now_ms scheduled_for_ms) of
                Some reason \<Rightarrow> (advanced, [missed reason scheduled_for_ms])
              | None \<Rightarrow> (advanced, [H_AppointmentFired (ap_creator e)
                  (as_appointment_id (ap_spec e)) now_ms (appointment_outcome e (fr_result r) rt)
                  (fr_at r)]))"

definition is_due :: "clocks \<Rightarrow> 'v appointment_entry \<Rightarrow> bool" where
  "is_due clk e =
     holds_some (\<lambda>ms. ms \<le> fst clk)
       (Option.bind (ap_next_fire e) (\<lambda>i. instant_to_ms i (fst clk) (snd clk)))"

fun fire_entries ::
    "('d, 't) calendar \<Rightarrow> u64 \<Rightarrow> ('v appointment_entry \<Rightarrow> fire_reading)
       \<Rightarrow> 'v appointment_entry list \<Rightarrow> 'v appointment_runtime
       \<Rightarrow> 'v appointment_runtime \<times> 'v happening list" where
  "fire_entries cal now_ms rd [] rt = (rt, [])"
| "fire_entries cal now_ms rd (e # es) rt =
     (case fire_one cal now_ms (rd e) e rt of
        (rt1, hs1) \<Rightarrow> (case fire_entries cal now_ms rd es rt1 of
                         (rt2, hs2) \<Rightarrow> (rt2, hs1 @ hs2)))"

definition fire_due_entries ::
    "('d, 't) calendar \<Rightarrow> clocks \<Rightarrow> ('v appointment_entry \<Rightarrow> fire_reading) \<Rightarrow> clocks
       \<Rightarrow> 'v appointment_runtime \<Rightarrow> 'v appointment_runtime \<times> 'v happening list" where
  "fire_due_entries cal clk rd clk' rt =
     (case fire_entries cal (fst clk) rd (filter (is_due clk) (al_pending (ar_ledger rt))) rt of
        (rt1, hs) \<Rightarrow> (reprogram_rtc_wake clk' rt1, hs))"

text \<open>The rows are restored against one reading of both clocks; the code reads the wall clock once and
  the monotonic clock again for each row.\<close>

fun rehydrate_rows ::
    "'v appointment_codec \<Rightarrow> clocks \<Rightarrow> persisted_appointment list \<Rightarrow> 'v appointment_ledger
       \<Rightarrow> 'v appointment_ledger \<times> nat" where
  "rehydrate_rows codec clk [] l = (l, 0)"
| "rehydrate_rows codec clk (row # rows) l =
     (case (ac_spec_of_json codec (pa_spec_json row), ac_action_of_json codec (pa_action_json row)) of
        (Some spec, Some action) \<Rightarrow>
          (case al_schedule (pa_creator row) spec action
                  (map_option (\<lambda>ms. ms_to_instant ms (fst clk) (snd clk)) (pa_next_fire_at_ms row)) l of
             (l', Inl _) \<Rightarrow> rehydrate_rows codec clk rows l'
           | (l', Inr _) \<Rightarrow> (case rehydrate_rows codec clk rows l' of (l'', n) \<Rightarrow> (l'', Suc n)))
      | _ \<Rightarrow> rehydrate_rows codec clk rows l)"

definition rehydrate_appointments ::
    "'v appointment_codec \<Rightarrow> clocks \<Rightarrow> clocks \<Rightarrow> appointment_rows \<Rightarrow> 'v appointment_runtime
       \<Rightarrow> 'v appointment_runtime \<times> nat" where
  "rehydrate_appointments codec clk clk' rows rt =
     (case rehydrate_rows codec clk (list_pending_appointments rows) (ar_ledger rt) of
        (l, n) \<Rightarrow> (reprogram_rtc_wake clk' (rt\<lparr>ar_ledger := l\<rparr>), n))"

end
