(* ===== verification/Appointment_Laws.thy ===== *)
theory Appointment_Laws
  imports Appointments
begin

text \<open>
  Laws of the appointment model: what the next fire of a specification is, how the operations change
  the ledger key by key, and what the two clock conversions keep.
\<close>

section \<open>The next fire\<close>

text \<open>The specification can be evaluated at a moment.\<close>

definition evaluable :: "('d, 't) calendar \<Rightarrow> appointment_spec \<Rightarrow> u64 \<Rightarrow> bool" where
  "evaluable cal spec now_ms =
     (case as_recurrence spec of
        R_OneShot _ \<Rightarrow> True
      | R_Cron _ \<Rightarrow> False
      | R_Periodic interval_ms \<Rightarrow> 0 < interval_ms
      | r \<Rightarrow> (\<exists>time. parse_time_of_day cal (as_time spec) = Inr time) \<and>
          (\<exists>days. parse_except_dates cal (as_except spec) = Inr days) \<and>
          check_recurrence r = Inr () \<and> cal_instant cal now_ms \<noteq> None \<and>
          (\<forall>name. as_zone spec \<noteq> Z_Anchored name))"

definition capped :: "appointment_spec \<Rightarrow> u32 \<Rightarrow> bool" where
  "capped spec fires = (\<exists>cap. as_max_fires spec = Some cap \<and> cap \<le> fires)"

text \<open>The specification has an occurrence on a day, at a time: the day is one of the recurrence, it
  is not excepted, and the time of day on it, read in the zone, is later than now. Of a time that a
  change of the clocks makes occur twice the first counts; one that it skips does not occur.\<close>

definition occurs_on ::
    "('d, 't) calendar \<Rightarrow> appointment_spec \<Rightarrow> u64 \<Rightarrow> 'd \<Rightarrow> u64 \<Rightarrow> bool" where
  "occurs_on cal spec now_ms d ms \<longleftrightarrow>
     day_matches_recurrence cal (as_recurrence spec) d \<and> now_ms < ms \<and>
     (\<exists>time days. parse_time_of_day cal (as_time spec) = Inr time \<and>
        parse_except_dates cal (as_except spec) = Inr days \<and> d \<notin> set days \<and>
        (if as_zone spec = Z_Utc then ms = cal_utc_ms cal d time
         else cal_local_ms cal d time = LR_Single ms \<or>
              (\<exists>later. cal_local_ms cal d time = LR_Ambiguous ms later)))"

definition occurs_after ::
    "('d, 't) calendar \<Rightarrow> appointment_spec \<Rightarrow> u64 \<Rightarrow> nat \<Rightarrow> u64 \<Rightarrow> bool" where
  "occurs_after cal spec now_ms i ms \<longleftrightarrow>
     (\<exists>utc local d. cal_instant cal now_ms = Some (utc, local) \<and>
        cal_add_days cal (if as_zone spec = Z_Utc then utc else local) i = Some d \<and>
        occurs_on cal spec now_ms d ms)"

definition next_occurrence ::
    "('d, 't) calendar \<Rightarrow> appointment_spec \<Rightarrow> u64 \<Rightarrow> u32 \<Rightarrow> u64 \<Rightarrow> bool" where
  "next_occurrence cal spec now_ms fires ms \<longleftrightarrow>
     (case as_recurrence spec of
        R_OneShot fire_at_ms \<Rightarrow> fires = 0 \<and> ms = fire_at_ms
      | R_Cron _ \<Rightarrow> False
      | R_Periodic interval_ms \<Rightarrow> unat ms = min (unat now_ms + unat interval_ms) (2 ^ 64 - 1)
      | _ \<Rightarrow> (\<exists>i < MAX_LOOKAHEAD_DAYS. occurs_after cal spec now_ms i ms \<and>
               (\<forall>j < i. \<forall>t. \<not> occurs_after cal spec now_ms j t)))"

lemma first_some_None: "first_some f xs = None \<longleftrightarrow> (\<forall>x \<in> set xs. f x = None)"
  by (induction xs) (auto split: option.splits)

lemma first_some_snoc:
  "first_some f (xs @ [x]) = (case first_some f xs of None \<Rightarrow> f x | Some y \<Rightarrow> Some y)"
  by (induction xs) (auto split: option.splits)

lemma first_some_upt:
  "first_some f [0..<n] = Some y \<longleftrightarrow> (\<exists>i < n. f i = Some y \<and> (\<forall>j < i. f j = None))"
proof (induction n arbitrary: y)
  case (Suc n)
  show ?case
  proof (cases "first_some f [0..<n]")
    case None
    then have "\<forall>j < n. f j = None" by (simp add: first_some_None)
    then show ?thesis using None by (auto simp: first_some_snoc less_Suc_eq)
  next
    case (Some z)
    then obtain i where i: "i < n" "f i = Some z" "\<forall>j < i. f j = None"
      using Suc.IH by blast
    then have "f k = Some y \<and> (\<forall>j < k. f j = None) \<longleftrightarrow> k = i \<and> y = z" for k
      by (metis linorder_neqE_nat option.discI option.inject)
    with i show ?thesis using Some by (auto simp: first_some_snoc)
  qed
qed simp

lemma unat_max_u64: "unat (- 1 :: u64) = 2 ^ 64 - 1"
  by (simp add: unsigned_minus_1_eq_mask mask_eq_exp_minus_1)

lemma sat_add_fits: "x \<le> - 1 - y \<longleftrightarrow> unat x + unat y \<le> 2 ^ 64 - 1" for x y :: u64
proof -
  have "unat (- 1 - y) = 2 ^ 64 - 1 - unat y"
    using unat_sub [of y "- 1"] by (simp add: unat_max_u64 word_order.extremum)
  moreover have "unat y < 2 ^ 64" using unsigned_less [of y] by simp
  ultimately show ?thesis by (simp add: word_le_nat_alt le_diff_conv2)
qed

lemma unat_sat_add: "unat (sat_add x y) = min (unat x + unat y) (2 ^ 64 - 1)"
  using sat_add_fits [of x y] by (auto simp: sat_add_def unat_word_ariths unat_max_u64)

lemma unat_sat_sub: "unat (sat_sub x y) = unat x - unat y"
  by (simp add: sat_sub_def unat_sub word_le_nat_alt)

lemma try_day_iff:
  assumes "parse_time_of_day cal (as_time spec) = Inr time"
    "parse_except_dates cal (as_except spec) = Inr days" "cal_instant cal now_ms = Some dates"
  shows "try_day cal (as_recurrence spec) (as_zone spec) time days now_ms dates i = Some ms \<longleftrightarrow>
    occurs_after cal spec now_ms i ms"
proof (cases "cal_add_days cal (if as_zone spec = Z_Utc then fst dates else snd dates) i")
  case None
  then show ?thesis using assms(3)
    by (cases dates) (auto simp: try_day_def occurs_after_def split: if_splits)
next
  case (Some d)
  have "occurs_after cal spec now_ms i ms \<longleftrightarrow> occurs_on cal spec now_ms d ms"
    using assms(3) Some by (cases dates) (auto simp: occurs_after_def split: if_splits)
  moreover have "try_day cal (as_recurrence spec) (as_zone spec) time days now_ms dates i = Some ms \<longleftrightarrow>
      occurs_on cal spec now_ms d ms"
    using assms(1,2) Some
    by (cases "cal_local_ms cal d time") (auto simp: try_day_def occurs_on_def not_le)
  ultimately show ?thesis by simp
qed

lemma lookahead_iff:
  assumes "parse_time_of_day cal (as_time spec) = Inr time"
    "parse_except_dates cal (as_except spec) = Inr days" "cal_instant cal now_ms = Some dates"
  shows "first_some (try_day cal (as_recurrence spec) (as_zone spec) time days now_ms dates) [0..<n]
      = Some ms \<longleftrightarrow>
    (\<exists>i < n. occurs_after cal spec now_ms i ms \<and>
       (\<forall>j < i. \<forall>t. \<not> occurs_after cal spec now_ms j t))"
  unfolding first_some_upt try_day_iff [OF assms] using try_day_iff [OF assms] by (metis not_Some_eq)

definition calendar_recurrence :: "appointment_recurrence \<Rightarrow> bool" where
  "calendar_recurrence r =
     (case r of R_OneShot _ \<Rightarrow> False | R_Cron _ \<Rightarrow> False | R_Periodic _ \<Rightarrow> False | _ \<Rightarrow> True)"

lemma next_candidate_calendar:
  "calendar_recurrence (as_recurrence spec) \<Longrightarrow>
   next_candidate cal spec now_ms fires =
     (case parse_time_of_day cal (as_time spec) of
        Inl e \<Rightarrow> Inl e
      | Inr time \<Rightarrow>
          (case parse_except_dates cal (as_except spec) of
             Inl e \<Rightarrow> Inl e
           | Inr days \<Rightarrow> next_periodic_fire cal (as_recurrence spec) (as_zone spec) time days now_ms))"
  by (cases "as_recurrence spec") (simp_all add: next_candidate_def calendar_recurrence_def split: sum.splits)

lemma evaluable_calendar:
  "calendar_recurrence (as_recurrence spec) \<Longrightarrow>
   evaluable cal spec now_ms \<longleftrightarrow>
     (\<exists>time. parse_time_of_day cal (as_time spec) = Inr time) \<and>
     (\<exists>days. parse_except_dates cal (as_except spec) = Inr days) \<and>
     check_recurrence (as_recurrence spec) = Inr () \<and> cal_instant cal now_ms \<noteq> None \<and>
     (\<forall>name. as_zone spec \<noteq> Z_Anchored name)"
  by (cases "as_recurrence spec") (simp_all add: evaluable_def calendar_recurrence_def)

lemma next_occurrence_calendar:
  "calendar_recurrence (as_recurrence spec) \<Longrightarrow>
   next_occurrence cal spec now_ms fires ms \<longleftrightarrow>
     (\<exists>i < MAX_LOOKAHEAD_DAYS. occurs_after cal spec now_ms i ms \<and>
        (\<forall>j < i. \<forall>t. \<not> occurs_after cal spec now_ms j t))"
  by (cases "as_recurrence spec") (simp_all add: next_occurrence_def calendar_recurrence_def)

lemma candidate_error:
  "(\<exists>e. next_candidate cal spec now_ms fires = Inl e) \<longleftrightarrow> \<not> evaluable cal spec now_ms"
proof (cases "calendar_recurrence (as_recurrence spec)")
  case True
  show ?thesis
    unfolding next_candidate_calendar [OF True] evaluable_calendar [OF True] next_periodic_fire_def
    by (auto split: sum.splits option.splits appointment_time_zone.splits)
next
  case False
  then show ?thesis
    by (auto simp: next_candidate_def evaluable_def calendar_recurrence_def word_gt_0
        split: appointment_recurrence.splits)
qed

lemma periodic_some:
  "next_periodic_fire cal r zone time days now_ms = Inr (Some ms) \<longleftrightarrow>
   check_recurrence r = Inr () \<and> (\<forall>name. zone \<noteq> Z_Anchored name) \<and>
   (\<exists>dates. cal_instant cal now_ms = Some dates \<and>
      first_some (try_day cal r zone time days now_ms dates) [0..<MAX_LOOKAHEAD_DAYS] = Some ms)"
  by (auto simp: next_periodic_fire_def split: sum.splits option.splits appointment_time_zone.splits)

lemma candidate_some:
  "next_candidate cal spec now_ms fires = Inr (Some ms) \<longleftrightarrow>
   evaluable cal spec now_ms \<and> next_occurrence cal spec now_ms fires ms"
proof (cases "calendar_recurrence (as_recurrence spec)")
  case True
  show ?thesis
    unfolding next_candidate_calendar [OF True] evaluable_calendar [OF True]
      next_occurrence_calendar [OF True]
    by (auto simp: periodic_some lookahead_iff split: sum.splits)
next
  case False
  then show ?thesis
    by (auto simp: next_candidate_def evaluable_def next_occurrence_def calendar_recurrence_def
        word_gt_0 word_unat_eq_iff unat_sat_add split: appointment_recurrence.splits)
qed

definition within_end :: "appointment_spec \<Rightarrow> u64 \<Rightarrow> bool" where
  "within_end spec ms = (case as_end_time_ms spec of None \<Rightarrow> True | Some end_ms \<Rightarrow> ms \<le> end_ms)"

lemma next_fire_alt:
  "next_fire_after cal spec now_ms fires =
     (if capped spec fires then Inr None
      else case next_candidate cal spec now_ms fires of
        Inl e \<Rightarrow> Inl e
      | Inr (Some ms) \<Rightarrow> if within_end spec ms then Inr (Some ms) else Inr None
      | Inr None \<Rightarrow> Inr None)"
  by (auto simp: next_fire_after_def capped_def within_end_def split: option.splits sum.splits)

lemma next_fire_some:
  "next_fire_after cal spec now_ms fires = Inr (Some ms) \<longleftrightarrow>
   \<not> capped spec fires \<and> evaluable cal spec now_ms \<and> next_occurrence cal spec now_ms fires ms \<and>
   within_end spec ms"
  unfolding next_fire_alt candidate_some [symmetric] conj_assoc [symmetric]
  by (auto split: sum.splits option.splits)

lemma next_fire_error:
  "(\<exists>e. next_fire_after cal spec now_ms fires = Inl e) \<longleftrightarrow>
   \<not> capped spec fires \<and> \<not> evaluable cal spec now_ms"
  unfolding next_fire_alt candidate_error [symmetric, of cal spec now_ms fires]
  by (auto split: sum.splits option.splits)

lemma next_fire_capped: "capped spec fires \<Longrightarrow> next_fire_after cal spec now_ms fires = Inr None"
  by (simp add: next_fire_alt)


text \<open>A recurrence none of whose days lies within the lookahead, such as 29 February with the next
  leap year more than a year away, has no next fire: it is not skipped to the year that has the day.\<close>

lemma no_day_no_fire:
  assumes "calendar_recurrence (as_recurrence spec)" "evaluable cal spec now_ms"
    "\<And>i utc local d. i < MAX_LOOKAHEAD_DAYS \<Longrightarrow> cal_instant cal now_ms = Some (utc, local) \<Longrightarrow>
       cal_add_days cal (if as_zone spec = Z_Utc then utc else local) i = Some d \<Longrightarrow>
       \<not> day_matches_recurrence cal (as_recurrence spec) d"
  shows "next_fire_after cal spec now_ms fires = Inr None"
proof -
  have "\<not> next_occurrence cal spec now_ms fires t" for t
    using assms(3) unfolding next_occurrence_calendar [OF assms(1)] occurs_after_def occurs_on_def
    by blast
  then have "next_fire_after cal spec now_ms fires \<noteq> Inr (Some t)" for t
    by (simp add: next_fire_some)
  moreover have "next_fire_after cal spec now_ms fires \<noteq> Inl e" for e
    using next_fire_error [of cal spec now_ms fires] assms(2) by blast
  ultimately show ?thesis
    by (cases "next_fire_after cal spec now_ms fires") (auto simp: not_Some_eq)
qed

section \<open>The ledger\<close>

definition appointments_keyed :: "'v appointment_ledger \<Rightarrow> bool" where
  "appointments_keyed l \<longleftrightarrow> hm_wf (al_entries l) \<and>
     (\<forall>k e. hm_get (al_entries l) k = Some e \<longrightarrow> appointment_key e = k)"

lemma appointments_keyedD:
  "appointments_keyed l \<Longrightarrow> hm_get (al_entries l) k = Some e \<Longrightarrow> appointment_key e = k"
  unfolding appointments_keyed_def by blast

lemma al_schedule_get:
  "hm_get (al_entries (fst (al_schedule creator spec action next_fire l))) =
     (if snd (al_schedule creator spec action next_fire l) = Inr ()
      then (hm_get (al_entries l))
        ((creator, as_appointment_id spec) \<mapsto> fresh_appointment creator spec action next_fire)
      else hm_get (al_entries l))"
  by (auto simp: al_schedule_def Let_def)

lemma al_schedule_known:
  "hm_get (al_entries l) (creator, as_appointment_id spec) \<noteq> None \<Longrightarrow>
   snd (al_schedule creator spec action next_fire l) = Inr ()"
  by (simp add: al_schedule_def Let_def)

lemma al_schedule_keyed:
  "appointments_keyed l \<Longrightarrow> appointments_keyed (fst (al_schedule creator spec action next_fire l))"
  by (auto simp: appointments_keyed_def al_schedule_def Let_def fresh_appointment_def
      appointment_key_def)

lemma al_update_get:
  "hm_get (al_entries (fst (al_update key f l))) =
     (case hm_get (al_entries l) key of
        None \<Rightarrow> hm_get (al_entries l)
      | Some e \<Rightarrow> if ap_state e = A_Cancelled then hm_get (al_entries l)
                  else (hm_get (al_entries l))(key \<mapsto> f e))"
  by (simp add: al_update_def split: option.splits)

lemma al_update_keyed:
  "appointments_keyed l \<Longrightarrow> (\<And>e. appointment_key (f e) = appointment_key e) \<Longrightarrow>
   appointments_keyed (fst (al_update key f l))"
  by (auto simp: appointments_keyed_def al_update_def split: option.splits)

lemma al_cancel_keyed: "appointments_keyed l \<Longrightarrow> appointments_keyed (fst (al_cancel key l))"
  by (simp add: al_cancel_def al_update_keyed appointment_key_def)

lemma al_mark_fired_keyed:
  "appointments_keyed l \<Longrightarrow> appointments_keyed (fst (al_mark_fired key ms next_fire l))"
  by (simp add: al_mark_fired_def al_update_keyed appointment_key_def)

lemma al_pending_iff:
  assumes "appointments_keyed l"
  shows "e \<in> set (al_pending l) \<longleftrightarrow>
    ap_state e = A_Pending \<and> hm_get (al_entries l) (appointment_key e) = Some e"
proof -
  have wf: "hm_wf (al_entries l)" using assms by (simp add: appointments_keyed_def)
  have "e \<in> snd ` set (al_entries l) \<longleftrightarrow> (\<exists>k. hm_get (al_entries l) k = Some e)"
    using hm_mem_iff [OF wf] by force
  also have "\<dots> \<longleftrightarrow> hm_get (al_entries l) (appointment_key e) = Some e"
    using appointments_keyedD [OF assms] by metis
  finally show ?thesis by (auto simp: al_pending_def)
qed

lemma al_pending_distinct:
  assumes "appointments_keyed l"
  shows "distinct (map appointment_key (al_pending l))"
proof -
  have "map appointment_key (map snd (al_entries l)) = hm_keys (al_entries l)"
    using assms by (auto simp: appointments_keyed_def hm_keys_def simp flip: hm_mem_iff)
  then have "distinct (map appointment_key (map snd (al_entries l)))"
    using assms by (simp add: appointments_keyed_def)
  then show ?thesis unfolding al_pending_def by (rule distinct_map_filter)
qed

lemma reprogram_ledger [simp]: "ar_ledger (reprogram_rtc_wake clk rt) = ar_ledger rt"
  by (simp add: reprogram_rtc_wake_def split: option.splits)

lemma write_rows_ledger [simp]: "ar_ledger (write_rows stored f rt) = ar_ledger rt"
  by (simp add: write_rows_def)

lemma advance_ledger:
  "ar_ledger (advance_after_fire cal clk stored e rt) =
     fst (al_mark_fired (appointment_key e) (fst clk)
       (map_option (\<lambda>ms. ms_to_instant ms (fst clk) (snd clk))
          (case next_fire_after cal (ap_spec e) (fst clk + 1) (ap_fires_completed e + 1) of
             Inl _ \<Rightarrow> None | Inr m \<Rightarrow> m))
       (ar_ledger rt))"
  by (simp add: advance_after_fire_def Let_def)

end
