(* ===== verification/Appointment_Spec.thy ===== *)
theory Appointment_Spec
  imports Appointment_Laws
begin

text \<open>
  The appointment runtime as a system: the loop that fires the due appointments and re-evaluates the
  pending ones when the clock is stepped, each working through a snapshot of the ledger, and the
  callers that schedule and cancel appointments between its steps. A caller that gets between the
  dispatch of an action and its bookkeeping has the effect of one that came just before the dispatch.
\<close>

section \<open>The system\<close>

datatype 'v appointment_work =
    AW_Idle
  | AW_Firing u64 "'v appointment_entry list"
  | AW_Reevaluating u64 "'v appointment_entry list"

text \<open>The log, newest first, is no part of the program. An issue of an appointment, by a caller or by
  the re-evaluation, records the limit of its specification and whether the running pass still holds
  the entry it replaces.\<close>

datatype appointment_log =
    AL_Issued "string \<times> string" "u32 option" bool
  | AL_Dispatched "string \<times> string"

record 'v appointment_system =
  ay_runtime :: "'v appointment_runtime"
  ay_work :: "'v appointment_work"
  ay_log :: "appointment_log list"

fun firing :: "'v appointment_work \<Rightarrow> 'v appointment_entry list" where
  "firing (AW_Firing _ es) = es"
| "firing _ = []"

fun reevaluating :: "'v appointment_work \<Rightarrow> 'v appointment_entry list" where
  "reevaluating (AW_Reevaluating _ es) = es"
| "reevaluating _ = []"

fun dispatched_keys :: "'v happening list \<Rightarrow> (string \<times> string) list" where
  "dispatched_keys [] = []"
| "dispatched_keys (H_AppointmentFired creator appointment_id _ _ _ # hs) =
     (creator, appointment_id) # dispatched_keys hs"
| "dispatched_keys (_ # hs) = dispatched_keys hs"

inductive appointment_step ::
    "('d, 't) calendar \<Rightarrow> 'v appointment_codec \<Rightarrow> 'v appointment_system \<Rightarrow> 'v appointment_system
       \<Rightarrow> bool"
  for cal :: "('d, 't) calendar" and codec :: "'v appointment_codec" where
  schedule: "appointment_schedule cal codec clk clk' stored creator spec action (ay_runtime s) =
       (rt, res) \<Longrightarrow>
     appointment_step cal codec s (s\<lparr>ay_runtime := rt, ay_log :=
       (if isl res then []
        else [AL_Issued (creator, as_appointment_id spec) (as_max_fires spec)
                ((creator, as_appointment_id spec) \<in> appointment_key ` set (firing (ay_work s)))])
       @ ay_log s\<rparr>)"
| cancel: "appointment_cancel key cancelled_by stored ts clk (ay_runtime s) = (rt, hs, did) \<Longrightarrow>
     appointment_step cal codec s (s\<lparr>ay_runtime := rt\<rparr>)"
| install: "appointment_step cal codec s
     (s\<lparr>ay_runtime := set_appointment_handler installed (ay_runtime s)\<rparr>)"
| wake: "ay_work s = AW_Idle \<Longrightarrow>
     appointment_step cal codec s (s\<lparr>ay_work := AW_Firing (fst clk)
       (filter (is_due clk) (al_pending (ar_ledger (ay_runtime s))))\<rparr>)"
| fire: "ay_work s = AW_Firing now_ms (e # es) \<Longrightarrow>
     fire_one cal now_ms r e (ay_runtime s) = (rt, hs) \<Longrightarrow>
     appointment_step cal codec s (s\<lparr>ay_runtime := rt, ay_work := AW_Firing now_ms es,
       ay_log := map AL_Dispatched (dispatched_keys hs) @ ay_log s\<rparr>)"
| fired: "ay_work s = AW_Firing now_ms [] \<Longrightarrow>
     appointment_step cal codec s
       (s\<lparr>ay_runtime := reprogram_rtc_wake clk (ay_runtime s), ay_work := AW_Idle\<rparr>)"
| adjusted: "ay_work s = AW_Idle \<Longrightarrow>
     appointment_step cal codec s
       (s\<lparr>ay_work := AW_Reevaluating now_ms (al_pending (ar_ledger (ay_runtime s)))\<rparr>)"
| reevaluate: "ay_work s = AW_Reevaluating now_ms (e # es) \<Longrightarrow>
     appointment_step cal codec s (s\<lparr>
       ay_runtime := (ay_runtime s)\<lparr>ar_ledger :=
         reevaluate_one cal (now_ms, instant) e (ar_ledger (ay_runtime s))\<rparr>,
       ay_work := AW_Reevaluating now_ms es,
       ay_log :=
         (if isl (next_fire_after cal (ap_spec e) now_ms (ap_fires_completed e)) then []
          else [AL_Issued (appointment_key e) (as_max_fires (ap_spec e)) False]) @ ay_log s\<rparr>)"
| reevaluated: "ay_work s = AW_Reevaluating now_ms [] \<Longrightarrow>
     appointment_step cal codec s
       (s\<lparr>ay_runtime := reprogram_rtc_wake clk (ay_runtime s), ay_work := AW_Idle\<rparr>)"

definition appointment_start :: "'v appointment_system \<Rightarrow> bool" where
  "appointment_start s \<longleftrightarrow> al_entries (ar_ledger (ay_runtime s)) = [] \<and>
     ay_work s = AW_Idle \<and> ay_log s = []"

section \<open>Fires since the last issue\<close>

text \<open>The last issue of a key: its limit, whether it was made during a pass that holds the old
  entry, and the number of dispatches since.\<close>

fun last_issue ::
    "string \<times> string \<Rightarrow> appointment_log list \<Rightarrow> (u32 option \<times> bool \<times> nat) option" where
  "last_issue k [] = None"
| "last_issue k (AL_Issued k' cap held # l) =
     (if k' = k then Some (cap, held, 0) else last_issue k l)"
| "last_issue k (AL_Dispatched k' # l) =
     (if k' = k then map_option (\<lambda>(cap, held, n). (cap, held, Suc n)) (last_issue k l)
      else last_issue k l)"

text \<open>How often an issue may be dispatched: as often as its limit says, but twice at least when the
  running pass held an older entry of the same key. That entry is dispatched too, and re-arms the
  new one by the old specification.\<close>

definition issue_limit :: "bool \<Rightarrow> u32 \<Rightarrow> nat" where
  "issue_limit held cap = (if held then max (unat cap) 2 else unat cap)"

text \<open>The limit is respected so far, and the present entry of the key leaves room for the fires that
  may follow.\<close>

definition room_left :: "bool \<Rightarrow> u32 \<Rightarrow> nat \<Rightarrow> 'v appointment_entry \<Rightarrow> bool" where
  "room_left held cap n e \<longleftrightarrow> as_max_fires (ap_spec e) = Some cap \<and>
     (ap_state e = A_Pending \<and> ap_next_fire e \<noteq> None \<longrightarrow>
        unat (ap_fires_completed e) < issue_limit held cap) \<and>
     (ap_state e \<noteq> A_Cancelled \<longrightarrow> n \<le> unat (ap_fires_completed e))"

definition key_limit_ok ::
    "'v appointment_system \<Rightarrow> string \<times> string \<Rightarrow> bool \<Rightarrow> u32 \<Rightarrow> nat \<Rightarrow> bool" where
  "key_limit_ok s k held cap n \<longleftrightarrow>
     (\<exists>e. hm_get (al_entries (ar_ledger (ay_runtime s))) k = Some e \<and> room_left held cap n e \<and>
        (\<forall>q \<in> set (firing (ay_work s)). appointment_key q = k \<longrightarrow>
           (ap_state e = A_Cancelled \<or> q = e \<or> held \<and> n = 0 \<and> ap_fires_completed e = 0) \<and>
           n < issue_limit held cap)) \<and> n \<le> issue_limit held cap"

definition appointment_inv :: "'v appointment_system \<Rightarrow> bool" where
  "appointment_inv s \<longleftrightarrow> appointments_keyed (ar_ledger (ay_runtime s)) \<and>
     distinct (map appointment_key (firing (ay_work s))) \<and>
     (\<forall>q \<in> set (firing (ay_work s)). ap_state q = A_Pending \<and> ap_next_fire q \<noteq> None) \<and>
     (\<forall>q \<in> set (reevaluating (ay_work s)).
        hm_get (al_entries (ar_ledger (ay_runtime s))) (appointment_key q) \<noteq> None) \<and>
     (\<forall>k held cap n. last_issue k (ay_log s) = Some (Some cap, held, n) \<longrightarrow> key_limit_ok s k held cap n)"

lemma appointment_invI:
  "appointments_keyed (ar_ledger (ay_runtime s)) \<Longrightarrow>
   distinct (map appointment_key (firing (ay_work s))) \<Longrightarrow>
   (\<And>q. q \<in> set (firing (ay_work s)) \<Longrightarrow> ap_state q = A_Pending \<and> ap_next_fire q \<noteq> None) \<Longrightarrow>
   (\<And>k held cap n. last_issue k (ay_log s) = Some (Some cap, held, n) \<Longrightarrow> key_limit_ok s k held cap n) \<Longrightarrow>
   (\<And>q. q \<in> set (reevaluating (ay_work s)) \<Longrightarrow>
      hm_get (al_entries (ar_ledger (ay_runtime s))) (appointment_key q) \<noteq> None) \<Longrightarrow>
   appointment_inv s"
  unfolding appointment_inv_def by blast

lemma appointment_invD:
  assumes "appointment_inv s"
  shows "appointments_keyed (ar_ledger (ay_runtime s))"
    "distinct (map appointment_key (firing (ay_work s)))"
    "\<And>q. q \<in> set (firing (ay_work s)) \<Longrightarrow> ap_state q = A_Pending \<and> ap_next_fire q \<noteq> None"
    "\<And>k held cap n. last_issue k (ay_log s) = Some (Some cap, held, n) \<Longrightarrow> key_limit_ok s k held cap n"
    "\<And>q. q \<in> set (reevaluating (ay_work s)) \<Longrightarrow>
       hm_get (al_entries (ar_ledger (ay_runtime s))) (appointment_key q) \<noteq> None"
  using assms unfolding appointment_inv_def by blast+

text \<open>What a step does not touch.\<close>

lemma key_limit_frame:
  "key_limit_ok s k held cap n \<Longrightarrow>
   hm_get (al_entries (ar_ledger (ay_runtime t))) k =
     hm_get (al_entries (ar_ledger (ay_runtime s))) k \<Longrightarrow>
   {q \<in> set (firing (ay_work t)). appointment_key q = k} \<subseteq> set (firing (ay_work s)) \<Longrightarrow>
   key_limit_ok t k held cap n"
  unfolding key_limit_ok_def by auto

lemma not_capped_room:
  "next_fire_after cal spec now_ms fires = Inr (Some ms) \<Longrightarrow> as_max_fires spec = Some cap \<Longrightarrow>
   fires < cap"
  by (auto simp: next_fire_some capped_def)

lemma issue_limit_le: "unat cap \<le> issue_limit held cap" "issue_limit held cap \<le> 2 ^ 32 - 1"
  using unsigned_less [of cap, where ?'a = nat] by (simp_all add: issue_limit_def)

lemma fresh_room:
  "as_max_fires spec = Some cap \<Longrightarrow> (next_fire \<noteq> None \<Longrightarrow> 0 < cap) \<Longrightarrow>
   room_left held cap 0 (fresh_appointment creator spec action next_fire)"
  by (auto simp: room_left_def fresh_appointment_def issue_limit_def word_less_nat_alt)

lemma sat_inc_below:
  fixes x :: u32
  assumes "unat x < issue_limit held cap"
  shows "unat (sat_inc x) = Suc (unat x)" "unat (x + 1) = Suc (unat x)"
proof -
  have le: "Suc (unat x) \<le> 2 ^ 32 - 1" using assms issue_limit_le(2) [of held cap] by simp
  then show "unat (sat_inc x) = Suc (unat x)" using unat_sat_inc [of x] by simp
  show "unat (x + 1) = Suc (unat x)" using le by (simp add: unat_word_ariths)
qed

lemma schedule_ledger_of:
  assumes "appointment_schedule cal codec clk clk' stored creator spec action rt = (rt', res)"
  shows "isl res \<Longrightarrow> ar_ledger rt' = ar_ledger rt"
    "\<not> isl res \<Longrightarrow> \<exists>next_ms. next_fire_after cal spec (fst clk) 0 = Inr next_ms \<and>
       hm_get (al_entries (ar_ledger rt')) = (hm_get (al_entries (ar_ledger rt)))
         ((creator, as_appointment_id spec) \<mapsto> fresh_appointment creator spec action
            (map_option (\<lambda>ms. ms_to_instant ms (fst clk) (snd clk)) next_ms))"
    "appointments_keyed (ar_ledger rt) \<Longrightarrow> appointments_keyed (ar_ledger rt')"
proof -
  note split = sum.splits prod.splits
  show "isl res \<Longrightarrow> ar_ledger rt' = ar_ledger rt"
    using assms by (auto simp: appointment_schedule_def al_schedule_def Let_def split: split if_splits)
  show "\<not> isl res \<Longrightarrow> \<exists>next_ms. next_fire_after cal spec (fst clk) 0 = Inr next_ms \<and>
       hm_get (al_entries (ar_ledger rt')) = (hm_get (al_entries (ar_ledger rt)))
         ((creator, as_appointment_id spec) \<mapsto> fresh_appointment creator spec action
            (map_option (\<lambda>ms. ms_to_instant ms (fst clk) (snd clk)) next_ms))"
    using assms by (auto simp: appointment_schedule_def al_schedule_def Let_def split: split if_splits)
  show "appointments_keyed (ar_ledger rt) \<Longrightarrow> appointments_keyed (ar_ledger rt')"
    using assms
      al_schedule_keyed [of "ar_ledger rt" creator spec action]
    by (auto simp: appointment_schedule_def split: split) (metis fst_conv)+
qed

lemma cancel_ledger_of:
  "appointment_cancel key by' stored ts clk rt = (rt', hs, did) \<Longrightarrow>
   ar_ledger rt' = fst (al_cancel key (ar_ledger rt))"
  by (auto simp: appointment_cancel_def al_cancel_def al_update_def
      split: prod.splits if_splits option.splits)

lemma fire_one_cases:
  assumes "fire_one cal now_ms r e rt = (rt', hs)"
  obtains (untrusted) "rt' = rt" "dispatched_keys hs = []"
  | (advanced) next_ms where
      "next_ms = (case next_fire_after cal (ap_spec e) (now_ms + 1) (ap_fires_completed e + 1) of
          Inl _ \<Rightarrow> None | Inr m \<Rightarrow> m)"
      "ar_ledger rt' = fst (al_mark_fired (appointment_key e) now_ms
         (map_option (\<lambda>ms. ms_to_instant ms now_ms (fr_after r)) next_ms) (ar_ledger rt))"
      "dispatched_keys hs = [] \<or> dispatched_keys hs = [appointment_key e]"
proof (cases "fr_trust r = TT_Untrusted")
  case True
  with assms show ?thesis by (auto simp: fire_one_def Let_def intro: untrusted)
next
  case False
  with assms show ?thesis
    by (intro advanced [OF refl])
      (auto simp: fire_one_def Let_def advance_ledger appointment_key_def split: option.splits)
qed

text \<open>A fire of the present entry keeps the room; one of a cancelled entry changes nothing.\<close>

lemma fired_room:
  assumes "room_left held cap n e" "ap_state e = A_Pending" "ap_next_fire e \<noteq> None"
    and nxt: "next_ms = (case next_fire_after cal (ap_spec e) now_ms (ap_fires_completed e + 1) of
      Inl _ \<Rightarrow> None | Inr m \<Rightarrow> m)"
  shows "room_left held cap (Suc n) (e\<lparr>ap_fires_completed := sat_inc (ap_fires_completed e),
     ap_last_fired_at_ms := Some fired_ms, ap_next_fire := map_option f next_ms,
     ap_state := (case map_option f next_ms of Some _ \<Rightarrow> A_Pending | None \<Rightarrow> A_Fired)\<rparr>)"
proof -
  have max: "as_max_fires (ap_spec e) = Some cap"
    and lt: "unat (ap_fires_completed e) < issue_limit held cap"
    and n: "n \<le> unat (ap_fires_completed e)"
    using assms(1-3) by (simp_all add: room_left_def)
  have "ap_fires_completed e + 1 < cap" if "next_ms \<noteq> None"
    using that nxt not_capped_room [OF _ max] by (auto split: sum.splits)
  then have "Suc (unat (ap_fires_completed e)) < issue_limit held cap" if "next_ms \<noteq> None"
    using that sat_inc_below(2) [OF lt] issue_limit_le(1) [of cap held] by (simp add: word_less_nat_alt)
  then show ?thesis using max n sat_inc_below(1) [OF lt] by (auto simp: room_left_def)
qed

text \<open>A fire of an entry the issue replaced: the new entry counts it and may be armed again.\<close>

lemma stale_fired_room:
  assumes "room_left True cap 0 e" "ap_fires_completed e = 0" "n \<le> Suc 0"
  shows "room_left True cap n (e\<lparr>ap_fires_completed := sat_inc (ap_fires_completed e),
     ap_last_fired_at_ms := fired_ms, ap_next_fire := next_fire, ap_state := state\<rparr>)"
  using assms by (simp add: room_left_def issue_limit_def sat_inc_def less_max_iff_disj)

lemma room_left_less: "room_left held cap n e \<Longrightarrow> m \<le> n \<Longrightarrow> room_left held cap m e"
  by (auto simp: room_left_def)

lemma last_issue_dispatched:
  assumes "last_issue k (map AL_Dispatched ks @ lg) = Some (cap, held, n)" "ks = [] \<or> ks = [k']"
  obtains "last_issue k lg = Some (cap, held, n)" "ks = [] \<or> k' \<noteq> k"
  | m where "last_issue k lg = Some (cap, held, m)" "n = Suc m" "k' = k"
  using assms by (auto split: if_splits)

lemma inv_schedule:
  assumes inv: "appointment_inv s"
    and run: "appointment_schedule cal codec clk clk' stored creator spec action (ay_runtime s) =
      (rt, res)"
    and t: "t = s\<lparr>ay_runtime := rt, ay_log := (if isl res then []
        else [AL_Issued (creator, as_appointment_id spec) (as_max_fires spec)
                ((creator, as_appointment_id spec) \<in> appointment_key ` set (firing (ay_work s)))])
       @ ay_log s\<rparr>"
  shows "appointment_inv t"
proof (rule appointment_invI)
  note D = appointment_invD [OF inv]
  show "appointments_keyed (ar_ledger (ay_runtime t))"
    using schedule_ledger_of(3) [OF run] D(1) by (simp add: t)
  show "distinct (map appointment_key (firing (ay_work t)))" using D(2) by (simp add: t)
  show "ap_state q = A_Pending \<and> ap_next_fire q \<noteq> None" if "q \<in> set (firing (ay_work t))" for q
    using that D(3) by (simp add: t)
  show "hm_get (al_entries (ar_ledger (ay_runtime t))) (appointment_key q) \<noteq> None"
    if "q \<in> set (reevaluating (ay_work t))" for q
    using that D(5) [of q] schedule_ledger_of(1,2) [OF run] by (cases "isl res") (auto simp: t)
  fix k held cap n assume last: "last_issue k (ay_log t) = Some (Some cap, held, n)"
  show "key_limit_ok t k held cap n"
  proof (cases "isl res")
    case True
    then show ?thesis using D(4) last schedule_ledger_of(1) [OF run] by (auto simp: t key_limit_ok_def)
  next
    case False
    then obtain next_ms where nxt: "next_fire_after cal spec (fst clk) 0 = Inr next_ms"
      and get: "hm_get (al_entries (ar_ledger rt)) = (hm_get (al_entries (ar_ledger (ay_runtime s))))
         ((creator, as_appointment_id spec) \<mapsto> fresh_appointment creator spec action
            (map_option (\<lambda>ms. ms_to_instant ms (fst clk) (snd clk)) next_ms))"
      using schedule_ledger_of(2) [OF run] by blast
    show ?thesis
    proof (cases "k = (creator, as_appointment_id spec)")
      case True
      then have new: "as_max_fires spec = Some cap" "n = 0"
        "held \<longleftrightarrow> k \<in> appointment_key ` set (firing (ay_work s))"
        using last False by (simp_all add: t)
      let ?e = "fresh_appointment creator spec action
        (map_option (\<lambda>ms. ms_to_instant ms (fst clk) (snd clk)) next_ms)"
      have "0 < cap" if "next_ms \<noteq> None"
        using that nxt not_capped_room [of cal spec "fst clk" 0 _ cap] new(1) by auto
      then have room: "room_left held cap 0 ?e" by (intro fresh_room new(1)) simp
      have stale: "held \<and> 0 < issue_limit held cap" if "q \<in> set (firing (ay_work s))" "appointment_key q = k" for q
        using that new(3) by (auto simp: issue_limit_def)
      have "hm_get (al_entries (ar_ledger (ay_runtime t))) k = Some ?e" using get True by (simp add: t)
      moreover have "ap_fires_completed ?e = 0" by (simp add: fresh_appointment_def)
      moreover have "firing (ay_work t) = firing (ay_work s)" by (simp add: t)
      ultimately show ?thesis
        using room stale new(2) unfolding key_limit_ok_def by (metis bot_nat_0.extremum)
    next
      case other: False
      then have "last_issue k (ay_log s) = Some (Some cap, held, n)"
        using last False by (auto simp: t split: if_splits)
      from D(4) [OF this] show ?thesis
        by (rule key_limit_frame) (use other get in \<open>auto simp: t\<close>)
    qed
  qed
qed

lemma inv_cancel:
  assumes inv: "appointment_inv s"
    and run: "appointment_cancel key by' stored ts clk (ay_runtime s) = (rt, hs, did)"
  shows "appointment_inv (s\<lparr>ay_runtime := rt\<rparr>)"
proof (rule appointment_invI)
  note D = appointment_invD [OF inv] and L = cancel_ledger_of [OF run]
  let ?t = "s\<lparr>ay_runtime := rt\<rparr>"
  show "appointments_keyed (ar_ledger (ay_runtime ?t))" using D(1) by (simp add: L al_cancel_keyed)
  show "distinct (map appointment_key (firing (ay_work ?t)))" using D(2) by simp
  show "ap_state q = A_Pending \<and> ap_next_fire q \<noteq> None" if "q \<in> set (firing (ay_work ?t))" for q
    using that D(3) by simp
  show "hm_get (al_entries (ar_ledger (ay_runtime ?t))) (appointment_key q) \<noteq> None"
    if "q \<in> set (reevaluating (ay_work ?t))" for q
    using that D(5) [of q] by (auto simp: L al_cancel_def al_update_get split: option.splits)
  fix k held cap n assume "last_issue k (ay_log ?t) = Some (Some cap, held, n)"
  then have "key_limit_ok s k held cap n" using D(4) by simp
  then show "key_limit_ok ?t k held cap n"
    by (auto simp: key_limit_ok_def L al_cancel_def al_update_get room_left_def split: option.splits)
qed

lemma inv_wake:
  assumes inv: "appointment_inv s" and idle: "ay_work s = AW_Idle"
  shows "appointment_inv (s\<lparr>ay_work := AW_Firing (fst clk)
       (filter (is_due clk) (al_pending (ar_ledger (ay_runtime s))))\<rparr>)"
proof (rule appointment_invI)
  note D = appointment_invD [OF inv]
  let ?t = "s\<lparr>ay_work := AW_Firing (fst clk)
       (filter (is_due clk) (al_pending (ar_ledger (ay_runtime s))))\<rparr>"
  have due: "ap_state q = A_Pending \<and> ap_next_fire q \<noteq> None \<and>
      hm_get (al_entries (ar_ledger (ay_runtime s))) (appointment_key q) = Some q"
    if "q \<in> set (firing (ay_work ?t))" for q
    using that al_pending_iff [OF D(1)]
    by (auto simp: is_due_def holds_some_def bind_eq_Some_conv split: option.splits)
  show "appointments_keyed (ar_ledger (ay_runtime ?t))" using D(1) by simp
  show "distinct (map appointment_key (firing (ay_work ?t)))"
    using al_pending_distinct [OF D(1)] by (simp add: distinct_map_filter)
  show "ap_state q = A_Pending \<and> ap_next_fire q \<noteq> None" if "q \<in> set (firing (ay_work ?t))" for q
    using due [OF that] by simp
  fix k held cap n assume "last_issue k (ay_log ?t) = Some (Some cap, held, n)"
  then have "key_limit_ok s k held cap n" using D(4) by simp
  then obtain e where e: "hm_get (al_entries (ar_ledger (ay_runtime s))) k = Some e"
    "room_left held cap n e" "n \<le> issue_limit held cap" by (auto simp: key_limit_ok_def)
  have "q = e \<and> n < issue_limit held cap" if "q \<in> set (firing (ay_work ?t))" "appointment_key q = k" for q
    using due [OF that(1)] that(2) e by (auto simp: room_left_def word_less_nat_alt)
  with e show "key_limit_ok ?t k held cap n" unfolding key_limit_ok_def by auto
qed simp

lemma fire_key_limit:
  assumes inv: "appointment_inv s" and work: "ay_work s = AW_Firing now_ms (e # es)"
    and run: "fire_one cal now_ms r e (ay_runtime s) = (rt, hs)"
    and t: "t = s\<lparr>ay_runtime := rt, ay_work := AW_Firing now_ms es,
       ay_log := map AL_Dispatched (dispatched_keys hs) @ ay_log s\<rparr>"
    and last: "last_issue k (ay_log t) = Some (Some cap, held, n)"
  shows "key_limit_ok t k held cap n"
  using run
proof (cases rule: fire_one_cases)
  case untrusted
  then have "key_limit_ok s k held cap n" using appointment_invD(4) [OF inv] last by (simp add: t)
  then show ?thesis by (rule key_limit_frame) (auto simp: t untrusted work)
next
  case (advanced next_ms)
  note D = appointment_invD [OF inv]
  let ?l = "ar_ledger (ay_runtime s)"
  have get: "hm_get (al_entries (ar_ledger rt)) j = hm_get (al_entries ?l) j"
    if "j \<noteq> appointment_key e" for j
    using that by (auto simp: advanced(2) al_mark_fired_def al_update_get split: option.splits)
  obtain m where m: "last_issue k (ay_log s) = Some (Some cap, held, m)"
    "n = m \<or> n = Suc m \<and> appointment_key e = k"
    using last_issue_dispatched [OF last [unfolded t, simplified] advanced(3)] by metis
  note ok = D(4) [OF m(1)]
  show ?thesis
  proof (cases "appointment_key e = k")
    case False
    with m(2) have "n = m" by simp
    with ok show ?thesis
      using False by (auto intro!: key_limit_frame [of s] simp: t work get)
  next
    case True
    have none: "appointment_key q \<noteq> k" if "q \<in> set es" for q
      using D(2) that True by (simp add: work) (metis imageI)
    obtain c where c: "hm_get (al_entries ?l) k = Some c" "room_left held cap m c"
      "ap_state c = A_Cancelled \<or> e = c \<or> held \<and> m = 0 \<and> ap_fires_completed c = 0"
      "m < issue_limit held cap"
      using ok True unfolding key_limit_ok_def work firing.simps by (metis list.set_intros(1))
    have e: "ap_state e = A_Pending" "ap_next_fire e \<noteq> None" using D(3) by (simp_all add: work)
    obtain c' where c': "hm_get (al_entries (ar_ledger rt)) k = Some c'" "room_left held cap n c'"
    proof (cases "ap_state c = A_Cancelled")
      case cancelled: True
      then have "hm_get (al_entries (ar_ledger rt)) k = Some c" "room_left held cap n c"
        using c(1,2) True
        by (simp_all add: advanced(2) al_mark_fired_def al_update_get room_left_def)
      then show ?thesis by (rule that)
    next
      case present: False
      let ?c = "c\<lparr>ap_fires_completed := sat_inc (ap_fires_completed c), ap_last_fired_at_ms := Some now_ms,
        ap_next_fire := map_option (\<lambda>ms. ms_to_instant ms now_ms (fr_after r)) next_ms,
        ap_state := (case map_option (\<lambda>ms. ms_to_instant ms now_ms (fr_after r)) next_ms of
          Some _ \<Rightarrow> A_Pending | None \<Rightarrow> A_Fired)\<rparr>"
      have "hm_get (al_entries (ar_ledger rt)) k = Some ?c"
        using c(1) True present by (simp add: advanced(2) al_mark_fired_def al_update_get)
      moreover have "room_left held cap n ?c"
      proof (cases "e = c")
        case same: True
        show ?thesis
          using room_left_less [OF fired_room [OF c(2) _ _ advanced(1) [unfolded same]], of n] m(2) e same
          by auto
      next
        case False
        with c(3) present have "held" "m = 0" "ap_fires_completed c = 0" by auto
        with stale_fired_room [of cap c n] c(2) m(2) show ?thesis by auto
      qed
      ultimately show ?thesis by (rule that)
    qed
    show ?thesis
      using c' c(4) m(2) none by (auto simp: key_limit_ok_def t)
  qed
qed

lemma inv_fire:
  assumes inv: "appointment_inv s" and work: "ay_work s = AW_Firing now_ms (e # es)"
    and run: "fire_one cal now_ms r e (ay_runtime s) = (rt, hs)"
  shows "appointment_inv (s\<lparr>ay_runtime := rt, ay_work := AW_Firing now_ms es,
       ay_log := map AL_Dispatched (dispatched_keys hs) @ ay_log s\<rparr>)"
proof (rule appointment_invI)
  note D = appointment_invD [OF inv]
  have "appointments_keyed (ar_ledger rt)"
    using run D(1) by (cases rule: fire_one_cases) (simp_all add: al_mark_fired_keyed)
  then show "appointments_keyed (ar_ledger (ay_runtime (s\<lparr>ay_runtime := rt,
      ay_work := AW_Firing now_ms es,
      ay_log := map AL_Dispatched (dispatched_keys hs) @ ay_log s\<rparr>)))" by simp
qed (use appointment_invD(2,3) [OF inv] fire_key_limit [OF inv work run refl] work in auto)

lemma inv_reevaluate:
  assumes inv: "appointment_inv s" and work: "ay_work s = AW_Reevaluating now_ms (e # es)"
    and t: "t = s\<lparr>
       ay_runtime := (ay_runtime s)\<lparr>ar_ledger :=
         reevaluate_one cal (now_ms, instant) e (ar_ledger (ay_runtime s))\<rparr>,
       ay_work := AW_Reevaluating now_ms es,
       ay_log :=
         (if isl (next_fire_after cal (ap_spec e) now_ms (ap_fires_completed e)) then []
          else [AL_Issued (appointment_key e) (as_max_fires (ap_spec e)) False]) @ ay_log s\<rparr>"
  shows "appointment_inv t"
proof (rule appointment_invI)
  note D = appointment_invD [OF inv]
  have known: "hm_get (al_entries (ar_ledger (ay_runtime s))) (appointment_key e) \<noteq> None"
    using D(5) by (simp add: work)
  show "hm_get (al_entries (ar_ledger (ay_runtime t))) (appointment_key q) \<noteq> None"
    if "q \<in> set (reevaluating (ay_work t))" for q
    using that D(5) [of q] by (auto simp: t work reevaluate_one_def al_schedule_get split: sum.splits)
  show "appointments_keyed (ar_ledger (ay_runtime t))"
    using D(1) by (simp add: t reevaluate_one_def al_schedule_keyed split: sum.splits)
  fix k held cap n assume last: "last_issue k (ay_log t) = Some (Some cap, held, n)"
  show "key_limit_ok t k held cap n"
  proof (cases "next_fire_after cal (ap_spec e) now_ms (ap_fires_completed e)")
    case (Inl err)
    then have "key_limit_ok s k held cap n" using D(4) last by (simp add: t)
    then show ?thesis by (rule key_limit_frame) (simp_all add: t reevaluate_one_def Inl)
  next
    case (Inr next_ms)
    have get: "hm_get (al_entries (ar_ledger (ay_runtime t))) =
        (hm_get (al_entries (ar_ledger (ay_runtime s))))
          (appointment_key e \<mapsto> fresh_appointment (ap_creator e) (ap_spec e) (ap_action e)
             (map_option (\<lambda>ms. ms_to_instant ms now_ms instant) next_ms))"
      using known
      by (simp add: t reevaluate_one_def Inr al_schedule_get al_schedule_known appointment_key_def)
    show ?thesis
    proof (cases "k = appointment_key e")
      case True
      then have "as_max_fires (ap_spec e) = Some cap" "n = 0" using last Inr by (auto simp: t)
      moreover have "0 < cap" if "next_ms \<noteq> None"
        using that Inr not_capped_room [OF _ calculation(1)] le_less_trans [OF word_zero_le] by blast
      ultimately show ?thesis
        using True get by (auto simp: key_limit_ok_def t intro!: fresh_room)
    next
      case False
      then have "last_issue k (ay_log s) = Some (Some cap, held, n)"
        using last Inr by (auto simp: t split: if_splits)
      from D(4) [OF this] show ?thesis
        by (rule key_limit_frame) (use False get in \<open>auto simp: t\<close>)
    qed
  qed
qed (simp_all add: t)

lemma inv_idle: "appointment_inv s \<Longrightarrow>
  appointment_inv (s\<lparr>ay_runtime := reprogram_rtc_wake clk (ay_runtime s), ay_work := AW_Idle\<rparr>)"
  by (rule appointment_invI) (auto dest: appointment_invD intro: key_limit_frame)

lemma inv_install: "appointment_inv s \<Longrightarrow>
  appointment_inv (s\<lparr>ay_runtime := set_appointment_handler installed (ay_runtime s)\<rparr>)"
  by (rule appointment_invI)
    (auto simp: set_appointment_handler_def dest: appointment_invD intro: key_limit_frame)

lemma inv_adjusted: "appointment_inv s \<Longrightarrow>
  appointment_inv (s\<lparr>ay_work := AW_Reevaluating now_ms (al_pending (ar_ledger (ay_runtime s)))\<rparr>)"
  by (rule appointment_invI)
    (auto simp: al_pending_iff dest: appointment_invD intro: key_limit_frame)

lemma appointment_inv_start: "appointment_start s \<Longrightarrow> appointment_inv s"
  by (intro appointment_invI) (simp_all add: appointment_start_def appointments_keyed_def)

lemma appointment_inv_step: "appointment_step cal codec s t \<Longrightarrow> appointment_inv s \<Longrightarrow> appointment_inv t"
proof (induction rule: appointment_step.induct)
  case (schedule clk clk' stored creator spec action s rt res)
  then show ?case by (intro inv_schedule [OF _ schedule.hyps refl])
next
  case (reevaluate s now_ms e es instant)
  then show ?case by (intro inv_reevaluate [OF _ reevaluate.hyps refl])
qed (simp_all add: inv_cancel inv_install inv_wake inv_fire inv_idle inv_adjusted)

interpretation appointments: invariant_system appointment_start "appointment_step cal codec"
  appointment_inv for cal codec
  by unfold_locales (fact appointment_inv_start, fact appointment_inv_step)

section \<open>The limit on fires\<close>

text \<open>(C35) The limit on fires. In every run of the runtime from an empty ledger, however schedules, cancels,
  fires and re-evaluations after a clock step interleave, an appointment whose specification has
  \<open>max_fires = cap\<close> is dispatched at most \<open>cap\<close> times after the last time it was issued, if the running
  pass did not hold an older entry of the same key when it was issued. If it did, the old entry is
  dispatched as well, counted on the new one, and arms the new one by the old specification, so the
  bound is two dispatches for a limit of zero or one, and \<open>cap\<close> for every greater limit; a limit of one
  is exceeded in the run of \<open>fire_limit_exceeded\<close>. Re-evaluations after a clock step count as
  issues: the limit starts anew at each.\<close>

theorem fire_limit:
  assumes "appointment_start s" "(appointment_step cal codec)\<^sup>*\<^sup>* s t"
    "last_issue k (ay_log t) = Some (Some cap, held, n)"
  shows "n \<le> (if held then max (unat cap) 2 else unat cap)"
  using appointments.reachable_inv [OF assms(1,2)] assms(3) appointment_invD(4)
  unfolding key_limit_ok_def issue_limit_def by blast

section \<open>Clock steps\<close>

lemma reevaluate_one_get:
  "hm_get (al_entries l) (appointment_key e) \<noteq> None \<Longrightarrow>
   hm_get (al_entries (reevaluate_one cal clk e l)) =
     (case next_fire_after cal (ap_spec e) (fst clk) (ap_fires_completed e) of
        Inl _ \<Rightarrow> hm_get (al_entries l)
      | Inr next_ms \<Rightarrow> (hm_get (al_entries l))
          (appointment_key e \<mapsto> fresh_appointment (ap_creator e) (ap_spec e) (ap_action e)
             (map_option (\<lambda>ms. ms_to_instant ms (fst clk) (snd clk)) next_ms)))"
  by (simp add: reevaluate_one_def al_schedule_get al_schedule_known appointment_key_def
      split: sum.splits)

lemma reevaluate_fold_get:
  "\<forall>e \<in> set es. hm_get (al_entries l) (appointment_key e) \<noteq> None \<Longrightarrow>
   distinct (map appointment_key es) \<Longrightarrow> e \<in> set es \<Longrightarrow>
   next_fire_after cal (ap_spec e) (fst clk) (ap_fires_completed e) = Inr next_ms \<Longrightarrow>
   hm_get (al_entries (fold (reevaluate_one cal clk) es l)) (appointment_key e) =
     Some (fresh_appointment (ap_creator e) (ap_spec e) (ap_action e)
       (map_option (\<lambda>ms. ms_to_instant ms (fst clk) (snd clk)) next_ms))"
proof (induction es arbitrary: l)
  case (Cons x xs)
  have frame: "hm_get (al_entries (fold (reevaluate_one cal clk) ys m)) k =
      hm_get (al_entries m) k"
    if "k \<notin> appointment_key ` set ys"
      "\<forall>e \<in> set ys. hm_get (al_entries m) (appointment_key e) \<noteq> None" for k ys m
    using that
    by (induction ys arbitrary: m) (auto simp: reevaluate_one_get split: sum.splits)
  have known: "\<forall>e \<in> set xs. hm_get (al_entries (reevaluate_one cal clk x l)) (appointment_key e) \<noteq> None"
    using Cons.prems(1) by (auto simp: reevaluate_one_get split: sum.splits)
  show ?case
  proof (cases "e = x")
    case True
    then have "appointment_key e \<notin> appointment_key ` set xs" using Cons.prems(2) by auto
    from frame [OF this known] show ?thesis
      using True Cons.prems(1,4) by (simp add: reevaluate_one_get)
  next
    case False
    then show ?thesis using Cons.IH [OF known] Cons.prems(2-4) by auto
  qed
qed simp

text \<open>(C38) Clock steps and the fire count. After the re-evaluation that follows a \<open>ClockAdjusted\<close> happening, every
  pending appointment whose recurrence can be evaluated is a freshly issued one: with its fire count
  back at zero and its last fire forgotten, while its stored row keeps both. An appointment limited to
  \<open>max_fires\<close> fires therefore fires more often than that when the clock is stepped; in the witness one
  limited to two fires is dispatched three times.\<close>

theorem clock_step_resets_count:
  assumes "appointments_keyed (ar_ledger rt)" "e \<in> set (al_pending (ar_ledger rt))"
    "next_fire_after cal (ap_spec e) (fst clk) (ap_fires_completed e) = Inr next_ms"
  shows "al_lookup (appointment_key e) (ar_ledger (reevaluate_all_pending cal clk clk' rt)) =
      Some (e\<lparr>ap_fires_completed := 0, ap_last_fired_at_ms := None,
        ap_next_fire := map_option (\<lambda>ms. ms_to_instant ms (fst clk) (snd clk)) next_ms\<rparr>) \<and>
    ar_rows (reevaluate_all_pending cal clk clk' rt) = ar_rows rt"
proof -
  have "ap_state e = A_Pending" using al_pending_iff [OF assms(1)] assms(2) by simp
  moreover have "hm_get (al_entries (fold (reevaluate_one cal clk) (al_pending (ar_ledger rt))
      (ar_ledger rt))) (appointment_key e) =
    Some (fresh_appointment (ap_creator e) (ap_spec e) (ap_action e)
       (map_option (\<lambda>ms. ms_to_instant ms (fst clk) (snd clk)) next_ms))"
    by (rule reevaluate_fold_get [OF _ al_pending_distinct [OF assms(1)] assms(2,3)])
      (simp add: al_pending_iff [OF assms(1)])
  ultimately show ?thesis
    by (simp add: al_lookup_def reevaluate_all_pending_def fresh_appointment_def
        reprogram_rtc_wake_def split: option.splits)
qed

section \<open>An untrusted clock\<close>

text \<open>A sequence of passes of the loop, with the readings of each.\<close>

fun fire_passes ::
    "('d, 't) calendar \<Rightarrow> (clocks \<times> ('v appointment_entry \<Rightarrow> fire_reading) \<times> clocks) list
       \<Rightarrow> 'v appointment_runtime \<Rightarrow> 'v appointment_runtime \<times> 'v happening list" where
  "fire_passes cal [] rt = (rt, [])"
| "fire_passes cal ((clk, rd, clk') # ps) rt =
     (case fire_due_entries cal clk rd clk' rt of
        (rt1, hs1) \<Rightarrow> (case fire_passes cal ps rt1 of (rt2, hs2) \<Rightarrow> (rt2, hs1 @ hs2)))"

fun missed_keys :: "'v happening list \<Rightarrow> (string \<times> string) list" where
  "missed_keys [] = []"
| "missed_keys (H_AppointmentMissed creator appointment_id _ _ _ # hs) =
     (creator, appointment_id) # missed_keys hs"
| "missed_keys (_ # hs) = missed_keys hs"

lemma missed_keys_append [simp]: "missed_keys (xs @ ys) = missed_keys xs @ missed_keys ys"
  by (induction xs rule: missed_keys.induct) simp_all

lemma untrusted_entries:
  "\<forall>e \<in> set es. fr_trust (rd e) = TT_Untrusted \<Longrightarrow>
   fst (fire_entries cal now_ms rd es rt) = rt \<and>
   missed_keys (snd (fire_entries cal now_ms rd es rt)) = map appointment_key es"
  by (induction es arbitrary: rt) (simp_all add: fire_one_def appointment_key_def case_prod_beta)

lemma due_from: "ap_next_fire e = Some j \<Longrightarrow> j \<le> i \<Longrightarrow> (i - j) div 1000000 < 2 ^ 64 \<Longrightarrow>
  is_due (now_ms, i) e"
  by (auto simp: is_due_def instant_to_ms_def holds_some_def sat_add_def sat_sub_def Let_def
      word_le_nat_alt unat_sub)

lemma count_distinct: "distinct xs \<Longrightarrow> x \<in> set xs \<Longrightarrow> count_list xs x = 1"
  by (induction xs) (auto simp: count_list_0_iff)

lemma soonest_le: "Some j \<in> insert a (set xs) \<Longrightarrow> \<exists>i \<le> j. foldl min_option a xs = Some i"
proof (induction xs arbitrary: a j)
  case (Cons x xs)
  have "\<exists>i \<le> j. Some i = min_option a x \<or> Some i \<in> set xs"
    using Cons.prems
    by (auto simp: min_option_def split: option.splits intro: min.cobounded1 min.cobounded2)
  then obtain i where "i \<le> j" "Some i \<in> insert (min_option a x) (set xs)" by auto
  with Cons.IH [OF this(2)] show ?case by (auto intro: order_trans)
qed auto

text \<open>All readings of a pass find the clock untrusted, at a monotonic time from \<open>j\<close> on (and not
  later by more than the range of a \<open>u64\<close> in milliseconds).\<close>

definition untrusted_pass ::
    "nat \<Rightarrow> clocks \<times> ('v appointment_entry \<Rightarrow> fire_reading) \<times> clocks \<Rightarrow> bool" where
  "untrusted_pass j p = (case p of (clk, rd, _) \<Rightarrow>
     j \<le> snd clk \<and> (snd clk - j) div 1000000 < 2 ^ 64 \<and> (\<forall>e. fr_trust (rd e) = TT_Untrusted))"

lemma untrusted_pass_effect:
  assumes "appointments_keyed (ar_ledger rt)" "e \<in> set (al_pending (ar_ledger rt))"
    "ap_next_fire e = Some j" "untrusted_pass j (clk, rd, clk')"
  shows "fst (fire_due_entries cal clk rd clk' rt) = reprogram_rtc_wake clk' rt"
    "count_list (missed_keys (snd (fire_due_entries cal clk rd clk' rt))) (appointment_key e) = 1"
proof -
  let ?due = "filter (is_due clk) (al_pending (ar_ledger rt))"
  have all: "\<forall>e \<in> set ?due. fr_trust (rd e) = TT_Untrusted"
    using assms(4) by (simp add: untrusted_pass_def)
  have due: "is_due clk e"
    using due_from [OF assms(3), of "snd clk" "fst clk"] assms(4) by (simp add: untrusted_pass_def)
  show "fst (fire_due_entries cal clk rd clk' rt) = reprogram_rtc_wake clk' rt"
    using untrusted_entries [OF all, of cal "fst clk" rt]
    by (simp add: fire_due_entries_def case_prod_beta)
  have "appointment_key e \<in> set (map appointment_key ?due)" using due assms(2) by simp
  moreover have "distinct (map appointment_key ?due)"
    using al_pending_distinct [OF assms(1)] by (simp add: distinct_map_filter)
  ultimately have "count_list (map appointment_key ?due) (appointment_key e) = 1"
    by (intro count_distinct)
  then show
    "count_list (missed_keys (snd (fire_due_entries cal clk rd clk' rt))) (appointment_key e) = 1"
    using untrusted_entries [OF all, of cal "fst clk" rt]
    by (simp add: fire_due_entries_def case_prod_beta)
qed

lemma reprogram_rows [simp]: "ar_rows (reprogram_rtc_wake clk rt) = ar_rows rt"
  by (simp add: reprogram_rtc_wake_def split: option.splits)

text \<open>(C39) An untrusted clock. While the clock is untrusted no pass of the loop changes the ledger or the stored rows,
  yet every pass publishes a durable \<open>AppointmentMissed\<close> for every due appointment; and the next
  deadline the loop sleeps for stays in the past, so the passes follow each other without a pause
  until trust returns: \<open>n\<close> passes publish \<open>n\<close> happenings for one missed fire.\<close>

theorem untrusted_spins:
  assumes "appointments_keyed (ar_ledger rt)" "e \<in> set (al_pending (ar_ledger rt))"
    "ap_next_fire e = Some j" "\<forall>p \<in> set ps. untrusted_pass j p"
  shows "ar_ledger (fst (fire_passes cal ps rt)) = ar_ledger rt \<and>
    ar_rows (fst (fire_passes cal ps rt)) = ar_rows rt \<and>
    count_list (missed_keys (snd (fire_passes cal ps rt))) (appointment_key e) = length ps \<and>
    (\<exists>i \<le> j. peek_soonest_pending (ar_ledger (fst (fire_passes cal ps rt))) = Some i)"
  using assms
proof (induction ps arbitrary: rt)
  case Nil
  have "Some j \<in> set (map ap_next_fire (al_pending (ar_ledger rt)))"
    using Nil.prems(2,3) by force
  then show ?case using soonest_le [of j None] by (simp add: peek_soonest_pending_def)
next
  case (Cons p ps)
  obtain clk rd clk' where p: "p = (clk, rd, clk')" by (cases p)
  have pass: "untrusted_pass j (clk, rd, clk')" using Cons.prems(4) p by simp
  note U = untrusted_pass_effect [OF Cons.prems(1-3) pass]
  have "ar_ledger (fst (fire_due_entries cal clk rd clk' rt)) = ar_ledger rt"
    "ar_rows (fst (fire_due_entries cal clk rd clk' rt)) = ar_rows rt"
    using U(1) [of cal] by simp_all
  with Cons.IH [of "fst (fire_due_entries cal clk rd clk' rt)"] show ?case
    using Cons.prems U(2) [of cal] by (auto simp: p case_prod_beta)
qed

section \<open>Restart\<close>

definition appointment_row_key :: "persisted_appointment \<Rightarrow> string \<times> string" where
  "appointment_row_key row = (pa_creator row, pa_appointment_id row)"

text \<open>The entry a row comes back as, when both of its documents can be read and the specification
  names the row's appointment.\<close>

definition restored ::
    "'v appointment_codec \<Rightarrow> clocks \<Rightarrow> persisted_appointment \<Rightarrow> 'v appointment_entry option" where
  "restored codec clk row =
     (case (ac_spec_of_json codec (pa_spec_json row), ac_action_of_json codec (pa_action_json row)) of
        (Some spec, Some action) \<Rightarrow>
          if as_appointment_id spec = pa_appointment_id row
          then Some (fresh_appointment (pa_creator row) spec action
            (map_option (\<lambda>ms. ms_to_instant ms (fst clk) (snd clk)) (pa_next_fire_at_ms row)))
          else None
      | _ \<Rightarrow> None)"

text \<open>A new entry is accepted while there is room.\<close>

lemma al_schedule_room:
  assumes "length (al_entries l) < unat (al_max_total l)"
    "length (al_entries l) < unat (al_max_per_creator l)"
  shows "al_schedule creator spec action next_fire l = (l\<lparr>al_entries :=
    hm_insert (creator, as_appointment_id spec) (fresh_appointment creator spec action next_fire)
      (al_entries l)\<rparr>, Inr ())"
proof -
  have fits: "of_nat m < x" if "m \<le> length (al_entries l)" "length (al_entries l) < unat x"
    for m and x :: u32
    using that unsigned_less [of x, where ?'a = nat]
    by (simp add: word_less_nat_alt unat_of_nat take_bit_eq_mod)
  have "length (filter (\<lambda>(c, _). c = creator) (hm_keys (al_entries l))) \<le> length (al_entries l)"
    using length_filter_le [of "\<lambda>(c, _). c = creator" "hm_keys (al_entries l)"]
    by (simp add: hm_keys_def)
  from fits [OF this assms(2)] fits [OF order_refl assms(1)] show ?thesis
    by (simp add: al_schedule_def Let_def not_le [symmetric])
qed

lemma length_hm_insert: "length (hm_insert k v m) \<le> Suc (length m)"
  by (induction m) (auto simp: hm_insert_def)

lemma rehydrate_rows_effect:
  assumes "\<forall>row \<in> set rows. restored codec clk row \<noteq> None"
    "distinct (map appointment_row_key rows)"
    "length (al_entries l) + length rows \<le> unat (al_max_total l)"
    "length (al_entries l) + length rows \<le> unat (al_max_per_creator l)"
  shows "snd (rehydrate_rows codec clk rows l) = length rows \<and>
    (\<forall>k. hm_get (al_entries (fst (rehydrate_rows codec clk rows l))) k =
       (case find (\<lambda>row. appointment_row_key row = k) rows of
          Some row \<Rightarrow> restored codec clk row | None \<Rightarrow> hm_get (al_entries l) k))"
  using assms
proof (induction rows arbitrary: l)
  case (Cons row rows)
  obtain spec action where doc: "ac_spec_of_json codec (pa_spec_json row) = Some spec"
    "ac_action_of_json codec (pa_action_json row) = Some action"
    "as_appointment_id spec = pa_appointment_id row"
    using Cons.prems(1) by (auto simp: restored_def split: option.splits if_splits)
  let ?e = "fresh_appointment (pa_creator row) spec action
    (map_option (\<lambda>ms. ms_to_instant ms (fst clk) (snd clk)) (pa_next_fire_at_ms row))"
  let ?l = "l\<lparr>al_entries := hm_insert (appointment_row_key row) ?e (al_entries l)\<rparr>"
  have step: "rehydrate_rows codec clk (row # rows) l =
      (fst (rehydrate_rows codec clk rows ?l), Suc (snd (rehydrate_rows codec clk rows ?l)))"
    using doc Cons.prems(3,4) by (simp add: al_schedule_room appointment_row_key_def case_prod_beta)
  have here: "restored codec clk row = Some ?e" using doc by (simp add: restored_def)
  have later: "find (\<lambda>r. appointment_row_key r = appointment_row_key row) rows = None"
    using Cons.prems(2) by (simp add: find_None_iff) (metis imageI)
  have "length (al_entries ?l) + length rows \<le> unat (al_max_total ?l)"
    "length (al_entries ?l) + length rows \<le> unat (al_max_per_creator ?l)"
    using Cons.prems(3,4) length_hm_insert [of "appointment_row_key row" ?e "al_entries l"] by simp_all
  with Cons.IH [of ?l] Cons.prems(1,2)
  have IH: "snd (rehydrate_rows codec clk rows ?l) = length rows \<and>
    (\<forall>k. hm_get (al_entries (fst (rehydrate_rows codec clk rows ?l))) k =
       (case find (\<lambda>row. appointment_row_key row = k) rows of
          Some row \<Rightarrow> restored codec clk row | None \<Rightarrow> hm_get (al_entries ?l) k))" by simp
  have "hm_get (al_entries (fst (rehydrate_rows codec clk rows ?l))) k =
      (case find (\<lambda>row. appointment_row_key row = k) (row # rows) of
         Some row \<Rightarrow> restored codec clk row | None \<Rightarrow> hm_get (al_entries l) k)" for k
  proof (cases "appointment_row_key row = k")
    case True
    then show ?thesis using spec [OF conjunct2 [OF IH], of k] here later by simp
  next
    case False
    then show ?thesis using spec [OF conjunct2 [OF IH], of k] by (simp split: option.splits)
  qed
  then show ?case unfolding step using IH by simp
qed simp

text \<open>A row written when an appointment is scheduled comes back as the scheduled entry, with the
  fire time put on the clock of the new process.\<close>

lemma restored_row:
  "ac_spec_of_json codec (ac_spec_json codec spec) = Some spec \<Longrightarrow>
   ac_action_of_json codec (ac_action_json codec action) = Some action \<Longrightarrow>
   restored codec clk (persisted_appointment_row codec creator spec action next_ms now_ms) =
     Some (fresh_appointment creator spec action
       (map_option (\<lambda>ms. ms_to_instant ms (fst clk) (snd clk)) next_ms))"
  by (simp add: restored_def persisted_appointment_row_def)

definition appointment_rows_ok ::
    "'v appointment_codec \<Rightarrow> clocks \<Rightarrow> appointment_rows \<Rightarrow> bool" where
  "appointment_rows_ok codec clk rows \<longleftrightarrow> hm_wf rows \<and>
     (\<forall>k row. hm_get rows k = Some row \<longrightarrow> appointment_row_key row = k \<and>
        (pa_state row = PA_Pending \<longrightarrow> restored codec clk row \<noteq> None))"

lemma rows_okD:
  "appointment_rows_ok codec clk rows \<Longrightarrow> hm_get rows k = Some row \<Longrightarrow> appointment_row_key row = k"
  "appointment_rows_ok codec clk rows \<Longrightarrow> hm_get rows k = Some row \<Longrightarrow> pa_state row = PA_Pending \<Longrightarrow>
   restored codec clk row \<noteq> None"
  unfolding appointment_rows_ok_def by blast+

lemma pending_rows:
  assumes "appointment_rows_ok codec clk rows"
  shows "row \<in> set (list_pending_appointments rows) \<longleftrightarrow>
      pa_state row = PA_Pending \<and> hm_get rows (appointment_row_key row) = Some row"
    "distinct (map appointment_row_key (list_pending_appointments rows))"
    "length (list_pending_appointments rows) \<le> length rows"
proof -
  have wf: "hm_wf rows" using assms by (simp add: appointment_rows_ok_def)
  have "row \<in> snd ` set rows \<longleftrightarrow> (\<exists>k. hm_get rows k = Some row)"
    using hm_mem_iff [OF wf] by force
  also have "\<dots> \<longleftrightarrow> hm_get rows (appointment_row_key row) = Some row"
    using rows_okD(1) [OF assms] by metis
  finally show "row \<in> set (list_pending_appointments rows) \<longleftrightarrow>
      pa_state row = PA_Pending \<and> hm_get rows (appointment_row_key row) = Some row"
    by (auto simp: list_pending_appointments_def)
  have "map appointment_row_key (map snd rows) = hm_keys rows"
    using rows_okD(1) [OF assms] hm_mem_iff [OF wf] by (auto simp: hm_keys_def)
  then have "distinct (map appointment_row_key (map snd rows))" using wf by simp
  then have "distinct (map appointment_row_key (filter (\<lambda>r. pa_state r = PA_Pending) (map snd rows)))"
    by (rule distinct_map_filter)
  then show "distinct (map appointment_row_key (list_pending_appointments rows))"
    by (simp add: list_pending_appointments_def distinct_map)
  show "length (list_pending_appointments rows) \<le> length rows"
    using length_filter_le [of "\<lambda>r. pa_state r = PA_Pending" "map snd rows"]
    by (simp add: list_pending_appointments_def)
qed

lemma find_pending:
  assumes "appointment_rows_ok codec clk rows"
  shows "find (\<lambda>row. appointment_row_key row = k) (list_pending_appointments rows) =
      (case hm_get rows k of
         Some row \<Rightarrow> if pa_state row = PA_Pending then Some row else None | None \<Rightarrow> None)"
proof (cases "find (\<lambda>row. appointment_row_key row = k) (list_pending_appointments rows)")
  case None
  then have "pa_state row \<noteq> PA_Pending" if "hm_get rows k = Some row" for row
    using that pending_rows(1) [OF assms, of row] rows_okD(1) [OF assms, of k row]
    by (auto simp: find_None_iff)
  then show ?thesis using None by (auto split: option.splits)
next
  case (Some row)
  then have "row \<in> set (list_pending_appointments rows)" "appointment_row_key row = k"
    by (auto simp: find_Some_iff in_set_conv_nth)
  then show ?thesis using Some pending_rows(1) [OF assms, of row] by auto
qed


lemma sat_sub_twice: "unat (sat_sub x (sat_sub x y)) \<le> unat y"
  by (simp add: unat_sat_sub)

text \<open>The delay that a miss policy allows, in milliseconds.\<close>

definition policy_allows :: "appointment_miss_policy \<Rightarrow> nat \<Rightarrow> bool" where
  "policy_allows policy delay =
     (case policy of
        M_Drop \<Rightarrow> delay \<le> 1000 | M_Catchup \<Rightarrow> True | M_CatchupWithinGrace grace \<Rightarrow> delay \<le> unat grace)"


section \<open>Concrete runs\<close>

text \<open>An appointment every second, limited to two fires, on a runtime with a store and a wake
  callback. No calendar is needed for it.\<close>

definition no_calendar :: "(unit, unit) calendar" where
  "no_calendar = \<lparr>cal_parse_time = (\<lambda>_ _. None), cal_parse_date = (\<lambda>_ _. None),
     cal_instant = (\<lambda>_. None), cal_add_days = (\<lambda>_ _. None), cal_utc_ms = (\<lambda>_ _. 0),
     cal_local_ms = (\<lambda>_ _. LR_None), cal_weekday = (\<lambda>_. Mon), cal_day = (\<lambda>_. 1),
     cal_month = (\<lambda>_. 1)\<rparr>"

definition alarm_spec :: appointment_spec where
  "alarm_spec = \<lparr>as_appointment_id = ''a'', as_time = None, as_zone = Z_Utc,
     as_recurrence = R_Periodic 1000, as_end_time_ms = None, as_max_fires = Some 2, as_except = [],
     as_miss_policy = M_Drop, as_pre_fire_ms = None, as_must_wake_device = True,
     as_wake_pre_arm_ms = None\<rparr>"

definition alarm_action :: "unit appointment_action" where
  "alarm_action = \<lparr>aa_target_shelf = ''s'', aa_request_type = ''r'', aa_payload = ()\<rparr>"

definition alarm_codec :: "unit appointment_codec" where
  "alarm_codec = \<lparr>ac_spec_json = (\<lambda>_. ''spec''), ac_action_json = (\<lambda>_. ''action''),
     ac_spec_of_json = (\<lambda>s. if s = ''spec'' then Some alarm_spec else None),
     ac_action_of_json = (\<lambda>s. if s = ''action'' then Some alarm_action else None)\<rparr>"

definition alarm_boot :: "unit appointment_runtime" where
  "alarm_boot = \<lparr>ar_ledger = new_appointment_ledger, ar_rows = Some [], ar_wake = Some None,
     ar_framework_handler = False\<rparr>"

text \<open>The wall clock and the monotonic clock, in milliseconds.\<close>

definition clocks_at :: "nat \<Rightarrow> nat \<Rightarrow> clocks" where
  "clocks_at wall monotonic = (of_nat wall, monotonic * 1000000)"

definition reading_at :: "time_trust \<Rightarrow> nat \<Rightarrow> fire_reading" where
  "reading_at trust monotonic = \<lparr>fr_trust = trust, fr_instant = monotonic * 1000000,
     fr_after = monotonic * 1000000, fr_result = Inr (), fr_stored = True, fr_at = 0\<rparr>"

definition alarm_set :: "unit appointment_runtime" where
  "alarm_set = fst (appointment_schedule no_calendar alarm_codec (clocks_at 0 0) (clocks_at 0 0) True
     ''p'' alarm_spec alarm_action alarm_boot)"

definition alarm_pass ::
    "time_trust \<Rightarrow> nat \<Rightarrow> nat \<Rightarrow> unit appointment_runtime
       \<Rightarrow> unit appointment_runtime \<times> unit happening list" where
  "alarm_pass trust wall monotonic =
     fire_due_entries no_calendar (clocks_at wall monotonic) (\<lambda>_. reading_at trust monotonic)
       (clocks_at wall monotonic)"

definition alarm_entry :: "u32 \<Rightarrow> u64 option \<Rightarrow> nat \<Rightarrow> unit appointment_entry" where
  "alarm_entry fires last_ms next_ms = \<lparr>ap_creator = ''p'', ap_spec = alarm_spec,
     ap_action = alarm_action, ap_state = A_Pending, ap_next_fire = Some (next_ms * 1000000),
     ap_last_fired_at_ms = last_ms, ap_fires_completed = fires\<rparr>"

definition alarm_row :: "u32 \<Rightarrow> u64 option \<Rightarrow> u64 \<Rightarrow> u64 \<Rightarrow> persisted_appointment" where
  "alarm_row fires last_ms next_ms updated_ms = \<lparr>pa_creator = ''p'', pa_appointment_id = ''a'',
     pa_spec_json = ''spec'', pa_action_json = ''action'', pa_state = PA_Pending,
     pa_next_fire_at_ms = Some next_ms, pa_last_fired_at_ms = last_ms, pa_fires_completed = fires,
     pa_created_at_ms = 0, pa_updated_at_ms = updated_ms\<rparr>"

definition alarm_runtime ::
    "unit appointment_entry \<Rightarrow> persisted_appointment \<Rightarrow> u64 \<Rightarrow> unit appointment_runtime" where
  "alarm_runtime e row wake = \<lparr>ar_ledger = new_appointment_ledger\<lparr>al_entries := [((''p'', ''a''), e)]\<rparr>,
     ar_rows = Some [((''p'', ''a''), row)], ar_wake = Some (Some wake), ar_framework_handler = False\<rparr>"

lemmas alarm_defs = no_calendar_def alarm_spec_def alarm_action_def alarm_codec_def alarm_boot_def
  clocks_at_def reading_at_def alarm_set_def alarm_pass_def alarm_entry_def
  alarm_row_def alarm_runtime_def

lemmas appointment_run_defs = appointment_schedule_def next_fire_after_def next_candidate_def
  al_schedule_def new_appointment_ledger_def DEFAULT_MAX_APPOINTMENTS_TOTAL_def
  DEFAULT_MAX_APPOINTMENTS_PER_CREATOR_def fresh_appointment_def sat_add_def ms_to_instant_def
  millis_def hm_get_def hm_insert_def hm_contains_def hm_keys_def write_rows_def
  record_appointment_def persisted_appointment_row_def reprogram_rtc_wake_def al_pending_def
  wake_at_def instant_to_ms_def min_option_def sat_sub_def fire_due_entries_def is_due_def
  holds_some_def fire_one_def missed_reason_def advance_after_fire_def al_mark_fired_def
  al_update_def sat_inc_def appointment_key_def update_appointment_after_fire_def
  appointment_outcome_def FRAMEWORK_CREATOR_PREFIX_def reevaluate_all_pending_def reevaluate_one_def
  forget_appointment_def hm_remove_def Let_def word_le_nat_alt word_less_nat_alt
  unat_max_u64 unat_max_u32

lemma alarm_set_is: "alarm_set = alarm_runtime (alarm_entry 0 None 1000) (alarm_row 0 None 1000 0) 1000"
  by (simp add: alarm_defs appointment_run_defs)

lemma alarm_first_fire:
  "alarm_pass (TT_Trusted 0) 1000 1000
     (alarm_runtime (alarm_entry 0 None 1000) (alarm_row 0 None 1000 0) 1000) =
   (alarm_runtime (alarm_entry 1 (Some 1000) 2001) (alarm_row 1 (Some 1000) 2001 1000) 2001,
    [H_AppointmentFired ''p'' ''a'' 1000 ''ok'' 0])"
  by (simp add: alarm_defs appointment_run_defs)

text \<open>The wall clock is stepped from 1500 to 6500.\<close>

lemma alarm_clock_step:
  "reevaluate_all_pending no_calendar (clocks_at 6500 1500) (clocks_at 6500 1500)
     (alarm_runtime (alarm_entry 1 (Some 1000) 2001) (alarm_row 1 (Some 1000) 2001 1000) 2001) =
   alarm_runtime (alarm_entry 0 None 2500) (alarm_row 1 (Some 1000) 2001 1000) 7500"
  by (simp add: alarm_defs appointment_run_defs)

lemma alarm_second_fire:
  "alarm_pass (TT_Trusted 0) 7500 2500
     (alarm_runtime (alarm_entry 0 None 2500) (alarm_row 1 (Some 1000) 2001 1000) 7500) =
   (alarm_runtime (alarm_entry 1 (Some 7500) 3501) (alarm_row 1 (Some 7500) 8501 7500) 8501,
    [H_AppointmentFired ''p'' ''a'' 7500 ''ok'' 0])"
  by (simp add: alarm_defs appointment_run_defs)

lemma alarm_third_fire:
  "snd (alarm_pass (TT_Trusted 0) 8501 3501
     (alarm_runtime (alarm_entry 1 (Some 7500) 3501) (alarm_row 1 (Some 7500) 8501 7500) 8501)) =
   [H_AppointmentFired ''p'' ''a'' 8501 ''ok'' 0]"
  by (simp add: alarm_defs appointment_run_defs)

lemmas alarm_run = alarm_set_is alarm_first_fire alarm_clock_step alarm_second_fire alarm_third_fire

lemma alarm_keyed: "appointments_keyed (ar_ledger (alarm_runtime (alarm_entry fires last_ms next_ms) row wake))"
  by (simp add: appointments_keyed_def alarm_runtime_def hm_wf_def hm_get_def alarm_entry_def
      appointment_key_def alarm_spec_def)

lemma alarm_pending:
  "al_pending (ar_ledger (alarm_runtime (alarm_entry fires last_ms next_ms) row wake)) =
     [alarm_entry fires last_ms next_ms]"
  by (simp add: al_pending_def alarm_runtime_def alarm_entry_def)

lemma alarm_key: "appointment_key (alarm_entry fires last_ms next_ms) = (''p'', ''a'')"
  by (simp add: appointment_key_def alarm_entry_def alarm_spec_def)

definition alarm_system ::
    "unit appointment_runtime \<Rightarrow> unit appointment_work \<Rightarrow> appointment_log list
       \<Rightarrow> unit appointment_system" where
  "alarm_system rt work lg = \<lparr>ay_runtime = rt, ay_work = work, ay_log = lg\<rparr>"

lemma alarm_scheduled:
  "appointment_step no_calendar alarm_codec (alarm_system alarm_boot AW_Idle [])
     (alarm_system alarm_set AW_Idle [AL_Issued (''p'', ''a'') (Some 2) False])"
proof -
  have res: "snd (appointment_schedule no_calendar alarm_codec (clocks_at 0 0) (clocks_at 0 0) True
     ''p'' alarm_spec alarm_action alarm_boot) = Inr (Some 1000)"
    by (simp add: alarm_defs appointment_run_defs)
  then have "appointment_schedule no_calendar alarm_codec (clocks_at 0 0) (clocks_at 0 0) True
     ''p'' alarm_spec alarm_action alarm_boot = (alarm_set, Inr (Some 1000))"
    unfolding alarm_set_def by (metis prod.collapse)
  then show ?thesis
    using schedule [of no_calendar alarm_codec "clocks_at 0 0" "clocks_at 0 0" True "''p''" alarm_spec
        alarm_action "alarm_system alarm_boot AW_Idle []" alarm_set "Inr (Some 1000)"]
    by (simp add: alarm_system_def alarm_spec_def)
qed

lemma alarm_woken:
  "appointment_step no_calendar alarm_codec (alarm_system alarm_set AW_Idle lg)
     (alarm_system alarm_set (AW_Firing 1000 [alarm_entry 0 None 1000]) lg)"
proof -
  have due: "is_due (clocks_at 1000 1000) (alarm_entry 0 None 1000)"
    by (simp add: alarm_defs appointment_run_defs)
  show ?thesis
    using wake [of "alarm_system alarm_set AW_Idle lg" no_calendar alarm_codec "clocks_at 1000 1000"] due
    by (simp add: alarm_system_def alarm_set_is alarm_pending) (simp add: clocks_at_def)
qed

lemma alarm_fired:
  "\<exists>rt. appointment_step no_calendar alarm_codec
     (alarm_system alarm_set (AW_Firing 1000 [alarm_entry 0 None 1000]) lg)
     (alarm_system rt (AW_Firing 1000 []) (AL_Dispatched (''p'', ''a'') # lg))"
proof -
  let ?s = "alarm_system alarm_set (AW_Firing 1000 [alarm_entry 0 None 1000]) lg"
  obtain rt hs where run: "fire_one no_calendar 1000 (reading_at (TT_Trusted 0) 1000)
      (alarm_entry 0 None 1000) alarm_set = (rt, hs)" by fastforce
  have "dispatched_keys (snd (fire_one no_calendar 1000 (reading_at (TT_Trusted 0) 1000)
      (alarm_entry 0 None 1000) alarm_set)) = [(''p'', ''a'')]"
    by (simp add: alarm_defs appointment_run_defs)
  then have "dispatched_keys hs = [(''p'', ''a'')]" by (simp add: run)
  then show ?thesis
    using fire [of ?s 1000 "alarm_entry 0 None 1000" "[]" no_calendar
        "reading_at (TT_Trusted 0) 1000" rt hs alarm_codec] run
    by (auto simp: alarm_system_def)
qed

text \<open>The appointment is issued again while the pass that fires it is under way, now limited to one fire.\<close>

definition once_spec :: appointment_spec where
  "once_spec = alarm_spec\<lparr>as_max_fires := Some 1\<rparr>"

definition alarm_once :: "unit appointment_runtime" where
  "alarm_once = fst (appointment_schedule no_calendar alarm_codec (clocks_at 1000 1000)
     (clocks_at 1000 1000) True ''p'' once_spec alarm_action alarm_set)"

definition alarm_rearmed :: "unit appointment_runtime" where
  "alarm_rearmed = fst (fire_one no_calendar 1000 (reading_at (TT_Trusted 0) 1000)
     (alarm_entry 0 None 1000) alarm_once)"

definition alarm_again :: "unit appointment_runtime" where
  "alarm_again = reprogram_rtc_wake (clocks_at 1000 1000) alarm_rearmed"

definition once_entry :: "unit appointment_entry" where
  "once_entry = (alarm_entry 1 (Some 1000) 2001)\<lparr>ap_spec := once_spec\<rparr>"

lemmas once_defs = once_spec_def alarm_once_def alarm_rearmed_def alarm_again_def once_entry_def

lemma once_facts:
  "snd (appointment_schedule no_calendar alarm_codec (clocks_at 1000 1000) (clocks_at 1000 1000) True
     ''p'' once_spec alarm_action alarm_set) = Inr (Some 2000)"
  "dispatched_keys (snd (fire_one no_calendar 1000 (reading_at (TT_Trusted 0) 1000)
     (alarm_entry 0 None 1000) alarm_once)) = [(''p'', ''a'')]"
  "filter (is_due (clocks_at 2001 2001)) (al_pending (ar_ledger alarm_again)) = [once_entry]"
  "dispatched_keys (snd (fire_one no_calendar 2001 (reading_at (TT_Trusted 0) 2001) once_entry
     alarm_again)) = [(''p'', ''a'')]"
  by (simp_all add: once_defs alarm_defs appointment_run_defs)

lemma once_steps:
  "appointment_step no_calendar alarm_codec
     (alarm_system alarm_set (AW_Firing 1000 [alarm_entry 0 None 1000]) lg)
     (alarm_system alarm_once (AW_Firing 1000 [alarm_entry 0 None 1000])
        (AL_Issued (''p'', ''a'') (Some 1) True # lg))"
  "appointment_step no_calendar alarm_codec
     (alarm_system alarm_once (AW_Firing 1000 [alarm_entry 0 None 1000]) lg)
     (alarm_system alarm_rearmed (AW_Firing 1000 []) (AL_Dispatched (''p'', ''a'') # lg))"
  "appointment_step no_calendar alarm_codec
     (alarm_system alarm_rearmed (AW_Firing 1000 []) lg) (alarm_system alarm_again AW_Idle lg)"
  "appointment_step no_calendar alarm_codec
     (alarm_system alarm_again AW_Idle lg) (alarm_system alarm_again (AW_Firing 2001 [once_entry]) lg)"
  "\<exists>rt. appointment_step no_calendar alarm_codec
     (alarm_system alarm_again (AW_Firing 2001 [once_entry]) lg)
     (alarm_system rt (AW_Firing 2001 []) (AL_Dispatched (''p'', ''a'') # lg))"
proof -
  let ?f = "alarm_system alarm_set (AW_Firing 1000 [alarm_entry 0 None 1000]) lg"
  have "appointment_schedule no_calendar alarm_codec (clocks_at 1000 1000) (clocks_at 1000 1000) True
     ''p'' once_spec alarm_action alarm_set = (alarm_once, Inr (Some 2000))"
    using once_facts(1) by (simp add: alarm_once_def prod_eq_iff)
  then show "appointment_step no_calendar alarm_codec ?f
     (alarm_system alarm_once (AW_Firing 1000 [alarm_entry 0 None 1000])
        (AL_Issued (''p'', ''a'') (Some 1) True # lg))"
    using schedule [of no_calendar alarm_codec "clocks_at 1000 1000" "clocks_at 1000 1000" True "''p''"
        once_spec alarm_action ?f alarm_once "Inr (Some 2000)"]
    by (simp add: alarm_system_def alarm_key) (simp add: once_spec_def alarm_spec_def)
  show "appointment_step no_calendar alarm_codec
     (alarm_system alarm_once (AW_Firing 1000 [alarm_entry 0 None 1000]) lg)
     (alarm_system alarm_rearmed (AW_Firing 1000 []) (AL_Dispatched (''p'', ''a'') # lg))"
    using fire [of "alarm_system alarm_once (AW_Firing 1000 [alarm_entry 0 None 1000]) lg" 1000
        "alarm_entry 0 None 1000" "[]" no_calendar "reading_at (TT_Trusted 0) 1000" alarm_rearmed
        "snd (fire_one no_calendar 1000 (reading_at (TT_Trusted 0) 1000) (alarm_entry 0 None 1000) alarm_once)"
        alarm_codec] once_facts(2)
    by (simp add: alarm_system_def alarm_rearmed_def)
  show "appointment_step no_calendar alarm_codec
     (alarm_system alarm_rearmed (AW_Firing 1000 []) lg) (alarm_system alarm_again AW_Idle lg)"
    using fired [of "alarm_system alarm_rearmed (AW_Firing 1000 []) lg" 1000 no_calendar alarm_codec
        "clocks_at 1000 1000"]
    by (simp add: alarm_system_def alarm_again_def)
  show "appointment_step no_calendar alarm_codec
     (alarm_system alarm_again AW_Idle lg) (alarm_system alarm_again (AW_Firing 2001 [once_entry]) lg)"
    using wake [of "alarm_system alarm_again AW_Idle lg" no_calendar alarm_codec "clocks_at 2001 2001"]
      once_facts(3)
    by (simp add: alarm_system_def) (simp add: clocks_at_def)
  let ?r = "fire_one no_calendar 2001 (reading_at (TT_Trusted 0) 2001) once_entry alarm_again"
  show "\<exists>rt. appointment_step no_calendar alarm_codec
     (alarm_system alarm_again (AW_Firing 2001 [once_entry]) lg)
     (alarm_system rt (AW_Firing 2001 []) (AL_Dispatched (''p'', ''a'') # lg))"
    using fire [of "alarm_system alarm_again (AW_Firing 2001 [once_entry]) lg" 2001 once_entry "[]"
        no_calendar "reading_at (TT_Trusted 0) 2001" "fst ?r" "snd ?r" alarm_codec] once_facts(4)
    by (auto simp: alarm_system_def)
qed

text \<open>An appointment limited to one fire is dispatched twice after it was issued.\<close>

lemma fire_limit_exceeded:
  obtains t where "appointment_start (alarm_system alarm_boot AW_Idle [])"
    "(appointment_step no_calendar alarm_codec)\<^sup>*\<^sup>* (alarm_system alarm_boot AW_Idle []) t"
    "last_issue (''p'', ''a'') (ay_log t) = Some (Some 1, True, 2)"
proof -
  let ?l = "[AL_Dispatched (''p'', ''a''), AL_Issued (''p'', ''a'') (Some 1) True,
     AL_Issued (''p'', ''a'') (Some 2) False]"
  obtain rt where "appointment_step no_calendar alarm_codec
     (alarm_system alarm_again (AW_Firing 2001 [once_entry]) ?l)
     (alarm_system rt (AW_Firing 2001 []) (AL_Dispatched (''p'', ''a'') # ?l))"
    (is "appointment_step _ _ _ ?t") using once_steps(5) by blast
  then have "(appointment_step no_calendar alarm_codec)\<^sup>*\<^sup>* (alarm_system alarm_boot AW_Idle []) ?t"
    by - ((rule converse_rtranclp_into_rtranclp, rule alarm_scheduled alarm_woken once_steps(1-4))+,
        rule r_into_rtranclp)
  moreover have "appointment_start (alarm_system alarm_boot AW_Idle [])"
    by (simp add: appointment_start_def alarm_system_def alarm_boot_def new_appointment_ledger_def)
  moreover have "last_issue (''p'', ''a'') (ay_log ?t) = Some (Some 1, True, 2)"
    by (simp add: alarm_system_def)
  ultimately show ?thesis using that by blast
qed

theorem fire_limit_witness:
  "\<exists>t. appointment_start (alarm_system alarm_boot AW_Idle []) \<and>
     (appointment_step no_calendar alarm_codec)\<^sup>*\<^sup>* (alarm_system alarm_boot AW_Idle []) t \<and>
     last_issue (''p'', ''a'') (ay_log t) = Some (Some 1, True, 2) \<and> 2 \<le> max (unat (1 :: u32)) 2"
proof -
  obtain t where t: "appointment_start (alarm_system alarm_boot AW_Idle [])"
    "(appointment_step no_calendar alarm_codec)\<^sup>*\<^sup>* (alarm_system alarm_boot AW_Idle []) t"
    "last_issue (''p'', ''a'') (ay_log t) = Some (Some 1, True, 2)" by (rule fire_limit_exceeded)
  from fire_limit [OF t] have "2 \<le> max (unat (1 :: u32)) 2" by simp
  with t show ?thesis by blast
qed

theorem clock_step_resets_count_witness:
  "as_max_fires alarm_spec = Some 2 \<and>
   (let (rt1, hs1) = alarm_pass (TT_Trusted 0) 1000 1000 alarm_set;
        rt2 = reevaluate_all_pending no_calendar (clocks_at 6500 1500) (clocks_at 6500 1500) rt1;
        (rt3, hs3) = alarm_pass (TT_Trusted 0) 7500 2500 rt2;
        (rt4, hs4) = alarm_pass (TT_Trusted 0) 8501 3501 rt3
    in al_lookup (''p'', ''a'') (ar_ledger rt1) = Some (alarm_entry 1 (Some 1000) 2001) \<and>
       al_lookup (''p'', ''a'') (ar_ledger rt2) = Some (alarm_entry 0 None 2500) \<and>
       dispatched_keys (hs1 @ hs3 @ hs4) = [(''p'', ''a''), (''p'', ''a''), (''p'', ''a'')])"
proof -
  let ?e = "alarm_entry 1 (Some 1000) 2001"
  let ?rt = "alarm_runtime ?e (alarm_row 1 (Some 1000) 2001 1000) 2001"
  have "next_fire_after no_calendar (ap_spec ?e) (fst (clocks_at 6500 1500)) (ap_fires_completed ?e) =
      Inr (Some 7500)"
    by (simp add: alarm_defs appointment_run_defs)
  with clock_step_resets_count [of ?rt ?e no_calendar "clocks_at 6500 1500" "Some 7500"
      "clocks_at 6500 1500"]
  have "al_lookup (''p'', ''a'') (ar_ledger (reevaluate_all_pending no_calendar (clocks_at 6500 1500)
      (clocks_at 6500 1500) ?rt)) = Some (alarm_entry 0 None 2500)"
    by (simp add: alarm_keyed alarm_pending alarm_key) (simp add: alarm_defs appointment_run_defs)
  moreover have "al_lookup (''p'', ''a'') (ar_ledger ?rt) = Some ?e"
    by (simp add: al_lookup_def alarm_runtime_def hm_get_def)
  moreover have "as_max_fires alarm_spec = Some 2" by (simp add: alarm_spec_def)
  ultimately show ?thesis
    using alarm_third_fire by (simp add: alarm_run case_prod_beta Let_def)
qed

theorem untrusted_spins_witness:
  "let pass = (clocks_at 1000 1000, \<lambda>_. reading_at TT_Untrusted 1000, clocks_at 1000 1000)
   in ar_ledger (fst (fire_passes no_calendar [pass, pass, pass] alarm_set)) = ar_ledger alarm_set \<and>
      count_list (missed_keys (snd (fire_passes no_calendar [pass, pass, pass] alarm_set))) (''p'', ''a'') = 3"
proof -
  let ?e = "alarm_entry 0 None 1000"
  let ?p = "(clocks_at 1000 1000, \<lambda>_ :: unit appointment_entry. reading_at TT_Untrusted 1000,
    clocks_at 1000 1000)"
  have "ap_next_fire ?e = Some 1000000000" by (simp add: alarm_entry_def)
  moreover have "\<forall>p \<in> set [?p, ?p, ?p]. untrusted_pass 1000000000 p"
    by (simp add: untrusted_pass_def clocks_at_def reading_at_def)
  ultimately show ?thesis
    using untrusted_spins [of alarm_set ?e 1000000000 "[?p, ?p, ?p]" no_calendar]
    by (simp add: alarm_keyed alarm_pending alarm_key alarm_set_is)
qed



end
