(* ===== verification/Custody_Report.thy ===== *)
theory Custody_Report
  imports Custody_Spec Happening_Spec Wiring
begin

text \<open>
  The state reporter (\<open>LedgerCustodyStateReporter\<close> of \<open>custody.rs\<close>): the ledger first, the happening
  after it. The ledger and the bus write to one store \<open>'s\<close> through their own interfaces.
\<close>

record 's report_state =
  rp_entries :: custody_entries
  rp_store :: 's

definition report ::
    "'s custody_store option \<Rightarrow> ('s, 'j) happening_store option \<Rightarrow> ('v happening \<Rightarrow> string + 'j)
       \<Rightarrow> string \<Rightarrow> custody_handle \<Rightarrow> 8 word list \<Rightarrow> health_status \<Rightarrow> systime \<Rightarrow> systime \<Rightarrow> systime
       \<Rightarrow> 's report_state \<Rightarrow> 'v happening_bus \<Rightarrow> 's report_state \<times> 'v happening_bus \<times> unit wresult" where
  "report ledger log ser plugin_name handle payload health recorded_at reported_at logged_at st b =
     (case record_state ledger plugin_name (ch_id handle) payload health recorded_at
             (rp_entries st, rp_store st) of
        ((entries, s), Inl e) \<Rightarrow>
          (\<lparr>rp_entries = entries, rp_store = s\<rparr>, b,
           Refused (RInvalid (''custody ledger state write failed: '' @ display_persistence_error e)))
      | ((entries, s), Inr _) \<Rightarrow>
          (case emit_durable log ser logged_at
                  (H_CustodyStateReported plugin_name (ch_id handle) health reported_at) b s of
             (b', s', Inl e) \<Rightarrow>
               (\<lparr>rp_entries = entries, rp_store = s'\<rparr>, b',
                Refused (RInvalid (''persistence write failed: '' @ display_persistence_error e)))
           | (b', s', Inr _) \<Rightarrow> (\<lparr>rp_entries = entries, rp_store = s'\<rparr>, b', Done ())))"

text \<open>What a durable emit sends: the happening when it succeeds, nothing when it fails.\<close>

lemma emit_durable_sends:
  "emit_durable log ser logged_at h b s = (b', s', res) \<Longrightarrow>
   hb_tx b' = hb_tx b @ (if isl res then [] else [h])"
  by (auto simp: emit_durable_def emit_def broadcast_def mint_seqs_def Let_def
      split: option.splits sum.splits prod.splits)

lemma record_state_snapshot:
  "record_state store plugin handle_id payload health recorded_at (e, s) = ((e', s'), Inr u) \<Longrightarrow>
   \<exists>rec. describe_custody e' plugin handle_id = Some rec \<and>
     cu_last_state rec = Some \<lparr>sn_payload = payload, sn_health = health, sn_reported_at = recorded_at\<rparr>"
  by (auto simp: record_state_def record_state_commit_def describe_custody_def Let_def
      split: prod.splits sum.splits option.splits)

text \<open>The ledger comes first. A report sends at most one happening, and whenever it sends one the ledger already
  holds the reported snapshot; a report the ledger refuses changes neither the records nor the bus;
  and a report that fails only at the happening log is refused to the plugin although the ledger
  keeps the snapshot.\<close>

theorem report_ledger_first:
  assumes "report ledger log ser plugin handle payload health recorded_at reported_at logged_at st b =
    (st', b', res)"
  shows "(res = Done () \<longrightarrow>
      hb_tx b' = hb_tx b @ [H_CustodyStateReported plugin (ch_id handle) health reported_at]) \<and>
    (res \<noteq> Done () \<longrightarrow> hb_tx b' = hb_tx b) \<and>
    (rp_entries st' = rp_entries st \<and> b' = b \<or>
     (\<exists>rec. describe_custody (rp_entries st') plugin (ch_id handle) = Some rec \<and>
        cu_last_state rec = Some \<lparr>sn_payload = payload, sn_health = health,
          sn_reported_at = recorded_at\<rparr>))"
proof (cases "record_state ledger plugin (ch_id handle) payload health recorded_at
    (rp_entries st, rp_store st)")
  case (Pair es r)
  obtain e s where es: "es = (e, s)" by (cases es)
  show ?thesis
  proof (cases r)
    case (Inl err)
    then have "e = rp_entries st"
      using Pair es by (auto simp: record_state_def split: prod.splits sum.splits)
    with Inl show ?thesis using assms Pair es by (auto simp: report_def)
  next
    case (Inr u)
    note snap = record_state_snapshot [OF Pair [unfolded es Inr]]
    obtain b1 s1 res1 where emit: "emit_durable log ser logged_at
        (H_CustodyStateReported plugin (ch_id handle) health reported_at) b s = (b1, s1, res1)"
      by (cases "emit_durable log ser logged_at
        (H_CustodyStateReported plugin (ch_id handle) health reported_at) b s")
    show ?thesis
      using assms snap emit_durable_sends [OF emit]
      by (auto simp: report_def Pair es Inr emit split: sum.splits)
  qed
qed

end
