(* ===== verification/Spec2Isabelle.thy ===== *)
theory Spec2Isabelle
  imports Subject_Spec Relation_Walk Custody_Spec Catalogue_Spec Happening_Spec Admin Restart
    Wiring_Races Alias_Query Projection_Spec Watch_Spec Appointment_Spec Custody_Report
begin

text \<open>
  \<^bold>\<open>The evo steward: a verification of its identity core\<close>

  The repository is an appliance framework in Rust. One process, the \<^emph>\<open>steward\<close>
  (\<open>src/crates/evo\<close>), admits plugins and keeps what they say about the world: \<^emph>\<open>subjects\<close> (things
  with external addressings, claimed by plugins), \<^emph>\<open>relations\<close> between subjects, \<^emph>\<open>custodies\<close>
  (work a warden plugin holds), all under a \<^emph>\<open>catalogue\<close> that declares subject types and predicates.
  Every change is mirrored in a durable store, announced as a \<^emph>\<open>happening\<close>, and administrator
  actions are recorded in a ledger. This development models that core, with the SDK types it shares
  with plugins (\<open>src/crates/evo-plugin-sdk\<close>), and proves what each part promises and what the parts
  promise together.

  \<^bold>\<open>Theories and the code they model\<close>

  \<^item> \<open>Evo_Prelude\<close>: hash maps and sets with their law as the locale \<open>hash_map\<close>, vectors, saturating
    and wrapping integers, clocks, errors (\<open>error.rs\<close>), decimal printing; the locales
    \<open>invariant_system\<close> and \<open>monotone_system\<close>, from which every history property is taken.
  \<^item> \<open>Subjects\<close>, \<open>Subject_Laws\<close>, \<open>Subject_Spec\<close>: the subject registry (\<open>subjects.rs\<close>): announce, state
    update, retract, forced retract, merge, split, subscription interest; the coherence invariant,
    the effect of each verb on each branch, and the refinement to a ledger of claim holders.
  \<^item> \<open>Relations\<close>, \<open>Relation_Laws\<close>, \<open>Relation_Spec\<close>, \<open>Relation_Walk\<close>: the relation graph
    (\<open>relations.rs\<close>): assert, retract, suppress, the merge and split cascades, neighbour queries and
    the breadth-first walk, sound and complete within its depth and its visit cap.
  \<^item> \<open>Memory_Store\<close>: \<open>MemoryPersistenceStore\<close> of \<open>persistence.rs\<close>, the reference implementation of the
    store trait, for the slices the modelled components use.
  \<^item> \<open>Custody\<close>, \<open>Custody_Spec\<close>, \<open>Custody_Report\<close>: the custody ledger (\<open>custody.rs\<close>) over any store that
    keeps the law \<open>custody_rows\<close>: write-through, restart, store failures, the window between its read
    and its write, and the state reporter, which writes the ledger before it announces.
  \<^item> \<open>Catalogue_Rules\<close>, \<open>Catalogue_Spec\<close>: the catalogue (\<open>catalogue.rs\<close>): validation equal to a
    declarative rule set, unambiguous lookups, the three-tier load.
  \<^item> \<open>Happenings\<close>, \<open>Happening_Spec\<close>: the happening bus (\<open>happenings.rs\<close>): its emit paths as steps
    between which other tasks run, and replay plus live delivery without repetition, every row delivered, in flight, or lost with
    a cancelled emitter.
  \<^item> \<open>Admin\<close>: the administrator ledger (\<open>admin.rs\<close>), its row codec and its restart.
  \<^item> \<open>Wiring\<close>, \<open>Wiring_Laws\<close>, \<open>Wiring_Spec\<close>, \<open>Wiring_Frame\<close>, \<open>Wiring_Cascade\<close>: the wiring layer
    (\<open>context.rs\<close>): the verbs plugins and administrators call, each the composition of registry,
    graph, bus, ledger, conflict index and store in the order of the code. A verb is a function from
    a steward to a steward and a result; \<open>wp\<close> is its weakest precondition, \<open>row_view\<close> the frame every
    verb keeps. The invariant \<open>steward_inv\<close> says that the graph has no dangling and no ill-typed edge.
  \<^item> \<open>Wiring_Races\<close>: assert, retract, merge and split cut at the point between the registry and the
    graph, each verb equal to its two phases, and what other verbs running in between meet or break.
  \<^item> \<open>Alias_Query\<close>: the querier's chase of alias chains (\<open>context.rs\<close>) and the alias graph.
  \<^item> \<open>Rehydrate\<close>, \<open>Durable_Image\<close>, \<open>Restart\<close>: the boot-time reconstruction (\<open>subjects.rs\<close>,
    \<open>relations.rs\<close>), the durable image each verb keeps, and that booting again gives the registry
    back.
  \<^item> \<open>Projections\<close>, \<open>Projection_Spec\<close>: the projection engine (\<open>projections.rs\<close>): exact documents, no
    subject expanded twice, bounds, and no dangling relation between verbs served one at a time.
  \<^item> \<open>Time_Trust\<close>: the clock-trust tracker (\<open>time_trust.rs\<close>): its poll, the announcements of a run and
    the clock steps it sees.
  \<^item> \<open>Watches\<close>, \<open>Watch_Laws\<close>, \<open>Watch_Decision\<close>, \<open>Watch_Spec\<close>: condition-driven watches
    (\<open>watches.rs\<close>): ledger and quotas, validation, conditions against a meaning stated without
    the evaluator, throttle, debounce and cooldown, a pass that fires exactly the due watches, and
    the loop that interleaves with its callers.
  \<^item> \<open>Appointments\<close>, \<open>Appointment_Laws\<close>, \<open>Appointment_Spec\<close>: time-driven appointments
    (\<open>appointments.rs\<close>): the next fire of a recurrence over any calendar, the ledger and its stored
    rows, the loop that fires and re-evaluates, the limit on fires in every interleaving, and the
    restart.

  \<^bold>\<open>How code becomes definitions\<close>

  A struct is a \<open>record\<close>, an enum a \<open>datatype\<close>, a \<open>HashMap\<close> an association list with the laws of
  \<open>hash_map\<close> (its iteration order is the list order; no property depends on it unless it says so).
  \<open>Result\<close> and panics are the sum \<open>outcome\<close> or \<open>wresult\<close>: every early return, error text and
  \<open>expect\<close> of the code is a branch. Clocks and UUIDs are functions of the reading; what is relied on
  is \<open>fresh_ids\<close>: new ids are unused and pairwise different. JSON values and their codecs, the TOML
  parser, the calendar and the file system are parameters. A store call may fail at any site (\<open>we_fault\<close>); \<open>quiet\<close>
  is the hypothesis that none does, and the properties that need it say so.

  \<^bold>\<open>What one step is\<close>

  A component under one mutex is one atomic step. Where the code releases a lock between a read and
  a write, or awaits between two effects, the parts are separate steps: the custody ledger around its
  store write, the emits of the bus, the watch loop between its snapshot, its evaluations and its
  fires, the appointment loop between its entries, and the phases of \<open>Wiring_Races\<close>. The verbs of the
  wiring layer themselves are single steps in \<open>Wiring_Spec\<close>, \<open>Wiring_Cascade\<close> and \<open>Restart\<close>: the
  properties there are about verbs served one at a time, and say so. \<open>runtime_schedule\<close> and
  \<open>evaluate_gate\<close> of the watches are single steps; the window inside the first is stated in
  \<open>Watch_Spec\<close>. The boot of the appointments reads the monotonic clock once for all rows, where the
  code reads it per row. Broadcast channels are unbounded lists, so a receiver never lags. A
  projection reads one state of the registry, the graph and the conflict index.

  \<^bold>\<open>Bounds and termination\<close>

  Every loop of the model is a total function. The walk is bounded by \<open>max_visits\<close>, the projection by
  its depth budget. The querier's cap \<open>MAX_ALIAS_CHAIN_DEPTH\<close> (16) is the code's own; chains no longer
  than it are chased to their end. No fuel is used anywhere.

  \<^bold>\<open>What the theorems found\<close>

  Verbs served one at a time keep every invariant while the store answers and no announcement lists
  an addressing twice. What the proofs needed as a hypothesis is
  stated with what happens without it: an announcement that lists an addressing twice leaves a
  subject that cannot be forgotten, and a merge that moves a claim; a store failure inside a
  retraction leaves dangling edges; so does an assertion overtaken by a retraction, a merge or a
  split, which its plugin cannot take back;
  merges and splits never reach the durable relation rows; the durable row of a claim is rewritten
  by a later announcement of another plugin; a transient happening may overtake a subscription; a
  custody mark may be lost at a restart; a wildcard in a list constraint matches nothing; a watch
  with a minimum duration is starved by unrelated events, and cancelled watches keep their quota; a
  backward clock step little longer than the poll interval is not seen; a clock step or a restart
  forgets how often an appointment has fired, one issued anew while a pass holds its old entry is
  dispatched from both, an untrusted clock makes the appointment loop spin, and
  what an appointment missed while the process was down is fired whatever its miss policy.

  \<^bold>\<open>Not modelled\<close>

  The servers and wire protocols, the admission of plugin processes, the SQLite store (its SQL is
  not code of this language), the trust and TLS crates, the language SDKs and the tools: they are
  input and output around the core, or need the operating system. Groups, the router and the
  remaining wrappers of \<open>context.rs\<close> are the next parts to model. Mutex poisoning
  is left out.
\<close>

end
